(* ===== verification/Prelude.thy ===== *)
theory Prelude
  imports Complex_Main "HOL-Library.AList" "HOL-Library.Multiset"
    "HOL-Library.Product_Lexorder" "HOL-Library.List_Lexorder" "HOL-Library.Char_ord"
begin

text \<open>
  Shared vocabulary of the development: the Python values the modelled modules exchange
  (JSON documents, insertion-ordered dictionaries, strings), the conversions the source
  applies to them (\<open>str\<close>, \<open>int\<close>, \<open>dict\<close>, \<open>bool\<close>, \<open>strip\<close>), the exceptions it raises, and
  the generic lemmas on dictionaries, sorted lists and monadic loops that the component
  theories use.
\<close>

section \<open>Collections of rewrite rules\<close>

named_theorems dict_simps \<open>lookup laws of insertion-ordered dictionaries\<close>
named_theorems res_simps \<open>laws of results that may carry an exception\<close>

section \<open>Exceptions and results\<close>

text \<open>A Python exception as a value; the string is the machine-readable part of the message.\<close>

datatype pyerr =
    ValueError string
  | KeyError string
  | TypeError string
  | OverflowError
  | FileExistsError string
  | FileNotFoundError string
  | OSError
  | AttributeError string
  | RuntimeError string

type_synonym 'a res = "pyerr + 'a"

definition bind_res :: "'a res \<Rightarrow> ('a \<Rightarrow> 'b res) \<Rightarrow> 'b res" where
  "bind_res r f = (case r of Inl e \<Rightarrow> Inl e | Inr x \<Rightarrow> f x)"

lemma bind_res_simps [simp, res_simps]:
  "bind_res (Inl e) f = Inl e"
  "bind_res (Inr x) f = f x"
  by (simp_all add: bind_res_def)

lemma bind_res_eq_Inr [res_simps]:
  "bind_res r f = Inr y \<longleftrightarrow> (\<exists>x. r = Inr x \<and> f x = Inr y)"
  by (cases r) auto

lemma bind_res_eq_Inl [res_simps]:
  "bind_res r f = Inl e \<longleftrightarrow> r = Inl e \<or> (\<exists>x. r = Inr x \<and> f x = Inl e)"
  by (cases r) auto

text \<open>A \<open>for\<close> loop whose body may raise, threading the mutated state.\<close>

fun foldl_res :: "('s \<Rightarrow> 'a \<Rightarrow> 's res) \<Rightarrow> 's \<Rightarrow> 'a list \<Rightarrow> 's res" where
  "foldl_res f s [] = Inr s"
| "foldl_res f s (x # xs) = bind_res (f s x) (\<lambda>s'. foldl_res f s' xs)"

lemma foldl_res_append:
  "foldl_res f s (xs @ ys) = bind_res (foldl_res f s xs) (\<lambda>s'. foldl_res f s' ys)"
  by (induction xs arbitrary: s) (auto simp: bind_res_def split: sum.splits)

lemma foldl_res_invariant:
  assumes "foldl_res f s xs = Inr t" and "P s"
    and "\<And>s x s'. x \<in> set xs \<Longrightarrow> P s \<Longrightarrow> f s x = Inr s' \<Longrightarrow> P s'"
  shows "P t"
  using assms
proof (induction xs arbitrary: s)
  case Nil
  then show ?case by simp
next
  case (Cons x xs)
  from Cons.prems(1) obtain s' where s': "f s x = Inr s'" "foldl_res f s' xs = Inr t"
    by (auto simp: bind_res_eq_Inr)
  have "P s'" using Cons.prems(3) [OF _ Cons.prems(2) s'(1)] by simp
  then show ?case
    by (rule Cons.IH [OF s'(2)]) (rule Cons.prems(3), auto)
qed

section \<open>JSON documents\<close>

text \<open>
  The values \<open>json.loads\<close> returns. A float is kept as the two things the code reads off it:
  its \<open>repr\<close> text and its exact value (\<open>None\<close> for an infinity or NaN, which Python's
  decoder accepts). Objects are insertion-ordered, as Python dictionaries are.
\<close>

datatype json =
    JNull
  | JBool bool
  | JInt int
  | JFloat string "rat option"
  | JStr string
  | JArr "json list"
  | JObj "(string \<times> json) list"

type_synonym jdict = "(string \<times> json) list"

text \<open>Truth value of a Python object (\<open>if x\<close>, \<open>x or y\<close>).\<close>

fun truthy :: "json \<Rightarrow> bool" where
  "truthy JNull = False"
| "truthy (JBool b) = b"
| "truthy (JInt i) = (i \<noteq> 0)"
| "truthy (JFloat _ v) = (v \<noteq> Some 0)"
| "truthy (JStr s) = (s \<noteq> [])"
| "truthy (JArr xs) = (xs \<noteq> [])"
| "truthy (JObj d) = (d \<noteq> [])"

definition is_obj :: "json \<Rightarrow> bool" where
  "is_obj j = (case j of JObj _ \<Rightarrow> True | _ \<Rightarrow> False)"

text \<open>\<open>d.get(k)\<close>: a missing key reads as \<open>None\<close>.\<close>

definition jget :: "jdict \<Rightarrow> string \<Rightarrow> json" where
  "jget d k = (case map_of d k of None \<Rightarrow> JNull | Some v \<Rightarrow> v)"

text \<open>\<open>d[k]\<close>: a missing key raises.\<close>

definition jindex :: "jdict \<Rightarrow> string \<Rightarrow> json res" where
  "jindex d k = (case map_of d k of None \<Rightarrow> Inl (KeyError k) | Some v \<Rightarrow> Inr v)"

text \<open>An optional value as JSON, with \<open>null\<close> for its absence.\<close>

definition opt_json :: "('a \<Rightarrow> json) \<Rightarrow> 'a option \<Rightarrow> json" where
  "opt_json f x = (case x of None \<Rightarrow> JNull | Some v \<Rightarrow> f v)"

section \<open>Strings\<close>

text \<open>
  A Python \<open>str\<close> is a list of characters. Isabelle characters carry the code points
  0 to 255, so the character classes below are the Unicode ones on that range.
\<close>

definition code :: "char \<Rightarrow> nat" where
  "code c = of_char c"

text \<open>\<open>str.isspace\<close> for one character: what \<open>str.strip\<close> removes.\<close>

definition is_space :: "char \<Rightarrow> bool" where
  "is_space c = (let n = code c in
     (9 \<le> n \<and> n \<le> 13) \<or> (28 \<le> n \<and> n \<le> 32) \<or> n = 133 \<or> n = 160)"

definition lstrip :: "string \<Rightarrow> string" where
  "lstrip s = dropWhile is_space s"

definition rstrip :: "string \<Rightarrow> string" where
  "rstrip s = rev (dropWhile is_space (rev s))"

definition strip :: "string \<Rightarrow> string" where
  "strip s = rstrip (lstrip s)"

lemma lstrip_rstrip_lstrip: "lstrip (rstrip (lstrip s)) = rstrip (lstrip s)"
proof (cases "rstrip (lstrip s) = []")
  case False
  let ?t = "lstrip s"
  have "rev ?t = takeWhile is_space (rev ?t) @ dropWhile is_space (rev ?t)" by simp
  then have pre: "?t = rstrip ?t @ rev (takeWhile is_space (rev ?t))"
    unfolding rstrip_def by (metis rev_append rev_rev_ident)
  then have "hd (rstrip ?t) = hd ?t" using False by (metis hd_append2)
  moreover have "?t \<noteq> []" using False pre by auto
  then have "\<not> is_space (hd ?t)" unfolding lstrip_def by (rule hd_dropWhile)
  ultimately show ?thesis using False unfolding lstrip_def
    by (metis dropWhile.simps(2) list.collapse)
qed (simp add: lstrip_def)

lemma strip_strip [simp]: "strip (strip s) = strip s"
  by (simp add: strip_def lstrip_rstrip_lstrip) (simp add: rstrip_def)

definition is_upper :: "char \<Rightarrow> bool" where
  "is_upper c = (let n = code c in (65 \<le> n \<and> n \<le> 90) \<or> (192 \<le> n \<and> n \<le> 222 \<and> n \<noteq> 215))"

definition lower_char :: "char \<Rightarrow> char" where
  "lower_char c = (if is_upper c then char_of (code c + 32) else c)"

definition lower :: "string \<Rightarrow> string" where
  "lower s = map lower_char s"

text \<open>
  \<open>str.casefold\<close>: lower case, with the sharp s (223) expanded. The micro sign (181) folds to
  a Greek letter outside the range; it is kept, which changes no comparison inside the range.
\<close>

definition casefold :: "string \<Rightarrow> string" where
  "casefold s = concat (map (\<lambda>c. if code c = 223 then ''ss'' else [lower_char c]) s)"

text \<open>\<open>s or t\<close> for an optional string argument: \<open>None\<close> and the empty string both fall through.\<close>

definition str_or :: "string option \<Rightarrow> string \<Rightarrow> string" where
  "str_or s t = (case s of None \<Rightarrow> t | Some x \<Rightarrow> if x = [] then t else x)"

definition blank_str :: "string option \<Rightarrow> bool" where
  "blank_str s = (case s of None \<Rightarrow> True | Some x \<Rightarrow> x = [])"

text \<open>
  \<open>str.splitlines()\<close>: line boundaries are the characters below, with a carriage return and line
  feed pair counting once; a final boundary opens no empty line.
\<close>

definition is_line_break :: "char \<Rightarrow> bool" where
  "is_line_break c = (let n = code c in (10 \<le> n \<and> n \<le> 13) \<or> (28 \<le> n \<and> n \<le> 30) \<or> n = 133)"

lemma length_after_break:
  "dropWhile P s = c # rest \<Longrightarrow> length rest < length s"
  using length_dropWhile_le [of P s] by simp

function splitlines :: "string \<Rightarrow> string list" where
  "splitlines s =
     (case dropWhile (\<lambda>c. \<not> is_line_break c) s of
        [] \<Rightarrow> (if s = [] then [] else [s])
      | c # rest \<Rightarrow>
          takeWhile (\<lambda>c. \<not> is_line_break c) s #
          splitlines (case rest of d # rest' \<Rightarrow> if code c = 13 \<and> code d = 10 then rest' else rest | [] \<Rightarrow> []))"
  by pat_completeness auto

termination
  by (relation "measure length")
    (auto split: list.splits dest!: length_after_break)

declare splitlines.simps [simp del]

text \<open>The class \<open>\w\<close> of the regular expressions: \<open>str.isalnum\<close> or an underscore.\<close>

definition is_word :: "char \<Rightarrow> bool" where
  "is_word c = (let n = code c in
     (48 \<le> n \<and> n \<le> 57) \<or> (65 \<le> n \<and> n \<le> 90) \<or> n = 95 \<or> (97 \<le> n \<and> n \<le> 122) \<or>
     n \<in> {170, 178, 179, 181, 185, 186, 188, 189, 190} \<or> (192 \<le> n \<and> n \<noteq> 215 \<and> n \<noteq> 247))"

definition starts_with :: "string \<Rightarrow> string \<Rightarrow> bool" where
  "starts_with p s = (take (length p) s = p)"

text \<open>Case-insensitive prefix test against a lower-case literal, as \<open>re.IGNORECASE\<close> does.\<close>

definition starts_ci :: "string \<Rightarrow> string \<Rightarrow> bool" where
  "starts_ci p s = (lower (take (length p) s) = p)"

section \<open>Conversions: str, int, dict\<close>

fun nat_digits :: "nat \<Rightarrow> string" where
  "nat_digits n = (if n < 10 then [char_of (48 + n)]
     else nat_digits (n div 10) @ [char_of (48 + n mod 10)])"

declare nat_digits.simps [simp del]

definition int_str :: "int \<Rightarrow> string" where
  "int_str i = (if i < 0 then CHR ''-'' # nat_digits (nat (- i)) else nat_digits (nat i))"

definition hex_digit :: "nat \<Rightarrow> char" where
  "hex_digit n = (if n < 10 then char_of (48 + n) else char_of (87 + n))"

definition is_printable :: "char \<Rightarrow> bool" where
  "is_printable c = (let n = code c in
     (32 \<le> n \<and> n \<le> 126) \<or> (161 \<le> n \<and> n \<noteq> 173))"

definition repr_char :: "char \<Rightarrow> char \<Rightarrow> string" where
  "repr_char q c =
     (if c = q \<or> code c = 92 then [char_of (92::nat), c]
      else if code c = 10 then [char_of (92::nat), CHR ''n'']
      else if code c = 13 then [char_of (92::nat), CHR ''r'']
      else if code c = 9 then [char_of (92::nat), CHR ''t'']
      else if is_printable c then [c]
      else [char_of (92::nat), CHR ''x'', hex_digit (code c div 16), hex_digit (code c mod 16)])"

text \<open>\<open>repr\<close> of a string: single quotes unless it holds a single and no double quote.\<close>

definition str_repr :: "string \<Rightarrow> string" where
  "str_repr s =
     (let sq = char_of (39::nat); dq = char_of (34::nat);
          q = (if sq \<in> set s \<and> dq \<notin> set s then dq else sq)
      in q # concat (map (repr_char q) s) @ [q])"

fun join :: "string \<Rightarrow> string list \<Rightarrow> string" where
  "join sep [] = []"
| "join sep [x] = x"
| "join sep (x # y # ys) = x @ sep @ join sep (y # ys)"

fun py_repr :: "json \<Rightarrow> string" where
  "py_repr JNull = ''None''"
| "py_repr (JBool b) = (if b then ''True'' else ''False'')"
| "py_repr (JInt i) = int_str i"
| "py_repr (JFloat r _) = r"
| "py_repr (JStr s) = str_repr s"
| "py_repr (JArr xs) = ''['' @ join '', '' (map py_repr xs) @ '']''"
| "py_repr (JObj d) =
     ''{'' @ join '', '' (map (\<lambda>(k, v). str_repr k @ '': '' @ py_repr v) d) @ ''}''"

definition py_str :: "json \<Rightarrow> string" where
  "py_str j = (case j of JStr s \<Rightarrow> s | _ \<Rightarrow> py_repr j)"

lemma py_str_JStr [simp]: "py_str (JStr s) = s"
  by (simp add: py_str_def)

text \<open>
  \<open>int(x)\<close>. A string is read as an optionally signed decimal literal, with single underscores
  between digits, surrounding white space, and at most 4300 digits.
\<close>

definition is_digit :: "char \<Rightarrow> bool" where
  "is_digit c = (48 \<le> code c \<and> code c \<le> 57)"

fun digits_ok :: "string \<Rightarrow> bool" where
  "digits_ok [] = False"
| "digits_ok [c] = is_digit c"
| "digits_ok (c # d # cs) =
     (is_digit c \<and> (if d = CHR ''_'' then digits_ok cs else digits_ok (d # cs)))"

definition digits_val :: "string \<Rightarrow> int" where
  "digits_val s = foldl (\<lambda>v c. 10 * v + int (code c - 48)) 0 (filter is_digit s)"

definition int_of_str :: "string \<Rightarrow> int res" where
  "int_of_str s =
     (let t = strip s;
          neg = (t \<noteq> [] \<and> hd t = CHR ''-'');
          body = (if t \<noteq> [] \<and> (hd t = CHR ''-'' \<or> hd t = CHR ''+'') then tl t else t)
      in if digits_ok body \<and> length (filter is_digit body) \<le> 4300
         then Inr (if neg then - digits_val body else digits_val body)
         else Inl (ValueError ''invalid literal for int''))"

definition trunc_rat :: "rat \<Rightarrow> int" where
  "trunc_rat q = (if q < 0 then \<lceil>q\<rceil> else \<lfloor>q\<rfloor>)"

fun py_int :: "json \<Rightarrow> int res" where
  "py_int (JInt i) = Inr i"
| "py_int (JBool b) = Inr (if b then 1 else 0)"
| "py_int (JFloat r v) =
     (case v of Some q \<Rightarrow> Inr (trunc_rat q)
      | None \<Rightarrow> if r = ''nan'' then Inl (ValueError ''nan'') else Inl OverflowError)"
| "py_int (JStr s) = int_of_str s"
| "py_int JNull = Inl (TypeError ''int'')"
| "py_int (JArr _) = Inl (TypeError ''int'')"
| "py_int (JObj _) = Inl (TypeError ''int'')"

section \<open>Insertion-ordered dictionaries\<close>

text \<open>
  \<open>d[k] = v\<close> keeps the position of an existing key and appends a new one;
  \<^const>\<open>AList.update\<close> does exactly that. \<open>d.pop(k, None)\<close> is \<^const>\<open>AList.delete\<close>.
\<close>

type_synonym ('k, 'v) dict = "('k \<times> 'v) list"

abbreviation dset :: "('k, 'v) dict \<Rightarrow> 'k \<Rightarrow> 'v \<Rightarrow> ('k, 'v) dict" where
  "dset d k v \<equiv> AList.update k v d"

abbreviation dget :: "('k, 'v) dict \<Rightarrow> 'k \<Rightarrow> 'v option" where
  "dget d k \<equiv> map_of d k"

abbreviation dkeys :: "('k, 'v) dict \<Rightarrow> 'k list" where
  "dkeys d \<equiv> map fst d"

lemma dget_dset [simp, dict_simps]: "dget (dset d k v) k' = (if k' = k then Some v else dget d k')"
  by (simp add: update_conv')

lemma jget_dset [simp, dict_simps]: "jget (dset d k v) k' = (if k' = k then v else jget d k')"
  by (simp add: jget_def)

lemma distinct_dset [simp, intro]: "distinct (dkeys d) \<Longrightarrow> distinct (dkeys (dset d k v))"
  by (rule distinct_update)

lemma set_dkeys_dset [simp, dict_simps]: "set (dkeys (dset d k v)) = insert k (set (dkeys d))"
  by (induction d) auto

lemma dget_Some_iff [dict_simps]:
  "distinct (dkeys d) \<Longrightarrow> dget d k = Some v \<longleftrightarrow> (k, v) \<in> set d"
  by (rule map_of_eq_Some_iff)

lemma dget_None_iff [dict_simps]: "dget d k = None \<longleftrightarrow> k \<notin> set (dkeys d)"
  by (metis list.set_map map_of_eq_None_iff)

text \<open>\<open>dict(pairs)\<close>: later pairs win, first positions are kept.\<close>

definition dict_of_pairs :: "('k \<times> 'v) list \<Rightarrow> ('k, 'v) dict" where
  "dict_of_pairs ps = foldl (\<lambda>d (k, v). dset d k v) [] ps"

text \<open>
  \<open>dict(x)\<close> for a JSON value. A sequence must hold pairs; a pair whose key is not a string
  would give a dictionary no JSON object can hold and is refused here.
\<close>

fun pair_of :: "json \<Rightarrow> (string \<times> json) res" where
  "pair_of (JArr [JStr k, v]) = Inr (k, v)"
| "pair_of (JStr [a, b]) = Inr ([a], JStr [b])"
| "pair_of (JArr xs) = (if length xs = 2 then Inl (TypeError ''key'') else Inl (ValueError ''pair''))"
| "pair_of (JStr s) = Inl (ValueError ''pair'')"
| "pair_of (JObj [(a, _), (b, _)]) = Inr (a, JStr b)"
| "pair_of (JObj d) = Inl (ValueError ''pair'')"
| "pair_of _ = Inl (TypeError ''pair'')"

fun py_dict :: "json \<Rightarrow> jdict res" where
  "py_dict (JObj d) = Inr d"
| "py_dict (JArr xs) =
     foldl_res (\<lambda>d x. bind_res (pair_of x) (\<lambda>(k, v). Inr (dset d k v))) [] xs"
| "py_dict (JStr s) = (if s = [] then Inr [] else Inl (ValueError ''pair''))"
| "py_dict _ = Inl (TypeError ''dict'')"

section \<open>Sets with an iteration order\<close>

text \<open>
  A Python set iterates in an unspecified order. The model keeps a duplicate-free list, whose
  order stands for that iteration order; no theorem of the development depends on it.
\<close>

definition set_add :: "'a list \<Rightarrow> 'a \<Rightarrow> 'a list" where
  "set_add xs x = (if x \<in> set xs then xs else xs @ [x])"

definition set_discard :: "'a list \<Rightarrow> 'a \<Rightarrow> 'a list" where
  "set_discard xs x = filter (\<lambda>y. y \<noteq> x) xs"

lemma set_set_add [simp]: "set (set_add xs x) = insert x (set xs)"
  by (auto simp: set_add_def)

lemma set_set_discard [simp]: "set (set_discard xs x) = set xs - {x}"
  by (auto simp: set_discard_def)

lemma distinct_set_add [simp, intro]: "distinct xs \<Longrightarrow> distinct (set_add xs x)"
  by (simp add: set_add_def)

lemma distinct_set_discard [simp, intro]: "distinct xs \<Longrightarrow> distinct (set_discard xs x)"
  by (simp add: set_discard_def)

section \<open>Sorting\<close>

text \<open>\<open>list.sort(key=f)\<close> is stable, as \<^const>\<open>sort_key\<close> is; \<open>reverse=True\<close> keeps the
  order of equal elements.\<close>

definition sort_desc :: "('a \<Rightarrow> 'k::linorder) \<Rightarrow> 'a list \<Rightarrow> 'a list" where
  "sort_desc f xs = rev (sort_key f (rev xs))"

lemma hd_sort_key_le:
  assumes "xs \<noteq> []" and "x \<in> set xs"
  shows "f (hd (sort_key f xs)) \<le> f x"
proof -
  have "sorted (map f (sort_key f xs))" by simp
  moreover have "x \<in> set (sort_key f xs)" using assms(2) by simp
  ultimately show ?thesis
    by (cases "sort_key f xs") auto
qed

lemma hd_sort_key_in: "xs \<noteq> [] \<Longrightarrow> hd (sort_key f xs) \<in> set xs"
  by (metis hd_in_set set_sort set_empty)

lemma sort_key_eq_Nil [simp]: "sort_key f xs = [] \<longleftrightarrow> xs = []"
  by (metis set_sort set_empty)

section \<open>Interfaces\<close>

text \<open>
  A log-structured store: a replay step over the entries of a durable log, a well-formedness
  predicate every replay keeps, and a relation between a replayed state and the store's
  memory. The store is coherent when replaying its log gives a state related to its memory;
  an operation keeps coherence when what it appends replays to what it did in memory.
\<close>

locale event_sourced =
  fixes step :: "'s \<Rightarrow> 'e \<Rightarrow> 's res"
    and init :: 's
    and ok :: "'s \<Rightarrow> bool"
    and rel :: "'s \<Rightarrow> 'q \<Rightarrow> bool"
    and log :: "'q \<Rightarrow> 'e list"
  assumes ok_init: "ok init"
    and ok_step: "ok s \<Longrightarrow> step s e = Inr s' \<Longrightarrow> ok s'"
begin

definition coherent_log :: "'q \<Rightarrow> bool" where
  "coherent_log q \<longleftrightarrow> (\<exists>s. foldl_res step init (log q) = Inr s \<and> rel s q)"

lemma replay_ok: "foldl_res step init es = Inr s \<Longrightarrow> ok s"
  by (erule foldl_res_invariant) (auto intro: ok_init ok_step)

lemma coherent_same:
  assumes "coherent_log q" and "log q' = log q"
    and "\<And>s. ok s \<Longrightarrow> rel s q \<Longrightarrow> rel s q'"
  shows "coherent_log q'"
  using assms replay_ok unfolding coherent_log_def by fastforce

lemma coherent_append:
  assumes "coherent_log q" and "log q' = log q @ [e]"
    and "\<And>s. ok s \<Longrightarrow> rel s q \<Longrightarrow> \<exists>s'. step s e = Inr s' \<and> rel s' q'"
  shows "coherent_log q'"
proof -
  from assms(1) obtain s where s: "foldl_res step init (log q) = Inr s" "rel s q"
    by (auto simp: coherent_log_def)
  with assms(3) replay_ok obtain s' where "step s e = Inr s'" "rel s' q'" by blast
  with s assms(2) show ?thesis
    by (auto simp: coherent_log_def foldl_res_append)
qed

end

text \<open>
  A component as a transition system: its initial states, its steps, and an invariant that
  holds at the start and is kept by every step.
\<close>

locale transition_system =
  fixes start :: "'q \<Rightarrow> bool"
    and trans :: "'q \<Rightarrow> 'q \<Rightarrow> bool"
    and inv :: "'q \<Rightarrow> bool"
  assumes inv_start: "start q \<Longrightarrow> inv q"
    and inv_trans: "inv q \<Longrightarrow> trans q q' \<Longrightarrow> inv q'"
begin

lemma inv_run: "trans\<^sup>*\<^sup>* q q' \<Longrightarrow> inv q \<Longrightarrow> inv q'"
  by (induction rule: rtranclp_induct) (auto intro: inv_trans)

lemma inv_reachable: "start q \<Longrightarrow> trans\<^sup>*\<^sup>* q q' \<Longrightarrow> inv q'"
  by (blast intro: inv_run inv_start)

end

end
