(* ===== verification/Wake_Queue.thy ===== *)
theory Wake_Queue
  imports Prelude
begin

text \<open>
  The event-sourced wake queue of \<open>elyra/presence/queue.py\<close>: the append-only event file, the
  fold that rebuilds the state from it, the in-process heap of pending wakes, and every
  operation of \<open>WakeQueue\<close>. The lemmas relate the in-memory dictionaries to the fold of the
  file after every operation, the heap to the pending set, and recovery to the claims it ends.
\<close>

section \<open>Data\<close>

text \<open>Lifecycle operations. The file spells them as strings; unknown spellings are ignored.\<close>

datatype op = Enqueue | Claimed | Done | Cancelled

fun op_name :: "op \<Rightarrow> string" where
  "op_name Enqueue = ''enqueue''"
| "op_name Claimed = ''claimed''"
| "op_name Done = ''done''"
| "op_name Cancelled = ''cancelled''"

definition op_parse :: "string \<Rightarrow> op option" where
  "op_parse s =
     (if s = ''enqueue'' then Some Enqueue
      else if s = ''claimed'' then Some Claimed
      else if s = ''done'' then Some Done
      else if s = ''cancelled'' then Some Cancelled
      else None)"

lemma op_parse_name [simp]: "op_parse (op_name x) = Some x"
  by (cases x) (simp_all add: op_parse_def)

definition terminal :: "op \<Rightarrow> bool" where
  "terminal x = (x = Done \<or> x = Cancelled)"

definition KIND_PRIORITY :: "(string, int) dict" where
  "KIND_PRIORITY =
     [(''user_message'', 0), (''wait_reply'', 0), (''wait_timeout'', 1), (''timer'', 2),
      (''task_ready'', 3), (''moment_continue'', 3), (''background'', 4)]"

definition KNOWN_KINDS :: "string list" where
  "KNOWN_KINDS = dkeys KIND_PRIORITY"

definition RE_ENQUEUE_ON_RECOVER :: "string list" where
  "RE_ENQUEUE_ON_RECOVER = [''timer'', ''task_ready'', ''moment_continue'']"

definition REASON_INTERRUPTED :: string where
  "REASON_INTERRUPTED = ''interrupted_redelivery''"

definition REASON_REPLACED :: string where
  "REASON_REPLACED = ''replaced''"

definition priority_for_kind :: "string \<Rightarrow> int res" where
  "priority_for_kind kind =
     (case dget KIND_PRIORITY kind of
        None \<Rightarrow> Inl (ValueError ''unknown wake kind'')
      | Some p \<Rightarrow> Inr p)"

record wake_item =
  id :: string
  kind :: string
  priority :: int
  created_at :: string
  payload :: jdict

definition to_dict :: "wake_item \<Rightarrow> jdict" where
  "to_dict it =
     [(''id'', JStr (id it)), (''kind'', JStr (kind it)), (''priority'', JInt (priority it)),
      (''created_at'', JStr (created_at it)), (''payload'', JObj (payload it))]"

definition from_dict :: "jdict \<Rightarrow> wake_item res" where
  "from_dict d =
     bind_res (jindex d ''id'') (\<lambda>i.
     bind_res (jindex d ''kind'') (\<lambda>k.
     bind_res (bind_res (jindex d ''priority'') py_int) (\<lambda>p.
     bind_res (jindex d ''created_at'') (\<lambda>c.
     bind_res (let pl = jget d ''payload'' in if truthy pl then py_dict pl else Inr []) (\<lambda>pl.
     Inr \<lparr>id = py_str i, kind = py_str k, priority = p, created_at = py_str c,
          payload = pl\<rparr>)))))"

record folded_wake =
  fw_item :: "wake_item option"
  fw_op :: "op option"
  fw_moment_id :: "string option"
  fw_reason :: "string option"

definition empty_slot :: folded_wake where
  "empty_slot = \<lparr>fw_item = None, fw_op = None, fw_moment_id = None, fw_reason = None\<rparr>"

text \<open>
  \<open>_parse_wake_item\<close>: a row that raises \<open>KeyError\<close>, \<open>TypeError\<close> or \<open>ValueError\<close> is poison
  and skipped; any other exception leaves the function.
\<close>

definition parse_wake_item :: "jdict \<Rightarrow> string \<Rightarrow> wake_item option res" where
  "parse_wake_item item_raw wake_id =
     (case from_dict item_raw of
        Inl OverflowError \<Rightarrow> Inl OverflowError
      | Inl _ \<Rightarrow> Inr None
      | Inr item \<Rightarrow>
          if kind item \<notin> set KNOWN_KINDS then Inr None
          else
            let item1 = (if id item \<noteq> wake_id then item\<lparr>id := wake_id\<rparr> else item)
            in bind_res (priority_for_kind (kind item1)) (\<lambda>band.
                 Inr (Some (if priority item1 \<noteq> band then item1\<lparr>priority := band\<rparr> else item1))))"

section \<open>Folding the event stream\<close>

type_synonym slots = "(string, folded_wake) dict"

definition opt_str :: "json \<Rightarrow> string option" where
  "opt_str j = (case j of JNull \<Rightarrow> None | _ \<Rightarrow> Some (py_str j))"

text \<open>
  One iteration of the loop of \<open>fold_events\<close>. The slot is created before the operation is
  looked at (\<open>setdefault\<close>), so a skipped row still leaves an empty slot behind.
\<close>

definition fold_event :: "slots \<Rightarrow> json \<Rightarrow> slots res" where
  "fold_event state ev =
     (case ev of
        JObj d \<Rightarrow>
          (case (map_of d ''wake_id'', map_of d ''op'') of
             (Some w, Some oraw) \<Rightarrow>
               (let wake_id = py_str w;
                    slot = (case dget state wake_id of None \<Rightarrow> empty_slot | Some s \<Rightarrow> s);
                    state1 = dset state wake_id slot
                in case op_parse (py_str oraw) of
                     Some Enqueue \<Rightarrow>
                       (case jget d ''item'' of
                          JObj item_raw \<Rightarrow>
                            bind_res (parse_wake_item item_raw wake_id) (\<lambda>r.
                              case r of
                                None \<Rightarrow> Inr state1
                              | Some item \<Rightarrow>
                                  Inr (dset state1 wake_id
                                    \<lparr>fw_item = Some item, fw_op = Some Enqueue,
                                     fw_moment_id = None, fw_reason = None\<rparr>))
                        | _ \<Rightarrow> Inr state1)
                   | Some Claimed \<Rightarrow>
                       Inr (dset state1 wake_id
                         (slot\<lparr>fw_op := Some Claimed,
                               fw_moment_id := opt_str (jget d ''moment_id''),
                               fw_reason := None\<rparr>))
                   | Some Done \<Rightarrow>
                       Inr (dset state1 wake_id (slot\<lparr>fw_op := Some Done, fw_reason := None\<rparr>))
                   | Some Cancelled \<Rightarrow>
                       Inr (dset state1 wake_id
                         (slot\<lparr>fw_op := Some Cancelled,
                               fw_reason := opt_str (jget d ''reason'')\<rparr>))
                   | None \<Rightarrow> Inr state1)
           | _ \<Rightarrow> Inr state)
      | _ \<Rightarrow> Inr state)"

definition fold_events :: "json list \<Rightarrow> slots res" where
  "fold_events events = foldl_res fold_event [] events"

section \<open>The queue\<close>

type_synonym heap_key = "int \<times> string \<times> string"

definition heap_key :: "wake_item \<Rightarrow> heap_key" where
  "heap_key it = (priority it, created_at it, id it)"

text \<open>
  \<open>heapq\<close> on a list of keys. Only the sequence of popped minima is observable, and equal keys
  are indistinguishable, so the heap is kept as the sorted list of its keys.
\<close>

definition heappush :: "heap_key list \<Rightarrow> heap_key \<Rightarrow> heap_key list" where
  "heappush h k = insort k h"

text \<open>
  The events file: its lines, decoded or not, and whether a crash left an unterminated last
  line (already counted as an undecodable line). \<open>open("a")\<close> appends after whatever is there,
  so a record written after a torn line is glued to it and cannot be decoded.
\<close>

datatype line = Blank | Garbage | Row json

record events_file =
  lines :: "line list"
  torn :: bool

definition read_events :: "events_file \<Rightarrow> json list" where
  "read_events f = List.map_filter (\<lambda>l. case l of Row j \<Rightarrow> Some j | _ \<Rightarrow> None) (lines f)"

definition append_event :: "events_file \<Rightarrow> json \<Rightarrow> events_file" where
  "append_event f ev =
     (if torn f then f\<lparr>torn := False\<rparr>
      else f\<lparr>lines := lines f @ [Row ev]\<rparr>)"

record wake_queue =
  events :: events_file
  items :: "(string, wake_item) dict"
  ops :: "(string, op) dict"
  moments :: "(string, string option) dict"
  reasons :: "(string, string option) dict"
  pending_ids :: "string list"
  heap :: "heap_key list"

definition cleared :: "events_file \<Rightarrow> wake_queue" where
  "cleared f = \<lparr>events = f, items = [], ops = [], moments = [], reasons = [],
                pending_ids = [], heap = []\<rparr>"

definition apply_slot :: "wake_queue \<Rightarrow> string \<times> folded_wake \<Rightarrow> wake_queue" where
  "apply_slot q ws =
     (let (wake_id, slot) = ws in
      case fw_item slot of
        None \<Rightarrow> q
      | Some item \<Rightarrow>
          let q1 = q\<lparr>items := dset (items q) wake_id item\<rparr> in
          case fw_op slot of
            None \<Rightarrow> q1
          | Some x \<Rightarrow>
              let q2 = q1\<lparr>ops := dset (ops q1) wake_id x,
                          moments := dset (moments q1) wake_id (fw_moment_id slot),
                          reasons := dset (reasons q1) wake_id (fw_reason slot)\<rparr>
              in if x = Enqueue
                 then q2\<lparr>pending_ids := set_add (pending_ids q2) wake_id,
                         heap := heappush (heap q2) (heap_key item)\<rparr>
                 else q2)"

definition apply_fold :: "events_file \<Rightarrow> slots \<Rightarrow> wake_queue" where
  "apply_fold f folded = foldl apply_slot (cleared f) folded"

definition load :: "events_file \<Rightarrow> wake_queue res" where
  "load f = bind_res (fold_events (read_events f)) (\<lambda>s. Inr (apply_fold f s))"

definition reload :: "wake_queue \<Rightarrow> wake_queue res" where
  "reload q = load (events q)"

definition reset_empty :: "wake_queue \<Rightarrow> wake_queue" where
  "reset_empty q = apply_fold \<lparr>lines = [], torn = False\<rparr> []"

text \<open>\<open>_pop_pending\<close>: pop until a live entry is found; stale entries are dropped.\<close>

fun pop_pending_loop ::
  "(string, wake_item) dict \<Rightarrow> (string, op) dict \<Rightarrow> string list \<Rightarrow> heap_key list \<Rightarrow>
   string list \<times> heap_key list \<times> wake_item option" where
  "pop_pending_loop its os pend [] = (pend, [], None)"
| "pop_pending_loop its os pend ((pri, ts, wake_id) # h) =
     (if wake_id \<notin> set pend then pop_pending_loop its os pend h
      else case dget its wake_id of
             None \<Rightarrow> pop_pending_loop its os (set_discard pend wake_id) h
           | Some item \<Rightarrow>
               if dget os wake_id \<noteq> Some Enqueue
               then pop_pending_loop its os (set_discard pend wake_id) h
               else (set_discard pend wake_id, h, Some item))"

definition pop_pending :: "wake_queue \<Rightarrow> wake_queue \<times> wake_item option" where
  "pop_pending q =
     (let (pend, h, r) = pop_pending_loop (items q) (ops q) (pending_ids q) (heap q)
      in (q\<lparr>pending_ids := pend, heap := h\<rparr>, r))"

section \<open>Operations\<close>

text \<open>What one call reads from the outside: a fresh uuid and the clock.\<close>

record draw =
  uuid4 :: string
  now_iso :: string
  ts_iso :: string

definition enqueue_event :: "string \<Rightarrow> wake_item \<Rightarrow> json" where
  "enqueue_event ts item =
     JObj [(''ts'', JStr ts), (''wake_id'', JStr (id item)), (''op'', JStr ''enqueue''),
           (''item'', JObj (to_dict item))]"

definition claimed_event :: "string \<Rightarrow> string \<Rightarrow> string \<Rightarrow> json" where
  "claimed_event ts wake_id moment_id =
     JObj [(''ts'', JStr ts), (''wake_id'', JStr wake_id), (''op'', JStr ''claimed''),
           (''moment_id'', JStr moment_id)]"

definition done_event :: "string \<Rightarrow> string \<Rightarrow> json" where
  "done_event ts wake_id =
     JObj [(''ts'', JStr ts), (''wake_id'', JStr wake_id), (''op'', JStr ''done'')]"

definition cancelled_event :: "string \<Rightarrow> string \<Rightarrow> string \<Rightarrow> json" where
  "cancelled_event ts wake_id reason =
     JObj [(''ts'', JStr ts), (''wake_id'', JStr wake_id), (''op'', JStr ''cancelled''),
           (''reason'', JStr reason)]"

definition enqueue ::
  "wake_queue \<Rightarrow> string \<Rightarrow> jdict option \<Rightarrow> string option \<Rightarrow> string option \<Rightarrow> draw \<Rightarrow>
   (wake_queue \<times> wake_item) res" where
  "enqueue q knd pl wake_id created dr =
     bind_res (priority_for_kind knd) (\<lambda>band.
       let item = \<lparr>id = str_or wake_id (uuid4 dr), kind = knd, priority = band,
                   created_at = str_or created (now_iso dr),
                   payload = (case pl of None \<Rightarrow> [] | Some d \<Rightarrow> d)\<rparr>;
           event = enqueue_event (ts_iso dr) item
       in if (case dget (ops q) (id item) of None \<Rightarrow> False | Some x \<Rightarrow> \<not> terminal x)
          then Inl (ValueError ''already non-terminal'')
          else Inr (q\<lparr>events := append_event (events q) event,
                      items := dset (items q) (id item) item,
                      ops := dset (ops q) (id item) Enqueue,
                      moments := dset (moments q) (id item) None,
                      reasons := dset (reasons q) (id item) None,
                      pending_ids := set_add (pending_ids q) (id item),
                      heap := heappush (heap q) (heap_key item)\<rparr>, item))"

definition claim :: "wake_queue \<Rightarrow> string \<Rightarrow> draw \<Rightarrow> (wake_queue \<times> wake_item option) res" where
  "claim q moment_id dr =
     (if moment_id = [] then Inl (ValueError ''moment_id is required'')
      else let (q1, r) = pop_pending q in
        case r of
          None \<Rightarrow> Inr (q1, None)
        | Some item \<Rightarrow>
            Inr (q1\<lparr>events := append_event (events q1)
                      (claimed_event (ts_iso dr) (id item) moment_id),
                    ops := dset (ops q1) (id item) Claimed,
                    moments := dset (moments q1) (id item) (Some moment_id),
                    reasons := dset (reasons q1) (id item) None\<rparr>, Some item))"

definition mark_done :: "wake_queue \<Rightarrow> string \<Rightarrow> draw \<Rightarrow> wake_queue res" where
  "mark_done q wake_id dr =
     (case dget (ops q) wake_id of
        None \<Rightarrow> Inl (KeyError ''unknown wake_id'')
      | Some x \<Rightarrow>
          if terminal x then Inr q
          else Inr (q\<lparr>events := append_event (events q) (done_event (ts_iso dr) wake_id),
                      ops := dset (ops q) wake_id Done,
                      reasons := dset (reasons q) wake_id None,
                      pending_ids := set_discard (pending_ids q) wake_id\<rparr>))"

definition cancel :: "wake_queue \<Rightarrow> string \<Rightarrow> string \<Rightarrow> draw \<Rightarrow> wake_queue res" where
  "cancel q wake_id reason dr =
     (case dget (ops q) wake_id of
        None \<Rightarrow> Inl (KeyError ''unknown wake_id'')
      | Some x \<Rightarrow>
          if terminal x then Inr q
          else Inr (q\<lparr>events := append_event (events q)
                        (cancelled_event (ts_iso dr) wake_id reason),
                      ops := dset (ops q) wake_id Cancelled,
                      reasons := dset (reasons q) wake_id (Some reason),
                      pending_ids := set_discard (pending_ids q) wake_id\<rparr>))"

text \<open>Operations that loop read a fresh draw per call: the i-th one is \<open>ds i\<close>.\<close>

type_synonym draws = "nat \<Rightarrow> draw"

fun recover_loop ::
  "wake_queue \<Rightarrow> string list \<Rightarrow> draws \<Rightarrow> nat \<Rightarrow> wake_item list \<Rightarrow>
   (wake_queue \<times> wake_item list) res" where
  "recover_loop q [] ds i acc = Inr (q, acc)"
| "recover_loop q (wake_id # ws) ds i acc =
     (case dget (items q) wake_id of
        None \<Rightarrow>
          bind_res (cancel q wake_id REASON_INTERRUPTED (ds i)) (\<lambda>q1.
            recover_loop q1 ws ds (i + 1) acc)
      | Some item \<Rightarrow>
          bind_res (cancel q wake_id REASON_INTERRUPTED (ds i)) (\<lambda>q1.
            if kind item \<in> set RE_ENQUEUE_ON_RECOVER
            then bind_res (enqueue q1 (kind item) (Some (payload item)) None None (ds (i + 1)))
                   (\<lambda>(q2, clone). recover_loop q2 ws ds (i + 2) (acc @ [clone]))
            else recover_loop q1 ws ds (i + 1) acc))"

definition claimed_ids :: "wake_queue \<Rightarrow> string list" where
  "claimed_ids q = map fst (filter (\<lambda>(w, x). x = Claimed) (ops q))"

definition recover_claimed :: "wake_queue \<Rightarrow> draws \<Rightarrow> (wake_queue \<times> wake_item list) res" where
  "recover_claimed q ds = recover_loop q (claimed_ids q) ds 0 []"

fun cancel_loop :: "wake_queue \<Rightarrow> string list \<Rightarrow> string \<Rightarrow> draws \<Rightarrow> nat \<Rightarrow> wake_queue res" where
  "cancel_loop q [] reason ds i = Inr q"
| "cancel_loop q (w # ws) reason ds i =
     bind_res (cancel q w reason (ds i)) (\<lambda>q1. cancel_loop q1 ws reason ds (i + 1))"

definition pending_where :: "wake_queue \<Rightarrow> (wake_item \<Rightarrow> bool) \<Rightarrow> string list" where
  "pending_where q P =
     filter (\<lambda>w. case dget (items q) w of
                   None \<Rightarrow> False
                 | Some item \<Rightarrow> P item \<and> dget (ops q) w = Some Enqueue) (pending_ids q)"

definition cancel_all_pending_of_kind ::
  "wake_queue \<Rightarrow> string \<Rightarrow> string \<Rightarrow> draws \<Rightarrow> (wake_queue \<times> string list) res" where
  "cancel_all_pending_of_kind q knd reason ds =
     (if knd \<notin> set KNOWN_KINDS then Inl (ValueError ''unknown wake kind'')
      else let targets = pending_where q (\<lambda>it. kind it = knd)
           in bind_res (cancel_loop q targets reason ds 0) (\<lambda>q1. Inr (q1, targets)))"

definition items_of :: "wake_queue \<Rightarrow> string list \<Rightarrow> wake_item list" where
  "items_of q ws = List.map_filter (dget (items q)) ws"

definition pending_of_kind :: "wake_queue \<Rightarrow> string \<Rightarrow> wake_item list" where
  "pending_of_kind q knd = sort_key heap_key (items_of q (pending_where q (\<lambda>it. kind it = knd)))"

definition pending :: "wake_queue \<Rightarrow> wake_item list" where
  "pending q = sort_key heap_key (items_of q (pending_where q (\<lambda>it. True)))"

definition peek :: "wake_queue \<Rightarrow> wake_item option" where
  "peek q = (case pending q of [] \<Rightarrow> None | it # _ \<Rightarrow> Some it)"

definition get :: "wake_queue \<Rightarrow> string \<Rightarrow> wake_item option" where
  "get q wake_id = dget (items q) wake_id"

definition status :: "wake_queue \<Rightarrow> string \<Rightarrow> op option" where
  "status q wake_id = dget (ops q) wake_id"

definition claimed :: "wake_queue \<Rightarrow> wake_item list" where
  "claimed q = items_of q (claimed_ids q)"

definition pending_task_ready :: "wake_queue \<Rightarrow> string \<Rightarrow> wake_item list" where
  "pending_task_ready q task_id =
     items_of q (pending_where q
       (\<lambda>it. kind it = ''task_ready'' \<and> jget (payload it) ''task_id'' = JStr task_id))"

definition enqueue_task_ready ::
  "wake_queue \<Rightarrow> string \<Rightarrow> string option \<Rightarrow> jdict option \<Rightarrow> draws \<Rightarrow>
   (wake_queue \<times> wake_item) res" where
  "enqueue_task_ready q task_id goal_id pl ds =
     (if task_id = [] then Inl (ValueError ''task_id is required'')
      else
        let body0 = (case pl of None \<Rightarrow> [] | Some d \<Rightarrow> d);
            body1 = dset body0 ''task_id'' (JStr task_id);
            body = (case goal_id of None \<Rightarrow> body1 | Some g \<Rightarrow> dset body1 ''goal_id'' (JStr g));
            olds = map id (pending_task_ready q task_id)
        in bind_res (cancel_loop q olds REASON_REPLACED ds 0) (\<lambda>q1.
             enqueue q1 ''task_ready'' (Some body) None None (ds (length olds))))"

section \<open>Encoding of items round-trips\<close>

lemma known_kind_priority:
  "knd \<in> set KNOWN_KINDS \<longleftrightarrow> (\<exists>p. priority_for_kind knd = Inr p)"
  unfolding priority_for_kind_def KNOWN_KINDS_def
  by (metis Inl_Inr_False dget_None_iff not_None_eq option.simps(4) option.simps(5))

text \<open>An item as \<open>enqueue\<close> builds it: a known kind with the priority of its band.\<close>

definition banded :: "wake_item \<Rightarrow> bool" where
  "banded it \<longleftrightarrow> priority_for_kind (kind it) = Inr (priority it)"

lemma from_to_dict: "from_dict (to_dict it) = Inr it"
  by (cases it) (simp add: from_dict_def to_dict_def jindex_def jget_def)

lemma parse_to_dict:
  assumes "banded it"
  shows "parse_wake_item (to_dict it) (id it) = Inr (Some it)"
proof -
  have "kind it \<in> set KNOWN_KINDS"
    using assms by (auto simp: banded_def known_kind_priority)
  then show ?thesis
    using assms by (simp add: parse_wake_item_def from_to_dict banded_def)
qed

lemma parse_wake_item_wf:
  assumes "parse_wake_item raw w = Inr (Some it)"
  shows "banded it \<and> id it = w"
proof -
  from assms obtain it0 where it0: "from_dict raw = Inr it0"
    by (auto simp: parse_wake_item_def split: sum.splits pyerr.splits)
  define it1 where "it1 = (if id it0 \<noteq> w then it0\<lparr>id := w\<rparr> else it0)"
  from assms it0 obtain band where "priority_for_kind (kind it1) = Inr band"
    and "it = (if priority it1 \<noteq> band then it1\<lparr>priority := band\<rparr> else it1)"
    by (auto simp: parse_wake_item_def Let_def bind_res_eq_Inr it1_def split: if_splits)
  then show ?thesis
    by (auto simp: banded_def it1_def)
qed

section \<open>What the fold does to a slot\<close>

definition slot_of :: "slots \<Rightarrow> string \<Rightarrow> folded_wake" where
  "slot_of s w = (case dget s w of None \<Rightarrow> empty_slot | Some sl \<Rightarrow> sl)"

lemma slot_of_dset [simp]: "slot_of (dset s w sl) v = (if v = w then sl else slot_of s v)"
  by (simp add: slot_of_def)

text \<open>Well-formed slots: an item comes with an operation, under its own id, in its band.\<close>

definition slot_ok :: "string \<Rightarrow> folded_wake \<Rightarrow> bool" where
  "slot_ok w sl \<longleftrightarrow>
     (\<forall>it. fw_item sl = Some it \<longrightarrow> fw_op sl \<noteq> None \<and> id it = w \<and> banded it)"

definition slots_ok :: "slots \<Rightarrow> bool" where
  "slots_ok s \<longleftrightarrow> distinct (dkeys s) \<and> (\<forall>w. slot_ok w (slot_of s w))"

lemma slots_ok_Nil [simp]: "slots_ok []"
  by (simp add: slots_ok_def slot_ok_def slot_of_def empty_slot_def)

lemma slots_ok_dset: "slots_ok s \<Longrightarrow> slot_ok w sl \<Longrightarrow> slots_ok (dset s w sl)"
  by (simp add: slots_ok_def)

lemma slot_ok_op:
  "slot_ok w sl \<Longrightarrow> slot_ok w (sl\<lparr>fw_op := Some x, fw_moment_id := m, fw_reason := r\<rparr>)"
  "slot_ok w sl \<Longrightarrow> slot_ok w (sl\<lparr>fw_op := Some x, fw_reason := r\<rparr>)"
  by (simp_all add: slot_ok_def)

lemma fold_event_slots_ok:
  assumes "slots_ok s" and "fold_event s ev = Inr s'"
  shows "slots_ok s'"
proof (cases ev)
  case (JObj d)
  show ?thesis
  proof (cases "map_of d ''wake_id'' = None \<or> map_of d ''op'' = None")
    case True
    with assms JObj show ?thesis
      by (auto simp: fold_event_def split: option.splits)
  next
    case False
    then obtain w oraw where wo: "map_of d ''wake_id'' = Some w" "map_of d ''op'' = Some oraw"
      by auto
    define wid where "wid = py_str w"
    have sl: "slot_ok wid (slot_of s wid)" using assms(1) by (simp add: slots_ok_def)
    have s1: "slots_ok (dset s wid (slot_of s wid))"
      using assms(1) sl by (rule slots_ok_dset)
    show ?thesis
    proof (cases "op_parse (py_str oraw)")
      case None
      with assms(2) JObj wo s1 show ?thesis
        by (simp add: fold_event_def Let_def wid_def slot_of_def)
    next
      case (Some x)
      show ?thesis
      proof (cases x)
        case Enqueue
        have new: "slot_ok wid \<lparr>fw_item = Some it, fw_op = Some Enqueue,
            fw_moment_id = None, fw_reason = None\<rparr>"
          if "parse_wake_item raw wid = Inr (Some it)" for raw it
          using parse_wake_item_wf [OF that] by (simp add: slot_ok_def)
        from assms JObj wo Some Enqueue s1 show ?thesis
          by (auto simp: fold_event_def Let_def slot_of_def bind_res_eq_Inr
              simp flip: wid_def intro!: slots_ok_dset new split: json.splits option.splits)
      qed (use assms JObj wo Some s1 sl in
          \<open>auto simp: fold_event_def Let_def slot_of_def simp flip: wid_def
             intro!: slots_ok_dset slot_ok_op\<close>)
    qed
  qed
qed (use assms in \<open>simp_all add: fold_event_def\<close>)

lemma fold_events_slots_ok:
  "fold_events evs = Inr s \<Longrightarrow> slots_ok s"
  unfolding fold_events_def
  by (erule foldl_res_invariant) (auto intro: fold_event_slots_ok)

section \<open>Memory agrees with the fold of the file\<close>

text \<open>
  \<open>agrees s q\<close>: the dictionaries and the pending set of \<open>q\<close> are exactly what the slots \<open>s\<close>
  say. A slot without an item (a lifecycle row whose enqueue was poison) is invisible.
\<close>

definition agrees :: "slots \<Rightarrow> wake_queue \<Rightarrow> bool" where
  "agrees s q \<longleftrightarrow>
     distinct (dkeys (ops q)) \<and> distinct (pending_ids q) \<and>
     (\<forall>w. let sl = slot_of s w; live = (fw_item sl \<noteq> None) in
        dget (items q) w = fw_item sl \<and>
        dget (ops q) w = (if live then fw_op sl else None) \<and>
        dget (moments q) w = (if live then Some (fw_moment_id sl) else None) \<and>
        dget (reasons q) w = (if live then Some (fw_reason sl) else None) \<and>
        (w \<in> set (pending_ids q) \<longleftrightarrow> live \<and> fw_op sl = Some Enqueue))"

lemma agreesD:
  assumes "agrees s q"
  shows "dget (items q) w = fw_item (slot_of s w)"
    and "dget (ops q) w = (if fw_item (slot_of s w) \<noteq> None then fw_op (slot_of s w) else None)"
    and "w \<in> set (pending_ids q) \<longleftrightarrow> dget (ops q) w = Some Enqueue"
  using assms by (auto simp: agrees_def Let_def)

lemma agrees_events [simp]: "agrees s (q\<lparr>events := f\<rparr>) \<longleftrightarrow> agrees s q"
  by (simp add: agrees_def)

lemma agrees_heap [simp]: "agrees s (q\<lparr>heap := h\<rparr>) \<longleftrightarrow> agrees s q"
  by (simp add: agrees_def)

text \<open>Loading: \<open>_apply_fold\<close> establishes the agreement.\<close>

lemma slot_of_fresh: "w \<notin> set (dkeys s) \<Longrightarrow> slot_of s w = empty_slot"
  by (simp add: slot_of_def dget_None_iff [THEN iffD2])

lemma apply_slot_agrees:
  assumes "agrees s q" and "w \<notin> set (dkeys s)" and "slot_ok w sl"
  shows "agrees (dset s w sl) (apply_slot q (w, sl))"
proof (cases "fw_item sl")
  case None
  with assms slot_of_fresh [OF assms(2)] show ?thesis
    by (auto simp: agrees_def apply_slot_def empty_slot_def Let_def)
next
  case (Some it)
  with assms(3) obtain x where "fw_op sl = Some x" by (auto simp: slot_ok_def)
  with Some assms slot_of_fresh [OF assms(2)] show ?thesis
    by (auto simp: agrees_def apply_slot_def empty_slot_def Let_def)
qed

lemma agrees_cleared: "agrees [] (cleared f)"
  by (simp add: agrees_def cleared_def slot_of_def empty_slot_def)

lemma dset_fresh: "k \<notin> set (dkeys d) \<Longrightarrow> dset d k v = d @ [(k, v)]"
  by (induction d) auto

lemma foldl_apply_slot_agrees:
  assumes "agrees s q" and "distinct (dkeys (s @ t))"
    and "\<And>w sl. (w, sl) \<in> set t \<Longrightarrow> slot_ok w sl"
  shows "agrees (s @ t) (foldl apply_slot q t)"
  using assms
proof (induction t arbitrary: s q)
  case Nil
  then show ?case by simp
next
  case (Cons a t)
  obtain w sl where a: "a = (w, sl)" by (cases a)
  from Cons.prems a have fresh: "w \<notin> set (dkeys s)" by auto
  with Cons.prems a have "agrees (s @ [(w, sl)]) (apply_slot q a)"
    using apply_slot_agrees [of s q w sl] by (simp add: dset_fresh)
  from Cons.IH [OF this] Cons.prems a show ?case by simp
qed

lemma slots_okD: "slots_ok s \<Longrightarrow> (w, sl) \<in> set s \<Longrightarrow> slot_ok w sl"
  by (metis dget_Some_iff option.simps(5) slot_of_def slots_ok_def)

lemma apply_fold_agrees:
  assumes "slots_ok s"
  shows "agrees s (apply_fold f s)"
proof -
  have "distinct (dkeys s)" using assms by (simp add: slots_ok_def)
  then show ?thesis
    using foldl_apply_slot_agrees [OF agrees_cleared, of s f] slots_okD [OF assms]
    by (simp add: apply_fold_def)
qed

text \<open>
  The queue is a log-structured store: the events file is its log, \<open>fold_event\<close> replays one
  row, and the replayed slots agree with the memory.
\<close>

interpretation wq: event_sourced fold_event "[]" slots_ok agrees "\<lambda>q. read_events (events q)"
  by unfold_locales (auto intro: fold_event_slots_ok)

text \<open>
  \<open>coherent q\<close>: the file decodes to slots that agree with the memory, and it ends in a
  complete line.
\<close>

definition coherent :: "wake_queue \<Rightarrow> bool" where
  "coherent q \<longleftrightarrow> \<not> torn (events q) \<and>
     (\<exists>s. fold_events (read_events (events q)) = Inr s \<and> agrees s q)"

lemma coherent_log_iff: "coherent q \<longleftrightarrow> \<not> torn (events q) \<and> wq.coherent_log q"
  by (simp add: coherent_def wq.coherent_log_def fold_events_def)

lemma events_apply_slot [simp]: "events (apply_slot q ws) = events q"
  by (auto simp: apply_slot_def Let_def split: prod.splits option.splits)

lemma events_apply_fold [simp]: "events (apply_fold f s) = f"
proof -
  have "events (foldl apply_slot q s) = events q" for q
    by (induction s arbitrary: q) simp_all
  then show ?thesis by (simp add: apply_fold_def cleared_def)
qed

lemma load_coherent:
  assumes "load f = Inr q" and "\<not> torn f"
  shows "coherent q"
proof -
  from assms(1) obtain s where s: "fold_events (read_events f) = Inr s" "q = apply_fold f s"
    by (auto simp: load_def bind_res_eq_Inr)
  then have "agrees s q" by (simp add: apply_fold_agrees fold_events_slots_ok)
  with s assms(2) show ?thesis by (auto simp: coherent_def)
qed

lemma read_append [simp]:
  "\<not> torn f \<Longrightarrow> read_events (append_event f e) = read_events f @ [e]"
  by (simp add: append_event_def read_events_def List.map_filter_def)

lemma torn_append [simp]: "\<not> torn (append_event f e)"
  by (simp add: append_event_def)

text \<open>One appended event whose fold agrees with the new memory keeps the queue coherent.\<close>

lemma coherent_step:
  assumes "coherent q" and "events q' = append_event (events q) e"
    and "\<And>s. slots_ok s \<Longrightarrow> agrees s q \<Longrightarrow> \<exists>s'. fold_event s e = Inr s' \<and> agrees s' q'"
  shows "coherent q'"
  using assms wq.coherent_append [of q q' e] by (simp add: coherent_log_iff)

section \<open>Every operation keeps the agreement\<close>

lemma fold_enqueue_event:
  assumes "banded it"
  shows "fold_event s (enqueue_event ts it) =
    Inr (dset (dset s (id it) (slot_of s (id it))) (id it)
      \<lparr>fw_item = Some it, fw_op = Some Enqueue, fw_moment_id = None, fw_reason = None\<rparr>)"
  using assms
  by (simp add: fold_event_def enqueue_event_def jget_def op_parse_def parse_to_dict slot_of_def
      Let_def)

lemma fold_claimed_event:
  "fold_event s (claimed_event ts w m) =
    Inr (dset (dset s w (slot_of s w)) w
      ((slot_of s w)\<lparr>fw_op := Some Claimed, fw_moment_id := Some m, fw_reason := None\<rparr>))"
  by (simp add: fold_event_def claimed_event_def jget_def op_parse_def slot_of_def opt_str_def
      Let_def)

lemma fold_done_event:
  "fold_event s (done_event ts w) =
    Inr (dset (dset s w (slot_of s w)) w
      ((slot_of s w)\<lparr>fw_op := Some Done, fw_reason := None\<rparr>))"
  by (simp add: fold_event_def done_event_def jget_def op_parse_def slot_of_def Let_def)

lemma fold_cancelled_event:
  "fold_event s (cancelled_event ts w r) =
    Inr (dset (dset s w (slot_of s w)) w
      ((slot_of s w)\<lparr>fw_op := Some Cancelled, fw_reason := Some r\<rparr>))"
  by (simp add: fold_event_def cancelled_event_def jget_def op_parse_def slot_of_def opt_str_def
      Let_def)

lemmas fold_own_events =
  fold_enqueue_event fold_claimed_event fold_done_event fold_cancelled_event

lemma enqueue_Inr:
  assumes "enqueue q knd pl wid cr dr = Inr (q', it)"
  shows "banded it" and "kind it = knd" and "id it = str_or wid (uuid4 dr)"
    and "payload it = (case pl of None \<Rightarrow> [] | Some d \<Rightarrow> d)"
    and "\<And>x. dget (ops q) (id it) = Some x \<Longrightarrow> terminal x"
    and "q' = q\<lparr>events := append_event (events q) (enqueue_event (ts_iso dr) it),
                items := dset (items q) (id it) it,
                ops := dset (ops q) (id it) Enqueue,
                moments := dset (moments q) (id it) None,
                reasons := dset (reasons q) (id it) None,
                pending_ids := set_add (pending_ids q) (id it),
                heap := heappush (heap q) (heap_key it)\<rparr>"
  using assms
  by (auto simp: enqueue_def bind_res_eq_Inr Let_def banded_def split: if_splits option.splits)

lemma enqueue_coherent:
  assumes "coherent q" and "enqueue q knd pl wid cr dr = Inr (q', it)"
  shows "coherent q'"
proof (rule coherent_step [OF assms(1)])
  note e = enqueue_Inr [OF assms(2)]
  show "events q' = append_event (events q) (enqueue_event (ts_iso dr) it)"
    by (simp add: e(6))
  fix s
  assume "agrees s q"
  then show "\<exists>s'. fold_event s (enqueue_event (ts_iso dr) it) = Inr s' \<and> agrees s' q'"
    by (simp add: fold_own_events e(1) e(6) agrees_def Let_def)
qed

lemma mark_done_coherent:
  assumes "coherent q" and "mark_done q w dr = Inr q'"
  shows "coherent q'"
proof (cases "q' = q")
  case True
  with assms(1) show ?thesis by simp
next
  case False
  with assms(2) obtain x where x: "dget (ops q) w = Some x" "\<not> terminal x"
    and q': "q' = q\<lparr>events := append_event (events q) (done_event (ts_iso dr) w),
      ops := dset (ops q) w Done, reasons := dset (reasons q) w None,
      pending_ids := set_discard (pending_ids q) w\<rparr>"
    by (auto simp: mark_done_def split: option.splits if_splits)
  show ?thesis
  proof (rule coherent_step [OF assms(1)])
    show "events q' = append_event (events q) (done_event (ts_iso dr) w)" by (simp add: q')
    fix s
    assume "agrees s q"
    then show "\<exists>s'. fold_event s (done_event (ts_iso dr) w) = Inr s' \<and> agrees s' q'"
      using x by (auto simp: fold_own_events q' agrees_def Let_def split: if_splits)
  qed
qed

lemma cancel_cases:
  assumes "cancel q w r dr = Inr q'"
  obtains (noop) x where "dget (ops q) w = Some x" "terminal x" "q' = q"
  | (live) x where "dget (ops q) w = Some x" "\<not> terminal x"
      "q' = q\<lparr>events := append_event (events q) (cancelled_event (ts_iso dr) w r),
              ops := dset (ops q) w Cancelled, reasons := dset (reasons q) w (Some r),
              pending_ids := set_discard (pending_ids q) w\<rparr>"
  using assms by (auto simp: cancel_def split: option.splits if_splits)

lemma cancel_coherent:
  assumes "coherent q" and "cancel q w r dr = Inr q'"
  shows "coherent q'"
  using assms(2)
proof (cases rule: cancel_cases)
  case noop
  with assms(1) show ?thesis by simp
next
  case (live x)
  show ?thesis
  proof (rule coherent_step [OF assms(1)])
    show "events q' = append_event (events q) (cancelled_event (ts_iso dr) w r)"
      by (simp add: live)
    fix s
    assume "agrees s q"
    then show "\<exists>s'. fold_event s (cancelled_event (ts_iso dr) w r) = Inr s' \<and> agrees s' q'"
      using live(1) by (auto simp: fold_own_events live(3) agrees_def Let_def split: if_splits)
  qed
qed

section \<open>Popping and claiming\<close>

text \<open>On a queue whose pending ids are all live, the loop skips exactly the stale keys.\<close>

lemma pop_pending_loop_live:
  assumes "\<And>w. w \<in> set pend \<Longrightarrow> dget its w \<noteq> None \<and> dget os w = Some Enqueue"
  shows "pop_pending_loop its os pend h =
    (case dropWhile (\<lambda>(p, t, w). w \<notin> set pend) h of
       [] \<Rightarrow> (pend, [], None)
     | (p, t, w) # h' \<Rightarrow> (set_discard pend w, h', dget its w))"
  using assms
proof (induction h)
  case Nil
  then show ?case by simp
next
  case (Cons k h)
  obtain p t w where k: "k = (p, t, w)" by (cases k)
  show ?case
  proof (cases "w \<in> set pend")
    case True
    with Cons.prems obtain it where "dget its w = Some it" "dget os w = Some Enqueue" by auto
    with True k show ?thesis by simp
  next
    case False
    with Cons k show ?thesis by simp
  qed
qed

text \<open>Liveness of pending ids, as the agreement with the file gives it.\<close>

definition live_ids :: "wake_queue \<Rightarrow> bool" where
  "live_ids q \<longleftrightarrow>
     distinct (dkeys (ops q)) \<and> distinct (pending_ids q) \<and>
     (\<forall>w. w \<in> set (pending_ids q) \<longleftrightarrow> dget (ops q) w = Some Enqueue) \<and>
     (\<forall>w x. dget (ops q) w = Some x \<longrightarrow> (\<exists>it. dget (items q) w = Some it)) \<and>
     (\<forall>w it. dget (items q) w = Some it \<longrightarrow> id it = w \<and> banded it)"

lemma agrees_live_ids: "slots_ok s \<Longrightarrow> agrees s q \<Longrightarrow> live_ids q"
  by (auto simp: live_ids_def agrees_def slots_ok_def slot_ok_def Let_def split: if_splits)

lemma coherent_live_ids: "coherent q \<Longrightarrow> live_ids q"
  by (auto simp: coherent_def intro: agrees_live_ids fold_events_slots_ok)

lemma live_idsD:
  assumes "live_ids q" and "w \<in> set (pending_ids q)"
  obtains it where "dget (items q) w = Some it" "id it = w" "banded it"
    "dget (ops q) w = Some Enqueue"
  using assms unfolding live_ids_def by blast

lemma pop_pending_cases:
  assumes "live_ids q" and "pop_pending q = (q1, r)"
  obtains (none) "r = None" "q1 = q\<lparr>heap := []\<rparr>"
      "\<And>p t w. (p, t, w) \<in> set (heap q) \<Longrightarrow> w \<notin> set (pending_ids q)"
  | (some) it p t h where "r = Some it" "id it \<in> set (pending_ids q)"
      "dget (items q) (id it) = Some it" "dget (ops q) (id it) = Some Enqueue"
      "dropWhile (\<lambda>(p, t, w). w \<notin> set (pending_ids q)) (heap q) = (p, t, id it) # h"
      "q1 = q\<lparr>pending_ids := set_discard (pending_ids q) (id it), heap := h\<rparr>"
proof -
  let ?dw = "dropWhile (\<lambda>(p, t, w). w \<notin> set (pending_ids q)) (heap q)"
  have loop: "pop_pending_loop (items q) (ops q) (pending_ids q) (heap q) =
    (case ?dw of [] \<Rightarrow> (pending_ids q, [], None)
     | (p, t, w) # h' \<Rightarrow> (set_discard (pending_ids q) w, h', dget (items q) w))"
    by (rule pop_pending_loop_live) (use assms(1) in \<open>auto simp: live_ids_def\<close>)
  show thesis
  proof (cases ?dw)
    case Nil
    then have "\<And>p t w. (p, t, w) \<in> set (heap q) \<Longrightarrow> w \<notin> set (pending_ids q)"
      by (force simp: dropWhile_eq_Nil_conv)
    moreover have "r = None" "q1 = q\<lparr>heap := []\<rparr>"
      using assms(2) loop Nil by (auto simp: pop_pending_def)
    ultimately show ?thesis by (intro none) auto
  next
    case (Cons k h)
    obtain p t w where k: "k = (p, t, w)" by (cases k)
    have w: "w \<in> set (pending_ids q)"
      using Cons k hd_dropWhile [of "\<lambda>(p, t, w). w \<notin> set (pending_ids q)" "heap q"] by simp
    from assms(1) w obtain it where it: "dget (items q) w = Some it" "id it = w"
      "dget (ops q) w = Some Enqueue" by (blast elim: live_idsD)
    with assms(2) loop Cons k w show ?thesis
      by (intro some [of it p t h]) (auto simp: pop_pending_def)
  qed
qed

lemma claim_cases:
  assumes "coherent q" and "claim q m dr = Inr (q', r)"
  obtains (none) "r = None" "q' = q\<lparr>heap := []\<rparr>"
      "\<And>p t w. (p, t, w) \<in> set (heap q) \<Longrightarrow> w \<notin> set (pending_ids q)"
  | (some) it p t h where "r = Some it" "id it \<in> set (pending_ids q)"
      "dget (items q) (id it) = Some it" "dget (ops q) (id it) = Some Enqueue"
      "dropWhile (\<lambda>(p, t, w). w \<notin> set (pending_ids q)) (heap q) = (p, t, id it) # h"
      "q' = q\<lparr>events := append_event (events q) (claimed_event (ts_iso dr) (id it) m),
              ops := dset (ops q) (id it) Claimed,
              moments := dset (moments q) (id it) (Some m),
              reasons := dset (reasons q) (id it) None,
              pending_ids := set_discard (pending_ids q) (id it), heap := h\<rparr>"
proof -
  obtain q1 r1 where p: "pop_pending q = (q1, r1)" by fastforce
  from coherent_live_ids [OF assms(1)] p show thesis
  proof (cases rule: pop_pending_cases)
    case none
    with assms(2) p show ?thesis
      by (intro that(1)) (auto simp: claim_def split: if_splits)
  next
    case (some it p t h)
    with assms(2) p show ?thesis
      by (intro that(2) [of it p t h]) (auto simp: claim_def split: if_splits)
  qed
qed

lemma claim_coherent:
  assumes "coherent q" and "claim q m dr = Inr (q', r)"
  shows "coherent q'"
  using assms
proof (cases rule: claim_cases)
  case none
  with assms(1) show ?thesis by (simp add: coherent_def)
next
  case (some it p t h)
  show ?thesis
  proof (rule coherent_step [OF assms(1)])
    show "events q' = append_event (events q) (claimed_event (ts_iso dr) (id it) m)"
      by (simp add: some)
    fix s
    assume "agrees s q"
    then show "\<exists>s'. fold_event s (claimed_event (ts_iso dr) (id it) m) = Inr s' \<and> agrees s' q'"
      using some(3) by (auto simp: fold_own_events some(6) agrees_def Let_def split: if_splits)
  qed
qed

section \<open>Loops and the step relation\<close>

text \<open>
  The primitive steps of a queue. \<open>P q w\<close> restricts the ids an enqueue may use: \<open>any_id\<close>
  allows what the code allows, \<open>new_id\<close> only ids the queue has never seen.
\<close>

definition any_id :: "wake_queue \<Rightarrow> string \<Rightarrow> bool" where
  "any_id q w = True"

definition new_id :: "wake_queue \<Rightarrow> string \<Rightarrow> bool" where
  "new_id q w \<longleftrightarrow> dget (ops q) w = None"

inductive wq_step :: "(wake_queue \<Rightarrow> string \<Rightarrow> bool) \<Rightarrow> wake_queue \<Rightarrow> wake_queue \<Rightarrow> bool" for P where
  enqueue: "enqueue q knd pl wid cr dr = Inr (q', it) \<Longrightarrow> P q (id it) \<Longrightarrow> wq_step P q q'"
| claim: "claim q m dr = Inr (q', r) \<Longrightarrow> wq_step P q q'"
| mark_done: "mark_done q w dr = Inr q' \<Longrightarrow> wq_step P q q'"
| cancel: "cancel q w r dr = Inr q' \<Longrightarrow> wq_step P q q'"
| reload: "reload q = Inr q' \<Longrightarrow> wq_step P q q'"
| reset_empty: "reset_empty q = q' \<Longrightarrow> wq_step P q q'"

lemma reset_empty_coherent: "coherent (reset_empty q)"
  by (auto simp: coherent_def reset_empty_def read_events_def fold_events_def
      List.map_filter_def apply_fold_agrees)

lemma wq_step_coherent:
  assumes "wq_step P q q'" and "coherent q"
  shows "coherent q'"
  using assms
proof (cases rule: wq_step.cases)
  case reload
  then show ?thesis using assms(2) load_coherent [of "events q" q']
    by (simp add: reload_def coherent_def)
next
  case reset_empty
  then show ?thesis using reset_empty_coherent by blast
qed (auto intro: enqueue_coherent claim_coherent mark_done_coherent cancel_coherent)

interpretation wqs: transition_system "\<lambda>q. \<exists>f. \<not> torn f \<and> load f = Inr q" "wq_step P" coherent
  by unfold_locales (auto intro: load_coherent wq_step_coherent)

text \<open>The looping operations are runs of primitive steps.\<close>

lemma cancel_loop_run: "cancel_loop q ws r ds i = Inr q' \<Longrightarrow> (wq_step P)\<^sup>*\<^sup>* q q'"
proof (induction ws arbitrary: q i)
  case Nil
  then show ?case by simp
next
  case (Cons w ws)
  then obtain q1 where "cancel q w r (ds i) = Inr q1" "cancel_loop q1 ws r ds (i + 1) = Inr q'"
    by (auto simp: bind_res_eq_Inr)
  with Cons.IH show ?case
    by (meson converse_rtranclp_into_rtranclp wq_step.cancel)
qed

lemma recover_loop_run:
  "recover_loop q ws ds i acc = Inr (q', out) \<Longrightarrow> (wq_step any_id)\<^sup>*\<^sup>* q q'"
proof (induction ws arbitrary: q i acc)
  case Nil
  then show ?case by simp
next
  case (Cons w ws)
  from Cons.prems obtain q1 where q1: "cancel q w REASON_INTERRUPTED (ds i) = Inr q1"
    by (auto simp: bind_res_eq_Inr split: option.splits)
  have s1: "wq_step any_id q q1" using q1 by (rule wq_step.cancel)
  consider (skip) j acc' where "recover_loop q1 ws ds j acc' = Inr (q', out)"
    | (clone) it :: wake_item and q2 c j acc' where
        "enqueue q1 (kind it) (Some (payload it)) None None (ds (i + 1)) = Inr (q2, c)"
        "recover_loop q2 ws ds j acc' = Inr (q', out)"
  proof (cases "dget (items q) w")
    case None
    with Cons.prems q1 skip show ?thesis by simp
  next
    case (Some it)
    with Cons.prems q1 skip clone [of it] show ?thesis
      by (cases "kind it \<in> set RE_ENQUEUE_ON_RECOVER") (auto simp: bind_res_eq_Inr)
  qed
  then show ?case
  proof cases
    case skip
    with Cons.IH s1 show ?thesis by (meson converse_rtranclp_into_rtranclp)
  next
    case clone
    then have "wq_step any_id q1 q2" by (auto intro: wq_step.enqueue simp: any_id_def)
    with Cons.IH clone(2) s1 show ?thesis by (meson converse_rtranclp_into_rtranclp)
  qed
qed

lemma recover_claimed_run:
  "recover_claimed q ds = Inr (q', out) \<Longrightarrow> (wq_step any_id)\<^sup>*\<^sup>* q q'"
  unfolding recover_claimed_def by (rule recover_loop_run)

lemma cancel_all_pending_of_kind_run:
  "cancel_all_pending_of_kind q knd r ds = Inr (q', out) \<Longrightarrow> (wq_step P)\<^sup>*\<^sup>* q q'"
  by (auto simp: cancel_all_pending_of_kind_def bind_res_eq_Inr Let_def split: if_splits
      intro: cancel_loop_run)

lemma enqueue_task_ready_run:
  assumes "enqueue_task_ready q t g pl ds = Inr (q', it)"
  shows "(wq_step any_id)\<^sup>*\<^sup>* q q'"
proof -
  from assms obtain ws q1 body i where
    "cancel_loop q ws REASON_REPLACED ds 0 = Inr q1"
    "enqueue q1 ''task_ready'' (Some body) None None (ds i) = Inr (q', it)"
    by (auto simp: enqueue_task_ready_def bind_res_eq_Inr Let_def split: if_splits)
  then show ?thesis
    by (meson any_id_def cancel_loop_run rtranclp.rtrancl_into_rtrancl wq_step.enqueue)
qed

lemmas wq_loop_runs =
  cancel_loop_run recover_claimed_run cancel_all_pending_of_kind_run enqueue_task_ready_run

lemmas run_coherent = wqs.inv_run

section \<open>Replay\<close>

text \<open>Two queues hold the same state, up to the order of dictionaries and stale heap keys.\<close>

definition same_view :: "wake_queue \<Rightarrow> wake_queue \<Rightarrow> bool" where
  "same_view q q' \<longleftrightarrow>
     dget (items q) = dget (items q') \<and> dget (ops q) = dget (ops q') \<and>
     dget (moments q) = dget (moments q') \<and> dget (reasons q) = dget (reasons q') \<and>
     set (pending_ids q) = set (pending_ids q')"

lemma agrees_same_view: "agrees s q \<Longrightarrow> agrees s q' \<Longrightarrow> same_view q q'"
  by (auto simp: agrees_def same_view_def Let_def fun_eq_iff)

lemma coherent_reload:
  assumes "coherent q"
  shows "\<exists>q'. reload q = Inr q' \<and> same_view q' q"
proof -
  from assms obtain s where s: "fold_events (read_events (events q)) = Inr s" "agrees s q"
    by (auto simp: coherent_def)
  then have "reload q = Inr (apply_fold (events q) s)"
    by (simp add: reload_def load_def)
  moreover have "agrees s (apply_fold (events q) s)"
    using s(1) by (simp add: apply_fold_agrees fold_events_slots_ok)
  ultimately show ?thesis using s(2) agrees_same_view by blast
qed

section \<open>The heap covers the pending set\<close>

text \<open>
  \<open>heap_exact q\<close>: the heap is sorted, holds the current key of every pending wake, knows only
  ids the queue knows, and no other key of a pending wake. The last clause is lost when a
  terminal id with a leftover key is enqueued again; it is kept while ids are new.
\<close>

definition heap_exact :: "wake_queue \<Rightarrow> bool" where
  "heap_exact q \<longleftrightarrow>
     sorted (heap q) \<and>
     (\<forall>w\<in>set (pending_ids q).
        \<exists>it. dget (items q) w = Some it \<and> id it = w \<and> heap_key it \<in> set (heap q)) \<and>
     (\<forall>(p, t, w)\<in>set (heap q). dget (ops q) w \<noteq> None) \<and>
     (\<forall>(p, t, w)\<in>set (heap q). w \<in> set (pending_ids q) \<longrightarrow>
        (\<exists>it. dget (items q) w = Some it \<and> heap_key it = (p, t, w)))"

lemma set_heappush [simp]: "set (heappush h k) = insert k (set h)"
  by (simp add: heappush_def set_insort_key)

lemma sorted_heappush [simp]: "sorted (heappush h k) \<longleftrightarrow> sorted h"
  by (simp add: heappush_def sorted_insort)

lemma heap_exactD:
  assumes "heap_exact q"
  shows "sorted (heap q)"
    and "\<And>w. w \<in> set (pending_ids q) \<Longrightarrow>
           \<exists>it. dget (items q) w = Some it \<and> id it = w \<and> heap_key it \<in> set (heap q)"
    and "\<And>p t w. (p, t, w) \<in> set (heap q) \<Longrightarrow> dget (ops q) w \<noteq> None"
    and "\<And>p t w. (p, t, w) \<in> set (heap q) \<Longrightarrow> w \<in> set (pending_ids q) \<Longrightarrow>
           \<exists>it. dget (items q) w = Some it \<and> heap_key it = (p, t, w)"
  using assms by (auto simp: heap_exact_def)

text \<open>Adding a wake under a new id.\<close>

lemma heap_exact_add:
  assumes "heap_exact q" and "dget (ops q) (id it) = None" and "id it \<notin> set (pending_ids q)"
    and "items q' = dset (items q) (id it) it" and "ops q' = dset (ops q) (id it) x"
    and "pending_ids q' = set_add (pending_ids q) (id it)"
    and "heap q' = heappush (heap q) (heap_key it)"
  shows "heap_exact q'"
proof -
  have fresh: "(p, t, id it) \<notin> set (heap q)" for p t
    using assms(2) heap_exactD(3) [OF assms(1)] by blast
  show ?thesis
    using assms(1,3) fresh unfolding heap_exact_def assms(4-7)
    by (auto simp: heap_key_def split: if_splits; fastforce)
qed

lemma heap_exact_items:
  assumes "heap_exact q" and "dget (ops q) (id it) = None" and "id it \<notin> set (pending_ids q)"
    and "items q' = dset (items q) (id it) it" and "ops q' = dset (ops q) (id it) x"
    and "pending_ids q' = pending_ids q" and "heap q' = heap q"
  shows "heap_exact q'"
  using assms unfolding heap_exact_def by (auto split: prod.splits)

text \<open>Dropping a wake from the pending set, with or without dropping keys below it.\<close>

lemma heap_exact_discard:
  assumes "heap_exact q" and "items q' = items q" and "ops q' = dset (ops q) w x"
    and "pending_ids q' = set_discard (pending_ids q) w"
    and "sorted (heap q')" and "set (heap q') \<subseteq> set (heap q)"
    and "\<And>p t v. (p, t, v) \<in> set (heap q) - set (heap q') \<Longrightarrow> v \<notin> set (pending_ids q) - {w}"
  shows "heap_exact q'"
  unfolding heap_exact_def
proof (intro conjI ballI)
  show "sorted (heap q')" by (rule assms(5))
next
  fix v
  assume "v \<in> set (pending_ids q')"
  then have v: "v \<in> set (pending_ids q)" "v \<noteq> w" using assms(4) by auto
  with heap_exactD(2) [OF assms(1)] obtain it where
    it: "dget (items q) v = Some it" "id it = v" "heap_key it \<in> set (heap q)" by blast
  then have "heap_key it \<in> set (heap q')"
    using v assms(7) [of "priority it" "created_at it" v] by (auto simp: heap_key_def)
  with it show "\<exists>it. dget (items q') v = Some it \<and> id it = v \<and> heap_key it \<in> set (heap q')"
    using assms(2) by auto
next
  fix k
  assume "k \<in> set (heap q')"
  then obtain p t u where k: "k = (p, t, u)" "(p, t, u) \<in> set (heap q)"
    using assms(6) by (metis prod_cases3 subsetD)
  show "case k of (p, t, v) \<Rightarrow> dget (ops q') v \<noteq> None"
    using heap_exactD(3) [OF assms(1) k(2)] by (simp add: k(1) assms(3))
  show "case k of (p, t, v) \<Rightarrow> v \<in> set (pending_ids q') \<longrightarrow>
      (\<exists>it. dget (items q') v = Some it \<and> heap_key it = (p, t, v))"
    using heap_exactD(4) [OF assms(1) k(2)] by (simp add: k(1) assms(2,4))
qed

lemma apply_slot_heap_exact:
  assumes "heap_exact q" and "agrees s q" and "w \<notin> set (dkeys s)" and "slot_ok w sl"
  shows "heap_exact (apply_slot q (w, sl))"
proof (cases "fw_item sl")
  case None
  with assms(1) show ?thesis by (simp add: apply_slot_def)
next
  case (Some it)
  with assms(4) obtain x where x: "fw_op sl = Some x" and w: "w = id it"
    by (auto simp: slot_ok_def)
  have fresh: "dget (ops q) (id it) = None" "id it \<notin> set (pending_ids q)"
    using agreesD(2,3) [OF assms(2)] slot_of_fresh [OF assms(3)] w
    by (auto simp: empty_slot_def)
  show ?thesis
  proof (cases "x = Enqueue")
    case True
    show ?thesis
      by (rule heap_exact_add [OF assms(1) fresh, where x = x])
        (use Some x w True in \<open>simp_all add: apply_slot_def Let_def\<close>)
  next
    case False
    show ?thesis
      by (rule heap_exact_items [OF assms(1) fresh, where x = x])
        (use Some x w False in \<open>simp_all add: apply_slot_def Let_def\<close>)
  qed
qed

lemma foldl_apply_slot_heap_exact:
  assumes "heap_exact q" and "agrees s q" and "distinct (dkeys (s @ t))"
    and "\<And>w sl. (w, sl) \<in> set t \<Longrightarrow> slot_ok w sl"
  shows "heap_exact (foldl apply_slot q t)"
  using assms
proof (induction t arbitrary: s q)
  case Nil
  then show ?case by simp
next
  case (Cons a t)
  obtain w sl where a: "a = (w, sl)" by (cases a)
  with Cons.prems have fresh: "w \<notin> set (dkeys s)" "slot_ok w sl" by auto
  have "heap_exact (apply_slot q a)" "agrees (s @ [a]) (apply_slot q a)"
    using apply_slot_heap_exact [OF Cons.prems(1,2) fresh]
      apply_slot_agrees [OF Cons.prems(2) fresh] by (simp_all add: a dset_fresh [OF fresh(1)])
  then show ?case using Cons.IH [of _ "s @ [a]"] Cons.prems(3,4) by simp
qed

lemma apply_fold_heap_exact:
  assumes "slots_ok s"
  shows "heap_exact (apply_fold f s)"
proof -
  have "heap_exact (cleared f)" by (simp add: heap_exact_def cleared_def)
  then show ?thesis
    using foldl_apply_slot_heap_exact [OF _ agrees_cleared, of f s] assms slots_okD [OF assms]
    by (simp add: apply_fold_def slots_ok_def)
qed

lemma load_heap_exact: "load f = Inr q \<Longrightarrow> heap_exact q"
  by (auto simp: load_def bind_res_eq_Inr intro: apply_fold_heap_exact fold_events_slots_ok)

text \<open>Exactness is an invariant of the steps that enqueue under new ids only.\<close>

lemma dropWhile_set_diff:
  "x \<in> set xs \<Longrightarrow> x \<notin> set (dropWhile P xs) \<Longrightarrow> P x"
  by (metis Un_iff set_append set_takeWhileD takeWhile_dropWhile_id)

lemma claim_heap_exact:
  assumes "coherent q" and "heap_exact q" and "claim q m dr = Inr (q', r)"
  shows "heap_exact q'"
  using assms(1,3)
proof (cases rule: claim_cases)
  case none
  have "w \<notin> set (pending_ids q)" for w
  proof
    assume "w \<in> set (pending_ids q)"
    with heap_exactD(2) [OF assms(2)] obtain it :: wake_item where
      "id it = w" "(priority it, created_at it, id it) \<in> set (heap q)"
      unfolding heap_key_def by blast
    with none(3) \<open>w \<in> set (pending_ids q)\<close> show False by blast
  qed
  then have "pending_ids q = []" by (metis list.set_intros(1) neq_Nil_conv)
  with none show ?thesis by (simp add: heap_exact_def)
next
  case (some it p t h)
  let ?D = "dropWhile (\<lambda>(p, t, w). w \<notin> set (pending_ids q)) (heap q)"
  have D: "?D = (p, t, id it) # h" by (rule some(5))
  have "sorted ?D"
    using heap_exactD(1) [OF assms(2)] by (simp add: sorted_wrt_dropWhile)
  then have "sorted h" by (simp add: D)
  moreover have "set h \<subseteq> set (heap q)"
    using set_dropWhileD [of _ _ "heap q"] D by (metis list.set_intros(2) subsetI)
  moreover have "v \<notin> set (pending_ids q) - {id it}"
    if "(p', t', v) \<in> set (heap q) - set h" for p' t' v
  proof (cases "(p', t', v) \<in> set ?D")
    case True
    with that show ?thesis by (simp add: D)
  next
    case False
    with that dropWhile_set_diff [of "(p', t', v)" "heap q"] show ?thesis by auto
  qed
  ultimately show ?thesis
    using some(6) by (intro heap_exact_discard [OF assms(2), where w = "id it" and x = Claimed]) auto
qed

lemma wq_step_heap_exact:
  assumes "wq_step new_id q q'" and "coherent q" and "heap_exact q"
  shows "heap_exact q'"
  using assms(1)
proof (cases rule: wq_step.cases)
  case (enqueue knd pl wid cr dr it)
  note e = enqueue_Inr [OF enqueue(1)]
  have "dget (ops q) (id it) = None" using enqueue(2) by (simp add: new_id_def)
  moreover from this have "id it \<notin> set (pending_ids q)"
    using coherent_live_ids [OF assms(2)] by (simp add: live_ids_def)
  ultimately show ?thesis
    by (rule heap_exact_add [OF assms(3), where x = Enqueue]) (simp_all add: e(6))
next
  case (claim m dr r)
  with assms show ?thesis by (blast intro: claim_heap_exact)
next
  case (mark_done w dr)
  then show ?thesis
    using heap_exact_discard [OF assms(3), of q' w Done] heap_exactD(1) [OF assms(3)] assms(3)
    by (auto simp: mark_done_def split: option.splits if_splits)
next
  case (cancel w r dr)
  then show ?thesis
    using heap_exact_discard [OF assms(3), of q' w Cancelled] heap_exactD(1) [OF assms(3)] assms(3)
    by (auto simp: cancel_def split: option.splits if_splits)
next
  case reload
  then show ?thesis by (auto simp: reload_def intro: load_heap_exact)
next
  case reset_empty
  then show ?thesis using apply_fold_heap_exact [OF slots_ok_Nil] by (auto simp: reset_empty_def)
qed

interpretation wqx: transition_system "\<lambda>q. \<exists>f. \<not> torn f \<and> load f = Inr q" "wq_step new_id"
  "\<lambda>q. coherent q \<and> heap_exact q"
  by unfold_locales (auto intro: load_coherent load_heap_exact wq_step_coherent wq_step_heap_exact)

section \<open>Claim order\<close>

lemma heap_key_inj: "heap_key a = heap_key b \<Longrightarrow> id a = id b"
  by (simp add: heap_key_def)

lemma set_pending:
  assumes "live_ids q"
  shows "set (pending q) = {it. \<exists>w\<in>set (pending_ids q). dget (items q) w = Some it}"
proof -
  have "pending_where q (\<lambda>it. True) = pending_ids q"
    using assms unfolding pending_where_def live_ids_def
    by (intro filter_True) (auto split: option.splits)
  then show ?thesis
    by (auto simp: pending_def items_of_def List.map_filter_def intro!: image_eqI)
qed

lemma peek_eq_Some:
  assumes "live_ids q" and "w \<in> set (pending_ids q)" and "dget (items q) w = Some it"
    and min: "\<And>v jt. v \<in> set (pending_ids q) \<Longrightarrow> dget (items q) v = Some jt \<Longrightarrow>
                heap_key it \<le> heap_key jt"
  shows "peek q = Some it"
proof -
  have it: "it \<in> set (pending q)" using assms by (auto simp: set_pending)
  then obtain x xs where p: "pending q = x # xs" by (cases "pending q") auto
  have "sorted (map heap_key (pending q))" by (simp add: pending_def)
  then have "heap_key x \<le> heap_key it" using it p by auto
  moreover have "x \<in> set (pending q)" by (simp add: p)
  then obtain v where v: "v \<in> set (pending_ids q)" "dget (items q) v = Some x"
    using assms(1) by (auto simp: set_pending)
  ultimately have "heap_key x = heap_key it" using min [OF v] by simp
  then have "id x = id it" by (rule heap_key_inj)
  moreover have "id x = v" "id it = w" using assms(1-3) v by (auto simp: live_ids_def)
  ultimately have "x = it" using v(2) assms(3) by simp
  then show ?thesis by (simp add: peek_def p)
qed

lemma peek_eq_None: "live_ids q \<Longrightarrow> pending_ids q = [] \<Longrightarrow> peek q = None"
  by (simp add: peek_def pending_def pending_where_def items_of_def List.map_filter_def)

lemma heap_exact_min:
  assumes "heap_exact q" and "live_ids q"
    and "dropWhile (\<lambda>(p, t, w). w \<notin> set (pending_ids q)) (heap q) = (p, t, w) # h"
    and "dget (items q) w = Some it" and "w \<in> set (pending_ids q)"
    and "v \<in> set (pending_ids q)" and "dget (items q) v = Some jt"
  shows "heap_key it \<le> heap_key jt"
proof -
  let ?D = "dropWhile (\<lambda>(p, t, w). w \<notin> set (pending_ids q)) (heap q)"
  have "sorted ?D" using heap_exactD(1) [OF assms(1)] by (simp add: sorted_wrt_dropWhile)
  moreover have "(p, t, w) \<in> set (heap q)"
    using assms(3) by (metis list.set_intros(1) set_dropWhileD)
  with assms(1,4,5) have "heap_key it = (p, t, w)" using heap_exactD(4) by fastforce
  moreover have "heap_key jt \<in> set (heap q)" "id jt = v"
    using heap_exactD(2) [OF assms(1,6)] assms(7) by auto
  then have "heap_key jt \<in> set ?D"
    using dropWhile_set_diff [of "heap_key jt" "heap q"] assms(6) by (auto simp: heap_key_def)
  ultimately show ?thesis using assms(3) by auto
qed

lemma claim_peek:
  assumes "coherent q" and "heap_exact q" and "m \<noteq> []"
  shows "\<exists>q'. claim q m dr = Inr (q', peek q)"
proof -
  note live = coherent_live_ids [OF assms(1)]
  obtain q1 r1 where "pop_pending q = (q1, r1)" by fastforce
  with assms(3) obtain q' r where c: "claim q m dr = Inr (q', r)"
    by (cases r1) (auto simp: claim_def)
  from assms(1) c have "r = peek q"
  proof (cases rule: claim_cases)
    case none
    have "w \<notin> set (pending_ids q)" for w
    proof
      assume w: "w \<in> set (pending_ids q)"
      with heap_exactD(2) [OF assms(2)] obtain it :: wake_item where
        "id it = w" "(priority it, created_at it, id it) \<in> set (heap q)"
        unfolding heap_key_def by blast
      with none(3) w show False by blast
    qed
    then have "pending_ids q = []" by (metis list.set_intros(1) neq_Nil_conv)
    with none live show ?thesis by (simp add: peek_eq_None)
  next
    case (some it p t h)
    have "peek q = Some it"
      by (rule peek_eq_Some [OF live some(2,3)])
        (rule heap_exact_min [OF assms(2) live some(5,3,2)])
    with some(1) show ?thesis by simp
  qed
  with c show ?thesis by blast
qed

section \<open>What the loops do\<close>

lemma cancel_loop_ok:
  assumes "\<And>w. w \<in> set ws \<Longrightarrow> dget (ops q) w \<noteq> None"
  shows "\<exists>q'. cancel_loop q ws r ds i = Inr q' \<and> items q' = items q \<and>
    (\<forall>v. dget (ops q') v =
       (case dget (ops q) v of None \<Rightarrow> None
        | Some x \<Rightarrow> Some (if v \<in> set ws \<and> \<not> terminal x then Cancelled else x))) \<and>
    set (pending_ids q') =
      set (pending_ids q) - {v\<in>set ws. \<forall>x. dget (ops q) v = Some x \<longrightarrow> \<not> terminal x}"
  using assms
proof (induction ws arbitrary: q i)
  case Nil
  then show ?case by (auto split: option.splits)
next
  case (Cons w ws)
  then obtain x where x: "dget (ops q) w = Some x" by fastforce
  define q1 where "q1 = (if terminal x then q else
    q\<lparr>events := append_event (events q) (cancelled_event (ts_iso (ds i)) w r),
      ops := dset (ops q) w Cancelled, reasons := dset (reasons q) w (Some r),
      pending_ids := set_discard (pending_ids q) w\<rparr>)"
  have c: "cancel q w r (ds i) = Inr q1" using x by (simp add: cancel_def q1_def)
  have "\<And>v. v \<in> set ws \<Longrightarrow> dget (ops q1) v \<noteq> None"
    using Cons.prems by (simp add: q1_def)
  from Cons.IH [OF this, of "i + 1"] obtain q' where q':
    "cancel_loop q1 ws r ds (i + 1) = Inr q'" "items q' = items q1"
    "\<And>v. dget (ops q') v = (case dget (ops q1) v of None \<Rightarrow> None
       | Some x \<Rightarrow> Some (if v \<in> set ws \<and> \<not> terminal x then Cancelled else x))"
    "set (pending_ids q') =
      set (pending_ids q1) - {v\<in>set ws. \<forall>x. dget (ops q1) v = Some x \<longrightarrow> \<not> terminal x}"
    by blast
  have "cancel_loop q (w # ws) r ds i = Inr q'" using c q'(1) by simp
  moreover have "items q' = items q" using q'(2) by (simp add: q1_def)
  moreover have "dget (ops q') v = (case dget (ops q) v of None \<Rightarrow> None
       | Some x \<Rightarrow> Some (if v \<in> set (w # ws) \<and> \<not> terminal x then Cancelled else x))" for v
    using q'(3) [of v] x by (auto simp: q1_def terminal_def split: option.splits)
  moreover have "set (pending_ids q') = set (pending_ids q) -
      {v\<in>set (w # ws). \<forall>x. dget (ops q) v = Some x \<longrightarrow> \<not> terminal x}"
  proof (cases "terminal x")
    case True
    with q'(4) x show ?thesis by (auto simp: q1_def)
  next
    case False
    have "{v \<in> set ws. \<forall>y. dget (ops q1) v = Some y \<longrightarrow> \<not> terminal y} =
      {v \<in> set ws. \<forall>y. dget (ops q) v = Some y \<longrightarrow> \<not> terminal y} - {w}"
      using False by (auto simp: q1_def terminal_def)
    moreover have "set (pending_ids q1) = set (pending_ids q) - {w}"
      using False by (simp add: q1_def)
    ultimately show ?thesis using q'(4) False x by auto
  qed
  ultimately show ?case by blast
qed

text \<open>Cancelling pending wakes removes exactly those.\<close>

lemma cancel_loop_pending:
  assumes "live_ids q" and "set ws \<subseteq> set (pending_ids q)"
  obtains q' where "cancel_loop q ws r ds i = Inr q'" "items q' = items q"
    "\<And>v. dget (ops q') v = (if v \<in> set ws then Some Cancelled else dget (ops q) v)"
    "set (pending_ids q') = set (pending_ids q) - set ws"
proof -
  have enq: "dget (ops q) v = Some Enqueue" if "v \<in> set ws" for v
    using assms that by (auto simp: live_ids_def)
  from cancel_loop_ok [of ws q r ds i] enq obtain q' where q':
    "cancel_loop q ws r ds i = Inr q'" "items q' = items q"
    "\<And>v. dget (ops q') v = (case dget (ops q) v of None \<Rightarrow> None
       | Some x \<Rightarrow> Some (if v \<in> set ws \<and> \<not> terminal x then Cancelled else x))"
    "set (pending_ids q') =
      set (pending_ids q) - {v\<in>set ws. \<forall>x. dget (ops q) v = Some x \<longrightarrow> \<not> terminal x}"
    by auto
  show thesis
  proof (rule that [OF q'(1,2)])
    show "dget (ops q') v = (if v \<in> set ws then Some Cancelled else dget (ops q) v)" for v
      using enq [of v] by (auto simp: q'(3) terminal_def split: option.splits)
    show "set (pending_ids q') = set (pending_ids q) - set ws"
      using enq by (auto simp: q'(4) terminal_def)
  qed
qed

lemma enqueue_ok:
  assumes "knd \<in> set KNOWN_KINDS" and "\<And>x. dget (ops q) (str_or wid (uuid4 dr)) = Some x \<Longrightarrow> terminal x"
  shows "\<exists>q' it. enqueue q knd pl wid cr dr = Inr (q', it)"
  using assms known_kind_priority [of knd]
  by (fastforce simp: enqueue_def Let_def split: option.splits)

section \<open>Recovery\<close>

text \<open>Fresh uuids: pairwise different from draw \<open>i\<close> on, and unknown to the queue.\<close>

definition fresh_draws :: "wake_queue \<Rightarrow> draws \<Rightarrow> nat \<Rightarrow> bool" where
  "fresh_draws q ds i \<longleftrightarrow>
     (\<forall>j\<ge>i. dget (ops q) (uuid4 (ds j)) = None) \<and>
     (\<forall>j k. i \<le> j \<longrightarrow> j < k \<longrightarrow> uuid4 (ds j) \<noteq> uuid4 (ds k))"

definition durable :: "wake_item \<Rightarrow> bool" where
  "durable it \<longleftrightarrow> kind it \<in> set RE_ENQUEUE_ON_RECOVER"

abbreviation work_of :: "wake_item \<Rightarrow> string \<times> jdict" where
  "work_of it \<equiv> (kind it, payload it)"

lemma cancel_live:
  assumes "dget (ops q) w = Some x" and "\<not> terminal x"
  obtains q1 where "cancel q w r dr = Inr q1" "items q1 = items q"
    "dget (ops q1) = (dget (ops q))(w \<mapsto> Cancelled)"
  using assms by (auto simp: cancel_def update_conv')

text \<open>What one recovery loop leaves behind, relative to the queue it started from.\<close>

definition recovered ::
  "wake_queue \<Rightarrow> string list \<Rightarrow> wake_queue \<Rightarrow> wake_item list \<Rightarrow> bool" where
  "recovered q ws q' out \<longleftrightarrow>
     map work_of out = map work_of (filter durable (items_of q ws)) \<and>
     (\<forall>w\<in>set ws. dget (ops q') w = Some Cancelled) \<and>
     (\<forall>c\<in>set out. dget (ops q) (id c) = None \<and> dget (ops q') (id c) = Some Enqueue \<and>
        dget (items q') (id c) = Some c) \<and>
     (\<forall>v. v \<notin> set ws \<longrightarrow> v \<notin> id ` set out \<longrightarrow>
        dget (ops q') v = dget (ops q) v \<and> dget (items q') v = dget (items q) v)"

lemma recovered_skip:
  assumes "dget (ops q1) = (dget (ops q))(w \<mapsto> Cancelled)" and "items q1 = items q"
    and "recovered q1 ws q' out" and "w \<notin> set ws" and "dget (items q) w = Some it"
    and "\<not> durable it"
  shows "recovered q (w # ws) q' out"
  using assms by (auto simp: recovered_def items_of_def List.map_filter_simps split: if_splits)

lemma recovered_clone:
  assumes "dget (ops q2) = (dget (ops q))(w \<mapsto> Cancelled, id c \<mapsto> Enqueue)"
    and "dget (items q2) = (dget (items q))(id c \<mapsto> c)"
    and "recovered q2 ws q' out" and "w \<notin> set ws" and "dget (items q) w = Some it"
    and "durable it" and "work_of c = work_of it"
    and "dget (ops q) (id c) = None" and "dget (ops q) w \<noteq> None"
    and "id c \<notin> set ws"
  shows "recovered q (w # ws) q' (c # out)"
proof -
  have same: "items_of q2 ws = items_of q ws"
    using assms(2,10) unfolding items_of_def by (induction ws) (auto split: option.splits)
  have diff: "id d \<noteq> id c \<and> id d \<noteq> w \<and> dget (ops q) (id d) = None" if "d \<in> set out" for d
  proof -
    have "dget (ops q2) (id d) = None" using assms(3) that by (simp add: recovered_def)
    then show ?thesis by (simp add: assms(1) split: if_splits)
  qed
  have neq: "w \<noteq> id c" using assms(8,9) by auto
  have outs: "id c \<notin> id ` set out" "w \<notin> id ` set out" using diff by force+
  have frame: "dget (ops q') v = dget (ops q2) v \<and> dget (items q') v = dget (items q2) v"
    if "v \<notin> set ws" "v \<notin> id ` set out" for v
    using assms(3) that by (simp add: recovered_def)
  show ?thesis
    unfolding recovered_def
  proof (intro conjI ballI allI impI)
    show "map work_of (c # out) = map work_of (filter durable (items_of q (w # ws)))"
      using assms(3,5,6,7) same by (simp add: recovered_def items_of_def)
  next
    fix v
    assume "v \<in> set (w # ws)"
    then show "dget (ops q') v = Some Cancelled"
      using assms(3) frame [OF assms(4) outs(2)] neq by (auto simp: recovered_def assms(1))
  next
    fix d
    assume d: "d \<in> set (c # out)"
    show "dget (ops q) (id d) = None" using d diff assms(8) by auto
    show "dget (ops q') (id d) = Some Enqueue" "dget (items q') (id d) = Some d"
      using d assms(3) frame [OF assms(10) outs(1)] by (auto simp: recovered_def assms(1,2))
  next
    fix v
    assume "v \<notin> set (w # ws)" and "v \<notin> id ` set (c # out)"
    then show "dget (ops q') v = dget (ops q) v" "dget (items q') v = dget (items q) v"
      using frame [of v] by (auto simp: assms(1,2))
  qed
qed

lemma fresh_draws_mono: "fresh_draws q ds i \<Longrightarrow> i \<le> j \<Longrightarrow> fresh_draws q ds j"
  by (auto simp: fresh_draws_def)

lemma fresh_draws_step:
  assumes "fresh_draws q ds i" and "i \<le> j" and "dget (ops q) w \<noteq> None"
    and "dget (ops q') = (dget (ops q))(w \<mapsto> x, uuid4 (ds j) \<mapsto> y)"
  shows "fresh_draws q' ds (Suc j)"
proof -
  have "dget (ops q) (uuid4 (ds k)) = None" "uuid4 (ds j) \<noteq> uuid4 (ds k)" if "Suc j \<le> k" for k
    using assms(1,2) that by (auto simp: fresh_draws_def)
  then have "dget (ops q') (uuid4 (ds k)) = None" if "Suc j \<le> k" for k
    using assms(3) that by (metis assms(4) fun_upd_other option.distinct(1))
  with assms(1,2) show ?thesis by (simp add: fresh_draws_def)
qed

lemma recover_loop_ok:
  assumes "coherent q" and "distinct ws" and "\<And>w. w \<in> set ws \<Longrightarrow> dget (ops q) w = Some Claimed"
    and "fresh_draws q ds i"
  shows "\<exists>q' out. recover_loop q ws ds i acc = Inr (q', acc @ out) \<and> recovered q ws q' out"
  using assms
proof (induction ws arbitrary: q i acc)
  case Nil
  then show ?case by (auto simp: recovered_def items_of_def intro!: exI [of _ "[]"])
next
  case (Cons w ws)
  have w: "dget (ops q) w = Some Claimed" using Cons.prems(3) by simp
  with coherent_live_ids [OF Cons.prems(1)] obtain it where it: "dget (items q) w = Some it" "banded it"
    unfolding live_ids_def by blast
  from w obtain q1 where q1: "cancel q w REASON_INTERRUPTED (ds i) = Inr q1" "items q1 = items q"
    "dget (ops q1) = (dget (ops q))(w \<mapsto> Cancelled)"
    by (rule cancel_live [where r = REASON_INTERRUPTED and dr = "ds i"]) (simp_all add: terminal_def)
  have coh1: "coherent q1" by (rule cancel_coherent [OF Cons.prems(1) q1(1)])
  show ?case
  proof (cases "durable it")
    case False
    have "fresh_draws q1 ds (i + 1)"
      using Cons.prems(4) w by (auto simp: fresh_draws_def q1(3))
    with Cons.IH [OF coh1] Cons.prems(2,3) obtain q' out where
      "recover_loop q1 ws ds (i + 1) acc = Inr (q', acc @ out)" "recovered q1 ws q' out"
      by (force simp: q1(3))
    with False it q1 Cons.prems(2) recovered_skip [OF q1(3,2), of ws q' out it] show ?thesis
      by (auto simp: durable_def)
  next
    case True
    let ?u = "uuid4 (ds (i + 1))"
    have u: "dget (ops q) ?u = None" using Cons.prems(4) by (simp add: fresh_draws_def)
    then have "dget (ops q1) ?u = None" using w by (auto simp: q1(3))
    moreover have "kind it \<in> set KNOWN_KINDS"
      using it(2) by (auto simp: known_kind_priority banded_def)
    ultimately obtain q2 c where
      e: "enqueue q1 (kind it) (Some (payload it)) None None (ds (i + 1)) = Inr (q2, c)"
      using enqueue_ok [of "kind it" q1 None "ds (i + 1)" "Some (payload it)" None]
      by (auto simp: str_or_def)
    note e' = enqueue_Inr [OF e]
    have c: "id c = ?u" "work_of c = work_of it" using e'(2-4) by (simp_all add: str_or_def)
    have ops2: "dget (ops q2) = (dget (ops q))(w \<mapsto> Cancelled, id c \<mapsto> Enqueue)"
      and items2: "dget (items q2) = (dget (items q))(id c \<mapsto> c)"
      by (simp_all add: e'(6) q1 fun_eq_iff)
    have "fresh_draws q2 ds (i + 2)"
      using fresh_draws_step [OF Cons.prems(4) _ _ ops2 [unfolded c(1)]] w by simp
    moreover have nin: "id c \<notin> set ws" using Cons.prems(3) u c by force
    ultimately obtain q' out where
      "recover_loop q2 ws ds (i + 2) (acc @ [c]) = Inr (q', (acc @ [c]) @ out)"
      "recovered q2 ws q' out"
      using Cons.IH [OF enqueue_coherent [OF coh1 e], of "i + 2" "acc @ [c]"] Cons.prems(2,3)
      by (force simp: ops2)
    moreover from this(2) have "recovered q (w # ws) q' (c # out)"
      using recovered_clone [OF ops2 items2 _ _ it(1) True c(2)] Cons.prems(2) u c w nin by simp
    ultimately show ?thesis
      using True it q1 e by (auto simp: durable_def)
  qed
qed

lemma claimed_ids_iff:
  assumes "distinct (dkeys (ops q))"
  shows "w \<in> set (claimed_ids q) \<longleftrightarrow> dget (ops q) w = Some Claimed"
    and "distinct (claimed_ids q)"
proof -
  show "w \<in> set (claimed_ids q) \<longleftrightarrow> dget (ops q) w = Some Claimed"
    using assms by (force simp: claimed_ids_def dget_Some_iff)
  show "distinct (claimed_ids q)"
    using assms by (simp add: claimed_ids_def distinct_map_filter)
qed

lemma ids_items_of:
  assumes "\<And>w. w \<in> set ws \<Longrightarrow> \<exists>it. dget (items q) w = Some it \<and> id it = w"
  shows "map id (items_of q ws) = ws"
  using assms unfolding items_of_def by (induction ws) (fastforce split: option.splits)+

lemma ids_items_of_pending:
  assumes "live_ids q"
  shows "map id (items_of q (pending_where q P)) = pending_where q P"
  by (rule ids_items_of) (use assms in \<open>auto simp: pending_where_def elim: live_idsD\<close>)

section \<open>Properties\<close>

text \<open>An empty, complete events file, and a short run used by the witnesses.\<close>

definition no_events :: events_file where
  "no_events = \<lparr>lines = [], torn = False\<rparr>"

definition draw_of :: "string \<Rightarrow> draw" where
  "draw_of u = \<lparr>uuid4 = u, now_iso = ''T1'', ts_iso = ''T1''\<rparr>"



text \<open>
  C2. Claim order. In any queue reached from a loaded file by operations whose enqueues use ids
  the queue has never seen (as generated uuids are), \<open>claim\<close> with a moment id never fails and
  hands out exactly the wake \<open>peek\<close> shows: the pending wake with the least
  (band, created_at, id), or none when nothing is pending.
\<close>

theorem claim_returns_first_pending:
  assumes "\<not> torn f" and "load f = Inr q0" and "(wq_step new_id)\<^sup>*\<^sup>* q0 q" and "m \<noteq> []"
  shows "\<exists>q'. claim q m dr = Inr (q', peek q)"
proof -
  have "coherent q \<and> heap_exact q"
    using assms(1-3) wqx.inv_reachable by blast
  then show ?thesis using assms(4) claim_peek by blast
qed

text \<open>A file with two enqueues and the queue it loads to.\<close>

definition demo_item :: "string \<Rightarrow> string \<Rightarrow> int \<Rightarrow> string \<Rightarrow> wake_item" where
  "demo_item w knd p t = \<lparr>id = w, kind = knd, priority = p, created_at = t, payload = []\<rparr>"

definition demo_file :: events_file where
  "demo_file = \<lparr>lines = [Row (enqueue_event ''T1'' (demo_item ''a'' ''background'' 4 ''T1'')),
     Garbage, Row (enqueue_event ''T2'' (demo_item ''b'' ''timer'' 2 ''T2''))], torn = False\<rparr>"

definition loaded :: "events_file \<Rightarrow> wake_queue" where
  "loaded f = (case load f of Inl _ \<Rightarrow> cleared f | Inr q \<Rightarrow> q)"

lemma load_demo: "\<not> torn demo_file" "load demo_file = Inr (loaded demo_file)"
  by code_simp+

theorem claim_returns_first_pending_witness:
  "(\<exists>q'. claim (loaded demo_file) ''m1'' (draw_of ''u'') = Inr (q', peek (loaded demo_file))) \<and>
   peek (loaded demo_file) = Some (demo_item ''b'' ''timer'' 2 ''T2'')"
proof -
  have "peek (loaded demo_file) = Some (demo_item ''b'' ''timer'' 2 ''T2'')" by code_simp
  then show ?thesis
    using claim_returns_first_pending [OF load_demo rtranclp.rtrancl_refl, of "''m1''" "draw_of ''u''"]
    by simp
qed

text \<open>
  A claim takes one wake out of the pending set and no other: on a queue reached from a
  loaded file, the claimed item was pending, becomes \<open>claimed\<close> for the given moment, and the
  rest of the pending set, the items and all other lifecycle states stay as they were.
\<close>

theorem claim_moves_one_wake:
  assumes "\<not> torn f" and "load f = Inr q0" and "(wq_step any_id)\<^sup>*\<^sup>* q0 q"
    and "claim q m dr = Inr (q', Some it)"
  shows "id it \<in> set (pending_ids q) \<and> set (pending_ids q') = set (pending_ids q) - {id it} \<and>
    items q' = items q \<and> dget (items q) (id it) = Some it \<and>
    dget (ops q') = (dget (ops q))(id it \<mapsto> Claimed) \<and>
    dget (moments q') (id it) = Some (Some m)"
proof -
  have "coherent q" using assms(1-3) wqs.inv_reachable by blast
  from this assms(4) show ?thesis
  proof (cases rule: claim_cases)
    case (some jt p t h)
    then show ?thesis by (simp add: fun_eq_iff)
  qed simp
qed

theorem claim_moves_one_wake_witness:
  "\<exists>q'. claim (loaded demo_file) ''m1'' (draw_of ''u'') =
      Inr (q', Some (demo_item ''b'' ''timer'' 2 ''T2'')) \<and>
    set (pending_ids q') = {''a''} \<and> dget (moments q') ''b'' = Some (Some ''m1'')"
proof -
  define q' where "q' = (case claim (loaded demo_file) ''m1'' (draw_of ''u'') of
    Inl _ \<Rightarrow> loaded demo_file | Inr (q, _) \<Rightarrow> q)"
  have c: "claim (loaded demo_file) ''m1'' (draw_of ''u'') =
      Inr (q', Some (demo_item ''b'' ''timer'' 2 ''T2''))"
    unfolding q'_def by code_simp
  have "pending_ids (loaded demo_file) = [''a'', ''b'']" by code_simp
  moreover have "id (demo_item ''b'' ''timer'' 2 ''T2'') = ''b''" by code_simp
  ultimately show ?thesis
    using c claim_moves_one_wake [OF load_demo rtranclp.rtrancl_refl c] by auto
qed

text \<open>
  Reusing the id of a finished wake breaks the claim order. The wake \<open>x\<close> is enqueued as a
  user message, cancelled, and enqueued again as background work behind a timer: \<open>peek\<close> shows
  the timer, but \<open>claim\<close> follows the stale key of the first enqueue and hands out \<open>x\<close>. So
  the hypothesis of new ids in the claim-order property cannot be dropped.
\<close>

theorem claim_order_lost_on_id_reuse:
  "\<exists>q q' it. (wq_step any_id)\<^sup>*\<^sup>* (cleared no_events) q \<and>
     claim q ''m'' (draw_of ''u'') = Inr (q', Some it) \<and> id it = ''x'' \<and> kind it = ''background'' \<and>
     map_option kind (peek q) = Some ''timer''"
proof -
  let ?d = "draw_of ''u''"
  let ?enq = "\<lambda>q knd w. projr (enqueue q knd None (Some w) (Some ''T1'') ?d)"
  define q1 where "q1 = fst (?enq (cleared no_events) ''user_message'' ''x'')"
  define q2 where "q2 = projr (cancel q1 ''x'' ''gone'' ?d)"
  define q3 where "q3 = fst (?enq q2 ''timer'' ''t'')"
  define q4 where "q4 = fst (?enq q3 ''background'' ''x'')"
  note defs = q1_def q2_def q3_def q4_def
  have s1: "enqueue (cleared no_events) ''user_message'' None (Some ''x'') (Some ''T1'') ?d
      = Inr (q1, snd (?enq (cleared no_events) ''user_message'' ''x''))"
    unfolding defs by code_simp
  have s2: "cancel q1 ''x'' ''gone'' ?d = Inr q2" unfolding defs by code_simp
  have s3: "enqueue q2 ''timer'' None (Some ''t'') (Some ''T1'') ?d
      = Inr (q3, snd (?enq q2 ''timer'' ''t''))" unfolding defs by code_simp
  have s4: "enqueue q3 ''background'' None (Some ''x'') (Some ''T1'') ?d
      = Inr (q4, snd (?enq q3 ''background'' ''x''))" unfolding defs by code_simp
  have t: "wq_step any_id (cleared no_events) q1" "wq_step any_id q1 q2"
    "wq_step any_id q2 q3" "wq_step any_id q3 q4"
    using wq_step.enqueue [OF s1, of any_id] wq_step.cancel [OF s2, of any_id]
      wq_step.enqueue [OF s3, of any_id] wq_step.enqueue [OF s4, of any_id]
    by (simp_all add: any_id_def)
  have "(wq_step any_id)\<^sup>*\<^sup>* (cleared no_events) q4"
    using t by (meson rtranclp.rtrancl_into_rtrancl rtranclp.rtrancl_refl)
  moreover have "claim q4 ''m'' ?d = Inr (fst (projr (claim q4 ''m'' ?d)),
      Some (demo_item ''x'' ''background'' 4 ''T1''))" unfolding defs by code_simp
  moreover have "map_option kind (peek q4) = Some ''timer''" unfolding defs by code_simp
  moreover have "id (demo_item ''x'' ''background'' 4 ''T1'') = ''x''"
    "kind (demo_item ''x'' ''background'' 4 ''T1'') = ''background''" by (simp_all add: demo_item_def)
  ultimately show ?thesis by blast
qed

text \<open>
  C3. Crash recovery. On any queue reached from a loaded file, with fresh uuids,
  \<open>recover_claimed\<close> succeeds and leaves no wake claimed: every claimed wake is cancelled; the
  returned clones carry, in order, the kind and payload of exactly the claimed timer,
  task_ready and moment_continue wakes, each pending under a new id; social and background
  wakes are not redelivered; no other wake changes.
\<close>

theorem recover_claimed_redelivers_durable_work:
  assumes "\<not> torn f" and "load f = Inr q0" and "(wq_step any_id)\<^sup>*\<^sup>* q0 q"
    and "fresh_draws q ds 0"
  shows "\<exists>q' out. recover_claimed q ds = Inr (q', out) \<and>
    claimed_ids q' = [] \<and>
    (\<forall>w\<in>set (claimed_ids q). status q' w = Some Cancelled) \<and>
    map work_of out = map work_of (filter durable (claimed q)) \<and>
    (\<forall>c\<in>set out. status q (id c) = None \<and> status q' (id c) = Some Enqueue \<and>
       get q' (id c) = Some c) \<and>
    (\<forall>v. v \<notin> set (claimed_ids q) \<longrightarrow> v \<notin> id ` set out \<longrightarrow>
       status q' v = status q v \<and> get q' v = get q v)"
proof -
  have coh: "coherent q" using assms(1-3) wqs.inv_reachable by blast
  then have dist: "distinct (dkeys (ops q))"
    using coherent_live_ids by (simp add: live_ids_def)
  note ids = claimed_ids_iff [OF dist]
  obtain q' out where r: "recover_claimed q ds = Inr (q', out)"
    "recovered q (claimed_ids q) q' out"
    using recover_loop_ok [OF coh ids(2) _ assms(4), of "[]"] ids(1)
    by (auto simp: recover_claimed_def)
  have "coherent q'" using recover_claimed_run [OF r(1)] coh run_coherent by blast
  then have dist': "distinct (dkeys (ops q'))"
    using coherent_live_ids by (simp add: live_ids_def)
  have "status q' w \<noteq> Some Claimed" for w
  proof (cases "w \<in> set (claimed_ids q) \<or> w \<in> id ` set out")
    case True
    with r(2) show ?thesis by (auto simp: recovered_def status_def)
  next
    case False
    with r(2) ids(1) show ?thesis by (auto simp: recovered_def status_def)
  qed
  then have "claimed_ids q' = []"
    using claimed_ids_iff(1) [OF dist'] by (metis list.set_intros(1) neq_Nil_conv status_def)
  with r show ?thesis
    by (intro exI [of _ q'] exI [of _ out]) (simp add: recovered_def status_def get_def claimed_def)
qed

text \<open>A file whose timer and user message were claimed when the process died.\<close>

definition crash_file :: events_file where
  "crash_file = \<lparr>lines = [Row (enqueue_event ''T1'' (demo_item ''a'' ''user_message'' 0 ''T1'')),
     Row (enqueue_event ''T2'' (demo_item ''b'' ''timer'' 2 ''T2'')),
     Row (claimed_event ''T3'' ''a'' ''m1''), Row (claimed_event ''T4'' ''b'' ''m2'')],
     torn = False\<rparr>"

lemma load_crash: "\<not> torn crash_file" "load crash_file = Inr (loaded crash_file)"
  by code_simp+

definition nat_draws :: draws where
  "nat_draws i = draw_of (''u'' @ replicate i (CHR ''x''))"

lemma nat_draws_fresh:
  assumes "\<And>w. dget (ops q) w \<noteq> None \<Longrightarrow> take 1 w \<noteq> ''u''"
  shows "fresh_draws q nat_draws i"
proof -
  have "dget (ops q) (uuid4 (nat_draws j)) = None" for j
    using assms [of "uuid4 (nat_draws j)"]
    by (cases "dget (ops q) (uuid4 (nat_draws j))") (simp_all add: nat_draws_def draw_of_def)
  moreover have "uuid4 (nat_draws j) \<noteq> uuid4 (nat_draws k)" if "j < k" for j k
    using that by (auto simp: nat_draws_def draw_of_def replicate_eq_replicate)
  ultimately show ?thesis by (simp add: fresh_draws_def)
qed

theorem recover_claimed_redelivers_durable_work_witness:
  "\<exists>q' out. recover_claimed (loaded crash_file) nat_draws = Inr (q', out) \<and>
     claimed_ids q' = [] \<and> map work_of out = [(''timer'', [])] \<and>
     status q' ''a'' = Some Cancelled"
proof -
  have "ops (loaded crash_file) = [(''a'', Claimed), (''b'', Claimed)]" by code_simp
  then have fr: "fresh_draws (loaded crash_file) nat_draws 0"
    by (intro nat_draws_fresh) (auto split: if_splits)
  have "map work_of (filter durable (claimed (loaded crash_file))) = [(''timer'', [])]"
    "''a'' \<in> set (claimed_ids (loaded crash_file))" by code_simp+
  then show ?thesis
    using recover_claimed_redelivers_durable_work [OF load_crash rtranclp.rtrancl_refl fr] by auto
qed

text \<open>
  Dedupe of task_ready. On any queue reached from a loaded file, with fresh uuids,
  \<open>enqueue_task_ready\<close> for a non-empty task id succeeds, and afterwards the new wake is the only
  pending task_ready wake of that task; every other wake, a claimed one for the same task
  included, keeps its lifecycle state.
\<close>

theorem enqueue_task_ready_dedupes:
  assumes "\<not> torn f" and "load f = Inr q0" and "(wq_step any_id)\<^sup>*\<^sup>* q0 q"
    and "fresh_draws q ds 0" and "task \<noteq> []"
  shows "\<exists>q' it. enqueue_task_ready q task goal pl ds = Inr (q', it) \<and>
    pending_task_ready q' task = [it] \<and>
    kind it = ''task_ready'' \<and> jget (payload it) ''task_id'' = JStr task \<and>
    (\<forall>v. v \<noteq> id it \<longrightarrow> v \<notin> id ` set (pending_task_ready q task) \<longrightarrow> status q' v = status q v)"
proof -
  have coh: "coherent q" using assms(1-3) wqs.inv_reachable by blast
  note live = coherent_live_ids [OF coh]
  define T :: "wake_item \<Rightarrow> bool" where
    "T = (\<lambda>it. kind it = ''task_ready'' \<and> jget (payload it) ''task_id'' = JStr task)"
  define olds where "olds = pending_where q T"
  have olds_ids: "map id (pending_task_ready q task) = olds"
    unfolding pending_task_ready_def olds_def T_def [symmetric] by (rule ids_items_of_pending [OF live])
  define body where "body = (let b = dset (case pl of None \<Rightarrow> [] | Some d \<Rightarrow> d) ''task_id'' (JStr task)
    in case goal of None \<Rightarrow> b | Some g \<Rightarrow> dset b ''goal_id'' (JStr g))"
  obtain q1 where q1: "cancel_loop q olds REASON_REPLACED ds 0 = Inr q1" "items q1 = items q"
    "\<And>v. dget (ops q1) v = (if v \<in> set olds then Some Cancelled else dget (ops q) v)"
    "set (pending_ids q1) = set (pending_ids q) - set olds"
    by (rule cancel_loop_pending [OF live, of olds]) (auto simp: olds_def pending_where_def)
  let ?u = "uuid4 (ds (length olds))"
  have u: "dget (ops q) ?u = None" using assms(4) by (simp add: fresh_draws_def)
  moreover have "?u \<notin> set olds"
    using u by (auto simp: olds_def pending_where_def split: option.splits)
  ultimately have "dget (ops q1) ?u = None" by (simp add: q1(3))
  then obtain q' it where
    e: "enqueue q1 ''task_ready'' (Some body) None None (ds (length olds)) = Inr (q', it)"
    using enqueue_ok [of "''task_ready''" q1 None "ds (length olds)" "Some body" None]
    by (auto simp: str_or_def KNOWN_KINDS_def KIND_PRIORITY_def)
  note e' = enqueue_Inr [OF e]
  have it: "kind it = ''task_ready''" "id it = ?u" "T it"
    using e'(2-4) by (auto simp: str_or_def T_def body_def jget_def Let_def split: option.splits)
  have "enqueue_task_ready q task goal pl ds = Inr (q', it)"
    using assms(5) q1(1) e by (simp add: enqueue_task_ready_def Let_def olds_ids body_def flip: length_map [of id])
  moreover have "pending_task_ready q' task = [it]"
  proof -
    have "?u \<notin> set (pending_ids q1)"
      using live u q1(4) unfolding live_ids_def by auto
    then have "pending_ids q' = pending_ids q1 @ [?u]"
      by (simp add: e'(6) it(2) set_add_def)
    moreover have "\<not> (case dget (items q') w of None \<Rightarrow> False
        | Some jt \<Rightarrow> T jt \<and> dget (ops q') w = Some Enqueue)" if "w \<in> set (pending_ids q1)" for w
    proof -
      from that have w: "w \<in> set (pending_ids q)" "w \<notin> set olds" "w \<noteq> ?u"
        using q1(4) \<open>?u \<notin> set (pending_ids q1)\<close> by auto
      with live obtain jt where "dget (items q) w = Some jt" "dget (ops q) w = Some Enqueue"
        by (auto elim: live_idsD)
      with w show ?thesis
        by (auto simp: olds_def pending_where_def e'(6) it(2) q1(2))
    qed
    moreover have "dget (items q') ?u = Some it" "dget (ops q') ?u = Some Enqueue"
      by (simp_all add: e'(6) it(2))
    ultimately have "pending_where q' T = [?u]"
      using it(3) unfolding pending_where_def by (simp add: filter_empty_conv)
    then show ?thesis
      unfolding pending_task_ready_def T_def [symmetric] by (simp add: items_of_def e'(6) it(2))
  qed
  moreover have "status q' v = status q v" if "v \<noteq> id it" "v \<notin> id ` set (pending_task_ready q task)" for v
    using that q1(3) olds_ids by (simp add: status_def e'(6)) (metis list.set_map)
  ultimately show ?thesis using it by (auto simp: T_def)
qed

theorem enqueue_task_ready_dedupes_witness:
  "\<exists>q' it. enqueue_task_ready (loaded crash_file) ''t1'' None None nat_draws = Inr (q', it) \<and>
     pending_task_ready q' ''t1'' = [it] \<and> status q' ''b'' = Some Claimed"
proof -
  have o: "ops (loaded crash_file) = [(''a'', Claimed), (''b'', Claimed)]" by code_simp
  then have fr: "fresh_draws (loaded crash_file) nat_draws 0"
    by (intro nat_draws_fresh) (auto split: if_splits)
  obtain q' it where e: "enqueue_task_ready (loaded crash_file) ''t1'' None None nat_draws = Inr (q', it)"
    "pending_task_ready q' ''t1'' = [it]"
    "\<And>v. v \<noteq> id it \<Longrightarrow> v \<notin> id ` set (pending_task_ready (loaded crash_file) ''t1'') \<Longrightarrow>
       status q' v = status (loaded crash_file) v"
    using enqueue_task_ready_dedupes [OF load_crash rtranclp.rtrancl_refl fr, of "''t1''" None None]
    by auto
  have p: "pending_task_ready (loaded crash_file) ''t1'' = []" by code_simp
  have "map id (pending_task_ready q' ''t1'') = [''u'']"
  proof -
    have "map id (pending_task_ready (fst (projr (enqueue_task_ready (loaded crash_file) ''t1'' None None nat_draws))) ''t1'') = [''u'']"
      by code_simp
    then show ?thesis by (simp add: e(1))
  qed
  then have "id it = ''u''" by (simp add: e(2))
  with e(3) [of "''b''"] p o have "status q' ''b'' = Some Claimed" by (simp add: status_def)
  with e show ?thesis by blast
qed

text \<open>
  Switching a kind off. On any queue reached from a loaded file,
  \<open>cancel_all_pending_of_kind\<close> for a known kind succeeds; afterwards no wake of that kind is
  pending, the returned ids are the ones that were, and every other wake, claimed wakes of the
  same kind included, keeps its lifecycle state. An unknown kind raises and changes nothing.
\<close>

theorem cancel_all_pending_of_kind_exact:
  assumes "\<not> torn f" and "load f = Inr q0" and "(wq_step any_id)\<^sup>*\<^sup>* q0 q"
  shows "if knd \<in> set KNOWN_KINDS
    then \<exists>q' ws. cancel_all_pending_of_kind q knd reason ds = Inr (q', ws) \<and>
      pending_of_kind q' knd = [] \<and>
      set ws = {w. status q w = Some Enqueue \<and> map_option kind (get q w) = Some knd} \<and>
      (\<forall>v. status q' v = (if v \<in> set ws then Some Cancelled else status q v))
    else cancel_all_pending_of_kind q knd reason ds = Inl (ValueError ''unknown wake kind'')"
proof (cases "knd \<in> set KNOWN_KINDS")
  case False
  then show ?thesis by (simp add: cancel_all_pending_of_kind_def)
next
  case True
  have coh: "coherent q" using assms wqs.inv_reachable by blast
  note live = coherent_live_ids [OF coh]
  define ws where "ws = pending_where q (\<lambda>it. kind it = knd)"
  have ws: "set ws = {w. status q w = Some Enqueue \<and> map_option kind (get q w) = Some knd}"
    using live unfolding ws_def live_ids_def pending_where_def status_def get_def
    by (auto split: option.splits)
  obtain q' where q': "cancel_loop q ws reason ds 0 = Inr q'" "items q' = items q"
    "\<And>v. dget (ops q') v = (if v \<in> set ws then Some Cancelled else dget (ops q) v)"
    "set (pending_ids q') = set (pending_ids q) - set ws"
    by (rule cancel_loop_pending [OF live, of ws]) (auto simp: ws_def pending_where_def)
  have "pending_where q' (\<lambda>it. kind it = knd) = []"
    unfolding pending_where_def filter_empty_conv
    using ws by (auto simp: q' status_def get_def split: option.splits)
  then have "pending_of_kind q' knd = []" by (simp add: pending_of_kind_def items_of_def)
  moreover have "cancel_all_pending_of_kind q knd reason ds = Inr (q', ws)"
    using True q'(1) by (simp add: cancel_all_pending_of_kind_def ws_def)
  ultimately show ?thesis using True ws q'(3) by (auto simp: status_def)
qed

theorem cancel_all_pending_of_kind_exact_witness:
  "\<exists>q' ws. cancel_all_pending_of_kind (loaded demo_file) ''timer'' ''off'' nat_draws = Inr (q', ws) \<and>
     status q' ''b'' = Some Cancelled \<and> status q' ''a'' = Some Enqueue"
proof -
  have k: "''timer'' \<in> set KNOWN_KINDS" by code_simp
  have s: "status (loaded demo_file) ''a'' = Some Enqueue"
    "status (loaded demo_file) ''b'' = Some Enqueue"
    "map_option kind (get (loaded demo_file) ''a'') = Some ''background''"
    "map_option kind (get (loaded demo_file) ''b'') = Some ''timer''" by code_simp+
  obtain q' ws where r:
    "cancel_all_pending_of_kind (loaded demo_file) ''timer'' ''off'' nat_draws = Inr (q', ws)"
    "set ws = {w. status (loaded demo_file) w = Some Enqueue \<and>
       map_option kind (get (loaded demo_file) w) = Some ''timer''}"
    "\<And>v. status q' v = (if v \<in> set ws then Some Cancelled else status (loaded demo_file) v)"
    using cancel_all_pending_of_kind_exact [OF load_demo rtranclp.rtrancl_refl,
        of "''timer''" "''off''" nat_draws] k by auto
  with s have "''b'' \<in> set ws" "''a'' \<notin> set ws" by (simp, force)
  with r s show ?thesis by auto
qed

text \<open>
  A torn last line swallows the next record. When a crash left an unterminated line at the
  end of the events file, the next enqueue under a new id succeeds in memory, but its record is
  glued to the torn line: after a reload the queue does not know the wake. The append does not
  complete a torn line first, as the moment store's append does.
\<close>

theorem enqueue_after_torn_line_is_lost:
  assumes "load f = Inr q" and "torn f" and "enqueue q knd pl wid cr dr = Inr (q', it)"
    and "status q (id it) = None"
  shows "status q' (id it) = Some Enqueue \<and>
    (\<exists>q''. reload q' = Inr q'' \<and> status q'' (id it) = None)"
proof -
  note e = enqueue_Inr [OF assms(3)]
  obtain s where s: "fold_events (read_events f) = Inr s" "q = apply_fold f s"
    using assms(1) by (auto simp: load_def bind_res_eq_Inr)
  then have "events q = f" by simp
  then have "events q' = f\<lparr>torn := False\<rparr>"
    using assms(2) by (simp add: e(6) append_event_def)
  then have "reload q' = Inr (apply_fold (f\<lparr>torn := False\<rparr>) s)"
    using s(1) by (simp add: reload_def load_def read_events_def)
  moreover have "agrees s (apply_fold g s)" for g
    using s(1) by (simp add: apply_fold_agrees fold_events_slots_ok)
  then have "same_view (apply_fold (f\<lparr>torn := False\<rparr>) s) q"
    using s(2) agrees_same_view by blast
  then have "status (apply_fold (f\<lparr>torn := False\<rparr>) s) (id it) = None"
    using assms(4) by (simp add: same_view_def status_def)
  ultimately show ?thesis by (simp add: status_def e(6))
qed

theorem enqueue_after_torn_line_is_lost_witness:
  "\<exists>q' it q''. enqueue (loaded \<lparr>lines = [Garbage], torn = True\<rparr>) ''timer'' None (Some ''w'') None
      (draw_of ''u'') = Inr (q', it) \<and> reload q' = Inr q'' \<and> status q'' (id it) = None"
proof -
  let ?f = "\<lparr>lines = [Garbage], torn = True\<rparr>"
  let ?e = "projr (enqueue (loaded ?f) ''timer'' None (Some ''w'') None (draw_of ''u''))"
  have l: "load ?f = Inr (loaded ?f)" by code_simp
  have e: "enqueue (loaded ?f) ''timer'' None (Some ''w'') None (draw_of ''u'') = Inr (fst ?e, snd ?e)"
    by code_simp
  have n: "status (loaded ?f) (id (snd ?e)) = None" by code_simp
  obtain q'' where "reload (fst ?e) = Inr q''" "status q'' (id (snd ?e)) = None"
    using enqueue_after_torn_line_is_lost [OF l _ e n] by auto
  with e show ?thesis by blast
qed

text \<open>
  One row can stop the whole load. \<open>fold_events\<close> skips rows that raise \<open>KeyError\<close>,
  \<open>TypeError\<close> or \<open>ValueError\<close>, but converting an infinite priority raises \<open>OverflowError\<close>,
  which is not caught: a file with such a row does not load, whatever precedes it.
\<close>

theorem infinite_priority_row_stops_load:
  "\<exists>row. \<forall>f g. load \<lparr>lines = f @ Row row # g, torn = False\<rparr> = Inl OverflowError \<or>
     (\<exists>e. load \<lparr>lines = f, torn = False\<rparr> = Inl e)"
proof (intro exI allI)
  let ?item = "[(''id'', JStr ''w''), (''kind'', JStr ''timer''),
    (''priority'', JFloat ''inf'' None), (''created_at'', JStr ''T'')]"
  let ?row = "JObj [(''wake_id'', JStr ''w''), (''op'', JStr ''enqueue''), (''item'', JObj ?item)]"
  fix f g
  have row: "fold_event s ?row = Inl OverflowError" for s
    by (simp add: fold_event_def op_parse_def jget_def parse_wake_item_def from_dict_def jindex_def
        Let_def)
  have read: "read_events \<lparr>lines = f @ Row ?row # g, torn = False\<rparr> =
    read_events \<lparr>lines = f, torn = False\<rparr> @ ?row # read_events \<lparr>lines = g, torn = False\<rparr>"
    by (simp add: read_events_def List.map_filter_def)
  show "load \<lparr>lines = f @ Row ?row # g, torn = False\<rparr> = Inl OverflowError \<or>
     (\<exists>e. load \<lparr>lines = f, torn = False\<rparr> = Inl e)"
    by (cases "fold_events (read_events \<lparr>lines = f, torn = False\<rparr>)")
      (simp_all add: load_def read fold_events_def foldl_res_append row)
qed

end
