(* ===== verification/Timers.thy ===== *)
theory Timers
  imports Wake_Queue
begin

text \<open>
  The timer service of \<open>elyra/presence/timers.py\<close>: scheduled timers, durable waits, their
  snapshot files, firing into the wake queue, and the reconciliation after a crash. The
  snapshot files are kept at the level of the rows they hold (a missing or corrupt file is the
  empty list of rows); the atomic replace of a file either installs all rows or raises and
  leaves the file as it was. Time is an integer number of microseconds.
\<close>

section \<open>Environment and data\<close>

text \<open>
  What the service reads from outside: the ISO parser (\<open>None\<close> where it raises
  \<open>ValueError\<close>) and printer, two clock readings, the decimal text of a float, whether the
  i-th snapshot write succeeds, and uuids.
\<close>

record tenv =
  parse_utc :: "string \<Rightarrow> int option"
  as_iso :: "int \<Rightarrow> string"
  clock :: int
  clock2 :: int
  float_repr :: "rat \<Rightarrow> string"
  persist_ok :: "nat \<Rightarrow> bool"
  tdraws :: draws

abbreviation STATUS_SCHEDULED :: string where "STATUS_SCHEDULED \<equiv> ''scheduled''"
abbreviation STATUS_FIRED :: string where "STATUS_FIRED \<equiv> ''fired''"
abbreviation STATUS_CANCELLED :: string where "STATUS_CANCELLED \<equiv> ''cancelled''"
abbreviation STATUS_PENDING :: string where "STATUS_PENDING \<equiv> ''pending''"
abbreviation STATUS_ANSWERED :: string where "STATUS_ANSWERED \<equiv> ''answered''"
abbreviation STATUS_TIMED_OUT :: string where "STATUS_TIMED_OUT \<equiv> ''timed_out''"

record pending_timer =
  t_id :: string
  wake_at :: string
  t_reason :: string
  t_goal_id :: "string option"
  t_task_id :: "string option"
  t_status :: string
  t_wake_id :: "string option"

record pending_wait =
  w_id :: string
  w_prompt :: string
  w_choices :: "string list"
  w_user_id :: string
  w_moment_id :: string
  expires_at :: string
  w_timeout :: "rat option"
  armed_at :: "string option"
  w_status :: string
  w_wake_id :: "string option"

record timer_service =
  queue :: wake_queue
  timers :: "(string, pending_timer) dict"
  waits :: "(string, pending_wait) dict"
  timers_file :: "pending_timer list"
  waits_file :: "pending_wait list"

definition dvals :: "('k, 'v) dict \<Rightarrow> 'v list" where
  "dvals d = map snd d"

definition load_service :: "timer_service \<Rightarrow> timer_service" where
  "load_service s =
     s\<lparr>timers := dict_of_pairs (map (\<lambda>t. (t_id t, t)) (timers_file s)),
       waits := dict_of_pairs (map (\<lambda>w. (w_id w, w)) (waits_file s))\<rparr>"

definition persist_timers :: "timer_service \<Rightarrow> timer_service" where
  "persist_timers s = s\<lparr>timers_file := sort_key (\<lambda>t. (wake_at t, t_id t)) (dvals (timers s))\<rparr>"

definition persist_waits :: "timer_service \<Rightarrow> timer_service" where
  "persist_waits s = s\<lparr>waits_file := sort_key (\<lambda>w. (expires_at w, w_id w)) (dvals (waits s))\<rparr>"

text \<open>
  Changing one entry and persisting it. When the write raises, the code restores the previous
  entry (or removes a new one) and re-raises: the state is the one before.
\<close>

definition put_timer :: "bool \<Rightarrow> timer_service \<Rightarrow> pending_timer \<Rightarrow> timer_service res" where
  "put_timer ok s t =
     (if ok then Inr (persist_timers (s\<lparr>timers := dset (timers s) (t_id t) t\<rparr>)) else Inl OSError)"

definition put_wait :: "bool \<Rightarrow> timer_service \<Rightarrow> pending_wait \<Rightarrow> timer_service res" where
  "put_wait ok s w =
     (if ok then Inr (persist_waits (s\<lparr>waits := dset (waits s) (w_id w) w\<rparr>)) else Inl OSError)"

definition wake_exists :: "timer_service \<Rightarrow> string option \<Rightarrow> bool" where
  "wake_exists s wake_id =
     (if blank_str wake_id then False else Wake_Queue.get (queue s) (the wake_id) \<noteq> None)"

definition timer_payload :: "pending_timer \<Rightarrow> jdict" where
  "timer_payload t =
     (let p0 = [(''wake_at'', JStr (wake_at t)), (''reason'', JStr (t_reason t)),
                (''timer_id'', JStr (t_id t))];
          p1 = (case t_goal_id t of None \<Rightarrow> p0 | Some g \<Rightarrow> dset p0 ''goal_id'' (JStr g))
      in case t_task_id t of None \<Rightarrow> p1 | Some k \<Rightarrow> dset p1 ''task_id'' (JStr k))"

text \<open>\<open>timedelta(seconds=q)\<close>: rounded to whole microseconds, halves to even.\<close>

definition round_half_even :: "rat \<Rightarrow> int" where
  "round_half_even q =
     (let f = \<lfloor>q\<rfloor>; r = q - of_int f in
      if r < 1/2 then f else if r > 1/2 then f + 1 else if even f then f else f + 1)"

definition timedelta_us :: "rat \<Rightarrow> int" where
  "timedelta_us q = round_half_even (q * 1000000)"

definition total_seconds :: "int \<Rightarrow> rat" where
  "total_seconds us = of_int us / 1000000"

definition wait_elapsed_s :: "tenv \<Rightarrow> pending_wait \<Rightarrow> int \<Rightarrow> rat option" where
  "wait_elapsed_s E w now =
     (let fallback =
        (case w_timeout w of
           None \<Rightarrow> None
         | Some q \<Rightarrow>
             if expires_at w = [] then None
             else case parse_utc E (expires_at w) of
                    None \<Rightarrow> None
                  | Some ex \<Rightarrow> Some (max 0 (total_seconds (now - (ex - timedelta_us q)))))
      in if blank_str (armed_at w) then fallback
         else case parse_utc E (the (armed_at w)) of
                None \<Rightarrow> fallback
              | Some armed \<Rightarrow>
                  if armed \<le> now then Some (max 0 (total_seconds (now - armed))) else fallback)"

definition wait_timeout_payload :: "tenv \<Rightarrow> pending_wait \<Rightarrow> int \<Rightarrow> jdict" where
  "wait_timeout_payload E w now =
     (let p = [(''wait_id'', JStr (w_id w)), (''moment_id'', JStr (w_moment_id w)),
               (''choices_offered'', JArr (map JStr (w_choices w))),
               (''prompt'', JStr (w_prompt w)), (''user_id'', JStr (w_user_id w))]
      in case wait_elapsed_s E w now of
           None \<Rightarrow> p
         | Some q \<Rightarrow> dset p ''wait_elapsed_s'' (JFloat (float_repr E q) (Some q)))"

section \<open>Reconciliation of orphans\<close>

text \<open>
  The loops of the service. The first component of a result is the list returned or the
  exception raised; the second is the state at that moment, kept in both cases.
\<close>

type_synonym 'a outcome = "'a res \<times> timer_service"

fun reconcile_timers ::
  "tenv \<Rightarrow> nat \<Rightarrow> pending_timer list \<Rightarrow> timer_service \<Rightarrow> wake_item list \<Rightarrow> wake_item list outcome" where
  "reconcile_timers E i [] s acc = (Inr acc, s)"
| "reconcile_timers E i (t # ts) s acc =
     (if t_status t \<noteq> STATUS_FIRED \<or> blank_str (t_wake_id t) then reconcile_timers E i ts s acc
      else if wake_exists s (t_wake_id t) then reconcile_timers E i ts s acc
      else case enqueue (queue s) ''timer'' (Some (timer_payload t)) (t_wake_id t) None (tdraws E i) of
             Inl e \<Rightarrow> (Inl e, s)
           | Inr (q', item) \<Rightarrow> reconcile_timers E (i + 1) ts (s\<lparr>queue := q'\<rparr>) (acc @ [item]))"

definition reconcile_orphaned_timer_fires :: "tenv \<Rightarrow> nat \<Rightarrow> timer_service \<Rightarrow> wake_item list outcome" where
  "reconcile_orphaned_timer_fires E i s =
     reconcile_timers E i (sort_key (\<lambda>t. (wake_at t, t_id t)) (dvals (timers s))) s []"

fun reconcile_waits ::
  "tenv \<Rightarrow> nat \<Rightarrow> int \<Rightarrow> pending_wait list \<Rightarrow> timer_service \<Rightarrow> wake_item list \<Rightarrow> wake_item list outcome" where
  "reconcile_waits E i now [] s acc = (Inr acc, s)"
| "reconcile_waits E i now (w # ws) s acc =
     (if w_status w \<noteq> STATUS_TIMED_OUT \<or> blank_str (w_wake_id w) then reconcile_waits E i now ws s acc
      else if wake_exists s (w_wake_id w) then reconcile_waits E i now ws s acc
      else case enqueue (queue s) ''wait_timeout'' (Some (wait_timeout_payload E w now))
                  (w_wake_id w) None (tdraws E i) of
             Inl e \<Rightarrow> (Inl e, s)
           | Inr (q', item) \<Rightarrow> reconcile_waits E (i + 1) now ws (s\<lparr>queue := q'\<rparr>) (acc @ [item]))"

definition reconcile_orphaned_wait_timeouts ::
  "tenv \<Rightarrow> nat \<Rightarrow> int \<Rightarrow> timer_service \<Rightarrow> wake_item list outcome" where
  "reconcile_orphaned_wait_timeouts E i now s =
     reconcile_waits E i now (sort_key (\<lambda>w. (expires_at w, w_id w)) (dvals (waits s))) s []"

section \<open>Timers\<close>

datatype when_arg = AtStr string | AtTime int

definition when_str :: "tenv \<Rightarrow> when_arg \<Rightarrow> string res" where
  "when_str E a =
     (case a of
        AtTime t \<Rightarrow> Inr (as_iso E t)
      | AtStr x \<Rightarrow> (case parse_utc E x of None \<Rightarrow> Inl (ValueError ''isoformat'') | Some _ \<Rightarrow> Inr x))"

definition schedule_timer ::
  "tenv \<Rightarrow> timer_service \<Rightarrow> when_arg \<Rightarrow> string \<Rightarrow> string option \<Rightarrow> string option \<Rightarrow> string option \<Rightarrow>
   (timer_service \<times> pending_timer) res" where
  "schedule_timer E s wake_at_arg reason goal task tid =
     bind_res (when_str E wake_at_arg) (\<lambda>wa.
       let timer = \<lparr>t_id = str_or tid (uuid4 (tdraws E 0)), wake_at = wa, t_reason = reason,
                    t_goal_id = goal, t_task_id = task, t_status = STATUS_SCHEDULED, t_wake_id = None\<rparr>
       in bind_res (put_timer (persist_ok E 0) s timer) (\<lambda>s'. Inr (s', timer)))"

definition cancel_timer :: "tenv \<Rightarrow> timer_service \<Rightarrow> string \<Rightarrow> timer_service res" where
  "cancel_timer E s timer_id =
     (case dget (timers s) timer_id of
        None \<Rightarrow> Inl (KeyError ''unknown timer_id'')
      | Some t \<Rightarrow>
          if t_status t \<noteq> STATUS_SCHEDULED then Inr s
          else put_timer (persist_ok E 0) s (t\<lparr>t_status := STATUS_CANCELLED\<rparr>))"

definition list_timers :: "timer_service \<Rightarrow> string option \<Rightarrow> pending_timer list" where
  "list_timers s st =
     sort_key (\<lambda>t. (wake_at t, t_id t))
       (filter (\<lambda>t. case st of None \<Rightarrow> True | Some x \<Rightarrow> t_status t = x) (dvals (timers s)))"

datatype now_arg = NowClock | NowStr string | NowTime int

definition resolve_now :: "tenv \<Rightarrow> now_arg \<Rightarrow> int res" where
  "resolve_now E n =
     (case n of
        NowClock \<Rightarrow> Inr (clock E)
      | NowStr x \<Rightarrow> (case parse_utc E x of None \<Rightarrow> Inl (ValueError ''isoformat'') | Some t \<Rightarrow> Inr t)
      | NowTime t \<Rightarrow> Inr t)"

text \<open>The comprehension that selects due entries parses each candidate, so it may raise.\<close>

fun select_due :: "('a \<Rightarrow> bool) \<Rightarrow> ('a \<Rightarrow> int option) \<Rightarrow> int \<Rightarrow> 'a list \<Rightarrow> 'a list res" where
  "select_due cand tm now [] = Inr []"
| "select_due cand tm now (x # xs) =
     (if cand x
      then case tm x of
             None \<Rightarrow> Inl (ValueError ''isoformat'')
           | Some t \<Rightarrow> bind_res (select_due cand tm now xs)
                          (\<lambda>ys. Inr (if t \<le> now then x # ys else ys))
      else select_due cand tm now xs)"

fun fire_timers ::
  "tenv \<Rightarrow> nat \<Rightarrow> pending_timer list \<Rightarrow> timer_service \<Rightarrow> wake_item list \<Rightarrow> wake_item list outcome" where
  "fire_timers E i [] s acc = (Inr acc, s)"
| "fire_timers E i (t # ts) s acc =
     (let u = uuid4 (tdraws E i); t' = t\<lparr>t_status := STATUS_FIRED, t_wake_id := Some u\<rparr> in
      case put_timer (persist_ok E i) s t' of
        Inl e \<Rightarrow> (Inl e, s)
      | Inr s1 \<Rightarrow>
          (case enqueue (queue s1) ''timer'' (Some (timer_payload t')) (Some u) None (tdraws E i) of
             Inl e \<Rightarrow> (Inl e, s1)
           | Inr (q', item) \<Rightarrow> fire_timers E (i + 1) ts (s1\<lparr>queue := q'\<rparr>) (acc @ [item])))"

definition due_timers :: "tenv \<Rightarrow> int \<Rightarrow> timer_service \<Rightarrow> pending_timer list res" where
  "due_timers E now s =
     bind_res (select_due (\<lambda>t. t_status t = STATUS_SCHEDULED) (\<lambda>t. parse_utc E (wake_at t)) now
                 (dvals (timers s)))
       (\<lambda>due. Inr (sort_key (\<lambda>t. (wake_at t, t_id t)) due))"

definition schedule_due_at :: "tenv \<Rightarrow> nat \<Rightarrow> int \<Rightarrow> timer_service \<Rightarrow> wake_item list outcome" where
  "schedule_due_at E i now s =
     (case due_timers E now s of Inl e \<Rightarrow> (Inl e, s) | Inr due \<Rightarrow> fire_timers E i due s [])"

definition schedule_due :: "tenv \<Rightarrow> now_arg \<Rightarrow> timer_service \<Rightarrow> wake_item list outcome" where
  "schedule_due E n s =
     (case resolve_now E n of Inl e \<Rightarrow> (Inl e, s) | Inr now \<Rightarrow> schedule_due_at E 0 now s)"

text \<open>Sequencing of two list-returning phases; a raise in either leaves the operation.\<close>

definition andthen ::
  "wake_item list outcome \<Rightarrow> (nat \<Rightarrow> timer_service \<Rightarrow> wake_item list outcome) \<Rightarrow> nat \<Rightarrow>
   wake_item list outcome" where
  "andthen r f i =
     (case r of
        (Inl e, s) \<Rightarrow> (Inl e, s)
      | (Inr xs, s) \<Rightarrow>
          (case f (i + length xs) s of (Inl e, s') \<Rightarrow> (Inl e, s') | (Inr ys, s') \<Rightarrow> (Inr (xs @ ys), s')))"

definition rehydrate_timers :: "tenv \<Rightarrow> now_arg \<Rightarrow> timer_service \<Rightarrow> wake_item list outcome" where
  "rehydrate_timers E n s0 =
     andthen (reconcile_orphaned_timer_fires E 0 (load_service s0))
       (\<lambda>i s. case resolve_now E n of Inl e \<Rightarrow> (Inl e, s) | Inr now \<Rightarrow> schedule_due_at E i now s) 0"

section \<open>Waits\<close>

definition arm_wait ::
  "tenv \<Rightarrow> timer_service \<Rightarrow> string \<Rightarrow> string \<Rightarrow> string \<Rightarrow> when_arg option \<Rightarrow> rat option \<Rightarrow>
   string list option \<Rightarrow> string option \<Rightarrow> (timer_service \<times> pending_wait) res" where
  "arm_wait E s prompt user moment expires timeout choices wid =
     bind_res
       (case expires of
          None \<Rightarrow> (case timeout of
                    None \<Rightarrow> Inl (ValueError ''expires_at or timeout is required'')
                  | Some q \<Rightarrow> Inr (as_iso E (clock2 E + timedelta_us q)))
        | Some a \<Rightarrow> when_str E a)
       (\<lambda>ex.
          let wait = \<lparr>w_id = str_or wid (uuid4 (tdraws E 0)), w_prompt = prompt,
                      w_choices = (case choices of None \<Rightarrow> [] | Some c \<Rightarrow> c),
                      w_user_id = user, w_moment_id = moment, expires_at = ex,
                      w_timeout = timeout, armed_at = Some (as_iso E (clock E)),
                      w_status = STATUS_PENDING, w_wake_id = None\<rparr>
          in bind_res (put_wait (persist_ok E 0) s wait) (\<lambda>s'. Inr (s', wait)))"

definition get_wait :: "timer_service \<Rightarrow> string \<Rightarrow> pending_wait option" where
  "get_wait s wait_id = dget (waits s) wait_id"

definition list_waits :: "timer_service \<Rightarrow> string option \<Rightarrow> pending_wait list" where
  "list_waits s st =
     sort_key (\<lambda>w. (expires_at w, w_id w))
       (filter (\<lambda>w. case st of None \<Rightarrow> True | Some x \<Rightarrow> w_status w = x) (dvals (waits s)))"

definition end_wait ::
  "string \<Rightarrow> tenv \<Rightarrow> timer_service \<Rightarrow> string \<Rightarrow> (timer_service \<times> pending_wait) res" where
  "end_wait st E s wait_id =
     (case dget (waits s) wait_id of
        None \<Rightarrow> Inl (KeyError ''unknown wait_id'')
      | Some w \<Rightarrow>
          if w_status w \<noteq> STATUS_PENDING then Inr (s, w)
          else bind_res (put_wait (persist_ok E 0) s (w\<lparr>w_status := st\<rparr>))
                 (\<lambda>s'. Inr (s', w\<lparr>w_status := st\<rparr>)))"

definition mark_wait_answered :: "tenv \<Rightarrow> timer_service \<Rightarrow> string \<Rightarrow> (timer_service \<times> pending_wait) res" where
  "mark_wait_answered = end_wait STATUS_ANSWERED"

definition cancel_wait :: "tenv \<Rightarrow> timer_service \<Rightarrow> string \<Rightarrow> (timer_service \<times> pending_wait) res" where
  "cancel_wait = end_wait STATUS_CANCELLED"

fun fire_waits ::
  "tenv \<Rightarrow> nat \<Rightarrow> int \<Rightarrow> pending_wait list \<Rightarrow> timer_service \<Rightarrow> wake_item list \<Rightarrow> wake_item list outcome" where
  "fire_waits E i now [] s acc = (Inr acc, s)"
| "fire_waits E i now (w # ws) s acc =
     (let u = uuid4 (tdraws E i); w' = w\<lparr>w_status := STATUS_TIMED_OUT, w_wake_id := Some u\<rparr> in
      case put_wait (persist_ok E i) s w' of
        Inl e \<Rightarrow> (Inl e, s)
      | Inr s1 \<Rightarrow>
          (case enqueue (queue s1) ''wait_timeout'' (Some (wait_timeout_payload E w' now)) (Some u)
                  None (tdraws E i) of
             Inl e \<Rightarrow> (Inl e, s1)
           | Inr (q', item) \<Rightarrow> fire_waits E (i + 1) now ws (s1\<lparr>queue := q'\<rparr>) (acc @ [item])))"

definition due_waits :: "tenv \<Rightarrow> int \<Rightarrow> timer_service \<Rightarrow> pending_wait list res" where
  "due_waits E now s =
     bind_res (select_due (\<lambda>w. w_status w = STATUS_PENDING \<and> expires_at w \<noteq> [])
                 (\<lambda>w. parse_utc E (expires_at w)) now (dvals (waits s)))
       (\<lambda>due. Inr (sort_key (\<lambda>w. (expires_at w, w_id w)) due))"

definition check_timeouts_at :: "tenv \<Rightarrow> nat \<Rightarrow> int \<Rightarrow> timer_service \<Rightarrow> wake_item list outcome" where
  "check_timeouts_at E i now s =
     (case due_waits E now s of Inl e \<Rightarrow> (Inl e, s) | Inr due \<Rightarrow> fire_waits E i now due s [])"

definition check_timeouts :: "tenv \<Rightarrow> now_arg \<Rightarrow> timer_service \<Rightarrow> wake_item list outcome" where
  "check_timeouts E n s =
     (case resolve_now E n of Inl e \<Rightarrow> (Inl e, s) | Inr now \<Rightarrow> check_timeouts_at E 0 now s)"

definition rehydrate_waits :: "tenv \<Rightarrow> now_arg \<Rightarrow> timer_service \<Rightarrow> wake_item list outcome" where
  "rehydrate_waits E n s0 =
     (case resolve_now E n of
        Inl e \<Rightarrow> (Inl e, s0)
      | Inr now \<Rightarrow>
          andthen (reconcile_orphaned_wait_timeouts E 0 now (load_service s0))
            (\<lambda>i s. check_timeouts_at E i now s) 0)"

definition rehydrate :: "tenv \<Rightarrow> now_arg \<Rightarrow> timer_service \<Rightarrow> wake_item list outcome" where
  "rehydrate E n s0 =
     (case resolve_now E n of
        Inl e \<Rightarrow> (Inl e, s0)
      | Inr now \<Rightarrow>
          andthen
            (andthen
              (andthen (reconcile_orphaned_wait_timeouts E 0 now (load_service s0))
                 (\<lambda>i s. reconcile_orphaned_timer_fires E i s) 0)
              (\<lambda>i s. check_timeouts_at E i now s) 0)
            (\<lambda>i s. schedule_due_at E i now s) 0)"

text \<open>
  \<open>clear_all\<close> empties the maps first; a write that raises leaves them empty and the files it did
  not reach as they were.
\<close>

definition clear_all :: "tenv \<Rightarrow> timer_service \<Rightarrow> unit outcome" where
  "clear_all E s =
     (let s1 = s\<lparr>timers := [], waits := []\<rparr> in
      if \<not> persist_ok E 0 then (Inl OSError, s1)
      else let s2 = persist_timers s1 in
        if \<not> persist_ok E 1 then (Inl OSError, s2)
        else (Inr (), persist_waits s2))"

section \<open>Dictionaries keyed by an id of their values\<close>

definition keyed :: "('v \<Rightarrow> string) \<Rightarrow> (string, 'v) dict \<Rightarrow> bool" where
  "keyed f d \<longleftrightarrow> distinct (dkeys d) \<and> (\<forall>k v. (k, v) \<in> set d \<longrightarrow> k = f v)"

definition rows_of :: "('v \<Rightarrow> string) \<Rightarrow> 'v list \<Rightarrow> (string, 'v) dict" where
  "rows_of f xs = map (\<lambda>x. (f x, x)) xs"

text \<open>\<open>saved f rows d\<close>: a service that reads the rows back finds the dictionary \<open>d\<close>.\<close>

definition saved :: "('v \<Rightarrow> string) \<Rightarrow> 'v list \<Rightarrow> (string, 'v) dict \<Rightarrow> bool" where
  "saved f rows d \<longleftrightarrow> dget (dict_of_pairs (rows_of f rows)) = dget d"

lemma set_dset_subset: "set (dset d k v) \<subseteq> insert (k, v) (set d)"
  by (induction d) auto

lemma keyed_dset: "keyed f d \<Longrightarrow> keyed f (dset d (f v) v)"
  using set_dset_subset unfolding keyed_def by fastforce

lemma keyed_Nil [simp]: "keyed f []"
  by (simp add: keyed_def)

lemma dict_of_pairs_snoc: "dict_of_pairs (ps @ [(k, v)]) = dset (dict_of_pairs ps) k v"
  by (simp add: dict_of_pairs_def)

lemma keyed_rows: "keyed f (dict_of_pairs (rows_of f xs))"
proof (induction xs rule: rev_induct)
  case Nil
  then show ?case by (simp add: dict_of_pairs_def rows_of_def)
next
  case (snoc x xs)
  then show ?case by (simp add: dict_of_pairs_snoc rows_of_def keyed_dset)
qed

lemma dget_dict_of_pairs: "distinct (dkeys ps) \<Longrightarrow> dget (dict_of_pairs ps) = map_of ps"
proof (induction ps rule: rev_induct)
  case Nil
  then show ?case by (simp add: dict_of_pairs_def)
next
  case (snoc p ps)
  obtain k v where p: "p = (k, v)" by (cases p)
  from snoc have IH: "dget (dict_of_pairs ps) = map_of ps" by simp
  have "map_of ps k = None" using snoc.prems p by (simp add: map_of_eq_None_iff)
  then show ?case
    by (auto simp: p dict_of_pairs_snoc IH fun_eq_iff map_add_def split: option.split)
qed

lemma keyed_rows_dvals: "keyed f d \<Longrightarrow> rows_of f (dvals d) = d"
  by (induction d) (auto simp: keyed_def rows_of_def dvals_def)

lemma keyed_dget: "keyed f d \<Longrightarrow> dget d k = Some v \<Longrightarrow> f v = k"
  by (auto simp: keyed_def dest: map_of_SomeD)

lemma keyed_in_dvals:
  assumes "keyed f d"
  shows "v \<in> set (dvals d) \<longleftrightarrow> dget d (f v) = Some v"
proof
  assume "v \<in> set (dvals d)"
  then obtain k where "(k, v) \<in> set d" by (auto simp: dvals_def)
  with assms show "dget d (f v) = Some v" unfolding keyed_def by (metis map_of_is_SomeI)
next
  assume "dget d (f v) = Some v"
  then show "v \<in> set (dvals d)" by (force simp: dvals_def dest: map_of_SomeD)
qed

lemma keyed_distinct_ids: "keyed f d \<Longrightarrow> distinct (map f (dvals d))"
proof -
  assume "keyed f d"
  then have "map f (dvals d) = dkeys d" by (auto simp: keyed_def dvals_def)
  then show ?thesis using \<open>keyed f d\<close> by (simp add: keyed_def)
qed

text \<open>Sorting the rows before writing them does not change what is read back.\<close>

lemma saved_sorted:
  assumes "keyed f d"
  shows "saved f (sort_key g (dvals d)) d"
proof -
  have k: "distinct (map f (sort_key g (dvals d)))"
  proof -
    have "inj_on f (set (dvals d))" using keyed_distinct_ids [OF assms] by (simp add: distinct_map)
    then show ?thesis using keyed_distinct_ids [OF assms] by (simp add: distinct_map)
  qed
  have ks: "dkeys (rows_of f xs) = map f xs" for xs by (simp add: rows_of_def)
  have "map_of (rows_of f (sort_key g (dvals d))) = map_of (rows_of f (dvals d))"
  proof (rule map_of_inject_set [THEN iffD2])
    show "set (rows_of f (sort_key g (dvals d))) = set (rows_of f (dvals d))"
      by (simp add: rows_of_def)
  qed (use k keyed_distinct_ids [OF assms] in \<open>simp_all only: ks\<close>)
  then show ?thesis
    using k ks keyed_rows_dvals [OF assms] by (simp add: saved_def dget_dict_of_pairs)
qed

section \<open>Interfaces: a sink of wakes and the two delivery loops\<close>

text \<open>
  What the service needs from the queue: sending under an id the queue does not know succeeds,
  is found afterwards under that id, and changes nothing else.
\<close>

locale wake_sink =
  fixes send :: "'q \<Rightarrow> string \<Rightarrow> jdict \<Rightarrow> string \<Rightarrow> draw \<Rightarrow> ('q \<times> wake_item) res"
    and find :: "'q \<Rightarrow> string \<Rightarrow> 'v option"
    and new :: "wake_item \<Rightarrow> 'v"
    and good :: "'q \<Rightarrow> bool"
  assumes send_ok: "good q \<Longrightarrow> k \<in> set KNOWN_KINDS \<Longrightarrow> w \<noteq> [] \<Longrightarrow> find q w = None \<Longrightarrow>
      \<exists>q' it. send q k p w d = Inr (q', it)"
    and send_good: "good q \<Longrightarrow> send q k p w d = Inr (q', it) \<Longrightarrow> good q'"
    and send_find: "w \<noteq> [] \<Longrightarrow> send q k p w d = Inr (q', it) \<Longrightarrow> find q' = (find q)(w \<mapsto> new it)"
    and send_item: "w \<noteq> [] \<Longrightarrow> send q k p w d = Inr (q', it) \<Longrightarrow>
      id it = w \<and> kind it = k \<and> payload it = p"

text \<open>
  A loop that sends again what an earlier run marked as sent but the queue does not know.
  \<open>owed r\<close> is the id promised by row \<open>r\<close>, if it promises one.
\<close>

locale redelivery = wake_sink send find new good
  for send :: "'q \<Rightarrow> string \<Rightarrow> jdict \<Rightarrow> string \<Rightarrow> draw \<Rightarrow> ('q \<times> wake_item) res"
    and find :: "'q \<Rightarrow> string \<Rightarrow> 'v option" and new and good +
  fixes loop :: "nat \<Rightarrow> 'r list \<Rightarrow> 's \<Rightarrow> wake_item list \<Rightarrow> wake_item list res \<times> 's"
    and qof :: "'s \<Rightarrow> 'q" and setq :: "'q \<Rightarrow> 's \<Rightarrow> 's"
    and owed :: "'r \<Rightarrow> string option" and knd :: string and msg :: "'r \<Rightarrow> jdict" and ds :: draws
  assumes qof_setq: "qof (setq q s) = q"
    and setq_setq: "setq q' (setq q s) = setq q' s"
    and setq_qof: "setq (qof s) s = s"
    and knd_known: "knd \<in> set KNOWN_KINDS"
    and owed_id: "owed r = Some w \<Longrightarrow> w \<noteq> []"
    and loop_Nil: "loop i [] s acc = (Inr acc, s)"
    and loop_skip: "owed r = None \<Longrightarrow> loop i (r # rs) s acc = loop i rs s acc"
    and loop_known: "owed r = Some w \<Longrightarrow> find (qof s) w \<noteq> None \<Longrightarrow>
      loop i (r # rs) s acc = loop i rs s acc"
    and loop_send: "owed r = Some w \<Longrightarrow> find (qof s) w = None \<Longrightarrow>
      loop i (r # rs) s acc =
        (case send (qof s) knd (msg r) w (ds i) of
           Inl e \<Rightarrow> (Inl e, s)
         | Inr (q', it) \<Rightarrow> loop (i + 1) rs (setq q' s) (acc @ [it]))"
begin

text \<open>\<open>settled rs its s s'\<close>: the loop over \<open>rs\<close> sent exactly \<open>its\<close> between \<open>s\<close> and \<open>s'\<close>.\<close>

definition settled :: "'r list \<Rightarrow> wake_item list \<Rightarrow> 's \<Rightarrow> 's \<Rightarrow> bool" where
  "settled rs its s s' \<longleftrightarrow>
     good (qof s') \<and> s' = setq (qof s') s \<and>
     find (qof s') = find (qof s) ++ map_of (map (\<lambda>it. (id it, new it)) its) \<and>
     distinct (map id its) \<and>
     id ` set its = {w. find (qof s) w = None \<and> Some w \<in> owed ` set rs}"

lemma settled_Nil: "good (qof s) \<Longrightarrow> settled [] [] s s"
  by (simp add: settled_def setq_qof)

lemma settled_skip:
  "owed r = None \<or> (\<exists>w. owed r = Some w \<and> find (qof s) w \<noteq> None) \<Longrightarrow>
   settled rs its s s' \<Longrightarrow> settled (r # rs) its s s'"
  unfolding settled_def by auto

lemma settled_send:
  assumes "owed r = Some w" and "find (qof s) w = None"
    and "send (qof s) knd (msg r) w (ds i) = Inr (q', it)"
    and "settled rs its (setq q' s) s'"
  shows "settled (r # rs) (it # its) s s'"
proof -
  note w = owed_id [OF assms(1)]
  have f: "find q' = (find (qof s))(w \<mapsto> new it)" using send_find [OF w assms(3)] .
  have i: "id it = w" using send_item [OF w assms(3)] by simp
  note st = assms(4) [unfolded settled_def qof_setq setq_setq f]
  have nin: "w \<notin> id ` set its" using st by auto
  then have "map_of (map (\<lambda>it. (id it, new it)) its) w = None"
    by (auto simp: map_of_eq_None_iff)
  then have m: "(find (qof s))(w \<mapsto> new it) ++ map_of (map (\<lambda>it. (id it, new it)) its) =
      find (qof s) ++ map_of (map (\<lambda>it. (id it, new it)) (it # its))"
    by (auto simp: i fun_eq_iff map_add_def split: option.split)
  have ids: "id ` set (it # its) = {v. find (qof s) v = None \<and> Some v \<in> owed ` set (r # rs)}"
    using st assms(1,2) i by auto
  show ?thesis
    unfolding settled_def using st m ids nin i by simp
qed

lemma loop_settles:
  "good (qof s) \<Longrightarrow> \<exists>its s'. loop i rs s acc = (Inr (acc @ its), s') \<and> settled rs its s s'"
proof (induction rs arbitrary: i s acc)
  case Nil
  then show ?case using settled_Nil by (simp add: loop_Nil)
next
  case (Cons r rs)
  consider (skip) "owed r = None \<or> (\<exists>w. owed r = Some w \<and> find (qof s) w \<noteq> None)"
    | (send) w where "owed r = Some w" "find (qof s) w = None"
    by (cases "owed r") auto
  then show ?case
  proof cases
    case skip
    then have "loop i (r # rs) s acc = loop i rs s acc" using loop_skip loop_known by blast
    with Cons skip settled_skip show ?thesis by metis
  next
    case send
    obtain q' it where q': "send (qof s) knd (msg r) w (ds i) = Inr (q', it)"
      using send_ok [OF Cons.prems knd_known owed_id [OF send(1)] send(2)] by blast
    have "good (qof (setq q' s))" using send_good [OF Cons.prems q'] by (simp add: qof_setq)
    then obtain its s' where "loop (i + 1) rs (setq q' s) (acc @ [it]) = (Inr ((acc @ [it]) @ its), s')"
      and "settled rs its (setq q' s) s'" using Cons.IH by blast
    then have "loop i (r # rs) s acc = (Inr (acc @ it # its), s')"
      and "settled (r # rs) (it # its) s s'"
      using loop_send [OF send] q' settled_send [OF send q'] by simp_all
    then show ?thesis by blast
  qed
qed

lemma settled_known:
  assumes "settled rs its s s'"
  shows "r \<in> set rs \<Longrightarrow> owed r = Some w \<Longrightarrow> find (qof s') w \<noteq> None"
    and "find (qof s) w = Some v \<Longrightarrow> find (qof s') w = Some v"
proof -
  have f: "find (qof s') = find (qof s) ++ map_of (map (\<lambda>it. (id it, new it)) its)"
    and i: "id ` set its = {w. find (qof s) w = None \<and> Some w \<in> owed ` set rs}"
    using assms by (simp_all add: settled_def)
  have d: "dom (map_of (map (\<lambda>it. (id it, new it)) its)) = id ` set its"
    by (simp add: dom_map_of_conv_image_fst image_image)
  show "find (qof s') w \<noteq> None" if "r \<in> set rs" "owed r = Some w"
  proof (cases "find (qof s) w = None")
    case True
    with that i have "w \<in> dom (map_of (map (\<lambda>it. (id it, new it)) its))"
      unfolding d by (metis (mono_tags, lifting) image_eqI mem_Collect_eq)
    then show ?thesis unfolding f by auto
  next
    case False
    then show ?thesis unfolding f by (simp add: map_add_def split: option.split)
  qed
  show "find (qof s') w = Some v" if "find (qof s) w = Some v"
  proof -
    have "w \<notin> dom (map_of (map (\<lambda>it. (id it, new it)) its))" unfolding d i using that by simp
    then show ?thesis unfolding f using that by (simp add: map_add_dom_app_simps(3))
  qed
qed

end

text \<open>
  A loop that marks a row as fired, saves it, and only then sends the wake it promised. The
  i-th row uses the i-th uuid and the i-th write.
\<close>

fun mark_all :: "('r \<Rightarrow> string \<Rightarrow> 'r) \<Rightarrow> draws \<Rightarrow> nat \<Rightarrow> 'r list \<Rightarrow> 'r list" where
  "mark_all f ds i [] = []"
| "mark_all f ds i (r # rs) = f r (uuid4 (ds i)) # mark_all f ds (i + 1) rs"

lemma length_mark_all [simp]: "length (mark_all f ds i rs) = length rs"
  by (induction rs arbitrary: i) simp_all

lemma map_mark_all:
  "(\<And>r u. g (f r u) = h r) \<Longrightarrow> map g (mark_all f ds i rs) = map h rs"
  by (induction rs arbitrary: i) simp_all

lemma mark_all_wids:
  assumes "\<And>r u. g (f r u) = Some u"
  shows "map g (mark_all f ds i rs) = map (\<lambda>j. Some (uuid4 (ds j))) [i..<i + length rs]"
proof (induction rs arbitrary: i)
  case (Cons r rs)
  have "[i..<i + length (r # rs)] = i # [i + 1..<i + 1 + length rs]"
    by (simp add: upt_rec)
  with Cons assms show ?case by simp
qed simp

definition new_uuids :: "(string \<Rightarrow> 'v option) \<Rightarrow> draws \<Rightarrow> nat \<Rightarrow> bool" where
  "new_uuids known ds i \<longleftrightarrow>
     (\<forall>j\<ge>i. uuid4 (ds j) \<noteq> [] \<and> known (uuid4 (ds j)) = None \<and>
            (\<forall>k\<ge>i. uuid4 (ds j) = uuid4 (ds k) \<longrightarrow> j = k))"

lemma new_uuids_step:
  "new_uuids known ds i \<Longrightarrow> new_uuids (known(uuid4 (ds i) \<mapsto> v)) ds (i + 1)"
proof -
  assume new: "new_uuids known ds i"
  have "uuid4 (ds j) \<noteq> uuid4 (ds i)" if "j \<ge> i + 1" for j
    using new that unfolding new_uuids_def by (metis Suc_eq_plus1 Suc_leD Suc_n_not_le_n order_refl)
  with new show ?thesis unfolding new_uuids_def by simp
qed

locale firing = wake_sink send find new good
  for send :: "'q \<Rightarrow> string \<Rightarrow> jdict \<Rightarrow> string \<Rightarrow> draw \<Rightarrow> ('q \<times> wake_item) res"
    and find :: "'q \<Rightarrow> string \<Rightarrow> 'v option" and new and good +
  fixes loop :: "nat \<Rightarrow> 'r list \<Rightarrow> 's \<Rightarrow> wake_item list \<Rightarrow> wake_item list res \<times> 's"
    and qof :: "'s \<Rightarrow> 'q" and setq :: "'q \<Rightarrow> 's \<Rightarrow> 's"
    and put :: "bool \<Rightarrow> 's \<Rightarrow> 'r \<Rightarrow> 's res" and row :: "'s \<Rightarrow> string \<Rightarrow> 'r option"
    and rid :: "'r \<Rightarrow> string" and fired :: "'r \<Rightarrow> string \<Rightarrow> 'r" and wid :: "'r \<Rightarrow> string option"
    and knd :: string and msg :: "'r \<Rightarrow> jdict" and oks :: "nat \<Rightarrow> bool" and ds :: draws
  assumes qof_setq: "qof (setq q s) = q"
    and row_setq: "row (setq q s) = row s"
    and knd_known: "knd \<in> set KNOWN_KINDS"
    and rid_fired: "rid (fired r u) = rid r"
    and wid_fired: "wid (fired r u) = Some u"
    and put_ok: "\<exists>s'. put True s r = Inr s' \<and> qof s' = qof s \<and> row s' = (row s)(rid r \<mapsto> r)"
    and put_fail: "put False s r = Inl OSError"
    and loop_Nil: "loop i [] s acc = (Inr acc, s)"
    and loop_Cons: "loop i (r # rs) s acc =
      (case put (oks i) s (fired r (uuid4 (ds i))) of
         Inl e \<Rightarrow> (Inl e, s)
       | Inr s1 \<Rightarrow>
           (case send (qof s1) knd (msg (fired r (uuid4 (ds i)))) (uuid4 (ds i)) (ds i) of
              Inl e \<Rightarrow> (Inl e, s1)
            | Inr (q', it) \<Rightarrow> loop (i + 1) rs (setq q' s1) (acc @ [it])))"
begin

text \<open>Whatever the outcome, the loop keeps what saving a row and sending a wake keep.\<close>

lemma loop_keeps:
  assumes "\<And>s r s'. J s \<Longrightarrow> put True s r = Inr s' \<Longrightarrow> J s'"
    and "\<And>s k p w d q' it. J s \<Longrightarrow> send (qof s) k p w d = Inr (q', it) \<Longrightarrow> J (setq q' s)"
  shows "J s \<Longrightarrow> J (snd (loop i rs s acc))"
proof (induction rs arbitrary: i s acc)
  case Nil
  then show ?case by (simp add: loop_Nil)
next
  case (Cons r rs)
  show ?case
  proof (cases "put (oks i) s (fired r (uuid4 (ds i)))")
    case (Inl e)
    then show ?thesis using Cons.prems by (simp add: loop_Cons)
  next
    case (Inr s1)
    then have "oks i" using put_fail by (cases "oks i") auto
    then have J1: "J s1" using assms(1) Cons.prems Inr by auto
    then show ?thesis
      using Inr Cons.IH assms(2) [OF J1]
      by (auto simp: loop_Cons split: sum.split)
  qed
qed

text \<open>
  \<open>delivered k rs its i s s'\<close>: the first \<open>k\<close> rows are marked and saved, and \<open>its\<close> are the
  wakes they promise, all known to the queue; nothing else changed.
\<close>

definition delivered :: "nat \<Rightarrow> 'r list \<Rightarrow> wake_item list \<Rightarrow> nat \<Rightarrow> 's \<Rightarrow> 's \<Rightarrow> bool" where
  "delivered k rs its i s s' \<longleftrightarrow>
     good (qof s') \<and>
     row s' = row s ++ map_of (map (\<lambda>r. (rid r, r)) (take k (mark_all fired ds i rs))) \<and>
     find (qof s') = find (qof s) ++ map_of (map (\<lambda>it. (id it, new it)) its) \<and>
     map (\<lambda>it. (Some (id it), kind it, payload it)) its =
       map (\<lambda>r. (wid r, knd, msg r)) (take k (mark_all fired ds i rs))"

lemma upd_add: "a \<notin> dom n \<Longrightarrow> (m(a \<mapsto> b)) ++ n = (m ++ n)(a \<mapsto> b)"
  by (auto simp: fun_eq_iff map_add_def split: option.split)

lemma delivered_ids:
  assumes "delivered k rs its i s s'" and "k \<le> length rs"
  shows "map id its = map (\<lambda>j. uuid4 (ds j)) [i..<i + k]"
proof -
  have "map (\<lambda>it. Some (id it)) its = map wid (take k (mark_all fired ds i rs))"
    using arg_cong [OF assms(1) [unfolded delivered_def, THEN conjunct2, THEN conjunct2, THEN conjunct2],
        where f = "map fst"] by (simp add: comp_def)
  also have "\<dots> = map (\<lambda>j. Some (uuid4 (ds j))) [i..<i + k]"
    using mark_all_wids [of wid fired ds i rs] wid_fired assms(2)
    by (simp flip: take_map) (simp add: take_map)
  finally have "map Some (map id its) = map Some (map (\<lambda>j. uuid4 (ds j)) [i..<i + k])"
    by (simp add: comp_def)
  then show ?thesis by (rule map_injective) simp
qed

text \<open>After a delivery the following uuids are still new.\<close>

lemma delivered_new_uuids:
  assumes "delivered k rs its i s s'" and "k \<le> length rs" and "new_uuids (find (qof s)) ds i"
  shows "new_uuids (find (qof s')) ds (i + k)"
proof -
  have f: "find (qof s') = find (qof s) ++ map_of (map (\<lambda>it. (id it, new it)) its)"
    using assms(1) by (simp add: delivered_def)
  have "set (map id its) = (\<lambda>j. uuid4 (ds j)) ` {i..<i + k}"
    using delivered_ids [OF assms(1,2)] by simp
  then have d: "dom (map_of (map (\<lambda>it. (id it, new it)) its)) = (\<lambda>j. uuid4 (ds j)) ` {i..<i + k}"
    by (simp add: dom_map_of_conv_image_fst image_image)
  have "find (qof s') (uuid4 (ds j)) = None" if "j \<ge> i + k" for j
  proof -
    have "uuid4 (ds j) \<noteq> uuid4 (ds l)" if "l \<in> {i..<i + k}" for l
      using assms(3) \<open>j \<ge> i + k\<close> that unfolding new_uuids_def
      by (metis atLeastLessThan_iff le_add1 le_trans not_le)
    then have "uuid4 (ds j) \<notin> dom (map_of (map (\<lambda>it. (id it, new it)) its))"
      unfolding d by blast
    moreover have "find (qof s) (uuid4 (ds j)) = None"
      using assms(3) that by (simp add: new_uuids_def)
    ultimately show ?thesis unfolding f by (simp add: map_add_dom_app_simps(3))
  qed
  with assms(3) show ?thesis unfolding new_uuids_def by simp
qed

lemma delivered_Cons:
  assumes "rid r \<notin> rid ` set rs" and "new_uuids (find (qof s)) ds i"
    and "row s1 = (row s)(rid r \<mapsto> fired r (uuid4 (ds i)))" and "qof s1 = qof s"
    and snd: "send (qof s) knd (msg (fired r (uuid4 (ds i)))) (uuid4 (ds i)) (ds i) = Inr (q', it)"
    and "delivered k rs its (i + 1) (setq q' s1) s'" and "k \<le> length rs"
  shows "delivered (Suc k) (r # rs) (it # its) i s s'"
proof -
  let ?u = "uuid4 (ds i)"
  let ?ms = "take k (mark_all fired ds (i + 1) rs)"
  have u: "?u \<noteq> []" using assms(2) by (simp add: new_uuids_def)
  note it = send_item [OF u snd] and f = send_find [OF u snd]
  note st = assms(6) [unfolded delivered_def qof_setq row_setq f]
  have "set (map rid (mark_all fired ds (i + 1) rs)) = rid ` set rs"
    using map_mark_all [of rid fired rid] rid_fired by simp
  then have "rid r \<notin> rid ` set ?ms"
    using assms(1) image_mono [OF set_take_subset [of k "mark_all fired ds (i + 1) rs"], of rid]
    by auto
  then have "rid r \<notin> dom (map_of (map (\<lambda>r. (rid r, r)) ?ms))"
    by (simp add: dom_map_of_conv_image_fst image_image)
  then have rows: "(row s)(rid r \<mapsto> fired r ?u) ++ map_of (map (\<lambda>r. (rid r, r)) ?ms) =
      row s ++ map_of (map (\<lambda>r. (rid r, r)) (fired r ?u # ?ms))"
    by (simp add: upd_add rid_fired)
  have "?u \<noteq> id x" if "x \<in> set its" for x
  proof -
    have "id x \<in> set (map id its)" using that by simp
    then have "id x \<in> (\<lambda>j. uuid4 (ds j)) ` {i + 1..<i + 1 + k}"
      unfolding delivered_ids [OF assms(6,7)] by (simp only: set_map set_upt)
    then obtain j where "j \<in> {i + 1..<i + 1 + k}" "id x = uuid4 (ds j)" by (rule imageE) blast
    then have "j \<ge> i + 1" "id x = uuid4 (ds j)" by simp_all
    then show ?thesis using assms(2) unfolding new_uuids_def
      by (metis Suc_eq_plus1 Suc_leD Suc_n_not_le_n order_refl)
  qed
  then have "?u \<notin> dom (map_of (map (\<lambda>it. (id it, new it)) its))"
    by (auto simp: dom_map_of_conv_image_fst image_image)
  then have fnd: "(find (qof s))(?u \<mapsto> new it) ++ map_of (map (\<lambda>it. (id it, new it)) its) =
      find (qof s) ++ map_of (map (\<lambda>it. (id it, new it)) (it # its))"
    using it by (simp add: upd_add)
  show ?thesis
    unfolding delivered_def using st rows fnd it assms(3) wid_fired by simp
qed

lemma loop_delivers:
  assumes "good (qof s)" and "distinct (map rid rs)" and "new_uuids (find (qof s)) ds i"
  shows "\<exists>k its s'. k \<le> length rs \<and> (\<forall>j<k. oks (i + j)) \<and> (k < length rs \<longrightarrow> \<not> oks (i + k)) \<and>
    loop i rs s acc = (if k = length rs then Inr (acc @ its) else Inl OSError, s') \<and>
    delivered k rs its i s s'"
  using assms
proof (induction rs arbitrary: i s acc)
  case Nil
  then show ?case by (intro exI [of _ 0]) (simp add: loop_Nil delivered_def)
next
  case (Cons r rs)
  let ?u = "uuid4 (ds i)"
  show ?case
  proof (cases "oks i")
    case False
    then have "loop i (r # rs) s acc = (Inl OSError, s)" by (simp add: loop_Cons put_fail)
    moreover have "delivered 0 (r # rs) [] i s s" using Cons.prems by (simp add: delivered_def)
    ultimately show ?thesis using False by (intro exI [of _ 0]) auto
  next
    case True
    obtain s1 where s1: "put True s (fired r ?u) = Inr s1" "qof s1 = qof s"
      "row s1 = (row s)(rid r \<mapsto> fired r ?u)"
      using put_ok [of s "fired r ?u"] by (auto simp: rid_fired)
    have u: "?u \<noteq> []" "find (qof s) ?u = None"
      using Cons.prems(3) by (simp_all add: new_uuids_def)
    obtain q' it where snd: "send (qof s) knd (msg (fired r ?u)) ?u (ds i) = Inr (q', it)"
      using send_ok [OF Cons.prems(1) knd_known u] by blast
    have "good (qof (setq q' s1))" "new_uuids (find (qof (setq q' s1))) ds (i + 1)"
      using send_good [OF Cons.prems(1) snd] new_uuids_step [OF Cons.prems(3)]
        send_find [OF u(1) snd] by (simp_all add: qof_setq)
    moreover have "distinct (map rid rs)" "rid r \<notin> rid ` set rs" using Cons.prems(2) by auto
    ultimately obtain k its s' where k: "k \<le> length rs" "\<forall>j<k. oks (i + 1 + j)"
      "k < length rs \<longrightarrow> \<not> oks (i + 1 + k)"
      "loop (i + 1) rs (setq q' s1) (acc @ [it]) =
         (if k = length rs then Inr ((acc @ [it]) @ its) else Inl OSError, s')"
      "delivered k rs its (i + 1) (setq q' s1) s'"
      using Cons.IH [of "setq q' s1" "i + 1" "acc @ [it]"] by blast
    have "loop i (r # rs) s acc =
        (if Suc k = length (r # rs) then Inr (acc @ it # its) else Inl OSError, s')"
      using k(4) snd True s1 by (simp add: loop_Cons)
    moreover have "delivered (Suc k) (r # rs) (it # its) i s s'"
      by (rule delivered_Cons [OF _ Cons.prems(3) s1(3,2) snd k(5,1)]) fact
    moreover have "\<forall>j<Suc k. oks (i + j)"
      using True k(2) by (auto simp: less_Suc_eq_0_disj)
    ultimately show ?thesis using k(1,3) by (intro exI [of _ "Suc k"]) auto
  qed
qed

end

section \<open>The wake queue and the loops of the service meet the interfaces\<close>

definition lookup :: "wake_queue \<Rightarrow> string \<Rightarrow> (wake_item \<times> op option) option" where
  "lookup q w = map_option (\<lambda>it. (it, status q w)) (get q w)"

abbreviation send_wake ::
  "wake_queue \<Rightarrow> string \<Rightarrow> jdict \<Rightarrow> string \<Rightarrow> draw \<Rightarrow> (wake_queue \<times> wake_item) res" where
  "send_wake q k p w d \<equiv> enqueue q k (Some p) (Some w) None d"

abbreviation just_enqueued :: "wake_item \<Rightarrow> wake_item \<times> op option" where
  "just_enqueued it \<equiv> (it, Some Enqueue)"

lemma lookup_None_ops: "coherent q \<Longrightarrow> lookup q w = None \<Longrightarrow> dget (ops q) w = None"
  using coherent_live_ids [of q] unfolding live_ids_def lookup_def get_def
  by (metis not_None_eq option.map_disc_iff)

interpretation snk: wake_sink send_wake lookup just_enqueued coherent
proof unfold_locales
  fix q k p w d
  assume "coherent q" "k \<in> set KNOWN_KINDS" "w \<noteq> []" "lookup q w = None"
  then show "\<exists>q' it. send_wake q k p w d = Inr (q', it)"
    using enqueue_ok [of k q "Some w" d] lookup_None_ops [of q w] by (simp add: str_or_def)
next
  fix q k p w d q' it
  assume "coherent q" "send_wake q k p w d = Inr (q', it)"
  then show "coherent q'" by (rule enqueue_coherent)
next
  fix w q k p d q' it
  assume w: "w \<noteq> []" and e: "send_wake q k p w d = Inr (q', it)"
  note i = enqueue_Inr [OF e]
  show it: "id it = w \<and> kind it = k \<and> payload it = p" using i(2-4) w by (simp add: str_or_def)
  then show "lookup q' = (lookup q)(w \<mapsto> just_enqueued it)"
    by (simp add: lookup_def get_def status_def i(6) fun_eq_iff)
qed

definition owed_timer :: "pending_timer \<Rightarrow> string option" where
  "owed_timer t = (if t_status t \<noteq> STATUS_FIRED \<or> blank_str (t_wake_id t) then None else t_wake_id t)"

definition owed_wait :: "pending_wait \<Rightarrow> string option" where
  "owed_wait w = (if w_status w \<noteq> STATUS_TIMED_OUT \<or> blank_str (w_wake_id w) then None else w_wake_id w)"

lemma wake_exists_iff: "w \<noteq> [] \<Longrightarrow> wake_exists s (Some w) \<longleftrightarrow> lookup (queue s) w \<noteq> None"
  by (simp add: wake_exists_def lookup_def blank_str_def)

lemma owed_timerD: "owed_timer t = Some w \<Longrightarrow> t_status t = STATUS_FIRED \<and> t_wake_id t = Some w \<and> w \<noteq> []"
  by (auto simp: owed_timer_def blank_str_def split: if_splits)

lemma owed_waitD: "owed_wait r = Some w \<Longrightarrow> w_status r = STATUS_TIMED_OUT \<and> w_wake_id r = Some w \<and> w \<noteq> []"
  by (auto simp: owed_wait_def blank_str_def split: if_splits)

lemma known_kinds [simp]: "''timer'' \<in> set KNOWN_KINDS" "''wait_timeout'' \<in> set KNOWN_KINDS"
  by (simp_all add: KNOWN_KINDS_def KIND_PRIORITY_def)

interpretation rt: redelivery send_wake lookup just_enqueued coherent
  "reconcile_timers E" queue "\<lambda>q s. s\<lparr>queue := q\<rparr>" owed_timer "''timer''" timer_payload "tdraws E"
  for E :: tenv
proof unfold_locales
  fix r i rs acc and s :: timer_service
  assume "owed_timer r = None"
  then show "reconcile_timers E i (r # rs) s acc = reconcile_timers E i rs s acc"
    by (auto simp: owed_timer_def blank_str_def split: if_splits)
next
  fix r w i rs acc and s :: timer_service
  assume "owed_timer r = Some w" and l: "lookup (queue s) w \<noteq> None"
  note o = owed_timerD [OF this(1)]
  with l show "reconcile_timers E i (r # rs) s acc = reconcile_timers E i rs s acc"
    by (simp add: wake_exists_iff)
next
  fix r w i rs acc and s :: timer_service
  assume "owed_timer r = Some w" and l: "lookup (queue s) w = None"
  note o = owed_timerD [OF this(1)]
  with l show "reconcile_timers E i (r # rs) s acc =
      (case send_wake (queue s) ''timer'' (timer_payload r) w (tdraws E i) of
         Inl e \<Rightarrow> (Inl e, s)
       | Inr (q', it) \<Rightarrow> reconcile_timers E (i + 1) rs (s\<lparr>queue := q'\<rparr>) (acc @ [it]))"
    by (simp add: wake_exists_iff blank_str_def)
qed (auto dest: owed_timerD)

interpretation rw: redelivery send_wake lookup just_enqueued coherent
  "\<lambda>i. reconcile_waits E i now" queue "\<lambda>q s. s\<lparr>queue := q\<rparr>" owed_wait "''wait_timeout''"
  "\<lambda>w. wait_timeout_payload E w now" "tdraws E"
  for E :: tenv and now :: int
proof unfold_locales
  fix r i rs acc and s :: timer_service
  assume "owed_wait r = None"
  then show "reconcile_waits E i now (r # rs) s acc = reconcile_waits E i now rs s acc"
    by (auto simp: owed_wait_def blank_str_def split: if_splits)
next
  fix r w i rs acc and s :: timer_service
  assume "owed_wait r = Some w" and l: "lookup (queue s) w \<noteq> None"
  note o = owed_waitD [OF this(1)]
  with l show "reconcile_waits E i now (r # rs) s acc = reconcile_waits E i now rs s acc"
    by (simp add: wake_exists_iff)
next
  fix r w i rs acc and s :: timer_service
  assume "owed_wait r = Some w" and l: "lookup (queue s) w = None"
  note o = owed_waitD [OF this(1)]
  with l show "reconcile_waits E i now (r # rs) s acc =
      (case send_wake (queue s) ''wait_timeout'' (wait_timeout_payload E r now) w (tdraws E i) of
         Inl e \<Rightarrow> (Inl e, s)
       | Inr (q', it) \<Rightarrow> reconcile_waits E (i + 1) now rs (s\<lparr>queue := q'\<rparr>) (acc @ [it]))"
    by (simp add: wake_exists_iff blank_str_def)
qed (auto dest: owed_waitD)

definition fired_timer :: "pending_timer \<Rightarrow> string \<Rightarrow> pending_timer" where
  "fired_timer t u = t\<lparr>t_status := STATUS_FIRED, t_wake_id := Some u\<rparr>"

definition timed_out_wait :: "pending_wait \<Rightarrow> string \<Rightarrow> pending_wait" where
  "timed_out_wait w u = w\<lparr>w_status := STATUS_TIMED_OUT, w_wake_id := Some u\<rparr>"

interpretation ft: firing send_wake lookup just_enqueued coherent
  "fire_timers E" queue "\<lambda>q s. s\<lparr>queue := q\<rparr>" put_timer "\<lambda>s. dget (timers s)" t_id fired_timer
  t_wake_id "''timer''" timer_payload "persist_ok E" "tdraws E"
  for E :: tenv
  by unfold_locales
    (auto simp: fired_timer_def put_timer_def persist_timers_def fun_eq_iff Let_def)

interpretation fw: firing send_wake lookup just_enqueued coherent
  "\<lambda>i. fire_waits E i now" queue "\<lambda>q s. s\<lparr>queue := q\<rparr>" put_wait "\<lambda>s. dget (waits s)" w_id
  timed_out_wait w_wake_id "''wait_timeout''" "\<lambda>w. wait_timeout_payload E w now"
  "persist_ok E" "tdraws E"
  for E :: tenv and now :: int
  by unfold_locales
    (auto simp: timed_out_wait_def put_wait_def persist_waits_def fun_eq_iff Let_def)

section \<open>Memory, snapshots and the queue stay consistent\<close>

definition svc_ok :: "timer_service \<Rightarrow> bool" where
  "svc_ok s \<longleftrightarrow>
     coherent (queue s) \<and>
     keyed t_id (timers s) \<and> saved t_id (timers_file s) (timers s) \<and>
     keyed w_id (waits s) \<and> saved w_id (waits_file s) (waits s)"

lemma svc_ok_load: "coherent (queue s) \<Longrightarrow> svc_ok (load_service s)"
  using keyed_rows [of t_id "timers_file s"] keyed_rows [of w_id "waits_file s"]
  by (simp add: svc_ok_def load_service_def saved_def rows_of_def)

lemma svc_ok_put_timer: "svc_ok s \<Longrightarrow> put_timer b s t = Inr s' \<Longrightarrow> svc_ok s'"
  by (auto simp: svc_ok_def put_timer_def persist_timers_def keyed_dset saved_sorted
      split: if_splits)

lemma svc_ok_put_wait: "svc_ok s \<Longrightarrow> put_wait b s w = Inr s' \<Longrightarrow> svc_ok s'"
  by (auto simp: svc_ok_def put_wait_def persist_waits_def keyed_dset saved_sorted
      split: if_splits)

lemma svc_ok_queue: "svc_ok s \<Longrightarrow> coherent q \<Longrightarrow> svc_ok (s\<lparr>queue := q\<rparr>)"
  by (simp add: svc_ok_def)

lemma svc_ok_send: "svc_ok s \<Longrightarrow> send_wake (queue s) k p w d = Inr (q', it) \<Longrightarrow> svc_ok (s\<lparr>queue := q'\<rparr>)"
  using enqueue_coherent [of "queue s"] by (auto simp: svc_ok_def)

lemma svc_ok_reconcile_timers: "svc_ok s \<Longrightarrow> svc_ok (snd (reconcile_orphaned_timer_fires E i s))"
proof -
  assume s: "svc_ok s"
  let ?ts = "sort_key (\<lambda>t. (wake_at t, t_id t)) (dvals (timers s))"
  obtain its s' where l: "reconcile_timers E i ?ts s [] = (Inr ([] @ its), s')"
    and st: "rt.settled ?ts its s s'"
    using rt.loop_settles [of s E i ?ts "[]"] s by (auto simp: svc_ok_def)
  have "coherent (queue s')" "s' = s\<lparr>queue := queue s'\<rparr>" using st by (simp_all add: rt.settled_def)
  with s l svc_ok_queue [of s "queue s'"] show ?thesis
    by (simp add: reconcile_orphaned_timer_fires_def)
qed

lemma svc_ok_reconcile_waits: "svc_ok s \<Longrightarrow> svc_ok (snd (reconcile_orphaned_wait_timeouts E i now s))"
proof -
  assume s: "svc_ok s"
  let ?ws = "sort_key (\<lambda>w. (expires_at w, w_id w)) (dvals (waits s))"
  obtain its s' where l: "reconcile_waits E i now ?ws s [] = (Inr ([] @ its), s')"
    and st: "rw.settled ?ws its s s'"
    using rw.loop_settles [of s E i now ?ws "[]"] s by (auto simp: svc_ok_def)
  have "coherent (queue s')" "s' = s\<lparr>queue := queue s'\<rparr>" using st by (simp_all add: rw.settled_def)
  with s l svc_ok_queue [of s "queue s'"] show ?thesis
    by (simp add: reconcile_orphaned_wait_timeouts_def)
qed

lemma svc_ok_schedule_due_at: "svc_ok s \<Longrightarrow> svc_ok (snd (schedule_due_at E i now s))"
  using ft.loop_keeps [of svc_ok s E i _ "[]", OF svc_ok_put_timer svc_ok_send]
  by (auto simp: schedule_due_at_def split: sum.split)

lemma svc_ok_check_timeouts_at: "svc_ok s \<Longrightarrow> svc_ok (snd (check_timeouts_at E i now s))"
  using fw.loop_keeps [of svc_ok s E i now _ "[]", OF svc_ok_put_wait svc_ok_send]
  by (auto simp: check_timeouts_at_def split: sum.split)

lemma andthen_keeps:
  assumes "J (snd r)" and "\<And>j s. J s \<Longrightarrow> J (snd (f j s))"
  shows "J (snd (andthen r f i))"
  using assms by (auto simp: andthen_def split: prod.split sum.split) (metis snd_conv)+

lemmas svc_ok_stages =
  svc_ok_load svc_ok_reconcile_timers svc_ok_reconcile_waits svc_ok_schedule_due_at
  svc_ok_check_timeouts_at

lemma svc_ok_schedule_due: "svc_ok s \<Longrightarrow> svc_ok (snd (schedule_due E n s))"
  by (auto simp: schedule_due_def svc_ok_stages split: sum.split)

lemma svc_ok_check_timeouts: "svc_ok s \<Longrightarrow> svc_ok (snd (check_timeouts E n s))"
  by (auto simp: check_timeouts_def svc_ok_stages split: sum.split)

lemma svc_ok_rehydrate_timers: "svc_ok s \<Longrightarrow> svc_ok (snd (rehydrate_timers E n s))"
  unfolding rehydrate_timers_def
  by (rule andthen_keeps) (auto simp: svc_ok_stages svc_ok_def [of s] split: sum.split)

lemma svc_ok_rehydrate_waits: "svc_ok s \<Longrightarrow> svc_ok (snd (rehydrate_waits E n s))"
  unfolding rehydrate_waits_def
  by (auto split: sum.split intro!: andthen_keeps svc_ok_stages simp: svc_ok_def [of s])

lemma svc_ok_rehydrate_at:
  "coherent (queue s) \<Longrightarrow> resolve_now E n = Inr now \<Longrightarrow> svc_ok (snd (rehydrate E n s))"
  unfolding rehydrate_def by (simp add: andthen_keeps svc_ok_stages)

lemma svc_ok_rehydrate: "svc_ok s \<Longrightarrow> svc_ok (snd (rehydrate E n s))"
  using svc_ok_rehydrate_at [of s E n]
  by (cases "resolve_now E n") (auto simp: svc_ok_def [of s] rehydrate_def)

lemma svc_ok_schedule_timer: "svc_ok s \<Longrightarrow> schedule_timer E s a r g k i = Inr (s', t) \<Longrightarrow> svc_ok s'"
  by (auto simp: schedule_timer_def bind_res_eq_Inr Let_def intro: svc_ok_put_timer)

lemma svc_ok_cancel_timer: "svc_ok s \<Longrightarrow> cancel_timer E s i = Inr s' \<Longrightarrow> svc_ok s'"
  by (auto simp: cancel_timer_def split: option.splits if_splits intro: svc_ok_put_timer)

lemma svc_ok_arm_wait: "svc_ok s \<Longrightarrow> arm_wait E s p u m x t c i = Inr (s', w) \<Longrightarrow> svc_ok s'"
  unfolding arm_wait_def bind_res_eq_Inr Let_def by (elim exE conjE) (auto intro: svc_ok_put_wait)

lemma svc_ok_end_wait: "svc_ok s \<Longrightarrow> end_wait st E s i = Inr (s', w) \<Longrightarrow> svc_ok s'"
  by (auto simp: end_wait_def bind_res_eq_Inr split: option.splits if_splits intro: svc_ok_put_wait)

lemma svc_ok_clear_all: "svc_ok s \<Longrightarrow> clear_all E s = (Inr (), s') \<Longrightarrow> svc_ok s'"
  using saved_sorted [of t_id "[]"] saved_sorted [of w_id "[]"]
  by (auto simp: clear_all_def Let_def svc_ok_def persist_timers_def persist_waits_def dvals_def
      split: if_splits)

text \<open>
  The steps of a running service: each of its calls, whether it returns or raises, and any
  step other components make on the shared queue. A call that raises before it changes
  anything is not listed: it leaves the state as it is. \<open>clear_all\<close> counts as a step when it
  returns.
\<close>

inductive ts_step :: "timer_service \<Rightarrow> timer_service \<Rightarrow> bool" where
  schedule_timer: "schedule_timer E s a r g k i = Inr (s', t) \<Longrightarrow> ts_step s s'"
| cancel_timer: "cancel_timer E s i = Inr s' \<Longrightarrow> ts_step s s'"
| schedule_due: "schedule_due E n s = (res, s') \<Longrightarrow> ts_step s s'"
| rehydrate_timers: "rehydrate_timers E n s = (res, s') \<Longrightarrow> ts_step s s'"
| arm_wait: "arm_wait E s p u m x to c i = Inr (s', w) \<Longrightarrow> ts_step s s'"
| mark_wait_answered: "mark_wait_answered E s i = Inr (s', w) \<Longrightarrow> ts_step s s'"
| cancel_wait: "cancel_wait E s i = Inr (s', w) \<Longrightarrow> ts_step s s'"
| check_timeouts: "check_timeouts E n s = (res, s') \<Longrightarrow> ts_step s s'"
| rehydrate_waits: "rehydrate_waits E n s = (res, s') \<Longrightarrow> ts_step s s'"
| rehydrate: "rehydrate E n s = (res, s') \<Longrightarrow> ts_step s s'"
| clear_all: "clear_all E s = (Inr (), s') \<Longrightarrow> ts_step s s'"
| queue_step: "wq_step any_id (queue s) q' \<Longrightarrow> ts_step s (s\<lparr>queue := q'\<rparr>)"

lemma ts_step_svc_ok:
  assumes "svc_ok s" and "ts_step s s'"
  shows "svc_ok s'"
  using assms(2,1)
proof cases
  case (schedule_due E n res)
  then show ?thesis using svc_ok_schedule_due [OF assms(1), of E n] by simp
next
  case (rehydrate_timers E n res)
  then show ?thesis using svc_ok_rehydrate_timers [OF assms(1), of E n] by simp
next
  case (check_timeouts E n res)
  then show ?thesis using svc_ok_check_timeouts [OF assms(1), of E n] by simp
next
  case (rehydrate_waits E n res)
  then show ?thesis using svc_ok_rehydrate_waits [OF assms(1), of E n] by simp
next
  case (rehydrate E n res)
  then show ?thesis using svc_ok_rehydrate [OF assms(1), of E n] by simp
next
  case (queue_step q')
  then show ?thesis using assms(1) wq_step_coherent svc_ok_queue unfolding svc_ok_def by blast
qed (auto intro: svc_ok_schedule_timer svc_ok_cancel_timer svc_ok_arm_wait svc_ok_end_wait
      svc_ok_clear_all simp: mark_wait_answered_def cancel_wait_def)

interpretation tss: transition_system "\<lambda>s. \<exists>s0. coherent (queue s0) \<and> s = load_service s0" ts_step svc_ok
  by unfold_locales (auto intro: svc_ok_load ts_step_svc_ok)

text \<open>Two keyed dictionaries with the same lookups give the same sorted lists.\<close>

lemma keyed_mset_eq:
  assumes "keyed f d" and "keyed f e" and "dget d = dget e"
  shows "mset (dvals d) = mset (dvals e)"
proof -
  have "distinct (dvals d)" "distinct (dvals e)"
    using keyed_distinct_ids [OF assms(1)] keyed_distinct_ids [OF assms(2)] by (simp_all add: distinct_map)
  moreover have "set (dvals d) = set (dvals e)"
    using keyed_in_dvals [OF assms(1)] keyed_in_dvals [OF assms(2)] assms(3) by auto
  ultimately show ?thesis by (simp add: set_eq_iff_mset_eq_distinct)
qed

lemma sorted_view_eq:
  assumes "keyed f d" and "keyed f e" and "dget d = dget e"
  shows "sort_key (\<lambda>x. (g x, f x)) (filter P (dvals d)) =
         sort_key (\<lambda>x. (g x, f x)) (filter P (dvals e))"
proof (rule sort_key_inj_key_eq)
  show "mset (filter P (dvals d)) = mset (sort_key (\<lambda>x. (g x, f x)) (filter P (dvals e)))"
    using keyed_mset_eq [OF assms] by simp
  show "inj_on (\<lambda>x. (g x, f x)) (set (filter P (dvals d)))"
    using keyed_distinct_ids [OF assms(1)] by (auto simp: distinct_map inj_on_def)
  show "sorted (map (\<lambda>x. (g x, f x)) (sort_key (\<lambda>x. (g x, f x)) (filter P (dvals e))))"
    by simp
qed

lemma svc_ok_reload:
  assumes "svc_ok s"
  shows "dget (timers (load_service s)) = dget (timers s)"
    and "dget (waits (load_service s)) = dget (waits s)"
    and "list_timers (load_service s) st = list_timers s st"
    and "list_waits (load_service s) st = list_waits s st"
proof -
  have l: "svc_ok (load_service s)" using assms svc_ok_load by (simp add: svc_ok_def)
  show t: "dget (timers (load_service s)) = dget (timers s)"
    and w: "dget (waits (load_service s)) = dget (waits s)"
    using assms by (simp_all add: svc_ok_def load_service_def saved_def rows_of_def)
  show "list_timers (load_service s) st = list_timers s st"
    unfolding list_timers_def by (rule sorted_view_eq) (use l assms t in \<open>simp_all add: svc_ok_def\<close>)
  show "list_waits (load_service s) st = list_waits s st"
    unfolding list_waits_def by (rule sorted_view_eq) (use l assms w in \<open>simp_all add: svc_ok_def\<close>)
qed

section \<open>Firing what is due\<close>

definition due_at :: "tenv \<Rightarrow> int \<Rightarrow> pending_timer \<Rightarrow> bool" where
  "due_at E now t \<longleftrightarrow> t_status t = STATUS_SCHEDULED \<and>
     (case parse_utc E (wake_at t) of None \<Rightarrow> False | Some a \<Rightarrow> a \<le> now)"

definition expired_at :: "tenv \<Rightarrow> int \<Rightarrow> pending_wait \<Rightarrow> bool" where
  "expired_at E now w \<longleftrightarrow> w_status w = STATUS_PENDING \<and> expires_at w \<noteq> [] \<and>
     (case parse_utc E (expires_at w) of None \<Rightarrow> False | Some a \<Rightarrow> a \<le> now)"

definition timer_times_ok :: "tenv \<Rightarrow> timer_service \<Rightarrow> bool" where
  "timer_times_ok E s \<longleftrightarrow>
     (\<forall>t\<in>set (dvals (timers s)). t_status t = STATUS_SCHEDULED \<longrightarrow> parse_utc E (wake_at t) \<noteq> None)"

definition wait_times_ok :: "tenv \<Rightarrow> timer_service \<Rightarrow> bool" where
  "wait_times_ok E s \<longleftrightarrow>
     (\<forall>w\<in>set (dvals (waits s)). w_status w = STATUS_PENDING \<longrightarrow> expires_at w \<noteq> [] \<longrightarrow>
        parse_utc E (expires_at w) \<noteq> None)"

lemma select_due_eq:
  "\<forall>x\<in>set xs. cand x \<longrightarrow> tm x \<noteq> None \<Longrightarrow>
   select_due cand tm now xs = Inr (filter (\<lambda>x. cand x \<and> (case tm x of None \<Rightarrow> False | Some a \<Rightarrow> a \<le> now)) xs)"
  by (induction xs) (auto split: option.split)

lemma select_due_sound:
  "select_due cand tm now xs = Inr ys \<Longrightarrow> ys = filter (\<lambda>x. cand x \<and> (case tm x of None \<Rightarrow> False | Some a \<Rightarrow> a \<le> now)) xs"
proof (induction xs arbitrary: ys)
  case (Cons x xs)
  then show ?case
    by (cases "cand x"; cases "tm x"; cases "select_due cand tm now xs") (simp_all add: bind_res_def split: if_splits)
qed simp

lemma due_timers_sound:
  "due_timers E now s = Inr due \<Longrightarrow>
   due = sort_key (\<lambda>t. (wake_at t, t_id t)) (filter (due_at E now) (dvals (timers s)))"
  by (auto simp: due_timers_def bind_res_eq_Inr due_at_def [abs_def] dest!: select_due_sound)

lemma due_waits_sound:
  "due_waits E now s = Inr due \<Longrightarrow>
   due = sort_key (\<lambda>w. (expires_at w, w_id w)) (filter (expired_at E now) (dvals (waits s)))"
  by (auto simp: due_waits_def bind_res_eq_Inr expired_at_def [abs_def] conj_assoc dest!: select_due_sound)

lemma select_due_parses:
  "select_due cand tm now xs = Inr ys \<Longrightarrow> \<forall>x\<in>set xs. cand x \<longrightarrow> tm x \<noteq> None"
  by (induction xs arbitrary: ys) (auto simp: bind_res_eq_Inr split: option.splits if_splits)

lemma due_timers_parses: "due_timers E now s = Inr due \<Longrightarrow> timer_times_ok E s"
  by (auto simp: due_timers_def bind_res_eq_Inr timer_times_ok_def dest: select_due_parses)

lemma due_waits_parses: "due_waits E now s = Inr due \<Longrightarrow> wait_times_ok E s"
  by (auto simp: due_waits_def bind_res_eq_Inr wait_times_ok_def dest!: select_due_parses)

lemma due_timers_ok: "timer_times_ok E s \<Longrightarrow> \<exists>due. due_timers E now s = Inr due"
  by (simp add: due_timers_def timer_times_ok_def select_due_eq)

lemma due_waits_ok: "wait_times_ok E s \<Longrightarrow> \<exists>due. due_waits E now s = Inr due"
  by (simp add: due_waits_def wait_times_ok_def select_due_eq)

lemma distinct_sorted_ids:
  "keyed f d \<Longrightarrow> distinct (map f (sort_key g (filter P (dvals d))))"
  using keyed_distinct_ids [of f d] by (auto simp: distinct_map inj_on_def)

lemma nth_mark_all: "j < length rs \<Longrightarrow> mark_all f ds i rs ! j = f (rs ! j) (uuid4 (ds (i + j)))"
  by (induction rs arbitrary: i j) (auto simp: nth_Cons split: nat.split)

lemma map_of_nth:
  assumes "distinct (map f xs)" and "j < length xs"
  shows "map_of (map (\<lambda>x. (f x, g x)) xs) (f (xs ! j)) = Some (g (xs ! j))"
proof -
  have "distinct (map fst (map (\<lambda>x. (f x, g x)) xs))" using assms(1) by (simp add: comp_def)
  moreover have "(f (xs ! j), g (xs ! j)) \<in> set (map (\<lambda>x. (f x, g x)) xs)"
    using assms(2) by (auto intro: nth_mem)
  ultimately show ?thesis by (rule map_of_is_SomeI)
qed

context firing
begin

lemma delivered_length: "delivered k rs its i s s' \<Longrightarrow> k \<le> length rs \<Longrightarrow> length its = k"
  unfolding delivered_def by (elim conjE) (drule arg_cong [where f = length], simp)

lemma delivered_nth:
  assumes "delivered k rs its i s s'" and "k \<le> length rs" and "distinct (map rid rs)"
    and "new_uuids (find (qof s)) ds i" and "j < k"
  shows "row s' (rid (rs ! j)) = Some (fired (rs ! j) (id (its ! j)))"
    and "kind (its ! j) = knd" and "payload (its ! j) = msg (fired (rs ! j) (id (its ! j)))"
    and "find (qof s') (id (its ! j)) = Some (new (its ! j))"
proof -
  let ?ms = "take k (mark_all fired ds i rs)"
  note st = assms(1) [unfolded delivered_def]
  have len: "length its = k"
    by (rule delivered_length [OF assms(1,2)])
  have m: "?ms ! j = fired (rs ! j) (uuid4 (ds (i + j)))"
    using assms(2,5) by (simp add: nth_mark_all)
  have "map (\<lambda>it. (Some (id it), kind it, payload it)) its ! j = map (\<lambda>r. (wid r, knd, msg r)) ?ms ! j"
    using st by simp
  then have it: "id (its ! j) = uuid4 (ds (i + j))" "kind (its ! j) = knd"
    "payload (its ! j) = msg (?ms ! j)"
    using assms(2,5) len m by (simp_all add: wid_fired)
  show "kind (its ! j) = knd" and "payload (its ! j) = msg (fired (rs ! j) (id (its ! j)))"
    using it m by simp_all
  have "map rid (mark_all fired ds i rs) = map rid rs" by (rule map_mark_all) (rule rid_fired)
  then have "distinct (map rid ?ms)" using assms(3) by (metis distinct_take take_map)
  then have "map_of (map (\<lambda>r. (rid r, r)) ?ms) (rid (?ms ! j)) = Some (?ms ! j)"
    by (rule map_of_nth) (use assms(2,5) in simp)
  then show "row s' (rid (rs ! j)) = Some (fired (rs ! j) (id (its ! j)))"
    using st m it by (simp add: rid_fired)
  have "distinct (map (\<lambda>j. uuid4 (ds j)) [i..<i + k])"
    using assms(4) by (auto simp: distinct_map inj_on_def new_uuids_def)
  then have "distinct (map id its)" using delivered_ids [OF assms(1,2)] by simp
  from map_of_nth [OF this, of j new] show "find (qof s') (id (its ! j)) = Some (new (its ! j))"
    using st len assms(5) by simp
qed

lemma delivered_frame:
  assumes "delivered k rs its i s s'" and "k \<le> length rs" and "new_uuids (find (qof s)) ds i"
  shows "length its = k"
    and "v \<notin> rid ` set rs \<Longrightarrow> row s' v = row s v"
    and "find (qof s) w = Some x \<Longrightarrow> find (qof s') w = Some x"
proof -
  let ?ms = "take k (mark_all fired ds i rs)"
  note st = assms(1) [unfolded delivered_def]
  show "length its = k"
    by (rule delivered_length [OF assms(1,2)])
  have "map rid (mark_all fired ds i rs) = map rid rs" by (rule map_mark_all) (rule rid_fired)
  then have "rid ` set ?ms \<subseteq> rid ` set rs"
    by (metis image_mono list.set_map set_take_subset)
  then show "row s' v = row s v" if "v \<notin> rid ` set rs"
  proof -
    assume sub: "rid ` set ?ms \<subseteq> rid ` set rs"
    have "v \<notin> rid ` set ?ms" using sub that by blast
    then have "map_of (map (\<lambda>r. (rid r, r)) ?ms) v = None"
      by (simp add: map_of_eq_None_iff image_image)
    then show ?thesis using st by (simp add: map_add_def)
  qed
  show "find (qof s') w = Some x" if "find (qof s) w = Some x"
  proof -
    have "w \<noteq> uuid4 (ds j)" if "j \<ge> i" for j
      using assms(3) that \<open>find (qof s) w = Some x\<close> by (auto simp: new_uuids_def)
    then have "w \<notin> set (map id its)" unfolding delivered_ids [OF assms(1,2)] by fastforce
    then have "map_of (map (\<lambda>it. (id it, new it)) its) w = None"
      by (simp add: map_of_eq_None_iff image_image)
    then show ?thesis using st that by (simp add: map_add_def)
  qed
qed

end

lemma put_timer_waits: "put_timer b s t = Inr s' \<Longrightarrow> waits s' = waits s"
  by (auto simp: put_timer_def persist_timers_def split: if_splits)

lemma put_wait_timers: "put_wait b s w = Inr s' \<Longrightarrow> timers s' = timers s"
  by (auto simp: put_wait_def persist_waits_def split: if_splits)

lemma waits_fire_timers: "waits (snd (fire_timers E i ts s acc)) = waits s"
  by (rule ft.loop_keeps [of "\<lambda>x. waits x = waits s"]) (auto dest: put_timer_waits)

lemma timers_fire_waits: "timers (snd (fire_waits E i now ws s acc)) = timers s"
  by (rule fw.loop_keeps [of "\<lambda>x. timers x = timers s"]) (auto dest: put_wait_timers)

lemma schedule_due_at_cases:
  assumes "svc_ok s" and "due_timers E now s = Inr due" and "new_uuids (lookup (queue s)) (tdraws E) i"
  obtains k its s' where "k \<le> length due" "\<forall>j<k. persist_ok E (i + j)"
    "k < length due \<longrightarrow> \<not> persist_ok E (i + k)"
    "schedule_due_at E i now s = (if k = length due then Inr its else Inl OSError, s')"
    "ft.delivered E k due its i s s'" "waits s' = waits s" "distinct (map t_id due)" "svc_ok s'"
proof -
  have d: "distinct (map t_id due)"
    using due_timers_sound [OF assms(2)] assms(1) by (simp add: distinct_sorted_ids svc_ok_def)
  obtain k its s' where *: "k \<le> length due" "\<forall>j<k. persist_ok E (i + j)"
    "k < length due \<longrightarrow> \<not> persist_ok E (i + k)"
    "fire_timers E i due s [] = (if k = length due then Inr ([] @ its) else Inl OSError, s')"
    "ft.delivered E k due its i s s'"
    using ft.loop_delivers [OF _ d assms(3)] assms(1) unfolding svc_ok_def by blast
  have "schedule_due_at E i now s = (if k = length due then Inr its else Inl OSError, s')"
    using *(4) assms(2) by (simp add: schedule_due_at_def)
  moreover have "waits s' = waits s" using waits_fire_timers [of E i due s "[]"] *(4) by simp
  moreover have "svc_ok s'"
    using svc_ok_schedule_due_at [OF assms(1), of E i now] calculation(1) by simp
  ultimately show thesis using that * d by blast
qed

lemma check_timeouts_at_cases:
  assumes "svc_ok s" and "due_waits E now s = Inr due" and "new_uuids (lookup (queue s)) (tdraws E) i"
  obtains k its s' where "k \<le> length due" "\<forall>j<k. persist_ok E (i + j)"
    "k < length due \<longrightarrow> \<not> persist_ok E (i + k)"
    "check_timeouts_at E i now s = (if k = length due then Inr its else Inl OSError, s')"
    "fw.delivered E now k due its i s s'" "timers s' = timers s" "distinct (map w_id due)" "svc_ok s'"
proof -
  have d: "distinct (map w_id due)"
    using due_waits_sound [OF assms(2)] assms(1) by (simp add: distinct_sorted_ids svc_ok_def)
  obtain k its s' where *: "k \<le> length due" "\<forall>j<k. persist_ok E (i + j)"
    "k < length due \<longrightarrow> \<not> persist_ok E (i + k)"
    "fire_waits E i now due s [] = (if k = length due then Inr ([] @ its) else Inl OSError, s')"
    "fw.delivered E now k due its i s s'"
    using fw.loop_delivers [OF _ d assms(3)] assms(1) unfolding svc_ok_def by blast
  have "check_timeouts_at E i now s = (if k = length due then Inr its else Inl OSError, s')"
    using *(4) assms(2) by (simp add: check_timeouts_at_def)
  moreover have "timers s' = timers s" using timers_fire_waits [of E i now due s "[]"] *(4) by simp
  moreover have "svc_ok s'"
    using svc_ok_check_timeouts_at [OF assms(1), of E i now] calculation(1) by simp
  ultimately show thesis using that * d by blast
qed

section \<open>Stages of a restart\<close>

text \<open>Every wake the queue knows stays as it is, in the same lifecycle state.\<close>

definition grows :: "wake_queue \<Rightarrow> wake_queue \<Rightarrow> bool" where
  "grows q q' \<longleftrightarrow> (\<forall>w v. lookup q w = Some v \<longrightarrow> lookup q' w = Some v)"

lemma grows_refl [simp]: "grows q q"
  by (simp add: grows_def)

lemma grows_trans: "grows q1 q2 \<Longrightarrow> grows q2 q3 \<Longrightarrow> grows q1 q3"
  by (simp add: grows_def)

text \<open>Every wake a snapshot row promises is known to the queue.\<close>

definition timers_kept :: "timer_service \<Rightarrow> bool" where
  "timers_kept s \<longleftrightarrow> (\<forall>t\<in>set (dvals (timers s)). \<forall>w. owed_timer t = Some w \<longrightarrow> lookup (queue s) w \<noteq> None)"

definition waits_kept :: "timer_service \<Rightarrow> bool" where
  "waits_kept s \<longleftrightarrow> (\<forall>r\<in>set (dvals (waits s)). \<forall>w. owed_wait r = Some w \<longrightarrow> lookup (queue s) w \<noteq> None)"

lemma timers_kept_grows: "timers_kept s \<Longrightarrow> grows (queue s) (queue s') \<Longrightarrow> timers s' = timers s \<Longrightarrow> timers_kept s'"
  unfolding timers_kept_def grows_def by (metis not_None_eq)

lemma waits_kept_grows: "waits_kept s \<Longrightarrow> grows (queue s) (queue s') \<Longrightarrow> waits s' = waits s \<Longrightarrow> waits_kept s'"
  unfolding waits_kept_def grows_def by (metis not_None_eq)

lemma new_uuids_later:
  assumes "new_uuids known ds i" and "i \<le> j"
    and "\<And>l. l \<ge> j \<Longrightarrow> known' (uuid4 (ds l)) = known (uuid4 (ds l))"
  shows "new_uuids known' ds j"
  using assms unfolding new_uuids_def by (metis le_trans)

context redelivery
begin

lemma settled_new_uuids:
  assumes "settled rs its s s'" and "new_uuids (find (qof s)) us i"
    and "\<And>j r. r \<in> set rs \<Longrightarrow> owed r \<noteq> Some (uuid4 (us j))"
  shows "new_uuids (find (qof s')) us (i + n)"
proof (rule new_uuids_later [OF assms(2)])
  fix j
  have f: "find (qof s') = find (qof s) ++ map_of (map (\<lambda>it. (id it, new it)) its)"
    and ids: "id ` set its = {w. find (qof s) w = None \<and> Some w \<in> owed ` set rs}"
    using assms(1) by (simp_all add: settled_def)
  have "uuid4 (us j) \<notin> id ` set its"
  proof
    assume "uuid4 (us j) \<in> id ` set its"
    then have "Some (uuid4 (us j)) \<in> owed ` set rs" unfolding ids by simp
    then show False using assms(3) by (metis imageE)
  qed
  then have "map_of (map (\<lambda>it. (id it, new it)) its) (uuid4 (us j)) = None"
    by (simp add: map_of_eq_None_iff image_image)
  then show "find (qof s') (uuid4 (us j)) = find (qof s) (uuid4 (us j))"
    unfolding f by (simp add: map_add_def)
qed simp

end

definition unpromised :: "tenv \<Rightarrow> timer_service \<Rightarrow> bool" where
  "unpromised E s \<longleftrightarrow>
     (\<forall>j. \<forall>t\<in>set (dvals (timers s)). t_wake_id t \<noteq> Some (uuid4 (tdraws E j))) \<and>
     (\<forall>j. \<forall>w\<in>set (dvals (waits s)). w_wake_id w \<noteq> Some (uuid4 (tdraws E j)))"

lemma unpromised_same: "unpromised E s \<Longrightarrow> timers s' = timers s \<Longrightarrow> waits s' = waits s \<Longrightarrow> unpromised E s'"
  by (simp add: unpromised_def)

definition stage :: "tenv \<Rightarrow> nat \<Rightarrow> timer_service \<Rightarrow> wake_item list \<Rightarrow> timer_service \<Rightarrow> bool" where
  "stage E i s its s' \<longleftrightarrow>
     svc_ok s' \<and> new_uuids (lookup (queue s')) (tdraws E) (i + length its) \<and> grows (queue s) (queue s')"

lemma reconcile_timers_stage:
  assumes s: "svc_ok s" and new: "new_uuids (lookup (queue s)) (tdraws E) i" and "unpromised E s"
  obtains its s' where "reconcile_orphaned_timer_fires E i s = (Inr its, s')" "stage E i s its s'"
    "s' = s\<lparr>queue := queue s'\<rparr>" "timers_kept s'"
proof -
  let ?ts = "sort_key (\<lambda>t. (wake_at t, t_id t)) (dvals (timers s))"
  obtain its s' where l: "reconcile_timers E i ?ts s [] = (Inr ([] @ its), s')"
    and st: "rt.settled ?ts its s s'"
    using rt.loop_settles [of s E i ?ts "[]"] s by (auto simp: svc_ok_def)
  have q: "s' = s\<lparr>queue := queue s'\<rparr>" and c: "coherent (queue s')"
    using st by (simp_all add: rt.settled_def)
  have g: "grows (queue s) (queue s')" using rt.settled_known(2) [OF st] by (simp add: grows_def)
  have ts: "timers s' = timers s" by (subst q) simp
  have kept: "timers_kept s'"
    unfolding timers_kept_def ts using rt.settled_known(1) [OF st] by simp
  have "new_uuids (lookup (queue s')) (tdraws E) (i + length its)"
    by (rule rt.settled_new_uuids [OF st new])
      (use assms(3) in \<open>auto simp: unpromised_def dest: owed_timerD\<close>)
  moreover have "svc_ok s'" using svc_ok_queue [OF s c] q by simp
  moreover have "reconcile_orphaned_timer_fires E i s = (Inr its, s')"
    using l by (simp add: reconcile_orphaned_timer_fires_def)
  ultimately show thesis using that g kept q by (simp add: stage_def)
qed

lemma reconcile_waits_stage:
  assumes s: "svc_ok s" and new: "new_uuids (lookup (queue s)) (tdraws E) i" and "unpromised E s"
  obtains its s' where "reconcile_orphaned_wait_timeouts E i now s = (Inr its, s')" "stage E i s its s'"
    "s' = s\<lparr>queue := queue s'\<rparr>" "waits_kept s'"
proof -
  let ?ws = "sort_key (\<lambda>w. (expires_at w, w_id w)) (dvals (waits s))"
  obtain its s' where l: "reconcile_waits E i now ?ws s [] = (Inr ([] @ its), s')"
    and st: "rw.settled ?ws its s s'"
    using rw.loop_settles [of s E i now ?ws "[]"] s by (auto simp: svc_ok_def)
  have q: "s' = s\<lparr>queue := queue s'\<rparr>" and c: "coherent (queue s')"
    using st by (simp_all add: rw.settled_def)
  have g: "grows (queue s) (queue s')" using rw.settled_known(2) [OF st] by (simp add: grows_def)
  have ws: "waits s' = waits s" by (subst q) simp
  have kept: "waits_kept s'"
    unfolding waits_kept_def ws using rw.settled_known(1) [OF st] by simp
  have "new_uuids (lookup (queue s')) (tdraws E) (i + length its)"
    by (rule rw.settled_new_uuids [OF st new])
      (use assms(3) in \<open>auto simp: unpromised_def dest: owed_waitD\<close>)
  moreover have "svc_ok s'" using svc_ok_queue [OF s c] q by simp
  moreover have "reconcile_orphaned_wait_timeouts E i now s = (Inr its, s')"
    using l by (simp add: reconcile_orphaned_wait_timeouts_def)
  ultimately show thesis using that g kept q by (simp add: stage_def)
qed

context firing
begin

lemma mark_rows: "rid ` set (take k (mark_all fired us i rs)) = rid ` set (take k rs)"
proof -
  have "map rid (mark_all fired us i rs) = map rid rs" by (rule map_mark_all) (rule rid_fired)
  then have "map rid (take k (mark_all fired us i rs)) = map rid (take k rs)"
    by (metis take_map)
  then show ?thesis by (metis list.set_map)
qed

lemma delivered_old:
  assumes "delivered k rs its i s s'" and "v \<notin> rid ` set (take k rs)"
  shows "row s' v = row s v"
proof -
  have "v \<notin> rid ` set (take k (mark_all fired ds i rs))" using assms(2) by (simp add: mark_rows)
  then have "map_of (map (\<lambda>r. (rid r, r)) (take k (mark_all fired ds i rs))) v = None"
    by (simp add: map_of_eq_None_iff image_image)
  then show ?thesis using assms(1) by (simp add: delivered_def map_add_def)
qed

end

lemma svc_ok_timer: "svc_ok s \<Longrightarrow> t \<in> set (dvals (timers s)) \<longleftrightarrow> dget (timers s) (t_id t) = Some t"
  by (rule keyed_in_dvals) (simp add: svc_ok_def)

lemma svc_ok_wait: "svc_ok s \<Longrightarrow> w \<in> set (dvals (waits s)) \<longleftrightarrow> dget (waits s) (w_id w) = Some w"
  by (rule keyed_in_dvals) (simp add: svc_ok_def)

text \<open>Which rows a delivery leaves behind: old rows that were not due, and fired ones.\<close>

lemma delivered_timer_rows:
  assumes "svc_ok s" and "svc_ok s'" and "due_timers E now s = Inr due"
    and "ft.delivered E k due its i s s'" and "k \<le> length due" and "distinct (map t_id due)"
    and "new_uuids (lookup (queue s)) (tdraws E) i" and "t \<in> set (dvals (timers s'))"
  obtains (old) "t \<in> set (dvals (timers s))" "k = length due \<longrightarrow> \<not> due_at E now t"
  | (fired) j where "j < k" "t = fired_timer (due ! j) (id (its ! j))"
      "lookup (queue s') (id (its ! j)) = Some (just_enqueued (its ! j))"
proof -
  have t: "dget (timers s') (t_id t) = Some t"
    using svc_ok_timer [OF assms(2)] assms(8) by blast
  have due: "set due = {t \<in> set (dvals (timers s)). due_at E now t}"
    using due_timers_sound [OF assms(3)] by auto
  note nth = ft.delivered_nth [OF assms(4,5,6,7)]
  show thesis
  proof (cases "t_id t \<in> t_id ` set (take k due)")
    case True
    then obtain j where j: "j < k" "t_id t = t_id (due ! j)"
      using assms(5) by (auto simp: in_set_conv_nth)
    then have "t = fired_timer (due ! j) (id (its ! j))" using nth(1) [OF j(1)] t by simp
    with j(1) nth(4) show ?thesis by (intro fired)
  next
    case False
    have "dget (timers s') (t_id t) = dget (timers s) (t_id t)"
      using ft.delivered_old [OF assms(4) False] .
    then have old: "t \<in> set (dvals (timers s))" using t svc_ok_timer [OF assms(1)] by simp
    moreover have "\<not> due_at E now t" if "k = length due" using False due old that by auto
    ultimately show ?thesis by (intro that(1)) auto
  qed
qed

lemma delivered_wait_rows:
  assumes "svc_ok s" and "svc_ok s'" and "due_waits E now s = Inr due"
    and "fw.delivered E now k due its i s s'" and "k \<le> length due" and "distinct (map w_id due)"
    and "new_uuids (lookup (queue s)) (tdraws E) i" and "r \<in> set (dvals (waits s'))"
  obtains (old) "r \<in> set (dvals (waits s))" "k = length due \<longrightarrow> \<not> expired_at E now r"
  | (fired) j where "j < k" "r = timed_out_wait (due ! j) (id (its ! j))"
      "lookup (queue s') (id (its ! j)) = Some (just_enqueued (its ! j))"
proof -
  have t: "dget (waits s') (w_id r) = Some r"
    using svc_ok_wait [OF assms(2)] assms(8) by blast
  have due: "set due = {r \<in> set (dvals (waits s)). expired_at E now r}"
    using due_waits_sound [OF assms(3)] by simp
  note nth = fw.delivered_nth [OF assms(4,5,6,7)]
  show thesis
  proof (cases "w_id r \<in> w_id ` set (take k due)")
    case True
    then obtain j where j: "j < k" "w_id r = w_id (due ! j)"
      using assms(5) by (auto simp: in_set_conv_nth)
    then have "r = timed_out_wait (due ! j) (id (its ! j))" using nth(1) [OF j(1)] t by simp
    with j(1) nth(4) show ?thesis by (intro fired)
  next
    case False
    have "dget (waits s') (w_id r) = dget (waits s) (w_id r)"
      using fw.delivered_old [OF assms(4) False] .
    then have old: "r \<in> set (dvals (waits s))" using t svc_ok_wait [OF assms(1)] by simp
    moreover have "\<not> expired_at E now r" if "k = length due" using False due old that by auto
    ultimately show ?thesis by (intro that(1)) auto
  qed
qed

lemma schedule_due_at_stage:
  assumes s: "svc_ok s" and new: "new_uuids (lookup (queue s)) (tdraws E) i"
  obtains r s' where "schedule_due_at E i now s = (r, s')" "svc_ok s'" "grows (queue s) (queue s')"
    "waits s' = waits s" "timers_kept s \<longrightarrow> timers_kept s'"
    "\<And>its. r = Inr its \<Longrightarrow> stage E i s its s' \<and> (\<forall>t\<in>set (dvals (timers s')). \<not> due_at E now t)
       \<and> timer_times_ok E s'"
    "timer_times_ok E s \<and> (\<forall>j. persist_ok E j) \<longrightarrow> (\<exists>its. r = Inr its)"
proof (cases "due_timers E now s")
  case (Inl e)
  then have "schedule_due_at E i now s = (Inl e, s)" by (simp add: schedule_due_at_def)
  then show ?thesis using that [of "Inl e" s] s Inl due_timers_ok [of E s now] by auto
next
  case (Inr due)
  obtain k its s' where k: "k \<le> length due" "k < length due \<longrightarrow> \<not> persist_ok E (i + k)"
    and eq: "schedule_due_at E i now s = (if k = length due then Inr its else Inl OSError, s')"
    and d: "ft.delivered E k due its i s s'" and w: "waits s' = waits s"
    and dist: "distinct (map t_id due)" and s': "svc_ok s'"
    using schedule_due_at_cases [OF s Inr new] by metis
  note fr = ft.delivered_frame [OF d k(1) new]
  have g: "grows (queue s) (queue s')" using fr(3) by (simp add: grows_def)
  have kept: "timers_kept s'" if "timers_kept s"
    unfolding timers_kept_def
  proof (intro ballI allI impI)
    fix t v
    assume t: "t \<in> set (dvals (timers s'))" and o: "owed_timer t = Some v"
    show "lookup (queue s') v \<noteq> None"
    proof (cases rule: delivered_timer_rows [OF s s' Inr d k(1) dist new t])
      case 1
      with that o g show ?thesis unfolding timers_kept_def grows_def by fastforce
    next
      case (2 j)
      then show ?thesis using owed_timerD [OF o] by (simp add: fired_timer_def)
    qed
  qed
  have nodue: "\<not> due_at E now t" if "k = length due" "t \<in> set (dvals (timers s'))" for t
  proof (cases rule: delivered_timer_rows [OF s s' Inr d k(1) dist new that(2)])
    case 1
    with that show ?thesis by simp
  next
    case (2 j)
    then show ?thesis by (simp add: due_at_def fired_timer_def)
  qed
  have parse: "timer_times_ok E s'"
    unfolding timer_times_ok_def
  proof
    fix t
    assume t: "t \<in> set (dvals (timers s'))"
    show "t_status t = STATUS_SCHEDULED \<longrightarrow> parse_utc E (wake_at t) \<noteq> None"
    proof (cases rule: delivered_timer_rows [OF s s' Inr d k(1) dist new t])
      case 1
      with due_timers_parses [OF Inr] show ?thesis by (simp add: timer_times_ok_def)
    next
      case (2 j)
      then show ?thesis by (simp add: fired_timer_def)
    qed
  qed
  have "stage E i s its s'"
    using s' g ft.delivered_new_uuids [OF d k(1) new] fr(1) by (simp add: stage_def)
  then show ?thesis
    by (intro that [OF eq s' g w]) (use kept nodue parse k in \<open>auto split: if_splits\<close>)
qed

lemma check_timeouts_at_stage:
  assumes s: "svc_ok s" and new: "new_uuids (lookup (queue s)) (tdraws E) i"
  obtains r s' where "check_timeouts_at E i now s = (r, s')" "svc_ok s'" "grows (queue s) (queue s')"
    "timers s' = timers s" "waits_kept s \<longrightarrow> waits_kept s'"
    "\<And>its. r = Inr its \<Longrightarrow> stage E i s its s' \<and> (\<forall>w\<in>set (dvals (waits s')). \<not> expired_at E now w)
       \<and> wait_times_ok E s'"
    "wait_times_ok E s \<and> (\<forall>j. persist_ok E j) \<longrightarrow> (\<exists>its. r = Inr its)"
proof (cases "due_waits E now s")
  case (Inl e)
  then have "check_timeouts_at E i now s = (Inl e, s)" by (simp add: check_timeouts_at_def)
  then show ?thesis using that [of "Inl e" s] s Inl due_waits_ok [of E s now] by auto
next
  case (Inr due)
  obtain k its s' where k: "k \<le> length due" "k < length due \<longrightarrow> \<not> persist_ok E (i + k)"
    and eq: "check_timeouts_at E i now s = (if k = length due then Inr its else Inl OSError, s')"
    and d: "fw.delivered E now k due its i s s'" and w: "timers s' = timers s"
    and dist: "distinct (map w_id due)" and s': "svc_ok s'"
    using check_timeouts_at_cases [OF s Inr new] by metis
  note fr = fw.delivered_frame [OF d k(1) new]
  have g: "grows (queue s) (queue s')" using fr(3) by (simp add: grows_def)
  have kept: "waits_kept s'" if "waits_kept s"
    unfolding waits_kept_def
  proof (intro ballI allI impI)
    fix r v
    assume r: "r \<in> set (dvals (waits s'))" and o: "owed_wait r = Some v"
    show "lookup (queue s') v \<noteq> None"
    proof (cases rule: delivered_wait_rows [OF s s' Inr d k(1) dist new r])
      case 1
      with that o g show ?thesis unfolding waits_kept_def grows_def by fastforce
    next
      case (2 j)
      then show ?thesis using owed_waitD [OF o] by (simp add: timed_out_wait_def)
    qed
  qed
  have nodue: "\<not> expired_at E now r" if "k = length due" "r \<in> set (dvals (waits s'))" for r
  proof (cases rule: delivered_wait_rows [OF s s' Inr d k(1) dist new that(2)])
    case 1
    with that show ?thesis by simp
  next
    case (2 j)
    then show ?thesis by (simp add: expired_at_def timed_out_wait_def)
  qed
  have parse: "wait_times_ok E s'"
    unfolding wait_times_ok_def
  proof
    fix r
    assume r: "r \<in> set (dvals (waits s'))"
    show "w_status r = STATUS_PENDING \<longrightarrow> expires_at r \<noteq> [] \<longrightarrow> parse_utc E (expires_at r) \<noteq> None"
    proof (cases rule: delivered_wait_rows [OF s s' Inr d k(1) dist new r])
      case 1
      with due_waits_parses [OF Inr] show ?thesis by (simp add: wait_times_ok_def)
    next
      case (2 j)
      then show ?thesis by (simp add: timed_out_wait_def)
    qed
  qed
  have "stage E i s its s'"
    using s' g fw.delivered_new_uuids [OF d k(1) new] fr(1) by (simp add: stage_def)
  then show ?thesis
    by (intro that [OF eq s' g w]) (use kept nodue parse k in \<open>auto split: if_splits\<close>)
qed

lemma andthen_Inr: "andthen (Inr xs, s) f i =
    (case f (i + length xs) s of (Inl e, s') \<Rightarrow> (Inl e, s') | (Inr ys, s') \<Rightarrow> (Inr (xs @ ys), s'))"
  by (simp add: andthen_def)

lemma andthen_Inl: "andthen (Inl e, s) f i = (Inl e, s)"
  by (simp add: andthen_def)

text \<open>Nothing is owed and nothing is due: what a restart leaves when it returns.\<close>

definition quiet :: "tenv \<Rightarrow> int \<Rightarrow> timer_service \<Rightarrow> bool" where
  "quiet E now s \<longleftrightarrow> timers_kept s \<and> waits_kept s \<and>
     timer_times_ok E s \<and> (\<forall>t\<in>set (dvals (timers s)). \<not> due_at E now t) \<and>
     wait_times_ok E s \<and> (\<forall>w\<in>set (dvals (waits s)). \<not> expired_at E now w)"

lemma reconcile_both:
  assumes "coherent (queue s0)" and "new_uuids (lookup (queue s0)) (tdraws E) 0"
    and "unpromised E (load_service s0)"
  obtains its s2 where
    "andthen (reconcile_orphaned_wait_timeouts E 0 now (load_service s0))
       (\<lambda>i s. reconcile_orphaned_timer_fires E i s) 0 = (Inr its, s2)"
    "stage E 0 s0 its s2" "timers s2 = timers (load_service s0)" "waits s2 = waits (load_service s0)"
    "timers_kept s2" "waits_kept s2"
proof -
  let ?s = "load_service s0"
  have s: "svc_ok ?s" using assms(1) by (rule svc_ok_load)
  have qs: "queue ?s = queue s0" by (simp add: load_service_def)
  obtain xs s1 where 1: "reconcile_orphaned_wait_timeouts E 0 now ?s = (Inr xs, s1)"
    "stage E 0 ?s xs s1" "s1 = ?s\<lparr>queue := queue s1\<rparr>" "waits_kept s1"
    using reconcile_waits_stage [OF s _ assms(3), of 0 now] assms(2) qs by metis
  have f1: "timers s1 = timers ?s" "waits s1 = waits ?s" by (subst 1(3), simp)+
  have st1: "svc_ok s1" "new_uuids (lookup (queue s1)) (tdraws E) (0 + length xs)"
    "grows (queue s0) (queue s1)" using 1(2) qs by (simp_all add: stage_def)
  obtain ys s2 where 2: "reconcile_orphaned_timer_fires E (0 + length xs) s1 = (Inr ys, s2)"
    "stage E (0 + length xs) s1 ys s2" "s2 = s1\<lparr>queue := queue s2\<rparr>" "timers_kept s2"
    using reconcile_timers_stage [OF st1(1,2) unpromised_same [OF assms(3) f1]] by metis
  have f2: "timers s2 = timers s1" "waits s2 = waits s1" by (subst 2(3), simp)+
  have g: "grows (queue s1) (queue s2)" using 2(2) by (simp add: stage_def)
  have "stage E 0 s0 (xs @ ys) s2"
    using 2(2) grows_trans [OF st1(3) g] by (simp add: stage_def)
  moreover have "waits_kept s2" using waits_kept_grows [OF 1(4) g f2(2)] .
  ultimately show thesis using that [of "xs @ ys" s2] 1(1) 2(1,4) f1 f2 by (simp add: andthen_Inr)
qed

lemma rehydrate_stages:
  assumes "coherent (queue s0)" and "resolve_now E n = Inr now"
    and "new_uuids (lookup (queue s0)) (tdraws E) 0" and "unpromised E (load_service s0)"
  obtains r s' where "rehydrate E n s0 = (r, s')" "svc_ok s'" "grows (queue s0) (queue s')"
    "timers_kept s'" "waits_kept s'"
    "\<forall>t\<in>set (dvals (timers (load_service s0))). \<forall>w. owed_timer t = Some w \<longrightarrow> lookup (queue s') w \<noteq> None"
    "\<forall>t\<in>set (dvals (waits (load_service s0))). \<forall>w. owed_wait t = Some w \<longrightarrow> lookup (queue s') w \<noteq> None"
    "\<And>its. r = Inr its \<Longrightarrow> quiet E now s'"
    "timer_times_ok E (load_service s0) \<and> wait_times_ok E (load_service s0) \<and> (\<forall>j. persist_ok E j)
       \<longrightarrow> (\<exists>its. r = Inr its)"
proof -
  obtain xs s2 where 2: "andthen (reconcile_orphaned_wait_timeouts E 0 now (load_service s0))
       (\<lambda>i s. reconcile_orphaned_timer_fires E i s) 0 = (Inr xs, s2)"
    "timers s2 = timers (load_service s0)" "waits s2 = waits (load_service s0)"
    "timers_kept s2" "waits_kept s2" and st2: "stage E 0 s0 xs s2"
    using reconcile_both [OF assms(1,3,4)] by metis
  have st2': "svc_ok s2" "new_uuids (lookup (queue s2)) (tdraws E) (0 + length xs)" "grows (queue s0) (queue s2)"
    using st2 by (simp_all add: stage_def)
  obtain r3 s3 where 3: "check_timeouts_at E (0 + length xs) now s2 = (r3, s3)" "svc_ok s3"
    "grows (queue s2) (queue s3)" "timers s3 = timers s2" "waits_kept s3"
    "\<And>its. r3 = Inr its \<Longrightarrow> stage E (0 + length xs) s2 its s3 \<and> (\<forall>w\<in>set (dvals (waits s3)). \<not> expired_at E now w)
       \<and> wait_times_ok E s3"
    "wait_times_ok E s2 \<and> (\<forall>j. persist_ok E j) \<longrightarrow> (\<exists>its. r3 = Inr its)"
    using check_timeouts_at_stage [OF st2'(1,2), of now] 2(5) by metis
  have k3: "timers_kept s3" using timers_kept_grows [OF 2(4) 3(3,4)] .
  have old: "lookup (queue s') w \<noteq> None"
    if "grows (queue s2) (queue s')" "t \<in> set (dvals (timers (load_service s0)))" "owed_timer t = Some w" for s' t w
    using 2(2,4) that unfolding timers_kept_def grows_def by (metis not_None_eq)
  have oldw: "lookup (queue s') w \<noteq> None"
    if "grows (queue s2) (queue s')" "t \<in> set (dvals (waits (load_service s0)))" "owed_wait t = Some w" for s' t w
    using 2(3,5) that unfolding waits_kept_def grows_def by (metis not_None_eq)
  show thesis
  proof (cases r3)
    case (Inl e)
    have "rehydrate E n s0 = (Inl e, s3)"
      using assms(2) 2(1) 3(1) Inl by (simp add: rehydrate_def andthen_Inr andthen_Inl)
    then show ?thesis
      by (rule that)
        (use 2 3 k3 Inl st2' old [OF 3(3)] oldw [OF 3(3)] in
          \<open>auto simp: wait_times_ok_def intro: grows_trans\<close>)
  next
    case (Inr ys)
    have st3: "new_uuids (lookup (queue s3)) (tdraws E) (0 + length (xs @ ys))"
      and nox: "\<forall>w\<in>set (dvals (waits s3)). \<not> expired_at E now w" "wait_times_ok E s3"
      using 3(6) [OF Inr] by (simp_all add: stage_def add.assoc)
    obtain r4 s4 where 4: "schedule_due_at E (0 + length (xs @ ys)) now s3 = (r4, s4)" "svc_ok s4"
      "grows (queue s3) (queue s4)" "waits s4 = waits s3" "timers_kept s4"
      "\<And>its. r4 = Inr its \<Longrightarrow> (\<forall>t\<in>set (dvals (timers s4)). \<not> due_at E now t) \<and> timer_times_ok E s4"
      "timer_times_ok E s3 \<and> (\<forall>j. persist_ok E j) \<longrightarrow> (\<exists>its. r4 = Inr its)"
      using schedule_due_at_stage [OF 3(2) st3, of now] k3 by metis
    have g: "grows (queue s2) (queue s4)" using 3(3) 4(3) by (rule grows_trans)
    have eq: "rehydrate E n s0 = (case r4 of Inl e \<Rightarrow> (Inl e, s4) | Inr zs \<Rightarrow> (Inr ((xs @ ys) @ zs), s4))"
      using assms(2) 2(1) 3(1) 4(1) Inr
      by (simp add: rehydrate_def andthen_Inr split: sum.split)
    have w4: "waits_kept s4" using waits_kept_grows [OF 3(5) 4(3,4)] .
    have q4: "quiet E now s4" if "r4 = Inr its" for its
      using 4(4,5) 4(6) [OF that] w4 nox by (simp add: quiet_def wait_times_ok_def)
    have t3: "timer_times_ok E s3" if "timer_times_ok E (load_service s0)"
      using that 2(2) 3(4) by (simp add: timer_times_ok_def)
    show ?thesis
    proof (cases r4)
      case (Inl e)
      with eq have "rehydrate E n s0 = (Inl e, s4)" by simp
      then show ?thesis
        by (rule that)
          (use 4 Inl w4 t3 grows_trans [OF st2'(3) g] old [OF g] oldw [OF g] in auto)
    next
      case (Inr zs)
      with eq have "rehydrate E n s0 = (Inr ((xs @ ys) @ zs), s4)" by simp
      then show ?thesis
        by (rule that)
          (use 4 Inr w4 q4 grows_trans [OF st2'(3) g] old [OF g] oldw [OF g] in auto)
    qed
  qed
qed

context redelivery
begin

lemma loop_nothing:
  "(\<And>r w. r \<in> set rs \<Longrightarrow> owed r = Some w \<Longrightarrow> find (qof s) w \<noteq> None) \<Longrightarrow>
   loop i rs s acc = (Inr acc, s)"
proof (induction rs)
  case Nil
  then show ?case by (simp add: loop_Nil)
next
  case (Cons r rs)
  have "owed r = None \<or> (\<exists>w. owed r = Some w \<and> find (qof s) w \<noteq> None)"
    using Cons.prems [of r] by (cases "owed r") simp_all
  then have "loop i (r # rs) s acc = loop i rs s acc"
    using loop_skip loop_known by blast
  moreover have "loop i rs s acc = (Inr acc, s)"
    by (rule Cons.IH) (use Cons.prems [OF list.set_intros(2)] in blast)
  ultimately show ?case by simp
qed

end

lemma quiet_reload:
  assumes "svc_ok s"
  shows "quiet E now (load_service s) \<longleftrightarrow> quiet E now s"
proof -
  have l: "svc_ok (load_service s)" using assms by (intro svc_ok_load) (simp add: svc_ok_def)
  have "set (dvals (timers (load_service s))) = set (dvals (timers s))"
    "set (dvals (waits (load_service s))) = set (dvals (waits s))"
    using svc_ok_timer [OF l] svc_ok_timer [OF assms] svc_ok_wait [OF l] svc_ok_wait [OF assms]
      svc_ok_reload(1,2) [OF assms] by auto
  then show ?thesis
    by (simp add: quiet_def timers_kept_def waits_kept_def timer_times_ok_def wait_times_ok_def
        load_service_def)
qed

lemma quiet_stages:
  assumes "quiet E now s"
  shows "reconcile_orphaned_wait_timeouts E i now s = (Inr [], s)"
    and "reconcile_orphaned_timer_fires E i s = (Inr [], s)"
    and "check_timeouts_at E i now s = (Inr [], s)"
    and "schedule_due_at E i now s = (Inr [], s)"
proof -
  note q = assms [unfolded quiet_def]
  show "reconcile_orphaned_wait_timeouts E i now s = (Inr [], s)"
    unfolding reconcile_orphaned_wait_timeouts_def
    by (rule rw.loop_nothing) (use q in \<open>auto simp: waits_kept_def\<close>)
  show "reconcile_orphaned_timer_fires E i s = (Inr [], s)"
    unfolding reconcile_orphaned_timer_fires_def
    by (rule rt.loop_nothing) (use q in \<open>auto simp: timers_kept_def\<close>)
  have "due_waits E now s = Inr []"
    using due_waits_ok [of E s now] due_waits_sound [of E now s] q by (auto simp: filter_empty_conv)
  then show "check_timeouts_at E i now s = (Inr [], s)" by (simp add: check_timeouts_at_def)
  have "due_timers E now s = Inr []"
    using due_timers_ok [of E s now] due_timers_sound [of E now s] q by (auto simp: filter_empty_conv)
  then show "schedule_due_at E i now s = (Inr [], s)" by (simp add: schedule_due_at_def)
qed

lemma quiet_rehydrate:
  assumes "svc_ok s" and "quiet E now s" and "resolve_now E n = Inr now"
  shows "rehydrate E n s = (Inr [], load_service s)"
  using quiet_stages [of E now "load_service s"] quiet_reload [OF assms(1)] assms(2,3)
  by (simp add: rehydrate_def andthen_Inr)

section \<open>Properties\<close>

text \<open>An environment and services for the witnesses: the clock stands at 10.\<close>

definition demo_env :: tenv where
  "demo_env = \<lparr>parse_utc = (\<lambda>x. if x = ''T5'' then Some 5 else if x = ''T9'' then Some 9
       else if x = ''T20'' then Some 20 else None),
     as_iso = (\<lambda>t. ''T20''), clock = 10, clock2 = 10, float_repr = (\<lambda>q. ''1.0''),
     persist_ok = (\<lambda>i. True), tdraws = nat_draws\<rparr>"

definition demo_timer :: "string \<Rightarrow> string \<Rightarrow> string \<Rightarrow> string option \<Rightarrow> pending_timer" where
  "demo_timer i at_s st w = \<lparr>t_id = i, wake_at = at_s, t_reason = '''', t_goal_id = None,
     t_task_id = None, t_status = st, t_wake_id = w\<rparr>"

definition demo_wait :: "string \<Rightarrow> string \<Rightarrow> string \<Rightarrow> pending_wait" where
  "demo_wait i at_s st = \<lparr>w_id = i, w_prompt = ''p'', w_choices = [], w_user_id = ''operator'',
     w_moment_id = ''m'', expires_at = at_s, w_timeout = None, armed_at = None, w_status = st,
     w_wake_id = None\<rparr>"

definition demo_service :: timer_service where
  "demo_service = load_service
     \<lparr>queue = loaded demo_file, timers = [], waits = [],
      timers_file = [demo_timer ''t9'' ''T9'' ''scheduled'' None, demo_timer ''t20'' ''T20'' ''scheduled'' None,
        demo_timer ''t5'' ''T5'' ''scheduled'' None, demo_timer ''old'' ''T5'' ''fired'' (Some ''lost'')],
      waits_file = [demo_wait ''w'' ''T5'' ''pending'']\<rparr>"

lemma demo_queue: "queue demo_service = loaded demo_file"
  by (simp add: demo_service_def load_service_def)

lemma demo_coherent: "coherent (queue demo_service)"
  unfolding demo_queue using load_demo load_coherent by blast

lemma demo_svc_ok: "svc_ok demo_service"
  unfolding demo_service_def by (rule svc_ok_load) (use demo_coherent demo_queue in simp)

lemma nat_draws_new:
  assumes "\<And>w v. known w = Some v \<Longrightarrow> take 1 w \<noteq> ''u''"
  shows "new_uuids known nat_draws i"
proof -
  have "known (uuid4 (nat_draws j)) = None" for j
    using assms [of "uuid4 (nat_draws j)"]
    by (cases "known (uuid4 (nat_draws j))") (simp_all add: nat_draws_def draw_of_def)
  moreover have "uuid4 (nat_draws j) = uuid4 (nat_draws k) \<Longrightarrow> j = k" for j k
    by (simp add: nat_draws_def draw_of_def replicate_eq_replicate)
  ultimately show ?thesis
    unfolding new_uuids_def by (simp add: nat_draws_def draw_of_def)
qed

lemma demo_new: "new_uuids (lookup (loaded demo_file)) (tdraws demo_env) 0"
proof -
  have i: "items (loaded demo_file) = [(''a'', demo_item ''a'' ''background'' 4 ''T1''),
      (''b'', demo_item ''b'' ''timer'' 2 ''T2'')]" by code_simp
  have "new_uuids (lookup (loaded demo_file)) nat_draws 0"
    by (rule nat_draws_new) (auto simp: lookup_def get_def i split: if_splits)
  then show ?thesis by (simp add: demo_env_def)
qed



text \<open>
  C10. \<open>schedule_due\<close> fires exactly what is due. With a consistent service, readable times,
  working writes and new uuids, it returns one \<open>timer\<close> wake per scheduled timer whose time has
  come, in order of (wake_at, id): each such timer is now fired and points at its wake, which
  waits in the queue with the timer's payload; all other timers and all waits are untouched, and every
  wake the queue knew keeps its item and state. Polling again at the same time fires nothing.
\<close>

theorem schedule_due_fires_exactly_due:
  assumes "svc_ok s" and "resolve_now E n = Inr now" and "timer_times_ok E s"
    and "\<forall>i. persist_ok E i" and "new_uuids (lookup (queue s)) (tdraws E) 0"
  shows "\<exists>its s'. schedule_due E n s = (Inr its, s') \<and>
    (let due = filter (due_at E now) (list_timers s (Some STATUS_SCHEDULED)) in
       length its = length due \<and>
       (\<forall>j<length due. dget (timers s') (t_id (due ! j)) = Some (fired_timer (due ! j) (id (its ! j))) \<and>
          kind (its ! j) = ''timer'' \<and> payload (its ! j) = timer_payload (due ! j) \<and>
          lookup (queue s') (id (its ! j)) = Some (its ! j, Some Enqueue)) \<and>
       (\<forall>k. k \<notin> t_id ` set due \<longrightarrow> dget (timers s') k = dget (timers s) k) \<and>
       waits s' = waits s \<and> grows (queue s) (queue s')) \<and>
    schedule_due E (NowTime now) s' = (Inr [], s')"
proof -
  let ?key = "\<lambda>t. (wake_at t, t_id t)"
  obtain due where due: "due_timers E now s = Inr due" using due_timers_ok [OF assms(3)] by blast
  have due_eq: "due = filter (due_at E now) (list_timers s (Some STATUS_SCHEDULED))"
  proof -
    have "filter (due_at E now) (filter (\<lambda>t. t_status t = STATUS_SCHEDULED) ts) = filter (due_at E now) ts" for ts
      by (induction ts) (auto simp: due_at_def)
    then show ?thesis using due_timers_sound [OF due] by (simp add: list_timers_def filter_sort)
  qed
  obtain k its s' where k: "k \<le> length due" "k < length due \<longrightarrow> \<not> persist_ok E (0 + k)"
    and eq: "schedule_due_at E 0 now s = (if k = length due then Inr its else Inl OSError, s')"
    and d: "ft.delivered E k due its 0 s s'" and w: "waits s' = waits s"
    and dist: "distinct (map t_id due)"
    using schedule_due_at_cases [OF assms(1) due assms(5)] by metis
  have kl: "k = length due" using k assms(4) by auto
  obtain r s2 where st: "schedule_due_at E 0 now s = (r, s2)" "grows (queue s) (queue s2)"
    "\<And>its. r = Inr its \<Longrightarrow> (\<forall>t\<in>set (dvals (timers s2)). \<not> due_at E now t) \<and> timer_times_ok E s2"
    using schedule_due_at_stage [OF assms(1,5), of now] by metis
  have r: "r = Inr its" "s2 = s'" using st(1) eq kl by simp_all
  have "due_timers E now s' = Inr []"
    using due_timers_ok [of E s' now] due_timers_sound [of E now s'] st(3) [OF r(1)] r(2)
    by (auto simp: filter_empty_conv)
  then have again: "schedule_due E (NowTime now) s' = (Inr [], s')"
    by (simp add: schedule_due_def resolve_now_def schedule_due_at_def)
  have pay: "timer_payload (fired_timer t u) = timer_payload t" for t u
    by (simp add: timer_payload_def fired_timer_def)
  note nth = ft.delivered_nth [OF d k(1) dist assms(5)]
  have "\<forall>j<length due. dget (timers s') (t_id (due ! j)) = Some (fired_timer (due ! j) (id (its ! j))) \<and>
      kind (its ! j) = ''timer'' \<and> payload (its ! j) = timer_payload (due ! j) \<and>
      lookup (queue s') (id (its ! j)) = Some (its ! j, Some Enqueue)"
    using nth kl by (simp add: pay)
  moreover have "schedule_due E n s = (Inr its, s')"
    using assms(2) eq kl by (simp add: schedule_due_def)
  ultimately show ?thesis
    using again w st(2) r(2) ft.delivered_frame(1,2) [OF d k(1) assms(5)] kl
    unfolding due_eq [symmetric] Let_def by blast
qed

theorem schedule_due_fires_exactly_due_witness:
  "\<exists>its s'. schedule_due demo_env NowClock demo_service = (Inr its, s') \<and>
     map payload its = map timer_payload
       [demo_timer ''t5'' ''T5'' ''scheduled'' None, demo_timer ''t9'' ''T9'' ''scheduled'' None] \<and>
     schedule_due demo_env (NowTime 10) s' = (Inr [], s')"
proof -
  have tm: "timer_times_ok demo_env demo_service" by code_simp
  have p: "\<forall>i. persist_ok demo_env i" by (simp add: demo_env_def)
  have n: "resolve_now demo_env NowClock = Inr 10" by (simp add: resolve_now_def demo_env_def)
  have due: "filter (due_at demo_env 10) (list_timers demo_service (Some STATUS_SCHEDULED)) =
    [demo_timer ''t5'' ''T5'' ''scheduled'' None, demo_timer ''t9'' ''T9'' ''scheduled'' None]"
    by code_simp
  obtain its s' where r: "schedule_due demo_env NowClock demo_service = (Inr its, s')"
    "length its = 2" "payload (its ! 0) = timer_payload (demo_timer ''t5'' ''T5'' ''scheduled'' None)"
    "payload (its ! 1) = timer_payload (demo_timer ''t9'' ''T9'' ''scheduled'' None)"
    "schedule_due demo_env (NowTime 10) s' = (Inr [], s')"
    using schedule_due_fires_exactly_due [OF demo_svc_ok n tm p] demo_new
    unfolding due Let_def demo_queue by (auto simp: All_less_Suc2 numeral_2_eq_2)
  have "its = [its ! 0, its ! 1]" using r(2) by (intro nth_equalityI) (auto simp: less_Suc_eq numeral_2_eq_2)
  then have "map payload its = [payload (its ! 0), payload (its ! 1)]" by (metis list.simps(8,9))
  with r show ?thesis by simp
qed



lemma jget_wait_payload: "jget (wait_timeout_payload E w now) ''wait_id'' = JStr (w_id w)"
  by (auto simp: wait_timeout_payload_def Let_def jget_def split: option.split)

lemma end_wait_settled:
  assumes "svc_ok s" and "end_wait st E s w = Inr (s1, wt)" and "st \<noteq> STATUS_PENDING"
  shows "dget (waits s1) w = Some wt" and "w_id wt = w" and "w_status wt \<noteq> STATUS_PENDING"
proof -
  from assms(2) obtain w0 where w0: "dget (waits s) w = Some w0"
    by (cases "dget (waits s) w") (simp_all add: end_wait_def)
  have "keyed w_id (waits s)" using assms(1) by (simp add: svc_ok_def)
  then have i: "w_id w0 = w" using w0 by (rule keyed_dget)
  consider "w_status w0 \<noteq> STATUS_PENDING" "s1 = s" "wt = w0"
    | "put_wait (persist_ok E 0) s (w0\<lparr>w_status := st\<rparr>) = Inr s1" "wt = w0\<lparr>w_status := st\<rparr>"
  proof (cases "w_status w0 = STATUS_PENDING")
    case True
    have "bind_res (put_wait (persist_ok E 0) s (w0\<lparr>w_status := st\<rparr>))
        (\<lambda>s'. Inr (s', w0\<lparr>w_status := st\<rparr>)) = Inr (s1, wt)"
      using assms(2) True unfolding end_wait_def w0 by simp
    then have "put_wait (persist_ok E 0) s (w0\<lparr>w_status := st\<rparr>) = Inr s1" "wt = w0\<lparr>w_status := st\<rparr>"
      unfolding bind_res_eq_Inr by auto
    then show ?thesis by (rule that(2))
  next
    case False
    have "Inr (s, w0) = (Inr (s1, wt) :: (timer_service \<times> pending_wait) res)"
      using assms(2) False unfolding end_wait_def w0 by simp
    then have "s1 = s" "wt = w0" by simp_all
    with False show ?thesis by (rule that(1))
  qed
  then have "dget (waits s1) w = Some wt \<and> w_id wt = w \<and> w_status wt \<noteq> STATUS_PENDING"
  proof cases
    case 1
    then show ?thesis using w0 i by blast
  next
    case 2
    then show ?thesis using i assms(3)
      by (auto simp: put_wait_def persist_waits_def split: if_splits)
  qed
  then show "dget (waits s1) w = Some wt" "w_id wt = w" "w_status wt \<noteq> STATUS_PENDING" by blast+
qed

text \<open>
  A settled wait stays settled. Once \<open>mark_wait_answered\<close> or \<open>cancel_wait\<close> has returned, the
  wait is no longer pending, also on disk, and a later \<open>check_timeouts\<close> at any time, whether it
  returns or raises, neither changes it nor enqueues a timeout for it.
\<close>

theorem settled_wait_never_times_out:
  assumes "svc_ok s"
    and "mark_wait_answered E s w = Inr (s1, wt) \<or> cancel_wait E s w = Inr (s1, wt)"
    and "new_uuids (lookup (queue s1)) (tdraws E') 0" and "check_timeouts E' n s1 = (r, s2)"
  shows "w_status wt \<noteq> STATUS_PENDING \<and> get_wait (load_service s1) w = Some wt \<and>
    get_wait s2 w = Some wt \<and>
    (\<forall>its. r = Inr its \<longrightarrow> (\<forall>it\<in>set its. jget (payload it) ''wait_id'' \<noteq> JStr w))"
proof -
  obtain st where st: "end_wait st E s w = Inr (s1, wt)" "st \<noteq> STATUS_PENDING"
    using assms(2) by (auto simp: mark_wait_answered_def cancel_wait_def)
  note wt = end_wait_settled [OF assms(1) st]
  have s1: "svc_ok s1" using svc_ok_end_wait [OF assms(1) st(1)] .
  have disk: "get_wait (load_service s1) w = Some wt"
    using svc_ok_reload(2) [OF s1] wt(1) by (simp add: get_wait_def)
  have "dget (waits s2) w = Some wt \<and>
    (\<forall>its. r = Inr its \<longrightarrow> (\<forall>it\<in>set its. jget (payload it) ''wait_id'' \<noteq> JStr w))"
  proof (cases "\<exists>now due. resolve_now E' n = Inr now \<and> due_waits E' now s1 = Inr due")
    case False
    then show ?thesis using assms(4) wt(1)
      by (auto simp: check_timeouts_def check_timeouts_at_def split: sum.splits)
  next
    case True
    then obtain now due where now: "resolve_now E' n = Inr now" and due: "due_waits E' now s1 = Inr due"
      by blast
    obtain k its s3 where k: "k \<le> length due"
      and eq: "check_timeouts_at E' 0 now s1 = (if k = length due then Inr its else Inl OSError, s3)"
      and d3: "fw.delivered E' now k due its 0 s1 s3" and dist: "distinct (map w_id due)"
      by (rule check_timeouts_at_cases [OF s1 due assms(3)]) blast
    have "s3 = s2" using assms(4) eq now by (simp add: check_timeouts_def)
    then have d: "fw.delivered E' now k due its 0 s1 s2" using d3 by simp
    have "\<forall>x\<in>set due. dget (waits s1) (w_id x) = Some x \<and> w_status x = STATUS_PENDING"
      using due_waits_sound [OF due] svc_ok_wait [OF s1] by (auto simp: expired_at_def)
    then have "w_id x \<noteq> w" if "x \<in> set due" for x
      using wt(1,3) that by (metis option.inject)
    then have nin: "w \<notin> w_id ` set due" by blast
    have "jget (payload it) ''wait_id'' \<noteq> JStr w" if it: "it \<in> set its" for it
    proof -
      obtain j where "j < length its" "its ! j = it" using it by (auto simp: in_set_conv_nth)
      then have j: "j < k" "it = its ! j" using fw.delivered_frame(1) [OF d k assms(3)] by auto
      have "jget (payload it) ''wait_id'' = JStr (w_id (due ! j))"
        using fw.delivered_nth(3) [OF d k dist assms(3) j(1)] j(2)
        by (simp add: jget_wait_payload timed_out_wait_def)
      then show ?thesis using nin k j(1) by auto
    qed
    moreover have "dget (waits s2) w = Some wt"
      using fw.delivered_frame(2) [OF d k assms(3) nin] wt(1) by simp
    moreover have "r = (if k = length due then Inr its else Inl OSError)"
      using assms(4) eq now by (simp add: check_timeouts_def)
    ultimately show ?thesis by (simp split: if_splits)
  qed
  with wt(3) disk show ?thesis by (simp add: get_wait_def)
qed

theorem settled_wait_never_times_out_witness:
  "\<exists>s1 wt s2 its. mark_wait_answered demo_env demo_service ''w'' = Inr (s1, wt) \<and>
     check_timeouts demo_env NowClock s1 = (Inr its, s2) \<and> w_status wt = STATUS_ANSWERED \<and>
     get_wait s2 ''w'' = Some wt"
proof -
  let ?x = "case mark_wait_answered demo_env demo_service ''w'' of
     Inl _ \<Rightarrow> False
   | Inr (s1, wt) \<Rightarrow> w_status wt = STATUS_ANSWERED \<and> fst (check_timeouts demo_env NowClock s1) = Inr []"
  have "?x" by code_simp
  then obtain s1 wt s2 where m: "mark_wait_answered demo_env demo_service ''w'' = Inr (s1, wt)"
    "w_status wt = STATUS_ANSWERED" "check_timeouts demo_env NowClock s1 = (Inr [], s2)"
    by (auto split: sum.splits prod.splits) (metis prod.collapse)
  have "queue s1 = queue demo_service"
    using m(1) by (auto simp: mark_wait_answered_def end_wait_def bind_res_eq_Inr put_wait_def
        persist_waits_def split: option.splits if_splits)
  then have new: "new_uuids (lookup (queue s1)) (tdraws demo_env) 0" using demo_new demo_queue by simp
  from settled_wait_never_times_out [OF demo_svc_ok disjI1 [OF m(1)] new m(3)] m
  show ?thesis by blast
qed

end
