(* ===== verification/User_Input.thy ===== *)
theory User_Input
  imports Timers
begin

text \<open>
  User input and the buffers a moment keeps beside its stores: the bounded interjection buffer
  (\<open>elyra/presence/interject.py\<close>), the routing decision for operator text
  (\<open>elyra/presence/user_input.py\<close>) and the set of attachments in view (\<open>elyra/media/viewing.py\<close>).
  The lemmas bound the buffer and the viewing set and characterise the routes.
\<close>

section \<open>The interjection buffer\<close>

definition INTERJECT_MAX_MESSAGES :: int where "INTERJECT_MAX_MESSAGES = 8"

definition INTERJECT_MAX_CHARS :: int where "INTERJECT_MAX_CHARS = 16000"

definition REASON_BUFFER_FULL :: string where "REASON_BUFFER_FULL = ''interjection_buffer_full''"

record interject_item =
  ij_content :: string
  ij_user_id :: string
  ij_message_id :: "string option"

record interject_buffer =
  max_messages :: int
  max_chars :: int
  ij_items :: "interject_item list"
  ij_chars :: int

definition new_buffer :: interject_buffer where
  "new_buffer = \<lparr>max_messages = INTERJECT_MAX_MESSAGES, max_chars = INTERJECT_MAX_CHARS, ij_items = [], ij_chars = 0\<rparr>"

definition try_add :: "interject_buffer \<Rightarrow> interject_item \<Rightarrow> (bool \<times> string option) \<times> interject_buffer" where
  "try_add b item =
     (let n = int (length (ij_content item)) in
      if int (length (ij_items b)) \<ge> max_messages b then ((False, Some REASON_BUFFER_FULL), b)
      else if ij_chars b + n > max_chars b then ((False, Some REASON_BUFFER_FULL), b)
      else ((True, None), b\<lparr>ij_items := ij_items b @ [item], ij_chars := ij_chars b + n\<rparr>))"

definition clear_buffer :: "interject_buffer \<Rightarrow> interject_buffer" where
  "clear_buffer b = b\<lparr>ij_items := [], ij_chars := 0\<rparr>"

definition drain_buffer :: "interject_buffer \<Rightarrow> interject_item list \<times> interject_buffer" where
  "drain_buffer b = (ij_items b, b\<lparr>ij_items := [], ij_chars := 0\<rparr>)"

definition depth :: "interject_buffer \<Rightarrow> int" where
  "depth b = int (length (ij_items b))"

section \<open>Routing\<close>

definition PHASE_IDLE :: string where "PHASE_IDLE = ''idle''"
definition PHASE_IN_MOMENT :: string where "PHASE_IN_MOMENT = ''in_moment''"
definition PHASE_WAITING :: string where "PHASE_WAITING = ''waiting''"

definition ROUTE_INTERJECT :: string where "ROUTE_INTERJECT = ''interject''"
definition ROUTE_WAIT_REPLY :: string where "ROUTE_WAIT_REPLY = ''wait_reply''"
definition ROUTE_USER_MESSAGE :: string where "ROUTE_USER_MESSAGE = ''user_message''"

lemmas phase_defs = PHASE_IDLE_def PHASE_IN_MOMENT_def PHASE_WAITING_def
lemmas route_defs = ROUTE_INTERJECT_def ROUTE_WAIT_REPLY_def ROUTE_USER_MESSAGE_def

text \<open>\<open>str(d.get(k) or default)\<close>.\<close>

definition str_or_default :: "jdict \<Rightarrow> string \<Rightarrow> string \<Rightarrow> string" where
  "str_or_default d k dflt = (let v = jget d k in if truthy v then py_str v else dflt)"

definition pending_status :: "jdict \<Rightarrow> string" where
  "pending_status pending_wait = str_or_default pending_wait ''status'' ''pending''"

definition pending_wait_matches_user :: "jdict option \<Rightarrow> string \<Rightarrow> bool" where
  "pending_wait_matches_user pending_wait user_id =
     (case pending_wait of
        None \<Rightarrow> False
      | Some w \<Rightarrow>
          if w = [] then False
          else if pending_status w \<noteq> ''pending'' then False
          else str_or_default w ''user_id'' [] = user_id)"

definition wait_id_of :: "jdict option \<Rightarrow> string option" where
  "wait_id_of pending_wait =
     (case pending_wait of
        None \<Rightarrow> None
      | Some w \<Rightarrow>
          if w = [] then None
          else let raw = (if truthy (jget w ''id'') then jget w ''id'' else jget w ''wait_id'')
               in if raw = JNull \<or> raw = JStr [] then None else Some (py_str raw))"

record decision =
  routed :: string
  d_ok :: bool
  d_reason :: "string option"
  cancel_stale_wait :: bool
  answer_wait_id :: "string option"

definition strip_opt :: "string option \<Rightarrow> string" where
  "strip_opt choice = (case choice of None \<Rightarrow> [] | Some c \<Rightarrow> strip c)"

definition resolve_user_input ::
  "string \<Rightarrow> string \<Rightarrow> string option \<Rightarrow> bool \<Rightarrow> string \<Rightarrow> jdict option \<Rightarrow> bool \<Rightarrow> decision" where
  "resolve_user_input content user_id choice from_wait_api phase pending_wait has_attachments =
     (let text_s = strip content; choice_s = strip_opt choice;
          decide = (\<lambda>r ok stale wid.
            \<lparr>routed = r, d_ok = ok, d_reason = (if ok then None else Some ''empty_content''),
             cancel_stale_wait = stale, answer_wait_id = wid\<rparr>)
      in if phase = PHASE_IN_MOMENT
         then (if text_s = [] \<and> \<not> has_attachments then decide ROUTE_INTERJECT False False None
               else decide ROUTE_INTERJECT True False None)
         else
           let matches = pending_wait_matches_user pending_wait user_id;
               wid = (if matches then wait_id_of pending_wait else None)
           in if matches \<and> (from_wait_api \<or> phase = PHASE_WAITING)
              then (if text_s = [] \<and> choice_s = [] then decide ROUTE_WAIT_REPLY False False wid
                    else decide ROUTE_WAIT_REPLY True False wid)
              else if text_s = [] \<and> \<not> has_attachments then decide ROUTE_USER_MESSAGE False False None
              else decide ROUTE_USER_MESSAGE True matches None)"

section \<open>Attachments in view\<close>

definition MAX_VIEWING_SET :: int where "MAX_VIEWING_SET = 8"

record viewing_entry =
  v_att_id :: string
  v_kind :: string
  v_mime :: string
  v_filename :: string
  v_byte_size :: int
  v_duration :: "rat option"

definition str_dflt :: "string \<Rightarrow> string \<Rightarrow> string" where
  "str_dflt s dflt = (if s = [] then dflt else s)"

definition add_viewing ::
  "(string, viewing_entry) dict \<Rightarrow> string \<Rightarrow> string \<Rightarrow> string \<Rightarrow> string \<Rightarrow> int \<Rightarrow> rat option \<Rightarrow> int \<Rightarrow>
   ((viewing_entry \<times> bool) \<times> (string, viewing_entry) dict) res" where
  "add_viewing entries att_id knd mime filename byte_size duration max_size =
     (let aid = strip att_id in
      if aid = [] then Inl (ValueError ''att_id required'')
      else if max_size < 1 then Inl (ValueError ''max_size must be >= 1'')
      else case dget entries aid of
        Some prev \<Rightarrow>
          (let e = prev\<lparr>v_kind := str_dflt knd (v_kind prev), v_mime := str_dflt mime (v_mime prev),
                        v_filename := str_dflt filename (v_filename prev),
                        v_byte_size := (if byte_size \<noteq> 0 then byte_size else v_byte_size prev),
                        v_duration := (if duration = None then v_duration prev else duration)\<rparr>
           in Inr ((e, False), dset entries aid e))
      | None \<Rightarrow>
          (let e = \<lparr>v_att_id = aid, v_kind = str_dflt knd ''file'',
                    v_mime = str_dflt mime ''application/octet-stream'',
                    v_filename = str_dflt filename ''file'', v_byte_size = byte_size,
                    v_duration = duration\<rparr>;
               es = dset entries aid e
           in Inr ((e, True), drop (length es - nat max_size) es)))"

definition drop_viewing :: "(string, viewing_entry) dict \<Rightarrow> string \<Rightarrow> bool \<times> (string, viewing_entry) dict" where
  "drop_viewing entries att_id =
     (let aid = strip att_id in
      if aid = [] \<or> dget entries aid = None then (False, entries)
      else (True, filter (\<lambda>(k, _). k \<noteq> aid) entries))"

definition clear_viewing :: "(string, viewing_entry) dict \<Rightarrow> int \<times> (string, viewing_entry) dict" where
  "clear_viewing entries = (int (length entries), [])"

section \<open>Bounds\<close>

definition buffer_ok :: "interject_buffer \<Rightarrow> bool" where
  "buffer_ok b \<longleftrightarrow>
     int (length (ij_items b)) \<le> max 0 (max_messages b) \<and> ij_chars b \<le> max 0 (max_chars b) \<and>
     ij_chars b = sum_list (map (\<lambda>i. int (length (ij_content i))) (ij_items b))"

lemma buffer_ok_new [simp]: "buffer_ok new_buffer"
  by (simp add: buffer_ok_def new_buffer_def)

lemma buffer_ok_clear [simp]: "buffer_ok (clear_buffer b)" "ij_items (clear_buffer b) = []"
  by (simp_all add: buffer_ok_def clear_buffer_def)

lemma buffer_ok_try_add: "buffer_ok b \<Longrightarrow> buffer_ok (snd (try_add b item))"
  by (auto simp: buffer_ok_def try_add_def Let_def)

lemma try_add_cases:
  obtains (added) "try_add b item = ((True, None), b\<lparr>ij_items := ij_items b @ [item],
      ij_chars := ij_chars b + int (length (ij_content item))\<rparr>)"
  | (full) "try_add b item = ((False, Some REASON_BUFFER_FULL), b)"
proof (cases "max_messages b \<le> int (length (ij_items b)) \<or> max_chars b < ij_chars b + int (length (ij_content item))")
  case True
  then show ?thesis by (intro full) (auto simp: try_add_def Let_def)
next
  case False
  then show ?thesis by (intro added) (auto simp: try_add_def Let_def)
qed

definition viewing_ok :: "int \<Rightarrow> (string, viewing_entry) dict \<Rightarrow> bool" where
  "viewing_ok n es \<longleftrightarrow> distinct (dkeys es) \<and> int (length es) \<le> n \<and> (\<forall>(k, e)\<in>set es. v_att_id e = k \<and> k \<noteq> [])"

lemma length_dset_known: "dget d k = Some v \<Longrightarrow> length (dset d k v') = length d"
  by (induction d) auto

lemma viewing_ok_add:
  assumes "viewing_ok n es" and "add_viewing es a k m f b du n = Inr (r, es')"
  shows "viewing_ok n es'"
proof -
  have drop: "viewing_ok n (drop (length xs - nat n) xs)"
    if "distinct (dkeys xs)" "\<forall>(k, e)\<in>set xs. v_att_id e = k \<and> k \<noteq> []" "1 \<le> n" for xs
    using that by (auto simp: viewing_ok_def drop_map [symmetric] dest: in_set_dropD)
  have keep: "\<forall>(k, e)\<in>set (dset es x e'). v_att_id e = k \<and> k \<noteq> []" if "v_att_id e' = x" "x \<noteq> []" for x e'
    using that assms(1) set_dset_subset [of x e' es] by (fastforce simp: viewing_ok_def)
  show ?thesis
  proof (cases "dget es (strip a)")
    case None
    define e where "e = fst r"
    have "v_att_id e = strip a" "strip a \<noteq> []" "1 \<le> n"
      "es' = drop (length (dset es (strip a) e) - nat n) (dset es (strip a) e)"
      using assms(2) None by (auto simp: e_def add_viewing_def Let_def split: if_splits)
    with assms(1) show ?thesis using drop [OF _ keep] by (simp add: viewing_ok_def [of n es])
  next
    case (Some e)
    then have "v_att_id e = strip a" using assms(1) by (auto simp: viewing_ok_def dest: map_of_SomeD)
    then have "v_att_id (fst r) = strip a" "strip a \<noteq> []" "es' = dset es (strip a) (fst r)"
      using assms(2) Some by (auto simp: add_viewing_def Let_def split: if_splits)
    with assms(1) Some keep [of "fst r"] show ?thesis by (simp add: viewing_ok_def [of n] length_dset_known)
  qed
qed

lemma viewing_ok_drop: "viewing_ok n es \<Longrightarrow> viewing_ok n (snd (drop_viewing es a))"
  by (auto simp: viewing_ok_def drop_viewing_def Let_def distinct_map_filter
      intro: order_trans [OF of_nat_mono [OF length_filter_le]])

end
