(* ===== verification/Loop_Policy.thy ===== *)
theory Loop_Policy
  imports Prelude
begin

text \<open>
  The pure policies the do-loop consults: stop reasons (\<open>elyra/loop/stop.py\<close>), idle and
  wall-clock budgets (\<open>continue_policy.py\<close>), the continuous-work gates
  (\<open>continuous_policy.py\<close>), the skill and speak nudges (\<open>skill_commit_policy.py\<close>) and the
  thrash decisions (\<open>tool_thrash_policy.py\<close>). Times are integers in microseconds. The code
  points above 255 that occur in message literals are written as one unused control character
  each, so lengths are kept: the ellipsis as 0x80, the em dash as 0x81, the en dash as 0x82.
\<close>

definition em_dash :: string where "em_dash = [CHR 0x81]"
definition ellipsis :: string where "ellipsis = [CHR 0x80]"
definition times_sign :: string where "times_sign = [CHR 0xD7]"
definition dquote :: string where "dquote = [CHR 0x22]"

section \<open>Stop reasons\<close>

definition STOP_REASONS :: "string list" where
  "STOP_REASONS = [''no_tools'', ''wait'', ''blocked'', ''policy'', ''time_continue_declined'',
     ''wall_clock'', ''interrupted'', ''error'', ''max_hops'']"

definition STOP_POLICY :: string where "STOP_POLICY = ''policy''"
definition STOP_ERROR :: string where "STOP_ERROR = ''error''"
definition STOP_WALL_CLOCK :: string where "STOP_WALL_CLOCK = ''wall_clock''"
definition STOP_MAX_HOPS :: string where "STOP_MAX_HOPS = ''max_hops''"
definition STOP_TIME_CONTINUE_DECLINED :: string where
  "STOP_TIME_CONTINUE_DECLINED = ''time_continue_declined''"

definition is_valid_stop_reason :: "string \<Rightarrow> bool" where
  "is_valid_stop_reason value = (value \<in> set STOP_REASONS)"

definition stop_for_no_tools :: string where
  "stop_for_no_tools = ''no_tools''"

definition stop_from_tool_result :: "bool \<Rightarrow> string option \<Rightarrow> string option" where
  "stop_from_tool_result ends_moment stop_reason =
     (if \<not> ends_moment then None
      else case stop_reason of
             Some r \<Rightarrow> if r \<noteq> [] \<and> is_valid_stop_reason r then Some r else Some STOP_POLICY
           | None \<Rightarrow> Some STOP_POLICY)"

definition resolve_host_precheck_stop :: "bool \<Rightarrow> int \<Rightarrow> int \<Rightarrow> bool \<Rightarrow> string option" where
  "resolve_host_precheck_stop wall_clock_exceeded hop max_tool_hops time_continue_declined =
     (if wall_clock_exceeded then Some STOP_WALL_CLOCK
      else if hop \<ge> max_tool_hops then Some STOP_MAX_HOPS
      else if time_continue_declined then Some STOP_TIME_CONTINUE_DECLINED
      else None)"

section \<open>Idle and wall clock\<close>

text \<open>A \<open>datetime\<close>: naive, or aware with its UTC offset, both in microseconds.\<close>

datatype pytime = Naive int | Aware int int

definition as_utc :: "pytime \<Rightarrow> int" where
  "as_utc dt = (case dt of Naive t \<Rightarrow> t | Aware t off \<Rightarrow> t - off)"

record loop_settings =
  continue_idle_minutes :: int
  moment_wall_clock_minutes :: int
  continue_max_injects :: int
  max_tool_hops :: int
  sliding_input_tokens :: int
  in_turn_max_tokens :: int
  tool_result_max_chars :: int
  generation_max_tokens :: int
  model_context_window_tokens :: int
  orient_skill_catalog_max_tokens :: int
  orient_goals_max_tokens :: int
  post_load_skill_tool_choice_required :: bool

definition DEFAULT_SLIDING_INPUT_TOKENS :: int where "DEFAULT_SLIDING_INPUT_TOKENS = 250000"
definition MODEL_CONTEXT_WINDOW_TOKENS :: int where "MODEL_CONTEXT_WINDOW_TOKENS = 500000"

definition default_loop_settings :: loop_settings where
  "default_loop_settings =
     \<lparr>continue_idle_minutes = 8, moment_wall_clock_minutes = 45, continue_max_injects = 3,
      max_tool_hops = 200, sliding_input_tokens = DEFAULT_SLIDING_INPUT_TOKENS,
      in_turn_max_tokens = DEFAULT_SLIDING_INPUT_TOKENS, tool_result_max_chars = 8000,
      generation_max_tokens = 8192, model_context_window_tokens = MODEL_CONTEXT_WINDOW_TOKENS,
      orient_skill_catalog_max_tokens = 800, orient_goals_max_tokens = 600,
      post_load_skill_tool_choice_required = False\<rparr>"

record continuous_settings =
  cs_enabled :: bool
  in_moment_work_nudge_max :: int
  max_continue_streak :: int
  cooldown_seconds :: int
  max_pending_continues :: int
  require_progress :: bool
  require_open_work :: bool
  skip_pure_social :: bool

definition default_continuous_settings :: continuous_settings where
  "default_continuous_settings =
     \<lparr>cs_enabled = False, in_moment_work_nudge_max = 1, max_continue_streak = 8, cooldown_seconds = 30,
      max_pending_continues = 1, require_progress = True, require_open_work = True,
      skip_pure_social = True\<rparr>"

definition or_default :: "'a option \<Rightarrow> 'a \<Rightarrow> 'a" where
  "or_default x d = (case x of None \<Rightarrow> d | Some v \<Rightarrow> v)"

definition minutes_us :: "int \<Rightarrow> int" where
  "minutes_us m = m * 60 * 1000000"

definition continue_host_message :: "int \<Rightarrow> string" where
  "continue_host_message idle_minutes =
     ''HOST: '' @ int_str idle_minutes @ '' minutes idle on this work '' @ em_dash @
     '' continue / speak / wait / stop / schedule?''"

definition should_inject_continue ::
  "pytime \<Rightarrow> int \<Rightarrow> pytime \<Rightarrow> int option \<Rightarrow> int option \<Rightarrow> loop_settings \<Rightarrow> bool" where
  "should_inject_continue last_activity injects_so_far now idle_opt max_opt loop =
     (let idle_min = or_default idle_opt (continue_idle_minutes loop);
          max_injects = or_default max_opt (continue_max_injects loop);
          injects = (if injects_so_far < 0 then 0 else injects_so_far)
      in if injects \<ge> max_injects then False
         else let idle = (if idle_min < 0 then 0 else idle_min)
              in as_utc now - as_utc last_activity \<ge> minutes_us idle)"

definition should_stop_time_continue_declined ::
  "pytime \<Rightarrow> int \<Rightarrow> pytime \<Rightarrow> int option \<Rightarrow> int option \<Rightarrow> loop_settings \<Rightarrow> bool" where
  "should_stop_time_continue_declined last_activity injects_so_far now idle_opt max_opt loop =
     (let idle_min = or_default idle_opt (continue_idle_minutes loop);
          max_injects = or_default max_opt (continue_max_injects loop)
      in if injects_so_far < max_injects then False
         else let idle = (if idle_min < 0 then 0 else idle_min)
              in as_utc now - as_utc last_activity \<ge> minutes_us idle)"

definition should_stop_wall_clock :: "pytime \<Rightarrow> pytime \<Rightarrow> int option \<Rightarrow> loop_settings \<Rightarrow> bool" where
  "should_stop_wall_clock started_at now wall_opt loop =
     (let wall = or_default wall_opt (moment_wall_clock_minutes loop);
          wall' = (if wall < 0 then 0 else wall)
      in as_utc now - as_utc started_at \<ge> minutes_us wall')"

text \<open>\<open>idle_minutes_since\<close> is a float; the loop only takes its integer part.\<close>

definition idle_minutes_since :: "pytime \<Rightarrow> pytime \<Rightarrow> rat" where
  "idle_minutes_since last_activity now = of_int (as_utc now - as_utc last_activity) / 1000000 / 60"

section \<open>Continuous work\<close>

definition WORK_CONTINUE_HOST :: string where
  "WORK_CONTINUE_HOST =
     ''HOST: work still open '' @ em_dash @ '' call tools to continue '' @
     ''(load_skill / ledger / sandbox), speak if the user needs an update, '' @
     ''or stop if truly done.''"

definition MOMENT_CONTINUE_STOP_ALLOWLIST :: "string list" where
  "MOMENT_CONTINUE_STOP_ALLOWLIST = [''no_tools'', ''time_continue_declined'', ''max_hops'']"

definition SOCIAL_WAKE_KINDS :: "string list" where
  "SOCIAL_WAKE_KINDS = [''user_message'', ''wait_reply'']"

definition NON_SOCIAL_WORK_KINDS :: "string list" where
  "NON_SOCIAL_WORK_KINDS = [''task_ready'', ''moment_continue'', ''timer'']"

record nudge_decision =
  inject :: bool
  nudge_reason :: string

definition nudge :: "bool \<Rightarrow> string \<Rightarrow> nudge_decision" where
  "nudge b r = \<lparr>inject = b, nudge_reason = r\<rparr>"

record moment_continue_decision =
  mc_enqueue :: bool
  mc_reason :: string
  skip_for_pending_task_ready :: bool
  start_cooldown :: bool

definition flood_majority_or_last_stop :: "int \<Rightarrow> int \<Rightarrow> bool \<Rightarrow> bool" where
  "flood_majority_or_last_stop model_beats flood_beats last_stop_hop_was_flood =
     (last_stop_hop_was_flood \<or> (flood_beats \<ge> 1 \<and> flood_beats * 2 \<ge> model_beats))"

definition should_in_moment_work_nudge ::
  "bool \<Rightarrow> bool \<Rightarrow> bool \<Rightarrow> bool \<Rightarrow> int \<Rightarrow> int \<Rightarrow> bool \<Rightarrow> bool \<Rightarrow> int \<Rightarrow> nudge_decision" where
  "should_in_moment_work_nudge continuous_enabled social_wake spoke no_speak_needed work_nudge_sent
     max_nudges work_context last_hop_was_flood thrash_host_sent =
     (if \<not> continuous_enabled then nudge False ''disabled''
      else if thrash_host_sent > 0 then nudge False ''thrash_recovery''
      else if last_hop_was_flood then nudge False ''flood''
      else if social_wake \<and> \<not> spoke
      then (if no_speak_needed then nudge False ''social_nudge_first'' else nudge False ''need_spoke'')
      else if max_nudges \<le> 0 \<or> work_nudge_sent \<ge> max_nudges then nudge False ''budget''
      else if \<not> work_context then nudge False ''not_workish''
      else nudge True ''injected'')"

definition in_moment_work_context :: "bool \<Rightarrow> bool \<Rightarrow> bool \<Rightarrow> string \<Rightarrow> bool \<Rightarrow> bool" where
  "in_moment_work_context social_wake tools_ran ledger_mutated wake_kind has_open_goals_slice =
     (if tools_ran \<or> ledger_mutated then True
      else if social_wake then False
      else if wake_kind \<in> set NON_SOCIAL_WORK_KINDS then True
      else has_open_goals_slice)"

definition moment_continue_decision :: "bool \<Rightarrow> string \<Rightarrow> bool \<Rightarrow> moment_continue_decision" where
  "moment_continue_decision enq reason skip =
     \<lparr>mc_enqueue = enq, mc_reason = reason, skip_for_pending_task_ready = skip,
      start_cooldown = (reason = ''flood'' \<or> reason = ''enqueued'')\<rparr>"

text \<open>The inputs of the outer gate, as the caller passes them.\<close>

record continue_inputs =
  ci_enabled :: bool
  ci_stop_reason :: string
  ci_wake_kind :: string
  ci_tools_ran :: bool
  ci_ledger_mutated :: bool
  ci_has_pending_wait :: bool
  ci_pending_task_ready :: int
  ci_has_open_work :: bool
  ci_pending_continues :: int
  ci_streak :: int
  ci_max_streak :: int
  ci_since_last :: "rat option"
  ci_cooldown :: int
  ci_model_beats :: int
  ci_flood_beats :: int
  ci_last_stop_flood :: bool
  ci_require_progress :: bool
  ci_skip_pure_social :: bool
  ci_max_pending :: int

definition should_enqueue_moment_continue :: "continue_inputs \<Rightarrow> moment_continue_decision" where
  "should_enqueue_moment_continue c =
     (if \<not> ci_enabled c then moment_continue_decision False ''disabled'' False
      else if ci_stop_reason c \<notin> set MOMENT_CONTINUE_STOP_ALLOWLIST
      then moment_continue_decision False ''stop_reason'' False
      else if ci_has_pending_wait c then moment_continue_decision False ''pending_wait'' False
      else if ci_pending_continues c \<ge> ci_max_pending c then moment_continue_decision False ''dedupe'' False
      else if ci_streak c \<ge> ci_max_streak c then moment_continue_decision False ''streak'' False
      else if (case ci_since_last c of
                 None \<Rightarrow> False
               | Some q \<Rightarrow> ci_cooldown c > 0 \<and> q < of_int (ci_cooldown c))
      then moment_continue_decision False ''cooldown'' False
      else if ci_require_progress c \<and> \<not> (ci_tools_ran c \<or> ci_ledger_mutated c)
      then moment_continue_decision False ''no_progress'' False
      else if ci_skip_pure_social c \<and> ci_wake_kind c \<in> set SOCIAL_WAKE_KINDS \<and>
              \<not> ci_tools_ran c \<and> \<not> ci_ledger_mutated c
      then moment_continue_decision False ''pure_social'' False
      else if ci_pending_task_ready c > 0 then moment_continue_decision False ''pending_task_ready'' True
      else if \<not> ci_has_open_work c then moment_continue_decision False ''no_open_work'' False
      else if flood_majority_or_last_stop (ci_model_beats c) (ci_flood_beats c) (ci_last_stop_flood c)
      then moment_continue_decision False ''flood'' False
      else moment_continue_decision True ''enqueued'' False)"

text \<open>The persisted toggle: \<open>None\<close> is a missing, unreadable or undecodable file.\<close>

definition load_continuous_enabled :: "json option \<Rightarrow> bool \<Rightarrow> bool" where
  "load_continuous_enabled file default_enabled =
     (case file of
        Some (JObj d) \<Rightarrow> (case map_of d ''enabled'' of None \<Rightarrow> default_enabled | Some v \<Rightarrow> truthy v)
      | _ \<Rightarrow> default_enabled)"

definition save_continuous_enabled :: "string \<Rightarrow> bool \<Rightarrow> json" where
  "save_continuous_enabled now enabled = JObj [(''enabled'', JBool enabled), (''updated_at'', JStr now)]"

section \<open>Skills and speaking\<close>

definition normalize_skill_name :: "string \<Rightarrow> string" where
  "normalize_skill_name name = casefold (strip name)"

definition WORK_SKILLS :: "string list" where
  "WORK_SKILLS = [''plan-work'', ''do-work'', ''create-tool'', ''create-skill'', ''review-work'']"

definition SOCIAL_SKILLS :: "string list" where
  "SOCIAL_SKILLS = [''talk'', ''rest'']"

definition NO_COMMIT_SKILLS :: "string list" where
  "NO_COMMIT_SKILLS = [''rest'']"

definition is_work_skill :: "string \<Rightarrow> bool" where
  "is_work_skill name = (normalize_skill_name name \<in> set (map normalize_skill_name WORK_SKILLS))"

definition is_social_skill :: "string \<Rightarrow> bool" where
  "is_social_skill name = (normalize_skill_name name \<in> set (map normalize_skill_name SOCIAL_SKILLS))"

definition is_commit_eligible_skill :: "string \<Rightarrow> bool" where
  "is_commit_eligible_skill name =
     (let key = normalize_skill_name name in
      if key = [] then False
      else if key \<in> set (map normalize_skill_name NO_COMMIT_SKILLS) then False
      else True)"

definition is_work_skill_or_unknown :: "string \<Rightarrow> bool" where
  "is_work_skill_or_unknown name =
     (let key = normalize_skill_name name in
      if key = [] then False else if is_social_skill name then False else True)"

definition newline :: string where "newline = [CHR 0x0A]"

definition format_playbook_active :: "string \<Rightarrow> string \<Rightarrow> string option \<Rightarrow> string option \<Rightarrow> string" where
  "format_playbook_active name body source description =
     (let lines0 = [''PLAYBOOK ACTIVE: '' @ name];
          lines1 = (if blank_str source then lines0 else lines0 @ [''source: '' @ the source]);
          lines2 = (if blank_str description then lines1 else lines1 @ [''catalog: '' @ the description]);
          follow =
            (if normalize_skill_name name = ''rest''
             then ''Follow the playbook. Prefer honest stop with no tools when idle '' @
                  ''(see '' @ dquote @ ''First action'' @ dquote @ '' in the body). Do not invent busywork.''
             else ''Follow steps in order. Prefer a tool_call implementing step 1 '' @
                  ''(see '' @ dquote @ ''First tool call'' @ dquote @ '' in the body) over free-text re-planning.'')
      in join newline (lines2 @ ['''', follow, '''', ''## Playbook'', '''', rstrip body, '''']))"

definition skill_commit_host_message :: "string \<Rightarrow> string" where
  "skill_commit_host_message name =
     ''HOST: skill '' @ name @ '' is loaded '' @ em_dash @ '' prefer the next playbook step via tools '' @
     ''(ledger / growth / speak as the playbook says). Free-text alone does not '' @
     ''advance the skill.''"

definition should_skill_commit_nudge :: "string option \<Rightarrow> bool \<Rightarrow> bool \<Rightarrow> nudge_decision" where
  "should_skill_commit_nudge pending_skill_name skill_commit_sent free_text_no_tools =
     (if \<not> free_text_no_tools then nudge False ''not_free_text''
      else if skill_commit_sent then nudge False ''already_sent''
      else if blank_str pending_skill_name then nudge False ''none_pending''
      else if \<not> is_commit_eligible_skill (the pending_skill_name) then nudge False ''not_eligible''
      else nudge True ''injected'')"

definition work_skill_pending :: "string option \<Rightarrow> bool \<Rightarrow> bool" where
  "work_skill_pending pending_skill_name skill_commit_sent =
     (\<not> blank_str pending_skill_name \<and> is_work_skill_or_unknown (the pending_skill_name) \<and>
      \<not> skill_commit_sent)"

definition should_allow_no_speak :: "bool \<Rightarrow> bool \<Rightarrow> bool \<Rightarrow> string option \<Rightarrow> bool \<Rightarrow> bool" where
  "should_allow_no_speak social_wake spoke no_speak_nudge_sent pending_skill_name skill_commit_sent =
     (if \<not> social_wake \<or> spoke \<or> no_speak_nudge_sent then False
      else if work_skill_pending pending_skill_name skill_commit_sent then False
      else True)"

definition ANSWER_SPEAK_HOST :: string where
  "ANSWER_SPEAK_HOST =
     ''HOST: free-text never reaches glass. If tools returned something the user '' @
     ''still needs on glass, call speak with that; otherwise stop '' @
     ''(no free-text monologue).''"

definition should_answer_speak_nudge ::
  "bool \<Rightarrow> bool \<Rightarrow> bool \<Rightarrow> bool \<Rightarrow> string \<Rightarrow> bool \<Rightarrow> bool \<Rightarrow> bool \<Rightarrow> string option \<Rightarrow> bool \<Rightarrow> nudge_decision" where
  "should_answer_speak_nudge social_wake spoke answer_speak_nudge_sent free_text_no_tools
     free_text_content tools_ran spoke_since_non_speak_tool hop_was_flood pending_skill_name
     skill_commit_sent =
     (if \<not> free_text_no_tools then nudge False ''not_free_text''
      else if \<not> social_wake then nudge False ''not_social''
      else if \<not> spoke then nudge False ''not_spoke''
      else if answer_speak_nudge_sent then nudge False ''already_sent''
      else if hop_was_flood then nudge False ''flood''
      else if work_skill_pending pending_skill_name skill_commit_sent then nudge False ''skill_commit_owns''
      else if strip free_text_content = [] then nudge False ''no_content''
      else if tools_ran \<and> \<not> spoke_since_non_speak_tool then nudge True ''injected''
      else nudge False ''no_post_tool_gap'')"

definition post_load_skill_tool_choice :: "string option \<Rightarrow> bool \<Rightarrow> string option" where
  "post_load_skill_tool_choice pending_skill_name enabled =
     (if \<not> enabled then None
      else if blank_str pending_skill_name \<or> \<not> is_commit_eligible_skill (the pending_skill_name) then None
      else Some ''required'')"

end
