(* ===== verification/Moments.thy ===== *)
theory Moments
  imports Loop_Policy
begin

text \<open>
  The moment store (\<open>elyra/moment/store.py\<close>): the index of moment envelopes, folded last write
  wins, and one append-only beat tape per moment. Every operation takes what it reads from the
  outside, the clock, a fresh uuid and the outcome of its write, and returns its result or
  exception with the store on disk. The lemmas show that history is append-only: a closed moment
  never changes, tapes only grow, and a crash in the middle of a write loses at most the record
  that was being written.
\<close>

section \<open>JSON-lines files\<close>

text \<open>
  A file is its list of lines, what \<open>json.loads\<close> gives for each or \<open>Undecodable\<close> (blank lines too),
  and whether the last line lacks its newline.
\<close>

datatype jsonl_line = Undecodable | Decoded json

record jsonl =
  rows :: "jsonl_line list"
  open_end :: bool

text \<open>
  How a write goes: done, refused before anything is written, cut off in the middle of the
  record, or cut off just before its newline.
\<close>

datatype write_mode = Written | Refused | Cut | Cut_Newline

definition ensure_trailing_newline :: "jsonl \<Rightarrow> jsonl" where
  "ensure_trailing_newline f = f\<lparr>open_end := False\<rparr>"

text \<open>Text appended to an unterminated line is glued to it.\<close>

definition raw_append :: "write_mode \<Rightarrow> jsonl \<Rightarrow> json \<Rightarrow> unit res \<times> jsonl" where
  "raw_append m f j =
     (let base = (if open_end f then butlast (rows f) else rows f);
          line = (if open_end f then Undecodable else Decoded j)
      in case m of
           Written \<Rightarrow> (Inr (), \<lparr>rows = base @ [line], open_end = False\<rparr>)
         | Refused \<Rightarrow> (Inl OSError, f)
         | Cut \<Rightarrow> (Inl OSError, \<lparr>rows = base @ [Undecodable], open_end = True\<rparr>)
         | Cut_Newline \<Rightarrow> (Inl OSError, \<lparr>rows = base @ [line], open_end = True\<rparr>))"

definition append_line :: "write_mode \<Rightarrow> jsonl option \<Rightarrow> json \<Rightarrow> unit res \<times> jsonl option" where
  "append_line m f j =
     (let (r, f') = raw_append m (ensure_trailing_newline (case f of None \<Rightarrow> \<lparr>rows = [], open_end = False\<rparr> | Some g \<Rightarrow> g)) j
      in (r, Some f'))"

definition decoded :: "jsonl option \<Rightarrow> json list" where
  "decoded f =
     (case f of None \<Rightarrow> []
      | Some g \<Rightarrow> List.map_filter (\<lambda>l. case l of Decoded j \<Rightarrow> Some j | Undecodable \<Rightarrow> None) (rows g))"

section \<open>The store\<close>

record moment_store =
  index_file :: "jsonl option"
  tapes :: "(string, jsonl) dict"

record moment_draw =
  m_now :: string
  m_uuid :: string
  m_write :: write_mode

definition SCHEMA_VERSION :: int where "SCHEMA_VERSION = 1"

definition BEAT_TYPES :: "string list" where
  "BEAT_TYPES = [''model'', ''tool'', ''speak'', ''obs'', ''ledger'', ''skill_load'', ''stop'']"

definition is_alnum :: "char \<Rightarrow> bool" where
  "is_alnum c = (let n = code c in (48 \<le> n \<and> n \<le> 57) \<or> (65 \<le> n \<and> n \<le> 90) \<or> (97 \<le> n \<and> n \<le> 122))"

definition segment_ok :: "string \<Rightarrow> bool" where
  "segment_ok s =
     (s \<noteq> [] \<and> is_alnum (hd s) \<and>
      list_all (\<lambda>c. is_alnum c \<or> c = CHR ''.'' \<or> c = CHR ''_'' \<or> c = CHR ''-'') (tl s))"

text \<open>A segment the expression accepts holds no separator, so the path checks add nothing to it.\<close>

definition validate_moment_id :: "string \<Rightarrow> string res" where
  "validate_moment_id moment_id =
     (if \<not> segment_ok moment_id then Inl (ValueError ''invalid moment_id'')
      else if lower moment_id = ''index'' then Inl (ValueError ''invalid moment_id'')
      else Inr moment_id)"

definition validate_stop_reason :: "string \<Rightarrow> string res" where
  "validate_stop_reason r = (if r \<notin> set STOP_REASONS then Inl (ValueError ''invalid stop_reason'') else Inr r)"

text \<open>A decoded line that is not an object has no \<open>get\<close>: the fold raises.\<close>

definition index_row :: "(string, jdict) dict \<Rightarrow> json \<Rightarrow> (string, jdict) dict res" where
  "index_row by_id row =
     (case row of
        JObj d \<Rightarrow> (case jget d ''id'' of JStr mid \<Rightarrow> Inr (if mid = [] then by_id else dset by_id mid d) | _ \<Rightarrow> Inr by_id)
      | _ \<Rightarrow> Inl (AttributeError ''get''))"

definition load_index_by_id :: "moment_store \<Rightarrow> (string, jdict) dict res" where
  "load_index_by_id s = foldl_res index_row [] (decoded (index_file s))"

definition append_index_line :: "moment_draw \<Rightarrow> moment_store \<Rightarrow> jdict \<Rightarrow> unit res \<times> moment_store" where
  "append_index_line dr s meta =
     (let (r, f) = append_line (m_write dr) (index_file s) (JObj meta) in (r, s\<lparr>index_file := f\<rparr>))"

text \<open>The rewrite goes to a temporary file and replaces the index only when it is complete.\<close>

definition rewrite_index :: "moment_draw \<Rightarrow> moment_store \<Rightarrow> (string, jdict) dict \<Rightarrow> unit res \<times> moment_store" where
  "rewrite_index dr s by_id =
     (case m_write dr of
        Written \<Rightarrow> (Inr (), s\<lparr>index_file := Some \<lparr>rows = map (\<lambda>(k, d). Decoded (JObj d)) by_id, open_end = False\<rparr>\<rparr>)
      | _ \<Rightarrow> (Inl OSError, s))"

definition str_list :: "string list \<Rightarrow> json" where
  "str_list xs = JArr (map JStr xs)"

definition null_or :: "string option \<Rightarrow> json" where
  "null_or x = (case x of None \<Rightarrow> JNull | Some s \<Rightarrow> JStr s)"

definition new_meta ::
  "string \<Rightarrow> string \<Rightarrow> string \<Rightarrow> string option \<Rightarrow> string option \<Rightarrow> string list \<Rightarrow> string list \<Rightarrow> jdict" where
  "new_meta mid now why user wake gs ts =
     [(''schema_version'', JInt SCHEMA_VERSION), (''id'', JStr mid), (''started_at'', JStr now),
      (''ended_at'', JNull), (''why_now'', JStr why), (''user_id'', null_or user),
      (''goal_ids'', str_list gs), (''task_ids'', str_list ts), (''skills_used'', JArr []),
      (''stop_reason'', JNull), (''wake_id'', null_or wake), (''hop_count'', JInt 0)]"

definition open_moment ::
  "moment_draw \<Rightarrow> moment_store \<Rightarrow> string \<Rightarrow> string option \<Rightarrow> string option \<Rightarrow> string list \<Rightarrow> string list \<Rightarrow>
   string option \<Rightarrow> string res \<times> moment_store" where
  "open_moment dr s why_now user wake goal_ids task_ids moment_id =
     (case (case moment_id of None \<Rightarrow> Inr (m_uuid dr) | Some m \<Rightarrow> validate_moment_id m) of
        Inl e \<Rightarrow> (Inl e, s)
      | Inr mid \<Rightarrow>
          (case load_index_by_id s of
             Inl e \<Rightarrow> (Inl e, s)
           | Inr existing \<Rightarrow>
               if dget existing mid \<noteq> None then (Inl (ValueError ''moment already exists''), s)
               else case append_index_line dr s (new_meta mid (m_now dr) why_now user wake goal_ids task_ids) of
                      (Inl e, s') \<Rightarrow> (Inl e, s')
                    | (Inr _, s') \<Rightarrow> (Inr mid, s')))"

definition get_moment :: "moment_store \<Rightarrow> string \<Rightarrow> jdict option res" where
  "get_moment s moment_id =
     bind_res (validate_moment_id moment_id) (\<lambda>mid.
       bind_res (load_index_by_id s) (\<lambda>by_id. Inr (dget by_id mid)))"

definition stamp_beat :: "string \<Rightarrow> jdict \<Rightarrow> jdict" where
  "stamp_beat now beat = (if truthy (jget beat ''ts'') then beat else dset beat ''ts'' (JStr now))"

definition append_beat :: "moment_draw \<Rightarrow> moment_store \<Rightarrow> string \<Rightarrow> json \<Rightarrow> unit res \<times> moment_store" where
  "append_beat dr s moment_id beat =
     (case get_moment s moment_id of
        Inl e \<Rightarrow> (Inl e, s)
      | Inr None \<Rightarrow> (Inl (KeyError ''unknown moment_id''), s)
      | Inr (Some meta) \<Rightarrow>
          if jget meta ''ended_at'' \<noteq> JNull then (Inl (ValueError ''moment already closed''), s)
          else case beat of
                 JObj b \<Rightarrow>
                   if (case jget b ''type'' of JStr t \<Rightarrow> t \<notin> set BEAT_TYPES | _ \<Rightarrow> True)
                   then (Inl (ValueError ''invalid beat type''), s)
                   else let (r, f) = append_line (m_write dr) (dget (tapes s) moment_id) (JObj (stamp_beat (m_now dr) b))
                        in (r, s\<lparr>tapes := dset (tapes s) moment_id (the f)\<rparr>)
               | _ \<Rightarrow> (Inl (TypeError ''beat must be a dict''), s))"

definition setdefault :: "jdict \<Rightarrow> string \<Rightarrow> json \<Rightarrow> jdict" where
  "setdefault d k v = (if dget d k = None then dset d k v else d)"

definition close_meta :: "string \<Rightarrow> string \<Rightarrow> int option \<Rightarrow> string list option \<Rightarrow> jdict \<Rightarrow> jdict" where
  "close_meta now reason hops skills meta =
     (let u1 = dset (dset meta ''ended_at'' (JStr now)) ''stop_reason'' (JStr reason);
          u2 = (case hops of None \<Rightarrow> u1 | Some n \<Rightarrow> dset u1 ''hop_count'' (JInt n));
          u3 = (case skills of None \<Rightarrow> u2 | Some xs \<Rightarrow> dset u2 ''skills_used'' (str_list xs))
      in setdefault u3 ''schema_version'' (JInt SCHEMA_VERSION))"

definition close_moment ::
  "moment_draw \<Rightarrow> moment_store \<Rightarrow> string \<Rightarrow> string \<Rightarrow> int option \<Rightarrow> string list option \<Rightarrow> jdict res \<times> moment_store" where
  "close_moment dr s moment_id stop hops skills =
     (case bind_res (validate_moment_id moment_id) (\<lambda>mid. bind_res (validate_stop_reason stop) (\<lambda>reason.
             bind_res (load_index_by_id s) Inr)) of
        Inl e \<Rightarrow> (Inl e, s)
      | Inr by_id \<Rightarrow>
          (case dget by_id moment_id of
             None \<Rightarrow> (Inl (KeyError ''unknown moment_id''), s)
           | Some meta \<Rightarrow>
               if jget meta ''ended_at'' \<noteq> JNull then (Inr meta, s)
               else let updated = close_meta (m_now dr) stop hops skills meta
                    in case rewrite_index dr s (dset by_id moment_id updated) of
                         (Inl e, s') \<Rightarrow> (Inl e, s')
                       | (Inr _, s') \<Rightarrow> (Inr updated, s')))"

definition is_open_meta :: "jdict \<Rightarrow> bool" where
  "is_open_meta meta = (jget meta ''ended_at'' = JNull)"

definition list_open_moments :: "moment_store \<Rightarrow> jdict list res" where
  "list_open_moments s = bind_res (load_index_by_id s) (\<lambda>by_id. Inr (filter is_open_meta (map snd by_id)))"

definition started_key :: "jdict \<Rightarrow> string" where
  "started_key m = (let v = jget m ''started_at'' in if truthy v then py_str v else [])"

definition list_moments :: "moment_store \<Rightarrow> int option \<Rightarrow> bool \<Rightarrow> jdict list res" where
  "list_moments s limit open_only =
     bind_res (load_index_by_id s) (\<lambda>by_id.
       let ms = sort_desc started_key (filter (\<lambda>m. \<not> open_only \<or> is_open_meta m) (map snd by_id))
       in Inr (case limit of None \<Rightarrow> ms | Some n \<Rightarrow> take (nat (max 0 n)) ms))"

definition interrupt_meta :: "string \<Rightarrow> jdict \<Rightarrow> jdict" where
  "interrupt_meta now meta =
     setdefault (dset (dset meta ''ended_at'' (JStr now)) ''stop_reason'' (JStr ''interrupted''))
       ''schema_version'' (JInt SCHEMA_VERSION)"

definition recover_open_moments :: "moment_draw \<Rightarrow> moment_store \<Rightarrow> string list res \<times> moment_store" where
  "recover_open_moments dr s =
     (case load_index_by_id s of
        Inl e \<Rightarrow> (Inl e, s)
      | Inr by_id \<Rightarrow>
          (let closed = map fst (filter (\<lambda>(k, m). is_open_meta m) by_id);
               by_id' = map (\<lambda>(k, m). (k, if is_open_meta m then interrupt_meta (m_now dr) m else m)) by_id
           in if closed = [] then (Inr [], s)
              else case rewrite_index dr s by_id' of
                     (Inl e, s') \<Rightarrow> (Inl e, s')
                   | (Inr _, s') \<Rightarrow> (Inr closed, s')))"

definition list_beats :: "moment_store \<Rightarrow> string \<Rightarrow> json list res" where
  "list_beats s moment_id =
     bind_res (validate_moment_id moment_id) (\<lambda>mid. Inr (decoded (dget (tapes s) mid)))"

section \<open>Loading the index\<close>

lemma decoded_append_line:
  "append_line m f j = (r, f') \<Longrightarrow>
   f' \<noteq> None \<and> (decoded f' = decoded f \<or> decoded f' = decoded f @ [j]) \<and>
   (r = Inr () \<longleftrightarrow> m = Written) \<and> (m = Written \<longrightarrow> decoded f' = decoded f @ [j])"
  by (cases f; cases m)
    (auto simp: append_line_def raw_append_def ensure_trailing_newline_def decoded_def List.map_filter_def)

definition index_keyed :: "(string, jdict) dict \<Rightarrow> bool" where
  "index_keyed by_id \<longleftrightarrow> distinct (dkeys by_id) \<and> (\<forall>(k, d)\<in>set by_id. jget d ''id'' = JStr k \<and> k \<noteq> [])"

lemma index_keyed_Nil [simp]: "index_keyed []"
  by (simp add: index_keyed_def)

lemma index_keyed_dset: "index_keyed by_id \<Longrightarrow> jget d ''id'' = JStr k \<Longrightarrow> k \<noteq> [] \<Longrightarrow> index_keyed (dset by_id k d)"
proof -
  have "set (dset by_id k d) \<subseteq> insert (k, d) (set by_id)" by (induction by_id) auto
  then show "index_keyed by_id \<Longrightarrow> jget d ''id'' = JStr k \<Longrightarrow> k \<noteq> [] \<Longrightarrow> ?thesis"
    unfolding index_keyed_def by (auto intro!: distinct_dset)
qed

lemma keyed_load: "load_index_by_id s = Inr by_id \<Longrightarrow> index_keyed by_id"
  unfolding load_index_by_id_def
  by (erule foldl_res_invariant) (auto simp: index_row_def index_keyed_dset split: json.splits if_splits)

lemma dset_new: "k \<notin> set (dkeys d) \<Longrightarrow> dset d k v = d @ [(k, v)]"
  by (induction d) auto

lemma load_rewritten:
  assumes "index_keyed by_id" and "index_file s = Some \<lparr>rows = map (\<lambda>(k, d). Decoded (JObj d)) by_id, open_end = b\<rparr>"
  shows "load_index_by_id s = Inr by_id"
proof -
  have "foldl_res index_row acc (map (\<lambda>(k, d). JObj d) xs) = Inr (acc @ xs)"
    if "distinct (dkeys (acc @ xs))" and "\<forall>(k, d)\<in>set xs. jget d ''id'' = JStr k \<and> k \<noteq> []" for acc xs
    using that
  proof (induction xs arbitrary: acc)
    case (Cons x xs)
    obtain k d where x: "x = (k, d)" by (rule prod.exhaust)
    have "index_row acc (JObj d) = Inr (acc @ [(k, d)])"
      using Cons.prems by (simp add: index_row_def x dset_new)
    then show ?case using Cons.IH [of "acc @ [(k, d)]"] Cons.prems by (simp add: x)
  qed simp
  from this [of "[]" by_id] have "foldl_res index_row [] (map (\<lambda>(k, d). JObj d) by_id) = Inr by_id"
    using assms(1) by (simp add: index_keyed_def)
  moreover have "decoded (index_file s) = map (\<lambda>(k, d). JObj d) by_id"
    by (simp add: assms(2) decoded_def List.map_filter_def comp_def split_beta)
  ultimately show ?thesis by (simp add: load_index_by_id_def)
qed

lemma dget_map_meta:
  "dget (map (\<lambda>(k, m). (k, g m)) by_id) k = map_option g (dget by_id k)"
  by (induction by_id) auto

lemma keyed_map_meta:
  "index_keyed by_id \<Longrightarrow> (\<And>m. jget (g m) ''id'' = jget m ''id'') \<Longrightarrow> index_keyed (map (\<lambda>(k, m). (k, g m)) by_id)"
  by (auto simp: index_keyed_def comp_def split_beta)

lemma jget_setdefault: "k \<noteq> k' \<Longrightarrow> jget (setdefault d k v) k' = jget d k'"
  by (simp add: setdefault_def)

lemma close_meta_fields [simp]:
  "jget (close_meta now reason hops skills m) ''id'' = jget m ''id''"
  "jget (close_meta now reason hops skills m) ''ended_at'' = JStr now"
  "jget (close_meta now reason hops skills m) ''stop_reason'' = JStr reason"
  by (simp_all add: close_meta_def Let_def jget_setdefault split: option.split)

lemma interrupt_meta_fields [simp]:
  "jget (interrupt_meta now m) ''id'' = jget m ''id''"
  "jget (interrupt_meta now m) ''ended_at'' = JStr now"
  "jget (interrupt_meta now m) ''stop_reason'' = JStr ''interrupted''"
  by (simp_all add: interrupt_meta_def jget_setdefault)

lemma validate_moment_id_eq: "validate_moment_id m = Inr k \<Longrightarrow> k = m \<and> m \<noteq> []"
  by (auto simp: validate_moment_id_def segment_ok_def split: if_splits)

section \<open>History only grows\<close>

text \<open>
  \<open>grown s s'\<close>: every moment of \<open>s\<close> is still there in \<open>s'\<close>, unchanged when it was closed, every
  tape of \<open>s\<close> is a prefix of the one in \<open>s'\<close>, and the tape of a closed moment is the same.
\<close>

definition grown :: "moment_store \<Rightarrow> moment_store \<Rightarrow> bool" where
  "grown s s' \<longleftrightarrow>
     (\<exists>by by'. load_index_by_id s = Inr by \<and> load_index_by_id s' = Inr by' \<and>
       (\<forall>k m. dget by k = Some m \<longrightarrow>
          (\<exists>m'. dget by' k = Some m' \<and> (\<not> is_open_meta m \<longrightarrow> m' = m \<and> dget (tapes s') k = dget (tapes s) k)))) \<and>
     (\<forall>k. \<exists>zs. decoded (dget (tapes s') k) = decoded (dget (tapes s) k) @ zs)"

lemma grown_refl: "load_index_by_id s = Inr by \<Longrightarrow> grown s s"
  by (auto simp: grown_def)

lemma grown_trans:
  assumes "grown s t" and "grown t u"
  shows "grown s u"
proof -
  obtain a b where ab: "load_index_by_id s = Inr a" "load_index_by_id t = Inr b"
    "\<forall>k m. dget a k = Some m \<longrightarrow>
       (\<exists>m'. dget b k = Some m' \<and> (\<not> is_open_meta m \<longrightarrow> m' = m \<and> dget (tapes t) k = dget (tapes s) k))"
    using assms(1) unfolding grown_def by blast
  obtain c where c: "load_index_by_id u = Inr c"
    "\<forall>k m. dget b k = Some m \<longrightarrow>
       (\<exists>m'. dget c k = Some m' \<and> (\<not> is_open_meta m \<longrightarrow> m' = m \<and> dget (tapes u) k = dget (tapes t) k))"
    using assms(2) ab(2) unfolding grown_def by auto
  have "\<exists>m'. dget c k = Some m' \<and> (\<not> is_open_meta m \<longrightarrow> m' = m \<and> dget (tapes u) k = dget (tapes s) k)"
    if "dget a k = Some m" for k m
    using ab(3) c(2) that by (metis (no_types, lifting))
  moreover have "\<exists>zs. decoded (dget (tapes u) k) = decoded (dget (tapes s) k) @ zs" for k
    using assms unfolding grown_def by (metis append.assoc)
  ultimately show ?thesis using ab(1) c(1) unfolding grown_def by blast
qed

lemma grown_rewrite:
  assumes load: "load_index_by_id s = Inr by" and rw: "rewrite_index dr s by' = (r, s')" and "index_keyed by'"
    and "\<And>k m. dget by k = Some m \<Longrightarrow> \<exists>m'. dget by' k = Some m' \<and> (\<not> is_open_meta m \<longrightarrow> m' = m)"
  shows "grown s s'"
proof (cases "m_write dr = Written")
  case True
  then have s': "s' = s\<lparr>index_file := Some \<lparr>rows = map (\<lambda>(k, d). Decoded (JObj d)) by', open_end = False\<rparr>\<rparr>"
    using rw by (simp add: rewrite_index_def)
  have "load_index_by_id s' = Inr by'" by (rule load_rewritten [where b = False, OF assms(3)]) (simp add: s')
  moreover have "tapes s' = tapes s" by (simp add: s')
  ultimately show ?thesis using load assms(4) unfolding grown_def by (metis append_Nil2)
next
  case False
  then have "s' = s" using rw by (cases "m_write dr") (simp_all add: rewrite_index_def)
  then show ?thesis using grown_refl [OF load] by simp
qed

lemma load_cong: "index_file s' = index_file s \<Longrightarrow> load_index_by_id s' = load_index_by_id s"
  by (simp add: load_index_by_id_def)

lemma grown_open:
  assumes load: "load_index_by_id s = Inr by"
    and op: "open_moment dr s why user wake gs ts mid = (r, s')"
    and uuid: "m_uuid dr \<noteq> []"
  shows "grown s s'"
proof -
  define v where "v = (case mid of None \<Rightarrow> Inr (m_uuid dr) | Some m \<Rightarrow> validate_moment_id m)"
  show ?thesis
  proof (cases v)
    case (Inl e)
    then show ?thesis using op grown_refl [OF load] by (simp add: open_moment_def v_def [symmetric])
  next
    case (Inr k)
    have k: "k \<noteq> []"
      using Inr uuid validate_moment_id_eq by (auto simp: v_def split: option.splits)
    show ?thesis
    proof (cases "dget by k = None")
      case False
      then show ?thesis using op Inr grown_refl [OF load] by (simp add: open_moment_def v_def [symmetric] load)
    next
      case True
      let ?meta = "new_meta k (m_now dr) why user wake gs ts"
      obtain r1 f where a: "append_line (m_write dr) (index_file s) (JObj ?meta) = (r1, f)" by (rule prod.exhaust)
      have s': "s' = s\<lparr>index_file := f\<rparr>"
        using op Inr True by (auto simp: open_moment_def v_def [symmetric] load append_index_line_def a split: sum.splits)
      have "index_row by (JObj ?meta) = Inr (dset by k ?meta)"
        using k by (simp add: index_row_def new_meta_def jget_def)
      then have "load_index_by_id s' = Inr by \<or> load_index_by_id s' = Inr (dset by k ?meta)"
        using load decoded_append_line [OF a] by (auto simp: load_index_by_id_def s' foldl_res_append)
      moreover have "tapes s' = tapes s" by (simp add: s')
      ultimately show ?thesis using load True unfolding grown_def by auto
    qed
  qed
qed

lemma grown_close:
  assumes load: "load_index_by_id s = Inr by" and op: "close_moment dr s k reason hops skills = (r, s')"
  shows "grown s s'"
proof (cases "s' = s")
  case True
  then show ?thesis using grown_refl [OF load] by simp
next
  case False
  then obtain m where m: "dget by k = Some m" "is_open_meta m"
    and rw: "\<exists>r1. rewrite_index dr s (dset by k (close_meta (m_now dr) reason hops skills m)) = (r1, s')"
    using op by (auto simp: close_moment_def load is_open_meta_def Let_def bind_res_def
        split: sum.splits option.splits if_splits prod.splits)
  have "jget m ''id'' = JStr k \<and> k \<noteq> []"
    using keyed_load [OF load] m(1) by (auto simp: index_keyed_def dest: map_of_SomeD)
  then have "index_keyed (dset by k (close_meta (m_now dr) reason hops skills m))"
    using keyed_load [OF load] by (intro index_keyed_dset) simp_all
  then show ?thesis using rw m grown_rewrite [OF load] by (fastforce split: if_splits)
qed

lemma grown_recover:
  assumes load: "load_index_by_id s = Inr by" and op: "recover_open_moments dr s = (r, s')"
  shows "grown s s'"
proof (cases "s' = s")
  case True
  then show ?thesis using grown_refl [OF load] by simp
next
  case False
  let ?g = "\<lambda>m. if is_open_meta m then interrupt_meta (m_now dr) m else m"
  have rw: "\<exists>r1. rewrite_index dr s (map (\<lambda>(k, m). (k, ?g m)) by) = (r1, s')"
    using op False by (auto simp: recover_open_moments_def load Let_def split: sum.splits if_splits prod.splits)
  have "index_keyed (map (\<lambda>(k, m). (k, ?g m)) by)" by (rule keyed_map_meta [OF keyed_load [OF load]]) simp
  then show ?thesis
    using rw grown_rewrite [OF load, of dr "map (\<lambda>(k, m). (k, ?g m)) by"] by (auto simp: dget_map_meta)
qed

lemma append_beat_cases:
  assumes "append_beat dr s k beat = (r, s')"
  obtains (same) "s' = s" "r \<noteq> Inr ()"
  | (tape) ix m b f where "load_index_by_id s = Inr ix" "dget ix k = Some m" "is_open_meta m" "beat = JObj b"
      "append_line (m_write dr) (dget (tapes s) k) (JObj (stamp_beat (m_now dr) b)) = (r, f)"
      "s' = s\<lparr>tapes := dset (tapes s) k (the f)\<rparr>"
proof -
  consider e where "get_moment s k = Inl e" | "get_moment s k = Inr None"
    | m where "get_moment s k = Inr (Some m)" by (metis option.exhaust sum.exhaust)
  then show thesis
  proof cases
    case (3 m)
    then obtain by_id where m: "load_index_by_id s = Inr by_id" "dget by_id k = Some m"
      by (auto simp: get_moment_def bind_res_eq_Inr dest: validate_moment_id_eq)
    show thesis
    proof (cases "is_open_meta m \<and> is_obj beat")
      case True
      then obtain b where b: "beat = JObj b" by (cases beat) (simp_all add: is_obj_def)
      obtain r1 f where a: "append_line (m_write dr) (dget (tapes s) k) (JObj (stamp_beat (m_now dr) b)) = (r1, f)"
        by (rule prod.exhaust)
      show thesis
      proof (cases "case jget b ''type'' of JStr t \<Rightarrow> t \<notin> set BEAT_TYPES | _ \<Rightarrow> True")
        case bad: True
        then show thesis using assms 3 True by (intro same) (auto simp: append_beat_def is_open_meta_def b)
      next
        case False
        then have "r = r1" "s' = s\<lparr>tapes := dset (tapes s) k (the f)\<rparr>"
          using assms 3 True a by (simp_all add: append_beat_def is_open_meta_def b)
        then show thesis using m True b a by (intro tape) auto
      qed
    next
      case False
      then show thesis using assms 3
        by (intro same) (auto simp: append_beat_def is_open_meta_def is_obj_def split: json.splits if_splits)
    qed
  qed (use assms in \<open>auto simp: append_beat_def intro: same\<close>)
qed

lemma grown_append:
  assumes load: "load_index_by_id s = Inr by" and op: "append_beat dr s k beat = (r, s')"
  shows "grown s s'"
  using op
proof (cases rule: append_beat_cases)
  case same
  then show ?thesis using grown_refl [OF load] by simp
next
  case (tape ix m b f)
  have m: "dget by k = Some m" "is_open_meta m" using tape load by simp_all
  have "load_index_by_id s' = Inr by" using load by (simp add: tape load_cong)
  moreover have "\<exists>zs. decoded (dget (tapes s') k') = decoded (dget (tapes s) k') @ zs" for k'
    using decoded_append_line [OF tape(5)] by (cases "k' = k") (auto simp: tape(6))
  moreover have "dget (tapes s') k' = dget (tapes s) k'" if "dget by k' = Some m'" "\<not> is_open_meta m'" for k' m'
    using that m by (auto simp: tape(6))
  ultimately show ?thesis using load unfolding grown_def by metis
qed

section \<open>Runs\<close>

inductive ms_step :: "moment_store \<Rightarrow> moment_store \<Rightarrow> bool" where
  opened: "open_moment dr s why user wake gs ts mid = (r, s') \<Longrightarrow> m_uuid dr \<noteq> [] \<Longrightarrow> ms_step s s'"
| beat: "append_beat dr s k b = (r, s') \<Longrightarrow> ms_step s s'"
| closed: "close_moment dr s k reason hops skills = (r, s') \<Longrightarrow> ms_step s s'"
| recovered: "recover_open_moments dr s = (r, s') \<Longrightarrow> ms_step s s'"

lemma grown_step: "load_index_by_id s = Inr by \<Longrightarrow> ms_step s s' \<Longrightarrow> grown s s'"
  by (auto elim!: ms_step.cases intro: grown_open grown_append grown_close grown_recover)

interpretation mss: transition_system "\<lambda>q. q = s \<and> (\<exists>by. load_index_by_id s = Inr by)" ms_step "grown s"
  for s
proof
  show "grown s q" if "q = s \<and> (\<exists>by. load_index_by_id s = Inr by)" for q
    using that grown_refl by blast
  show "grown s q'" if g: "grown s q" and st: "ms_step q q'" for q q'
  proof -
    obtain by_id where "load_index_by_id q = Inr by_id" using g by (auto simp: grown_def)
    then show ?thesis using grown_step st g grown_trans by blast
  qed
qed


definition demo_draw :: "write_mode \<Rightarrow> moment_draw" where
  "demo_draw m = \<lparr>m_now = ''T'', m_uuid = ''u'', m_write = m\<rparr>"

definition demo_moments :: moment_store where
  "demo_moments = \<lparr>index_file = Some \<lparr>rows = [Decoded (JObj (new_meta ''m1'' ''T0'' ''why'' None None [] [])),
       Undecodable,
       Decoded (JObj (close_meta ''T1'' ''wait'' (Some 2) None (new_meta ''m2'' ''T1'' ''why'' None None [] [])))],
       open_end = True\<rparr>,
     tapes = [(''m1'', \<lparr>rows = [Decoded (JObj [(''type'', JStr ''obs'')]), Undecodable], open_end = True\<rparr>)]\<rparr>"

definition demo_beat :: json where
  "demo_beat = JObj [(''type'', JStr ''stop'')]"


text \<open>
  C24. A restart leaves no moment open. \<open>recover_open_moments\<close> returns exactly the ids of the open
  moments, in index order, and when it returns each of them is closed as interrupted, the closed
  ones are untouched, nothing is open any more and a second recovery finds nothing; when its write
  fails the index is unchanged.
\<close>

theorem recover_closes_exactly_open_moments:
  assumes load: "load_index_by_id s = Inr by_id" and rec: "recover_open_moments dr s = (r, s')"
  shows "(\<forall>ids. r = Inr ids \<longrightarrow> ids = map fst (filter (\<lambda>(k, m). is_open_meta m) by_id)
      \<and> (\<exists>by_id'. load_index_by_id s' = Inr by_id' \<and> map fst by_id' = map fst by_id
          \<and> (\<forall>k m. dget by_id k = Some m \<longrightarrow> dget by_id' k =
               Some (if is_open_meta m then interrupt_meta (m_now dr) m else m)))
      \<and> list_open_moments s' = Inr [] \<and> (\<forall>dr'. recover_open_moments dr' s' = (Inr [], s')))
    \<and> ((\<exists>e. r = Inl e) \<longrightarrow> s' = s) \<and> tapes s' = tapes s"
proof -
  let ?g = "\<lambda>m. if is_open_meta m then interrupt_meta (m_now dr) m else m"
  let ?new = "map (\<lambda>(k, m). (k, ?g m)) by_id"
  let ?ids = "map fst (filter (\<lambda>(k, m). is_open_meta m) by_id)"
  have closed: "\<not> is_open_meta (?g m)" for m by (simp add: is_open_meta_def)
  have quiet: "list_open_moments q = Inr [] \<and> (\<forall>dr'. recover_open_moments dr' q = (Inr [], q))"
    if "load_index_by_id q = Inr ix" and "\<forall>(k, m)\<in>set ix. \<not> is_open_meta m" for q ix
    using that by (auto simp: list_open_moments_def recover_open_moments_def filter_empty_conv Let_def split_beta)
  have keyed: "index_keyed ?new" by (rule keyed_map_meta [OF keyed_load [OF load]]) simp
  show ?thesis
  proof (cases "?ids = []")
    case True
    then have none: "\<forall>(k, m)\<in>set by_id. \<not> is_open_meta m" by (auto simp: filter_empty_conv)
    have r: "r = Inr []" "s' = s" using rec True by (simp_all add: recover_open_moments_def load Let_def)
    have "dget by_id k = Some (?g m)" if "dget by_id k = Some m" for k m
      using that none by (auto dest: map_of_SomeD)
    then show ?thesis using r True load quiet [OF load none] by auto
  next
    case False
    show ?thesis
    proof (cases "m_write dr = Written")
      case True
      then have r: "r = Inr ?ids" "s' = s\<lparr>index_file := Some \<lparr>rows = map (\<lambda>(k, d). Decoded (JObj d)) ?new, open_end = False\<rparr>\<rparr>"
        using rec False by (auto simp: recover_open_moments_def load Let_def rewrite_index_def)
      have l: "load_index_by_id s' = Inr ?new"
        by (rule load_rewritten [where b = False, OF keyed]) (simp add: r)
      have "\<forall>(k, m)\<in>set ?new. \<not> is_open_meta m" using closed by auto
      note q = quiet [OF l this]
      have "map fst ?new = map fst by_id" by (simp add: comp_def split_beta)
      then show ?thesis using l q r by (auto simp: dget_map_meta)
    next
      case w: False
      then have "r = Inl OSError" "s' = s"
        using rec False by (cases "m_write dr"; simp add: recover_open_moments_def load Let_def rewrite_index_def)+
      then show ?thesis by simp
    qed
  qed
qed

theorem recover_closes_exactly_open_moments_witness:
  "fst (recover_open_moments (demo_draw Written) demo_moments) = Inr [''m1'']
   \<and> list_open_moments (snd (recover_open_moments (demo_draw Written) demo_moments)) = Inr []"
proof -
  have "case load_index_by_id demo_moments of Inl _ \<Rightarrow> False | Inr _ \<Rightarrow> True" by code_simp
  then obtain by_id where l: "load_index_by_id demo_moments = Inr by_id" by (auto split: sum.splits)
  obtain r s' where rec: "recover_open_moments (demo_draw Written) demo_moments = (r, s')" by (rule prod.exhaust)
  have "fst (recover_open_moments (demo_draw Written) demo_moments) = Inr [''m1'']" by code_simp
  then have "r = Inr [''m1'']" by (simp add: rec)
  then show ?thesis using recover_closes_exactly_open_moments [OF l rec] by (simp add: rec)
qed

text \<open>
  One line that is not an object disables the store. The index fold reads \<open>row.get\<close> on every
  decoded line, so a line that decodes to a list, a number or a string makes every call that loads
  the index raise, while an undecodable line is skipped.
\<close>

lemma non_object_line_breaks_index:
  "load_index_by_id \<lparr>index_file = Some \<lparr>rows = [Decoded (JArr [])], open_end = False\<rparr>, tapes = []\<rparr> =
     Inl (AttributeError ''get'')
   \<and> load_index_by_id \<lparr>index_file = Some \<lparr>rows = [Undecodable], open_end = False\<rparr>, tapes = []\<rparr> = Inr []"
  by code_simp

section \<open>Writes that succeed\<close>

lemma get_moment_cong: "index_file s' = index_file s \<Longrightarrow> get_moment s' k = get_moment s k"
  using load_cong [of s' s] by (simp add: get_moment_def)

lemma append_beat_ok:
  assumes "get_moment s k = Inr (Some m)" and "is_open_meta m" and "m_write dr = Written"
    and "jget b ''type'' = JStr t" and "t \<in> set BEAT_TYPES" and "list_beats s k = Inr bs"
  obtains s' where "append_beat dr s k (JObj b) = (Inr (), s')" and "get_moment s' k = Inr (Some m)"
    and "list_beats s' k = Inr (bs @ [JObj (stamp_beat (m_now dr) b)])"
proof -
  obtain r f where a: "append_line (m_write dr) (dget (tapes s) k) (JObj (stamp_beat (m_now dr) b)) = (r, f)"
    by (rule prod.exhaust)
  note f = decoded_append_line [OF a]
  obtain v: "validate_moment_id k = Inr k" and bs: "bs = decoded (dget (tapes s) k)"
    using assms(6) validate_moment_id_eq by (auto simp: list_beats_def bind_res_eq_Inr)
  let ?s' = "s\<lparr>tapes := dset (tapes s) k (the f)\<rparr>"
  have "append_beat dr s k (JObj b) = (r, ?s')"
    using assms(1,2,4,5) a by (simp add: append_beat_def is_open_meta_def)
  moreover have "r = Inr ()" using f assms(3) by simp
  moreover have "get_moment ?s' k = Inr (Some m)" using assms(1) get_moment_cong [of ?s' s k] by simp
  moreover have "list_beats ?s' k = Inr (bs @ [JObj (stamp_beat (m_now dr) b)])"
    using f assms(3) bs by (simp add: list_beats_def v)
  ultimately show thesis using that by simp
qed

lemma append_beats_ok:
  assumes "get_moment s k = Inr (Some m)" and "is_open_meta m" and "m_write dr = Written"
    and "\<forall>b\<in>set beats. \<exists>t\<in>set BEAT_TYPES. jget b ''type'' = JStr t" and "list_beats s k = Inr bs"
  defines "s' \<equiv> foldl (\<lambda>q b. snd (append_beat dr q k (JObj b))) s beats"
  shows "get_moment s' k = Inr (Some m) \<and> list_beats s' k = Inr (bs @ map (JObj \<circ> stamp_beat (m_now dr)) beats)"
  using assms(1,4,5) unfolding s'_def
proof (induction beats arbitrary: s bs)
  case (Cons b beats)
  then obtain t where t: "t \<in> set BEAT_TYPES" "jget b ''type'' = JStr t" by auto
  obtain s1 where s1: "append_beat dr s k (JObj b) = (Inr (), s1)" "get_moment s1 k = Inr (Some m)"
    "list_beats s1 k = Inr (bs @ [JObj (stamp_beat (m_now dr) b)])"
    using append_beat_ok [OF Cons.prems(1) assms(2,3) t(2,1) Cons.prems(3)] by blast
  from Cons.IH [OF s1(2) _ s1(3)] show ?case using Cons.prems(2) by (simp add: s1(1))
qed simp

lemma close_moment_ok:
  assumes "get_moment s k = Inr (Some m)" and "is_open_meta m" and "m_write dr = Written"
    and "reason \<in> set STOP_REASONS"
  obtains s' by_id where "close_moment dr s k reason hops skills = (Inr (close_meta (m_now dr) reason hops skills m), s')"
    and "get_moment s' k = Inr (Some (close_meta (m_now dr) reason hops skills m))"
    and "load_index_by_id s = Inr by_id"
    and "load_index_by_id s' = Inr (dset by_id k (close_meta (m_now dr) reason hops skills m))"
proof -
  obtain by_id where v: "validate_moment_id k = Inr k" and load: "load_index_by_id s = Inr by_id"
    and m: "dget by_id k = Some m"
    using assms(1) by (auto simp: get_moment_def bind_res_eq_Inr dest: validate_moment_id_eq)
  let ?m = "close_meta (m_now dr) reason hops skills m"
  let ?s' = "s\<lparr>index_file := Some \<lparr>rows = map (\<lambda>(k, d). Decoded (JObj d)) (dset by_id k ?m), open_end = False\<rparr>\<rparr>"
  have "jget m ''id'' = JStr k \<and> k \<noteq> []"
    using keyed_load [OF load] m by (auto simp: index_keyed_def dest: map_of_SomeD)
  then have "index_keyed (dset by_id k ?m)" using keyed_load [OF load] by (intro index_keyed_dset) simp_all
  then have l: "load_index_by_id ?s' = Inr (dset by_id k ?m)" by (rule load_rewritten [where b = False]) simp
  then have "get_moment ?s' k = Inr (Some ?m)" by (simp add: get_moment_def v)
  moreover have "close_moment dr s k reason hops skills = (Inr ?m, ?s')"
    using assms(2,3,4) m load v
    by (simp add: close_moment_def validate_stop_reason_def rewrite_index_def is_open_meta_def Let_def)
  ultimately show thesis using that load l by blast
qed

end
