(* ===== verification/Goals.thy ===== *)
theory Goals
  imports Prelude
begin

text \<open>
  The goals and tasks ledger of \<open>elyra/goals/store.py\<close>: one JSON document of goals with nested
  tasks, loaded, changed and saved as a whole by every call, a counter of goals closed without
  review, and the hook called when a task becomes ready. The document is kept as the JSON value
  the file holds (\<open>None\<close> for a missing, unreadable, blank or undecodable file), so hand-edited
  ledgers are inputs of the model too.
\<close>

section \<open>Environment and state\<close>

text \<open>
  What one call reads from outside: the clock, a fresh hex suffix, whether the atomic save
  succeeds, and the hook (the exception it raises, if any).
\<close>

record genv =
  g_now :: string
  g_hex :: string
  save_ok :: bool
  on_task_ready :: "(string \<Rightarrow> json \<Rightarrow> pyerr option) option"

record goals_store =
  ledger :: "json option"
  goal_close_without_review :: nat
  ready_calls :: "(string \<times> json) list"

definition GOAL_STATUSES :: "string list" where
  "GOAL_STATUSES = [''open'', ''review'', ''closed'', ''cancelled'']"

definition GOAL_CREATE_STATUSES :: "string list" where
  "GOAL_CREATE_STATUSES = [''open'', ''review'', ''cancelled'']"

definition TASK_STATUSES :: "string list" where
  "TASK_STATUSES = [''pending'', ''ready'', ''in_progress'', ''blocked'', ''done'', ''cancelled'']"

definition SOFT_CLOSE_WARNING :: string where
  "SOFT_CLOSE_WARNING = ''prefer review-work before close; set status=review first or pass force=true''"

definition new_id :: "genv \<Rightarrow> string \<Rightarrow> string" where
  "new_id E prefix = prefix @ ''_'' @ g_hex E"

definition require_bool :: "json \<Rightarrow> bool res" where
  "require_bool j = (case j of JBool b \<Rightarrow> Inr b | _ \<Rightarrow> Inl (TypeError ''force must be bool''))"

text \<open>\<open>isinstance(title, str) and title.strip()\<close>, as the stripped title.\<close>

definition clean_title :: "json \<Rightarrow> string res" where
  "clean_title j =
     (case j of
        JStr t \<Rightarrow> if strip t = [] then Inl (ValueError ''title must be a non-empty string'') else Inr (strip t)
      | _ \<Rightarrow> Inl (ValueError ''title must be a non-empty string''))"

section \<open>Load, save, find\<close>

definition empty_doc :: jdict where
  "empty_doc = [(''goals'', JArr [])]"

definition load_ledger :: "goals_store \<Rightarrow> jdict" where
  "load_ledger s =
     (case ledger s of
        Some (JObj d) \<Rightarrow>
          (case jget d ''goals'' of JArr _ \<Rightarrow> d | _ \<Rightarrow> dset d ''goals'' (JArr []))
      | _ \<Rightarrow> empty_doc)"

definition save_ledger :: "genv \<Rightarrow> goals_store \<Rightarrow> jdict \<Rightarrow> goals_store res" where
  "save_ledger E s doc = (if save_ok E then Inr (s\<lparr>ledger := Some (JObj doc)\<rparr>) else Inl OSError)"

definition goals_of :: "jdict \<Rightarrow> json list" where
  "goals_of doc = (case jget doc ''goals'' of JArr gs \<Rightarrow> gs | _ \<Rightarrow> [])"

definition is_row :: "string \<Rightarrow> json \<Rightarrow> bool" where
  "is_row i j = (case j of JObj d \<Rightarrow> jget d ''id'' = JStr i | _ \<Rightarrow> False)"

definition fields :: "json \<Rightarrow> jdict" where
  "fields j = (case j of JObj d \<Rightarrow> d | _ \<Rightarrow> [])"

definition find_goal :: "jdict \<Rightarrow> string \<Rightarrow> jdict option" where
  "find_goal doc goal_id = map_option fields (List.find (is_row goal_id) (goals_of doc))"

text \<open>\<open>g.get("tasks") or []\<close>, skipped unless it is a list.\<close>

definition tasks_of :: "jdict \<Rightarrow> json list" where
  "tasks_of g = (case jget g ''tasks'' of JArr ts \<Rightarrow> ts | _ \<Rightarrow> [])"

definition holds_task :: "string \<Rightarrow> json \<Rightarrow> bool" where
  "holds_task task_id j =
     (case j of JObj g \<Rightarrow> List.find (is_row task_id) (tasks_of g) \<noteq> None | _ \<Rightarrow> False)"

definition find_task :: "jdict \<Rightarrow> string \<Rightarrow> (jdict \<times> jdict) option" where
  "find_task doc task_id =
     (case List.find (holds_task task_id) (goals_of doc) of
        None \<Rightarrow> None
      | Some g \<Rightarrow>
          (case List.find (is_row task_id) (tasks_of (fields g)) of
             None \<Rightarrow> None
           | Some t \<Rightarrow> Some (fields g, fields t)))"

text \<open>In-place change of the row a search found: the first match in the list.\<close>

fun upd_first :: "('a \<Rightarrow> bool) \<Rightarrow> ('a \<Rightarrow> 'a) \<Rightarrow> 'a list \<Rightarrow> 'a list" where
  "upd_first P f [] = []"
| "upd_first P f (x # xs) = (if P x then f x # xs else x # upd_first P f xs)"

definition put_goal :: "jdict \<Rightarrow> string \<Rightarrow> jdict \<Rightarrow> jdict" where
  "put_goal doc goal_id g = dset doc ''goals'' (JArr (upd_first (is_row goal_id) (\<lambda>_. JObj g) (goals_of doc)))"

definition put_task :: "jdict \<Rightarrow> string \<Rightarrow> jdict \<Rightarrow> string \<Rightarrow> jdict" where
  "put_task doc task_id t now =
     dset doc ''goals'' (JArr (upd_first (holds_task task_id)
       (\<lambda>g. JObj (dset (dset (fields g) ''tasks''
                     (JArr (upd_first (is_row task_id) (\<lambda>_. JObj t) (tasks_of (fields g)))))
                   ''updated_at'' (JStr now)))
       (goals_of doc)))"

section \<open>Goals\<close>

text \<open>As in the timer service, a result carries the state at the moment of return or raise.\<close>

type_synonym 'a g_outcome = "'a res \<times> goals_store"

definition create_goal ::
  "genv \<Rightarrow> goals_store \<Rightarrow> json \<Rightarrow> json \<Rightarrow> string \<Rightarrow> jdict option \<Rightarrow> jdict g_outcome" where
  "create_goal E s title acceptance status ctx =
     (if status \<notin> set GOAL_CREATE_STATUSES
      then (if status = ''closed'' then (Inl (ValueError ''cannot create goal with status=closed''), s)
            else (Inl (ValueError ''invalid goal status''), s))
      else
        case clean_title title of
          Inl e \<Rightarrow> (Inl e, s)
        | Inr t \<Rightarrow>
            let now = g_now E;
                goal0 = [(''id'', JStr (new_id E ''g'')), (''title'', JStr t), (''status'', JStr status),
                         (''acceptance'', acceptance), (''created_at'', JStr now),
                         (''updated_at'', JStr now), (''tasks'', JArr [])];
                goal = (case ctx of None \<Rightarrow> goal0 | Some c \<Rightarrow> dset goal0 ''created_in_context'' (JObj c));
                doc = load_ledger s;
                doc' = dset doc ''goals'' (JArr (goals_of doc @ [JObj goal]))
            in case save_ledger E s doc' of
                 Inl e \<Rightarrow> (Inl e, s)
               | Inr s' \<Rightarrow> (Inr goal, s'))"

definition get_goal :: "goals_store \<Rightarrow> string \<Rightarrow> jdict option" where
  "get_goal s goal_id = find_goal (load_ledger s) goal_id"

definition list_goals :: "goals_store \<Rightarrow> string option \<Rightarrow> jdict list res" where
  "list_goals s status =
     (if (case status of None \<Rightarrow> False | Some st \<Rightarrow> st \<notin> set GOAL_STATUSES)
      then Inl (ValueError ''invalid goal status'')
      else Inr (List.map_filter
             (\<lambda>g. case g of
                    JObj d \<Rightarrow>
                      (case status of
                         None \<Rightarrow> Some d
                       | Some st \<Rightarrow> if jget d ''status'' = JStr st then Some d else None)
                  | _ \<Rightarrow> None)
             (goals_of (load_ledger s))))"

text \<open>
  \<open>title\<close> is \<open>JNull\<close> when not given; \<open>acceptance\<close> is \<open>None\<close> when left at its ellipsis default.
  The counter is raised before the save, so a failed save keeps the increment.
\<close>

definition update_goal ::
  "genv \<Rightarrow> goals_store \<Rightarrow> string \<Rightarrow> json \<Rightarrow> string option \<Rightarrow> json option \<Rightarrow> json \<Rightarrow>
   (jdict \<times> string option) g_outcome" where
  "update_goal E s goal_id title status acceptance force =
     (case require_bool force of
        Inl e \<Rightarrow> (Inl e, s)
      | Inr frc \<Rightarrow>
          let doc = load_ledger s in
          case find_goal doc goal_id of
            None \<Rightarrow> (Inl (KeyError ''goal not found''), s)
          | Some g0 \<Rightarrow>
              if (case status of None \<Rightarrow> False | Some st \<Rightarrow> st \<notin> set GOAL_STATUSES)
              then (Inl (ValueError ''invalid goal status''), s)
              else
                case (if title = JNull then Inr None else map_sum (\<lambda>e. e) Some (clean_title title)) of
                  Inl e \<Rightarrow> (Inl e, s)
                | Inr t \<Rightarrow>
                    let g1 = (case t of None \<Rightarrow> g0 | Some x \<Rightarrow> dset g0 ''title'' (JStr x));
                        g2 = (case acceptance of None \<Rightarrow> g1 | Some a \<Rightarrow> dset g1 ''acceptance'' a);
                        prev = jget g2 ''status'';
                        change = (case status of None \<Rightarrow> False | Some st \<Rightarrow> JStr st \<noteq> prev);
                        soft = (change \<and> prev = JStr ''open'' \<and> status = Some ''closed'');
                        s1 = (if soft then s\<lparr>goal_close_without_review := goal_close_without_review s + 1\<rparr> else s);
                        warning = (if soft \<and> \<not> frc then Some SOFT_CLOSE_WARNING else None);
                        g3 = (if change then dset g2 ''status'' (JStr (the status)) else g2);
                        g4 = dset g3 ''updated_at'' (JStr (g_now E))
                    in case save_ledger E s1 (put_goal doc goal_id g4) of
                         Inl e \<Rightarrow> (Inl e, s1)
                       | Inr s2 \<Rightarrow> (Inr (g4, warning), s2))"

section \<open>Tasks\<close>

definition fire_task_ready :: "genv \<Rightarrow> goals_store \<Rightarrow> string \<Rightarrow> json \<Rightarrow> unit g_outcome" where
  "fire_task_ready E s task_id goal_id =
     (case on_task_ready E of
        None \<Rightarrow> (Inr (), s)
      | Some hook \<Rightarrow>
          (case hook task_id goal_id of None \<Rightarrow> Inr () | Some e \<Rightarrow> Inl e,
           s\<lparr>ready_calls := ready_calls s @ [(task_id, goal_id)]\<rparr>))"

definition create_task ::
  "genv \<Rightarrow> goals_store \<Rightarrow> string \<Rightarrow> json \<Rightarrow> string \<Rightarrow> json \<Rightarrow> jdict option \<Rightarrow> jdict g_outcome" where
  "create_task E s goal_id title status notes ctx =
     (if status \<notin> set TASK_STATUSES then (Inl (ValueError ''invalid task status''), s)
      else
        case clean_title title of
          Inl e \<Rightarrow> (Inl e, s)
        | Inr t \<Rightarrow>
            let doc = load_ledger s in
            case find_goal doc goal_id of
              None \<Rightarrow> (Inl (KeyError ''goal not found''), s)
            | Some g \<Rightarrow>
                let now = g_now E; tid = new_id E ''t'';
                    task0 = [(''id'', JStr tid), (''goal_id'', JStr goal_id), (''title'', JStr t),
                             (''status'', JStr status), (''notes'', notes), (''created_at'', JStr now),
                             (''updated_at'', JStr now)];
                    task = (case ctx of None \<Rightarrow> task0 | Some c \<Rightarrow> dset task0 ''created_in_context'' (JObj c));
                    g1 = (case map_of g ''tasks'' of
                            None \<Rightarrow> dset g ''tasks'' (JArr [JObj task])
                          | Some (JArr ts) \<Rightarrow> dset g ''tasks'' (JArr (ts @ [JObj task]))
                          | Some _ \<Rightarrow> dset g ''tasks'' (JArr [JObj task]));
                    g2 = dset g1 ''updated_at'' (JStr now)
                in case save_ledger E s (put_goal doc goal_id g2) of
                     Inl e \<Rightarrow> (Inl e, s)
                   | Inr s1 \<Rightarrow>
                       if status = ''ready''
                       then case fire_task_ready E s1 tid (JStr goal_id) of
                              (Inl e, s2) \<Rightarrow> (Inl e, s2)
                            | (Inr _, s2) \<Rightarrow> (Inr task, s2)
                       else (Inr task, s1))"

definition get_task :: "goals_store \<Rightarrow> string \<Rightarrow> jdict option" where
  "get_task s task_id = map_option snd (find_task (load_ledger s) task_id)"

definition find_task_pair :: "goals_store \<Rightarrow> string \<Rightarrow> (jdict \<times> jdict) option" where
  "find_task_pair s task_id = find_task (load_ledger s) task_id"

text \<open>
  \<open>task_copy["goal_id"]\<close> is read after the save: a hand-edited task without that key raises
  with the change already on disk.
\<close>

definition update_task ::
  "genv \<Rightarrow> goals_store \<Rightarrow> string \<Rightarrow> json \<Rightarrow> string option \<Rightarrow> json option \<Rightarrow> (jdict \<times> bool) g_outcome" where
  "update_task E s task_id title status notes =
     (let doc = load_ledger s in
      case find_task doc task_id of
        None \<Rightarrow> (Inl (KeyError ''task not found''), s)
      | Some (g, t0) \<Rightarrow>
          if (case status of None \<Rightarrow> False | Some st \<Rightarrow> st \<notin> set TASK_STATUSES)
          then (Inl (ValueError ''invalid task status''), s)
          else
            case (if title = JNull then Inr None else map_sum (\<lambda>e. e) Some (clean_title title)) of
              Inl e \<Rightarrow> (Inl e, s)
            | Inr ti \<Rightarrow>
                let t1 = (case ti of None \<Rightarrow> t0 | Some x \<Rightarrow> dset t0 ''title'' (JStr x));
                    t2 = (case notes of None \<Rightarrow> t1 | Some n \<Rightarrow> dset t1 ''notes'' n);
                    prev = jget t2 ''status'';
                    change = (case status of None \<Rightarrow> False | Some st \<Rightarrow> JStr st \<noteq> prev);
                    became_ready = (change \<and> status = Some ''ready'' \<and> prev \<noteq> JStr ''ready'');
                    t3 = (if change then dset t2 ''status'' (JStr (the status)) else t2);
                    t4 = dset t3 ''updated_at'' (JStr (g_now E))
                in case save_ledger E s (put_task doc task_id t4 (g_now E)) of
                     Inl e \<Rightarrow> (Inl e, s)
                   | Inr s1 \<Rightarrow>
                       (case jindex t4 ''goal_id'' of
                          Inl e \<Rightarrow> (Inl e, s1)
                        | Inr gid \<Rightarrow>
                            if became_ready
                            then case fire_task_ready E s1 task_id gid of
                                   (Inl e, s2) \<Rightarrow> (Inl e, s2)
                                 | (Inr _, s2) \<Rightarrow> (Inr (t4, True), s2)
                            else (Inr (t4, False), s1)))"

section \<open>Rows found and changed by id\<close>

text \<open>
  A list of rows searched by a key, and changed at the first match. The laws are those of a
  keyed store: the changed row is found under its key, other keys see what they saw.
\<close>

locale row_store =
  fixes hit :: "'k \<Rightarrow> 'a \<Rightarrow> bool"
  assumes hit_unique: "hit k x \<Longrightarrow> hit k' x \<Longrightarrow> k' = k"
begin

lemma find_upd_same:
  "List.find (hit k) xs = Some x \<Longrightarrow> hit k (f x) \<Longrightarrow>
   List.find (hit k) (upd_first (hit k) f xs) = Some (f x)"
  by (induction xs) (auto split: if_splits)

lemma find_upd_other:
  "k' \<noteq> k \<Longrightarrow> (\<And>x. hit k x \<Longrightarrow> hit k (f x)) \<Longrightarrow>
   List.find (hit k') (upd_first (hit k) f xs) = List.find (hit k') xs"
  by (induction xs) (auto dest: hit_unique)

lemma find_snoc_new:
  "List.find (hit k) xs = None \<Longrightarrow> hit k y \<Longrightarrow> List.find (hit k) (xs @ [y]) = Some y"
  by (induction xs) (auto split: if_splits)

lemma find_snoc_other: "\<not> hit k y \<Longrightarrow> List.find (hit k) (xs @ [y]) = List.find (hit k) xs"
  by (induction xs) auto

end

lemma set_upd_first: "set (upd_first P f xs) \<subseteq> set xs \<union> {f x |x. x \<in> set xs \<and> P x}"
  by (induction xs) auto

lemma upd_first_nth:
  assumes "List.find P xs = Some x"
  obtains i where "i < length xs" "xs ! i = x" "P x" "upd_first P f xs = xs[i := f x]"
proof -
  have "\<exists>i < length xs. xs ! i = x \<and> P x \<and> upd_first P f xs = xs[i := f x]"
    using assms
  proof (induction xs)
    case (Cons y ys)
    show ?case
    proof (cases "P y")
      case True
      then show ?thesis using Cons.prems by (intro exI [of _ 0]) simp
    next
      case False
      with Cons obtain i where "i < length ys" "ys ! i = x" "P x" "upd_first P f ys = ys[i := f x]"
        by auto
      with False show ?thesis by (intro exI [of _ "Suc i"]) simp
    qed
  qed simp
  then show thesis using that by blast
qed

interpretation rows: row_store is_row
  by unfold_locales (auto simp: is_row_def split: json.splits)

lemma is_row_JObj [simp]: "is_row i (JObj d) \<longleftrightarrow> jget d ''id'' = JStr i"
  by (simp add: is_row_def)

lemma fields_JObj [simp]: "fields (JObj d) = d"
  by (simp add: fields_def)

lemma goals_of_dset [simp]: "goals_of (dset doc ''goals'' (JArr gs)) = gs"
  by (simp add: goals_of_def)

lemma tasks_of_dset [simp]: "tasks_of (dset g ''tasks'' (JArr ts)) = ts"
  by (simp add: tasks_of_def)

lemma tasks_of_dset_other [simp]: "k \<noteq> ''tasks'' \<Longrightarrow> tasks_of (dset g k v) = tasks_of g"
  by (simp add: tasks_of_def)

lemma load_saved [simp]:
  "load_ledger (s\<lparr>ledger := Some (JObj (dset doc ''goals'' (JArr gs)))\<rparr>) = dset doc ''goals'' (JArr gs)"
  by (simp add: load_ledger_def)

lemma find_row_is_row: "List.find (is_row i) xs = Some x \<Longrightarrow> x \<in> set xs \<and> is_row i x"
  by (auto simp: find_Some_iff)

lemma find_goal_Some:
  assumes "find_goal doc i = Some g"
  shows "List.find (is_row i) (goals_of doc) = Some (JObj g)" and "JObj g \<in> set (goals_of doc)"
    and "jget g ''id'' = JStr i"
proof -
  from assms obtain x where x: "List.find (is_row i) (goals_of doc) = Some x" "fields x = g"
    by (auto simp: find_goal_def)
  moreover have "x = JObj g" using x find_row_is_row [OF x(1)]
    by (cases x) (auto simp: is_row_def)
  ultimately show "List.find (is_row i) (goals_of doc) = Some (JObj g)"
    "JObj g \<in> set (goals_of doc)" "jget g ''id'' = JStr i"
    using find_row_is_row [OF x(1)] by simp_all
qed

lemma find_put_goal:
  assumes "find_goal doc i = Some g" and "jget g' ''id'' = JStr i"
  shows "find_goal (put_goal doc i g') j = (if j = i then Some g' else find_goal doc j)"
  using rows.find_upd_same [OF find_goal_Some(1) [OF assms(1)], of "\<lambda>_. JObj g'"]
    rows.find_upd_other [of j i "\<lambda>_. JObj g'" "goals_of doc"] assms(2)
  by (auto simp: find_goal_def put_goal_def)

section \<open>Well-formed ledgers\<close>

definition str_field :: "jdict \<Rightarrow> string \<Rightarrow> string option" where
  "str_field d k = (case jget d k of JStr x \<Rightarrow> Some x | _ \<Rightarrow> None)"

definition good_title :: "jdict \<Rightarrow> bool" where
  "good_title d = (case str_field d ''title'' of None \<Rightarrow> False | Some t \<Rightarrow> t \<noteq> [] \<and> strip t = t)"

definition has_status :: "string list \<Rightarrow> jdict \<Rightarrow> bool" where
  "has_status sts d = (case str_field d ''status'' of None \<Rightarrow> False | Some st \<Rightarrow> st \<in> set sts)"

definition row_id :: "json \<Rightarrow> string option" where
  "row_id j = str_field (fields j) ''id''"

definition task_wf :: "string \<Rightarrow> json \<Rightarrow> bool" where
  "task_wf gid j = (is_obj j \<and> row_id j \<noteq> None \<and> jget (fields j) ''goal_id'' = JStr gid \<and>
     good_title (fields j) \<and> has_status TASK_STATUSES (fields j))"

definition goal_wf :: "json \<Rightarrow> bool" where
  "goal_wf j =
     (is_obj j \<and> good_title (fields j) \<and> has_status GOAL_STATUSES (fields j) \<and>
      jget (fields j) ''tasks'' = JArr (tasks_of (fields j)) \<and>
      (case row_id j of None \<Rightarrow> False | Some i \<Rightarrow> list_all (task_wf i) (tasks_of (fields j))))"

definition all_tasks :: "json list \<Rightarrow> json list" where
  "all_tasks gs = concat (map (\<lambda>g. tasks_of (fields g)) gs)"

definition doc_wf :: "jdict \<Rightarrow> bool" where
  "doc_wf doc = (list_all goal_wf (goals_of doc) \<and> distinct (map row_id (goals_of doc)) \<and>
     distinct (map row_id (all_tasks (goals_of doc))))"

definition store_wf :: "goals_store \<Rightarrow> bool" where
  "store_wf s = doc_wf (load_ledger s)"

lemma clean_title_Inr: "clean_title j = Inr t \<Longrightarrow> t \<noteq> [] \<and> strip t = t"
  by (auto simp: clean_title_def split: json.splits if_splits)

lemma mset_concat_update:
  "k < length xs \<Longrightarrow> mset (concat (xs[k := xs ! k @ ys])) = mset ys + mset (concat xs)"
  by (induction xs arbitrary: k) (auto split: nat.split simp: nth_Cons)

text \<open>Replacing one goal, possibly with new tasks at its end, keeps the ledger well-formed.\<close>

lemma doc_wf_replace:
  assumes "doc_wf doc" and "k < length (goals_of doc)" and "goal_wf g'"
    and "row_id g' = row_id (goals_of doc ! k)"
    and ids: "map row_id (tasks_of (fields g')) = map row_id (tasks_of (fields (goals_of doc ! k))) @ new"
    and "distinct new" and "set new \<inter> set (map row_id (all_tasks (goals_of doc))) = {}"
  shows "doc_wf (dset doc ''goals'' (JArr ((goals_of doc)[k := g'])))"
proof -
  let ?gs = "goals_of doc" and ?h = "\<lambda>g. map row_id (tasks_of (fields g))"
  have hh: "map row_id (all_tasks gs) = concat (map ?h gs)" for gs
    by (simp add: all_tasks_def map_concat comp_def)
  have "?h g' = map ?h ?gs ! k @ new" using ids assms(2) by simp
  then have "map ?h (?gs[k := g']) = (map ?h ?gs)[k := map ?h ?gs ! k @ new]"
    by (simp add: map_update)
  then have "mset (concat (map ?h (?gs[k := g']))) = mset (new @ concat (map ?h ?gs))"
    using mset_concat_update [of k "map ?h ?gs" new] assms(2) by simp
  moreover have "distinct (new @ concat (map ?h ?gs))"
    using assms(1,6,7) unfolding doc_wf_def hh by auto
  ultimately have "distinct (concat (map ?h (?gs[k := g'])))"
    using mset_eq_imp_distinct_iff by blast
  moreover have "map row_id (?gs[k := g']) = map row_id ?gs"
    using assms(2,4) by (metis list_update_id map_update nth_map)
  moreover have "list_all goal_wf (?gs[k := g'])"
    using assms(1,3) set_update_subset_insert [of ?gs k g'] unfolding doc_wf_def list_all_iff by blast
  ultimately show ?thesis using assms(1) by (simp add: doc_wf_def hh)
qed

lemma doc_wf_put_goal:
  assumes "doc_wf doc" and "find_goal doc i = Some g" and "goal_wf (JObj g')"
    and "jget g' ''id'' = JStr i" and "map row_id (tasks_of g') = map row_id (tasks_of g) @ new"
    and "distinct new" and "set new \<inter> set (map row_id (all_tasks (goals_of doc))) = {}"
  shows "doc_wf (put_goal doc i g')"
proof -
  note g = find_goal_Some [OF assms(2)]
  obtain k where k: "k < length (goals_of doc)" "goals_of doc ! k = JObj g"
    "upd_first (is_row i) (\<lambda>_. JObj g') (goals_of doc) = (goals_of doc)[k := JObj g']"
    using upd_first_nth [OF g(1), of "\<lambda>_. JObj g'"] by metis
  have "row_id (JObj g') = row_id (JObj g)" using assms(4) g(3) by (simp add: row_id_def str_field_def)
  then show ?thesis
    unfolding put_goal_def k(3)
    by (intro doc_wf_replace) (use assms k in simp_all)
qed

lemma doc_wf_goal: "doc_wf doc \<Longrightarrow> g \<in> set (goals_of doc) \<Longrightarrow> goal_wf g"
  by (simp add: doc_wf_def list_all_iff)

lemma goal_wfD:
  assumes "goal_wf (JObj g)" and "jget g ''id'' = JStr i"
  shows "good_title g" and "has_status GOAL_STATUSES g" and "jget g ''tasks'' = JArr (tasks_of g)"
    and "list_all (task_wf i) (tasks_of g)"
  using assms by (auto simp: goal_wf_def row_id_def str_field_def)

lemma goal_wfI:
  assumes "jget g ''id'' = JStr i" and "good_title g" and "has_status GOAL_STATUSES g"
    and "jget g ''tasks'' = JArr (tasks_of g)" and "list_all (task_wf i) (tasks_of g)"
  shows "goal_wf (JObj g)"
  using assms by (simp add: goal_wf_def row_id_def str_field_def is_obj_def)

lemma field_dset [simp]:
  "str_field (dset d k v) k' = (if k' = k then (case v of JStr x \<Rightarrow> Some x | _ \<Rightarrow> None) else str_field d k')"
  by (simp add: str_field_def)

lemma good_title_dset [simp]:
  "good_title (dset d k v) =
     (if k = ''title'' then (case v of JStr t \<Rightarrow> t \<noteq> [] \<and> strip t = t | _ \<Rightarrow> False) else good_title d)"
  by (auto simp: good_title_def split: json.splits)

lemma has_status_dset [simp]:
  "has_status sts (dset d k v) =
     (if k = ''status'' then (case v of JStr t \<Rightarrow> t \<in> set sts | _ \<Rightarrow> False) else has_status sts d)"
  by (auto simp: has_status_def split: json.splits)

section \<open>What each operation saves\<close>

text \<open>\<open>edits g g'\<close>: \<open>g'\<close> differs from \<open>g\<close> in its editable fields only, and validly.\<close>

definition edits :: "string list \<Rightarrow> string list \<Rightarrow> jdict \<Rightarrow> jdict \<Rightarrow> bool" where
  "edits ks sts g g' \<longleftrightarrow>
     (\<forall>k. k \<notin> set ks \<longrightarrow> jget g' k = jget g k) \<and>
     (good_title g \<longrightarrow> good_title g') \<and> (has_status sts g \<longrightarrow> has_status sts g')"

lemma edits_trans: "edits ks sts g g1 \<Longrightarrow> edits ks sts g1 g2 \<Longrightarrow> edits ks sts g g2"
  by (simp add: edits_def)

lemma edits_refl [simp]: "edits ks sts g g"
  by (simp add: edits_def)

lemma edits_title: "''title'' \<in> set ks \<Longrightarrow> t \<noteq> [] \<Longrightarrow> strip t = t \<Longrightarrow> edits ks sts g (dset g ''title'' (JStr t))"
  by (simp add: edits_def)

lemma edits_status: "''status'' \<in> set ks \<Longrightarrow> st \<in> set sts \<Longrightarrow> edits ks sts g (dset g ''status'' (JStr st))"
  by (simp add: edits_def)

lemma edits_plain:
  "k \<in> set ks \<Longrightarrow> k \<noteq> ''title'' \<Longrightarrow> k \<noteq> ''status'' \<Longrightarrow> edits ks sts g (dset g k v)"
  by (simp add: edits_def)

lemma edits_tasks: "edits ks sts g g' \<Longrightarrow> ''tasks'' \<notin> set ks \<Longrightarrow> tasks_of g' = tasks_of g"
  by (simp add: edits_def tasks_of_def)

text \<open>The common part of \<open>update_goal\<close> and \<open>update_task\<close>: new field values in source order.\<close>

definition edited ::
  "string \<Rightarrow> json option \<Rightarrow> string option \<Rightarrow> string option \<Rightarrow> string \<Rightarrow> jdict \<Rightarrow> jdict" where
  "edited note note_val ti status now g0 =
     (let g1 = (case ti of None \<Rightarrow> g0 | Some x \<Rightarrow> dset g0 ''title'' (JStr x));
          g2 = (case note_val of None \<Rightarrow> g1 | Some a \<Rightarrow> dset g1 note a);
          g3 = (case status of None \<Rightarrow> g2 | Some st \<Rightarrow> if JStr st \<noteq> jget g2 ''status'' then dset g2 ''status'' (JStr st) else g2)
      in dset g3 ''updated_at'' (JStr now))"

lemma edited_edits:
  assumes "note \<notin> {''title'', ''status'', ''updated_at''}"
    and "\<And>t. ti = Some t \<Longrightarrow> t \<noteq> [] \<and> strip t = t" and "\<And>st. status = Some st \<Longrightarrow> st \<in> set sts"
  shows "edits [''title'', note, ''status'', ''updated_at''] sts g (edited note v ti status now g)"
proof -
  let ?ks = "[''title'', note, ''status'', ''updated_at'']"
  define g1 where "g1 = (case ti of None \<Rightarrow> g | Some x \<Rightarrow> dset g ''title'' (JStr x))"
  define g2 where "g2 = (case v of None \<Rightarrow> g1 | Some a \<Rightarrow> dset g1 note a)"
  define g3 where "g3 = (case status of None \<Rightarrow> g2 | Some st \<Rightarrow>
      if JStr st \<noteq> jget g2 ''status'' then dset g2 ''status'' (JStr st) else g2)"
  have "edits ?ks sts g g1" using assms(2) by (auto simp: g1_def intro: edits_title split: option.split)
  moreover have "edits ?ks sts g1 g2" using assms(1)
    by (auto simp: g2_def intro: edits_plain split: option.split)
  moreover have "edits ?ks sts g2 g3" using assms(3)
    by (auto simp: g3_def intro: edits_status split: option.split)
  moreover have "edits ?ks sts g3 (dset g3 ''updated_at'' (JStr now))" by (rule edits_plain) simp_all
  ultimately show ?thesis
    unfolding edited_def Let_def g1_def [symmetric] g2_def [symmetric] g3_def [symmetric]
    by (meson edits_trans)
qed

lemma status_edited:
  "note \<notin> {''title'', ''status'', ''updated_at''} \<Longrightarrow>
   jget (edited note v ti status now g) ''status'' =
     (case status of None \<Rightarrow> jget g ''status'' | Some st \<Rightarrow> JStr st)"
  by (auto simp: edited_def Let_def split: option.split)

definition title_arg :: "json \<Rightarrow> string option res" where
  "title_arg title = (if title = JNull then Inr None else map_sum (\<lambda>e. e) Some (clean_title title))"

lemma title_arg_Inr: "title_arg j = Inr (Some t) \<Longrightarrow> t \<noteq> [] \<and> strip t = t"
  using clean_title_Inr by (cases "clean_title j") (auto simp: title_arg_def split: if_splits)

definition bad_status :: "string list \<Rightarrow> string option \<Rightarrow> bool" where
  "bad_status sts status = (case status of None \<Rightarrow> False | Some st \<Rightarrow> st \<notin> set sts)"

text \<open>\<open>update_goal\<close> on every branch, in terms of the edited row.\<close>

lemma update_goal_eq:
  "update_goal E s i title status acceptance force =
     (case require_bool force of
        Inl e \<Rightarrow> (Inl e, s)
      | Inr frc \<Rightarrow>
          (case find_goal (load_ledger s) i of
             None \<Rightarrow> (Inl (KeyError ''goal not found''), s)
           | Some g \<Rightarrow>
               if bad_status GOAL_STATUSES status then (Inl (ValueError ''invalid goal status''), s)
               else
                 (case title_arg title of
                    Inl e \<Rightarrow> (Inl e, s)
                  | Inr t \<Rightarrow>
                      let g' = edited ''acceptance'' acceptance t status (g_now E) g;
                          soft = (status = Some ''closed'' \<and> jget g ''status'' = JStr ''open'');
                          s1 = (if soft then s\<lparr>goal_close_without_review := goal_close_without_review s + 1\<rparr> else s)
                      in if save_ok E
                         then (Inr (g', if soft \<and> \<not> frc then Some SOFT_CLOSE_WARNING else None),
                               s1\<lparr>ledger := Some (JObj (put_goal (load_ledger s) i g'))\<rparr>)
                         else (Inl OSError, s1))))"
proof (cases "require_bool force")
  case (Inr frc)
  note f = Inr
  show ?thesis
  proof (cases "find_goal (load_ledger s) i")
    case (Some g)
    note g = Some
    show ?thesis
    proof (cases "bad_status GOAL_STATUSES status")
      case False
      show ?thesis
      proof (cases "title_arg title")
        case (Inr t)
        define g1 where "g1 = (case t of None \<Rightarrow> g | Some x \<Rightarrow> dset g ''title'' (JStr x))"
        define g2 where "g2 = (case acceptance of None \<Rightarrow> g1 | Some a \<Rightarrow> dset g1 ''acceptance'' a)"
        have st: "jget g2 ''status'' = jget g ''status''"
          by (simp add: g2_def g1_def split: option.split)
        show ?thesis
          unfolding update_goal_def f g sum.case option.case Let_def
            title_arg_def [symmetric] bad_status_def [symmetric] Inr
            g1_def [symmetric] g2_def [symmetric] edited_def st
          using False by (cases status) (auto simp: save_ledger_def)
      qed (use f g False in \<open>simp add: update_goal_def title_arg_def bad_status_def\<close>)
    qed (use f g in \<open>simp add: update_goal_def bad_status_def\<close>)
  qed (use f in \<open>simp add: update_goal_def\<close>)
qed (simp add: update_goal_def)

text \<open>\<open>update_task\<close> on every branch.\<close>

lemma update_task_eq:
  "update_task E s i title status notes =
     (case find_task (load_ledger s) i of
        None \<Rightarrow> (Inl (KeyError ''task not found''), s)
      | Some (g, t) \<Rightarrow>
          if bad_status TASK_STATUSES status then (Inl (ValueError ''invalid task status''), s)
          else
            (case title_arg title of
               Inl e \<Rightarrow> (Inl e, s)
             | Inr ti \<Rightarrow>
                 let t' = edited ''notes'' notes ti status (g_now E) t;
                     ready = (status = Some ''ready'' \<and> jget t ''status'' \<noteq> JStr ''ready'');
                     s1 = s\<lparr>ledger := Some (JObj (put_task (load_ledger s) i t' (g_now E)))\<rparr>
                 in if \<not> save_ok E then (Inl OSError, s)
                    else
                      (case jindex t' ''goal_id'' of
                         Inl e \<Rightarrow> (Inl e, s1)
                       | Inr gid \<Rightarrow>
                           if ready
                           then (case fire_task_ready E s1 i gid of
                                   (Inl e, s2) \<Rightarrow> (Inl e, s2)
                                 | (Inr _, s2) \<Rightarrow> (Inr (t', True), s2))
                           else (Inr (t', False), s1))))"
proof (cases "find_task (load_ledger s) i")
  case (Some gt)
  obtain g t where gt: "gt = (g, t)" by (cases gt)
  note f = Some [unfolded gt]
  show ?thesis
  proof (cases "bad_status TASK_STATUSES status")
    case False
    show ?thesis
    proof (cases "title_arg title")
      case (Inr ti)
      define t1 where "t1 = (case ti of None \<Rightarrow> t | Some x \<Rightarrow> dset t ''title'' (JStr x))"
      define t2 where "t2 = (case notes of None \<Rightarrow> t1 | Some a \<Rightarrow> dset t1 ''notes'' a)"
      have st: "jget t2 ''status'' = jget t ''status''"
        by (simp add: t2_def t1_def split: option.split)
      have c: "(if (case status of None \<Rightarrow> False | Some st \<Rightarrow> JStr st \<noteq> jget t ''status'')
          then dset t2 ''status'' (JStr (the status)) else t2) =
        (case status of None \<Rightarrow> t2 | Some st \<Rightarrow>
           if JStr st \<noteq> jget t ''status'' then dset t2 ''status'' (JStr st) else t2)"
        by (cases status) auto
      have r: "((case status of None \<Rightarrow> False | Some st \<Rightarrow> JStr st \<noteq> jget t ''status'') \<and>
          status = Some ''ready'' \<and> jget t ''status'' \<noteq> JStr ''ready'') =
        (status = Some ''ready'' \<and> jget t ''status'' \<noteq> JStr ''ready'')" by auto
      show ?thesis
        unfolding update_task_def f sum.case option.case prod.case Let_def
          title_arg_def [symmetric] bad_status_def [symmetric] Inr
          t1_def [symmetric] t2_def [symmetric] edited_def st c r save_ledger_def
        using False by (cases "save_ok E") simp_all
    qed (use f False in \<open>simp add: update_task_def title_arg_def bad_status_def\<close>)
  qed (use f in \<open>simp add: update_task_def bad_status_def\<close>)
qed (simp add: update_task_def)

lemma ledger_fire [simp]: "ledger (snd (fire_task_ready E s t g)) = ledger s"
  by (simp add: fire_task_ready_def split: option.split)

lemma load_ledger_cong: "ledger s' = ledger s \<Longrightarrow> load_ledger s' = load_ledger s"
  by (simp add: load_ledger_def)

lemma load_put_goal [simp]:
  "ledger s' = Some (JObj (put_goal doc i g)) \<Longrightarrow> load_ledger s' = put_goal doc i g"
  by (simp add: load_ledger_def put_goal_def)

lemma load_put_task [simp]:
  "ledger s' = Some (JObj (put_task doc i t now)) \<Longrightarrow> load_ledger s' = put_task doc i t now"
  by (simp add: load_ledger_def put_task_def)

lemma find_task_Some:
  assumes "find_task doc i = Some (g, t)"
  shows "List.find (holds_task i) (goals_of doc) = Some (JObj g)"
    and "List.find (is_row i) (tasks_of g) = Some (JObj t)" and "jget t ''id'' = JStr i"
proof -
  from assms obtain x where x: "List.find (holds_task i) (goals_of doc) = Some x" "fields x = g"
    by (auto simp: find_task_def split: option.splits)
  have "holds_task i x" using x(1) by (auto simp: find_Some_iff)
  then have xg: "x = JObj g" using x(2) by (cases x) (simp_all add: holds_task_def)
  then show "List.find (holds_task i) (goals_of doc) = Some (JObj g)" using x(1) by simp
  from assms x xg obtain y where y: "List.find (is_row i) (tasks_of g) = Some y" "fields y = t"
    by (auto simp: find_task_def split: option.splits)
  then have "is_row i y" using find_row_is_row by blast
  then have "y = JObj t" using y(2) by (cases y) (simp_all add: is_row_def)
  then show "List.find (is_row i) (tasks_of g) = Some (JObj t)" "jget t ''id'' = JStr i"
    using y(1) \<open>is_row i y\<close> by simp_all
qed

lemma doc_wf_put_task:
  assumes "doc_wf doc" and "find_task doc i = Some (g, t)"
    and e: "edits [''title'', ''notes'', ''status'', ''updated_at''] TASK_STATUSES t t'"
  shows "doc_wf (put_task doc i t' now)"
proof -
  note f = find_task_Some [OF assms(2)]
  let ?ts = "upd_first (is_row i) (\<lambda>_. JObj t') (tasks_of g)"
  let ?f = "\<lambda>g. JObj (dset (dset (fields g) ''tasks''
     (JArr (upd_first (is_row i) (\<lambda>_. JObj t') (tasks_of (fields g))))) ''updated_at'' (JStr now))"
  obtain k where k: "k < length (goals_of doc)" "goals_of doc ! k = JObj g"
    "upd_first (holds_task i) ?f (goals_of doc) = (goals_of doc)[k := ?f (JObj g)]"
    by (rule upd_first_nth [OF f(1), of ?f])
  obtain m where m: "m < length (tasks_of g)" "tasks_of g ! m = JObj t" "?ts = (tasks_of g)[m := JObj t']"
    by (rule upd_first_nth [OF f(2), of "\<lambda>_. JObj t'"])
  have gw: "goal_wf (JObj g)" using doc_wf_goal [OF assms(1) nth_mem [OF k(1)]] k(2) by simp
  then obtain gid where gid: "jget g ''id'' = JStr gid"
    by (auto simp: goal_wf_def row_id_def str_field_def split: option.splits json.splits)
  note w = goal_wfD [OF gw gid]
  have "task_wf gid (JObj t)" using w(4) m(1,2) by (auto simp: list_all_length)
  then have tw: "task_wf gid (JObj t')"
    using e by (simp add: task_wf_def edits_def row_id_def str_field_def is_obj_def)
  have "row_id (JObj t') = row_id (JObj t)" using e by (simp add: row_id_def edits_def str_field_def)
  then have ids: "map row_id ?ts = map row_id (tasks_of g)"
    using m(1) unfolding m(3) map_update by (simp add: list_update_same_conv m(2))
  have "list_all (task_wf gid) ?ts"
    using w(4) tw m set_update_subset_insert [of "tasks_of g" m "JObj t'"]
    unfolding list_all_iff m(3) by blast
  then have "goal_wf (?f (JObj g))"
    using w gid by (intro goal_wfI [of _ gid]) simp_all
  moreover have "row_id (?f (JObj g)) = row_id (JObj g)" by (simp add: row_id_def)
  ultimately show ?thesis
    unfolding put_task_def k(3)
    by (intro doc_wf_replace [where new = "[]"]) (use assms(1) k ids in simp_all)
qed

lemma update_task_ledger:
  assumes "update_task E s i title status notes = (r, s')"
  shows "ledger s' = ledger s \<or>
    (\<exists>g t ti. find_task (load_ledger s) i = Some (g, t) \<and> \<not> bad_status TASK_STATUSES status \<and>
       title_arg title = Inr ti \<and>
       ledger s' = Some (JObj (put_task (load_ledger s) i
         (edited ''notes'' notes ti status (g_now E) t) (g_now E))))"
proof (cases "find_task (load_ledger s) i")
  case (Some gt)
  obtain g t where gt: "gt = (g, t)" by (cases gt)
  note f = Some [unfolded gt]
  show ?thesis
  proof (cases "bad_status TASK_STATUSES status \<or> (\<exists>e. title_arg title = Inl e) \<or> \<not> save_ok E")
    case True
    then have "s' = s" using assms unfolding update_task_eq f option.case prod.case Let_def
      by (cases "bad_status TASK_STATUSES status"; cases "title_arg title"; cases "save_ok E") simp_all
    then show ?thesis by simp
  next
    case False
    then obtain ti where ti: "title_arg title = Inr ti" by (cases "title_arg title") auto
    define t' where "t' = edited ''notes'' notes ti status (g_now E) t"
    define s1 where "s1 = s\<lparr>ledger := Some (JObj (put_task (load_ledger s) i t' (g_now E)))\<rparr>"
    define ready where "ready = (status = Some ''ready'' \<and> jget t ''status'' \<noteq> JStr ''ready'')"
    have eq: "(case jindex t' ''goal_id'' of Inl e \<Rightarrow> (Inl e, s1)
        | Inr gid \<Rightarrow> if ready
            then (case fire_task_ready E s1 i gid of
                    (Inl e, s2) \<Rightarrow> (Inl e, s2) | (Inr _, s2) \<Rightarrow> (Inr (t', True), s2))
            else (Inr (t', False), s1)) = (r, s')"
      using assms False
      unfolding update_task_eq f ti option.case sum.case prod.case Let_def
        t'_def [symmetric] s1_def [symmetric] ready_def [symmetric] by simp
    have "s' = s1 \<or> (\<exists>gid. s' = snd (fire_task_ready E s1 i gid))"
    proof (cases "jindex t' ''goal_id''")
      case (Inl e)
      then show ?thesis using eq by simp
    next
      case (Inr gid)
      obtain x s2 where fr: "fire_task_ready E s1 i gid = (x, s2)" by fastforce
      have "s' = s1 \<or> s' = s2"
        using eq unfolding Inr sum.case fr by (cases x; cases ready) auto
      then show ?thesis using fr by (metis snd_conv)
    qed
    then have "ledger s' = ledger s1" by auto
    then have "ledger s' = Some (JObj (put_task (load_ledger s) i t' (g_now E)))" by (simp add: s1_def)
    then show ?thesis using f ti False unfolding t'_def by blast
  qed
qed (use assms in \<open>simp add: update_task_eq\<close>)

lemma store_wf_update_task:
  assumes "store_wf s" and "update_task E s i title status notes = (r, s')"
  shows "store_wf s'"
  using update_task_ledger [OF assms(2)]
proof (elim disjE exE conjE)
  assume "ledger s' = ledger s"
  then show ?thesis using assms(1) load_ledger_cong [of s' s] by (simp add: store_wf_def)
next
  fix g t ti
  assume f: "find_task (load_ledger s) i = Some (g, t)" and b: "\<not> bad_status TASK_STATUSES status"
    and ti: "title_arg title = Inr ti"
    and l: "ledger s' = Some (JObj (put_task (load_ledger s) i (edited ''notes'' notes ti status (g_now E) t) (g_now E)))"
  have "edits [''title'', ''notes'', ''status'', ''updated_at''] TASK_STATUSES t
      (edited ''notes'' notes ti status (g_now E) t)"
    by (rule edited_edits) (use b ti title_arg_Inr in \<open>auto simp: bad_status_def\<close>)
  then have "doc_wf (put_task (load_ledger s) i (edited ''notes'' notes ti status (g_now E) t) (g_now E))"
    using assms(1) f doc_wf_put_task unfolding store_wf_def by blast
  then show ?thesis unfolding store_wf_def load_put_task [OF l] .
qed

lemma update_goal_Inr:
  assumes "update_goal E s i title status acceptance force = (Inr (g', w), s')"
  obtains g t frc where "find_goal (load_ledger s) i = Some g" "\<not> bad_status GOAL_STATUSES status"
    "title_arg title = Inr t" "force = JBool frc"
    "g' = edited ''acceptance'' acceptance t status (g_now E) g"
    "ledger s' = Some (JObj (put_goal (load_ledger s) i g'))" "ready_calls s' = ready_calls s"
    "goal_close_without_review s' = goal_close_without_review s +
       (if status = Some ''closed'' \<and> jget g ''status'' = JStr ''open'' then 1 else 0)"
    "w = (if status = Some ''closed'' \<and> jget g ''status'' = JStr ''open'' \<and> \<not> frc
          then Some SOFT_CLOSE_WARNING else None)"
proof -
  obtain frc where f: "force = JBool frc"
    using assms by (cases force) (simp_all add: update_goal_eq require_bool_def)
  obtain g where g: "find_goal (load_ledger s) i = Some g"
    using assms f by (cases "find_goal (load_ledger s) i") (simp_all add: update_goal_eq require_bool_def)
  have b: "\<not> bad_status GOAL_STATUSES status"
    using assms f g by (cases "bad_status GOAL_STATUSES status") (simp_all add: update_goal_eq require_bool_def)
  obtain t where t: "title_arg title = Inr t"
    using assms f g b by (cases "title_arg title") (simp_all add: update_goal_eq require_bool_def)
  have "save_ok E"
    using assms f g b t by (cases "save_ok E") (simp_all add: update_goal_eq require_bool_def Let_def)
  then show thesis
    using assms f g b t
    by (intro that [OF g b t f]) (auto simp: update_goal_eq require_bool_def Let_def)
qed

lemma update_goal_Inl:
  assumes "update_goal E s i title status acceptance force = (Inl e, s')"
  shows "ledger s' = ledger s \<and> ready_calls s' = ready_calls s"
  using assms unfolding update_goal_eq Let_def
  by (cases "require_bool force"; cases "find_goal (load_ledger s) i";
      cases "bad_status GOAL_STATUSES status"; cases "title_arg title"; cases "save_ok E")
    (auto split: if_splits)

lemma store_wf_update_goal:
  assumes "store_wf s" and "update_goal E s i title status acceptance force = (r, s')"
  shows "store_wf s'"
proof (cases r)
  case (Inl e)
  then show ?thesis
    using assms update_goal_Inl [of E s i title status acceptance force e s'] load_ledger_cong [of s' s]
    by (simp add: store_wf_def)
next
  case (Inr gw)
  obtain g' w where gw: "gw = (g', w)" by (cases gw)
  obtain g t where u: "find_goal (load_ledger s) i = Some g" "\<not> bad_status GOAL_STATUSES status"
    "title_arg title = Inr t" "g' = edited ''acceptance'' acceptance t status (g_now E) g"
    "ledger s' = Some (JObj (put_goal (load_ledger s) i g'))"
    using update_goal_Inr [of E s i title status acceptance force g' w s'] assms(2) Inr gw by metis
  have e: "edits [''title'', ''acceptance'', ''status'', ''updated_at''] GOAL_STATUSES g g'"
    unfolding u(4) by (rule edited_edits) (use u title_arg_Inr in \<open>auto simp: bad_status_def\<close>)
  have wf: "doc_wf (load_ledger s)" using assms(1) by (simp add: store_wf_def)
  note g = find_goal_Some [OF u(1)]
  note gw = goal_wfD [OF doc_wf_goal [OF wf g(2)] g(3)]
  have ts: "tasks_of g' = tasks_of g" by (rule edits_tasks [OF e]) simp
  have j: "jget g' ''id'' = JStr i" "jget g' ''tasks'' = JArr (tasks_of g')"
    using e g(3) gw(3) ts by (simp_all add: edits_def)
  have "goal_wf (JObj g')"
    by (rule goal_wfI [OF j(1)]) (use e gw j ts in \<open>simp_all add: edits_def\<close>)
  then have "doc_wf (put_goal (load_ledger s) i g')"
    by (rule doc_wf_put_goal [OF wf u(1) _ j(1), where new = "[]"]) (simp_all add: ts)
  then show ?thesis unfolding store_wf_def load_put_goal [OF u(5)] .
qed

definition goal_row :: "genv \<Rightarrow> string \<Rightarrow> json \<Rightarrow> string \<Rightarrow> jdict option \<Rightarrow> jdict" where
  "goal_row E t acceptance status ctx =
     (let goal0 = [(''id'', JStr (new_id E ''g'')), (''title'', JStr t), (''status'', JStr status),
                   (''acceptance'', acceptance), (''created_at'', JStr (g_now E)),
                   (''updated_at'', JStr (g_now E)), (''tasks'', JArr [])]
      in case ctx of None \<Rightarrow> goal0 | Some c \<Rightarrow> dset goal0 ''created_in_context'' (JObj c))"

lemma create_goal_Inr:
  assumes "create_goal E s title acceptance status ctx = (Inr g, s')"
  obtains t where "clean_title title = Inr t" "status \<in> set GOAL_CREATE_STATUSES"
    "g = goal_row E t acceptance status ctx"
    "s' = s\<lparr>ledger := Some (JObj (dset (load_ledger s) ''goals'' (JArr (goals_of (load_ledger s) @ [JObj g]))))\<rparr>"
proof -
  have st: "status \<in> set GOAL_CREATE_STATUSES"
    using assms by (cases "status \<in> set GOAL_CREATE_STATUSES") (simp_all add: create_goal_def split: if_splits)
  obtain t where t: "clean_title title = Inr t"
    using assms st by (cases "clean_title title") (simp_all add: create_goal_def)
  have "save_ok E"
    using assms st t by (cases "save_ok E") (simp_all add: create_goal_def save_ledger_def Let_def)
  then show thesis
    using assms st t by (intro that [OF t]) (auto simp: create_goal_def save_ledger_def goal_row_def Let_def)
qed

lemma create_goal_Inl: "create_goal E s title acceptance status ctx = (Inl e, s') \<Longrightarrow> s' = s"
  by (cases "clean_title title"; cases "save_ok E"; cases "status \<in> set GOAL_CREATE_STATUSES")
    (simp_all add: create_goal_def save_ledger_def Let_def split: if_splits)

lemma goal_row_fields [simp]:
  "jget (goal_row E t a st ctx) ''id'' = JStr (new_id E ''g'')"
  "jget (goal_row E t a st ctx) ''title'' = JStr t"
  "jget (goal_row E t a st ctx) ''status'' = JStr st"
  "jget (goal_row E t a st ctx) ''tasks'' = JArr []"
  by (cases ctx; simp add: goal_row_def jget_def)+

lemma store_wf_create_goal:
  assumes "store_wf s" and "create_goal E s title acceptance status ctx = (r, s')"
    and "Some (new_id E ''g'') \<notin> set (map row_id (goals_of (load_ledger s)))"
  shows "store_wf s'"
proof (cases r)
  case (Inl e)
  then show ?thesis using assms create_goal_Inl by blast
next
  case (Inr g)
  then obtain t where t: "clean_title title = Inr t" and st: "status \<in> set GOAL_CREATE_STATUSES"
    and g: "g = goal_row E t acceptance status ctx"
    and s': "s' = s\<lparr>ledger := Some (JObj (dset (load_ledger s) ''goals'' (JArr (goals_of (load_ledger s) @ [JObj g]))))\<rparr>"
    using create_goal_Inr assms(2) by metis
  have ti: "t \<noteq> [] \<and> strip t = t" using clean_title_Inr [OF t] .
  have st': "status \<in> set GOAL_STATUSES" using st by (auto simp: GOAL_CREATE_STATUSES_def GOAL_STATUSES_def)
  have "goal_wf (JObj g)"
    by (rule goal_wfI [of _ "new_id E ''g''"])
      (use ti st' in \<open>simp_all add: g good_title_def has_status_def str_field_def tasks_of_def\<close>)
  moreover have "row_id (JObj g) = Some (new_id E ''g'')" by (simp add: row_id_def str_field_def g)
  moreover have "tasks_of g = []" by (simp add: tasks_of_def g)
  ultimately show ?thesis
    using assms(1,3) unfolding store_wf_def s' load_saved
    by (simp add: doc_wf_def all_tasks_def)
qed

definition task_row :: "genv \<Rightarrow> string \<Rightarrow> string \<Rightarrow> string \<Rightarrow> json \<Rightarrow> jdict option \<Rightarrow> jdict" where
  "task_row E goal_id t status notes ctx =
     (let task0 = [(''id'', JStr (new_id E ''t'')), (''goal_id'', JStr goal_id), (''title'', JStr t),
                   (''status'', JStr status), (''notes'', notes), (''created_at'', JStr (g_now E)),
                   (''updated_at'', JStr (g_now E))]
      in case ctx of None \<Rightarrow> task0 | Some c \<Rightarrow> dset task0 ''created_in_context'' (JObj c))"

lemma task_row_fields [simp]:
  "jget (task_row E i t st n ctx) ''id'' = JStr (new_id E ''t'')"
  "jget (task_row E i t st n ctx) ''goal_id'' = JStr i"
  "jget (task_row E i t st n ctx) ''title'' = JStr t"
  "jget (task_row E i t st n ctx) ''status'' = JStr st"
  by (cases ctx; simp add: task_row_def jget_def)+

definition with_task :: "jdict \<Rightarrow> jdict \<Rightarrow> string \<Rightarrow> jdict" where
  "with_task g task now = dset (dset g ''tasks'' (JArr (tasks_of g @ [JObj task]))) ''updated_at'' (JStr now)"

text \<open>\<open>create_task\<close> on every branch.\<close>

lemma create_task_eq:
  "create_task E s i title status notes ctx =
     (if status \<notin> set TASK_STATUSES then (Inl (ValueError ''invalid task status''), s)
      else
        (case clean_title title of
           Inl e \<Rightarrow> (Inl e, s)
         | Inr t \<Rightarrow>
             (case find_goal (load_ledger s) i of
                None \<Rightarrow> (Inl (KeyError ''goal not found''), s)
              | Some g \<Rightarrow>
                  let task = task_row E i t status notes ctx;
                      s1 = s\<lparr>ledger := Some (JObj (put_goal (load_ledger s) i (with_task g task (g_now E))))\<rparr>
                  in if \<not> save_ok E then (Inl OSError, s)
                     else if status = ''ready''
                     then (case fire_task_ready E s1 (new_id E ''t'') (JStr i) of
                             (Inl e, s2) \<Rightarrow> (Inl e, s2)
                           | (Inr _, s2) \<Rightarrow> (Inr task, s2))
                     else (Inr task, s1))))"
proof (cases "clean_title title")
  case (Inr t)
  note ti = Inr
  show ?thesis
  proof (cases "find_goal (load_ledger s) i")
    case (Some g)
    have g1: "(case map_of g ''tasks'' of
          None \<Rightarrow> dset g ''tasks'' (JArr [JObj task])
        | Some (JArr ts) \<Rightarrow> dset g ''tasks'' (JArr (ts @ [JObj task]))
        | Some _ \<Rightarrow> dset g ''tasks'' (JArr [JObj task])) =
      dset g ''tasks'' (JArr (tasks_of g @ [JObj task]))" for task
      by (auto simp: tasks_of_def jget_def split: option.split json.split)
    show ?thesis
      unfolding create_task_def ti Some sum.case option.case Let_def g1
        task_row_def with_task_def save_ledger_def
      by (cases "save_ok E") simp_all
  qed (simp add: create_task_def ti)
qed (simp add: create_task_def)

lemma create_task_saved:
  assumes "create_task E s i title status notes ctx = (r, s')"
  shows "ledger s' = ledger s \<or>
    (\<exists>g t. find_goal (load_ledger s) i = Some g \<and> clean_title title = Inr t \<and> status \<in> set TASK_STATUSES \<and>
       ledger s' = Some (JObj (put_goal (load_ledger s) i
         (with_task g (task_row E i t status notes ctx) (g_now E)))))"
proof (cases "status \<in> set TASK_STATUSES \<and> save_ok E \<and> (\<exists>t. clean_title title = Inr t) \<and>
    find_goal (load_ledger s) i \<noteq> None")
  case False
  then have "s' = s"
    using assms unfolding create_task_eq Let_def
    by (cases "clean_title title"; cases "find_goal (load_ledger s) i"; cases "save_ok E";
        cases "status \<in> set TASK_STATUSES") simp_all
  then show ?thesis by simp
next
  case True
  then obtain t g where tg: "clean_title title = Inr t" "find_goal (load_ledger s) i = Some g" by auto
  define s1 where "s1 = s\<lparr>ledger := Some (JObj (put_goal (load_ledger s) i
      (with_task g (task_row E i t status notes ctx) (g_now E))))\<rparr>"
  obtain x s2 where fr: "fire_task_ready E s1 (new_id E ''t'') (JStr i) = (x, s2)" by fastforce
  have "s' = s1 \<or> s' = s2"
    using assms True unfolding create_task_eq tg sum.case option.case Let_def s1_def [symmetric] fr
    by (cases x) (auto split: if_splits)
  moreover have "ledger s2 = ledger s1" using ledger_fire [of E s1 "new_id E ''t''" "JStr i"] fr by simp
  ultimately have "ledger s' = ledger s1" by auto
  then have "ledger s' = Some (JObj (put_goal (load_ledger s) i
      (with_task g (task_row E i t status notes ctx) (g_now E))))" by (simp add: s1_def)
  with True tg show ?thesis by blast
qed

lemma store_wf_create_task:
  assumes "store_wf s" and "create_task E s i title status notes ctx = (r, s')"
    and new: "Some (new_id E ''t'') \<notin> set (map row_id (all_tasks (goals_of (load_ledger s))))"
  shows "store_wf s'"
  using create_task_saved [OF assms(2)]
proof (elim disjE exE conjE)
  assume "ledger s' = ledger s"
  then show ?thesis using assms(1) load_ledger_cong [of s' s] by (simp add: store_wf_def)
next
  fix g t
  assume f: "find_goal (load_ledger s) i = Some g" and t: "clean_title title = Inr t"
    and st: "status \<in> set TASK_STATUSES"
    and l: "ledger s' = Some (JObj (put_goal (load_ledger s) i
         (with_task g (task_row E i t status notes ctx) (g_now E))))"
  let ?t = "task_row E i t status notes ctx"
  have wf: "doc_wf (load_ledger s)" using assms(1) by (simp add: store_wf_def)
  note g = find_goal_Some [OF f]
  note gw = goal_wfD [OF doc_wf_goal [OF wf g(2)] g(3)]
  have tw: "task_wf i (JObj ?t)"
    using clean_title_Inr [OF t] st
    by (simp add: task_wf_def is_obj_def row_id_def str_field_def good_title_def has_status_def)
  have ts: "tasks_of (with_task g ?t (g_now E)) = tasks_of g @ [JObj ?t]" by (simp add: with_task_def)
  have j: "jget (with_task g ?t (g_now E)) ''id'' = JStr i" using g(3) by (simp add: with_task_def)
  have "goal_wf (JObj (with_task g ?t (g_now E)))"
    by (rule goal_wfI [OF j]) (use gw tw ts in \<open>simp_all add: with_task_def\<close>)
  then have "doc_wf (put_goal (load_ledger s) i (with_task g ?t (g_now E)))"
    by (rule doc_wf_put_goal [OF wf f _ j, where new = "[Some (new_id E ''t'')]"])
      (use new ts in \<open>simp_all add: row_id_def str_field_def\<close>)
  then show ?thesis unfolding store_wf_def load_put_goal [OF l] .
qed

text \<open>The calls on a store; created rows get ids the ledger does not hold.\<close>

inductive gs_step :: "goals_store \<Rightarrow> goals_store \<Rightarrow> bool" where
  create_goal: "create_goal E s ti a st cx = (r, s') \<Longrightarrow>
    Some (new_id E ''g'') \<notin> set (map row_id (goals_of (load_ledger s))) \<Longrightarrow> gs_step s s'"
| update_goal: "update_goal E s i t st a f = (r2, s') \<Longrightarrow> gs_step s s'"
| create_task: "create_task E s i ti st n cx = (r3, s') \<Longrightarrow>
    Some (new_id E ''t'') \<notin> set (map row_id (all_tasks (goals_of (load_ledger s)))) \<Longrightarrow> gs_step s s'"
| update_task: "update_task E s i t st n' = (r4, s') \<Longrightarrow> gs_step s s'"

interpretation gss: transition_system "\<lambda>s. ledger s = None" gs_step store_wf
proof unfold_locales
  fix s :: goals_store
  assume "ledger s = None"
  then show "store_wf s" by (simp add: store_wf_def load_ledger_def empty_doc_def doc_wf_def goals_of_def
      jget_def all_tasks_def)
next
  fix s s'
  assume "store_wf s" and "gs_step s s'"
  from this(2,1) show "store_wf s'"
    by cases (auto intro: store_wf_create_goal store_wf_update_goal store_wf_create_task store_wf_update_task)
qed

section \<open>Lookups after an update\<close>

lemma find_task_put_task:
  assumes "find_task doc i = Some (g, t)" and "jget t' ''id'' = JStr i"
  shows "map_option snd (find_task (put_task doc i t' now) j) =
    (if j = i then Some t' else map_option snd (find_task doc j))"
proof -
  let ?up = "upd_first (is_row i) (\<lambda>_. JObj t')"
  let ?f = "\<lambda>g. JObj (dset (dset (fields g) ''tasks'' (JArr (?up (tasks_of (fields g)))))
     ''updated_at'' (JStr now))"
  note f = find_task_Some [OF assms(1)]
  have ups: "List.find (is_row i) (?up ts) = Some (JObj t')" if "List.find (is_row i) ts \<noteq> None" for ts
    using rows.find_upd_same [of i ts _ "\<lambda>_. JObj t'"] assms(2) that by auto
  have upo: "List.find (is_row j) (?up ts) = List.find (is_row j) ts" if "j \<noteq> i" for ts j
    using rows.find_upd_other [OF that, of "\<lambda>_. JObj t'" ts] assms(2) by simp
  define look where "look = (\<lambda>gs j. case List.find (holds_task j) gs of None \<Rightarrow> None
      | Some g \<Rightarrow> map_option fields (List.find (is_row j) (tasks_of (fields g))))"
  have look: "map_option snd (find_task d j) = look (goals_of d) j" for d j
    by (simp add: find_task_def look_def split: option.split)
  have look_Cons: "look (x # xs) j = (if holds_task j x
      then map_option fields (List.find (is_row j) (tasks_of (fields x))) else look xs j)" for x xs j
    by (simp add: look_def)
  have tf: "tasks_of (fields (?f g)) = ?up (tasks_of (fields g))" for g by simp
  have hf: "holds_task j (?f g) = holds_task j g" if "holds_task i g" for g j
    using that ups upo [of j "tasks_of (fields g)"] by (cases g; cases "j = i") (auto simp: holds_task_def)
  have look_upd: "look (upd_first (holds_task i) ?f gs) j = (if j = i then Some t' else look gs j)"
    if "List.find (holds_task i) gs \<noteq> None" for gs
    using that
  proof (induction gs)
    case (Cons x xs)
    show ?case
    proof (cases "holds_task i x")
      case True
      then have "List.find (is_row i) (tasks_of (fields x)) \<noteq> None"
        by (cases x) (simp_all add: holds_task_def)
      then show ?thesis
        using True hf [OF True] ups upo by (simp add: look_Cons tf)
    next
      case False
      then show ?thesis using Cons by (cases "j = i") (simp_all add: look_Cons)
    qed
  qed simp
  show ?thesis
    unfolding look put_task_def goals_of_dset by (rule look_upd) (use f(1) in simp)
qed

lemma task_in_goal:
  assumes "store_wf s" and "find_task (load_ledger s) i = Some (g, t)"
  shows "\<exists>gid. jget g ''id'' = JStr gid \<and> jget t ''goal_id'' = JStr gid"
proof -
  note f = find_task_Some [OF assms(2)]
  have "JObj g \<in> set (goals_of (load_ledger s))" using f(1) by (auto simp: find_Some_iff)
  then have gw: "goal_wf (JObj g)" using assms(1) doc_wf_goal by (simp add: store_wf_def)
  then obtain gid where gid: "jget g ''id'' = JStr gid"
    by (auto simp: goal_wf_def row_id_def str_field_def split: option.splits json.splits)
  have "JObj t \<in> set (tasks_of g)" using find_row_is_row [OF f(2)] by simp
  then have "task_wf gid (JObj t)" using goal_wfD(4) [OF gw gid] by (simp add: list_all_iff)
  then show ?thesis using gid by (simp add: task_wf_def)
qed

section \<open>Properties\<close>

text \<open>
  C12. The ledger stays well-formed. From a store with no ledger file, any sequence of calls, those
  that raise included, leaves a ledger in which goal ids and task ids are unique, every goal and task
  has an allowed status and a stripped non-empty title, every goal carries a list of tasks, and every task
  found names the goal it is nested in.
\<close>

theorem goals_ledger_stays_wellformed:
  assumes "ledger s0 = None" and "gs_step\<^sup>*\<^sup>* s0 s"
  shows "store_wf s \<and> (\<forall>i g t. find_task_pair s i = Some (g, t) \<longrightarrow> jget t ''goal_id'' = jget g ''id'')"
proof -
  have wf: "store_wf s" using assms gss.inv_reachable by blast
  have "jget t ''goal_id'' = jget g ''id''" if "find_task_pair s i = Some (g, t)" for i g t
    using task_in_goal [OF wf that [unfolded find_task_pair_def]] by auto
  with wf show ?thesis by blast
qed

definition demo_genv :: "string \<Rightarrow> genv" where
  "demo_genv x = \<lparr>g_now = ''T'', g_hex = x, save_ok = True, on_task_ready = Some (\<lambda>_ _. None)\<rparr>"

definition demo_store0 :: goals_store where
  "demo_store0 = \<lparr>ledger = None, goal_close_without_review = 0, ready_calls = []\<rparr>"

definition demo_store1 :: goals_store where
  "demo_store1 = snd (create_goal (demo_genv ''1'') demo_store0 (JStr '' ship '') JNull ''open'' None)"

definition demo_store2 :: goals_store where
  "demo_store2 = snd (create_task (demo_genv ''2'') demo_store1 ''g_1'' (JStr ''test'') ''pending'' JNull None)"

theorem goals_ledger_stays_wellformed_witness:
  "store_wf demo_store2 \<and> (\<exists>g t. find_task_pair demo_store2 ''t_2'' = Some (g, t) \<and>
     jget t ''goal_id'' = jget g ''id'')"
proof -
  have "Some (new_id (demo_genv ''1'') ''g'') \<notin> set (map row_id (goals_of (load_ledger demo_store0)))" by code_simp
  then have 1: "gs_step demo_store0 demo_store1"
    unfolding demo_store1_def by (intro gs_step.create_goal) (rule prod.collapse [symmetric])
  have "Some (new_id (demo_genv ''2'') ''t'') \<notin> set (map row_id (all_tasks (goals_of (load_ledger demo_store1))))"
    by code_simp
  then have 2: "gs_step demo_store1 demo_store2"
    unfolding demo_store2_def by (intro gs_step.create_task) (rule prod.collapse [symmetric])
  have "find_task_pair demo_store2 ''t_2'' \<noteq> None" by code_simp
  then obtain g t where "find_task_pair demo_store2 ''t_2'' = Some (g, t)" by auto
  moreover have "ledger demo_store0 = None" by (simp add: demo_store0_def)
  then have "store_wf demo_store2 \<and> (\<forall>i g t. find_task_pair demo_store2 i = Some (g, t) \<longrightarrow> jget t ''goal_id'' = jget g ''id'')"
    by (rule goals_ledger_stays_wellformed) (use 1 2 in auto)
  ultimately show ?thesis by blast
qed

text \<open>
  Soft close. A successful \<open>update_goal\<close> returns and stores the same row: the new status if one
  was given, all fields other than title, acceptance, status and updated_at as they were (the
  tasks included), and no other goal changed. It warns exactly when an open goal is closed
  without force, and counts exactly the closes of open goals, forced or not.
\<close>

theorem update_goal_soft_close:
  assumes "update_goal E s i title status acceptance force = (Inr (g', warning), s')"
  shows "\<exists>g. get_goal s i = Some g \<and>
    (\<forall>j. get_goal s' j = (if j = i then Some g' else get_goal s j)) \<and>
    jget g' ''status'' = (case status of None \<Rightarrow> jget g ''status'' | Some st \<Rightarrow> JStr st) \<and>
    (\<forall>k. k \<notin> {''title'', ''acceptance'', ''status'', ''updated_at''} \<longrightarrow> jget g' k = jget g k) \<and>
    (warning \<noteq> None \<longleftrightarrow>
       status = Some ''closed'' \<and> jget g ''status'' = JStr ''open'' \<and> force = JBool False) \<and>
    goal_close_without_review s' = goal_close_without_review s +
      (if status = Some ''closed'' \<and> jget g ''status'' = JStr ''open'' then 1 else 0) \<and>
    ready_calls s' = ready_calls s"
proof -
  obtain g t frc where u: "find_goal (load_ledger s) i = Some g" "\<not> bad_status GOAL_STATUSES status"
    "title_arg title = Inr t" "force = JBool frc"
    "g' = edited ''acceptance'' acceptance t status (g_now E) g"
    "ledger s' = Some (JObj (put_goal (load_ledger s) i g'))" "ready_calls s' = ready_calls s"
    "goal_close_without_review s' = goal_close_without_review s +
       (if status = Some ''closed'' \<and> jget g ''status'' = JStr ''open'' then 1 else 0)"
    "warning = (if status = Some ''closed'' \<and> jget g ''status'' = JStr ''open'' \<and> \<not> frc
          then Some SOFT_CLOSE_WARNING else None)"
    using update_goal_Inr [OF assms] by metis
  have e: "edits [''title'', ''acceptance'', ''status'', ''updated_at''] GOAL_STATUSES g g'"
    unfolding u(5) by (rule edited_edits) (use u title_arg_Inr in \<open>auto simp: bad_status_def\<close>)
  have j: "jget g' ''id'' = JStr i" using e find_goal_Some(3) [OF u(1)] by (simp add: edits_def)
  have "get_goal s' k = (if k = i then Some g' else get_goal s k)" for k
    unfolding get_goal_def load_put_goal [OF u(6)] by (rule find_put_goal [OF u(1) j])
  moreover have "jget g' ''status'' = (case status of None \<Rightarrow> jget g ''status'' | Some st \<Rightarrow> JStr st)"
    unfolding u(5) by (rule status_edited) simp
  ultimately show ?thesis
    using u e by (intro exI [of _ g]) (simp add: get_goal_def edits_def)
qed

theorem update_goal_soft_close_witness:
  "\<exists>g' s'. update_goal (demo_genv ''3'') demo_store1 ''g_1'' JNull (Some ''closed'') None (JBool False) =
       (Inr (g', Some SOFT_CLOSE_WARNING), s') \<and>
     goal_close_without_review s' = 1 \<and> get_goal s' ''g_1'' = Some g' \<and> jget g' ''title'' = JStr ''ship''"
proof -
  let ?r = "update_goal (demo_genv ''3'') demo_store1 ''g_1'' JNull (Some ''closed'') None (JBool False)"
  have e: "case fst ?r of Inl _ \<Rightarrow> False | Inr (g', w) \<Rightarrow> w = Some SOFT_CLOSE_WARNING \<and> jget g' ''title'' = JStr ''ship''"
    "goal_close_without_review demo_store1 = 0"
    "map_option (\<lambda>g. jget g ''status'') (get_goal demo_store1 ''g_1'') = Some (JStr ''open'')" by code_simp+
  obtain x s' where x: "?r = (x, s')" by (rule prod.exhaust)
  obtain g' where g': "x = Inr (g', Some SOFT_CLOSE_WARNING)" "jget g' ''title'' = JStr ''ship''"
    using e(1) unfolding x fst_conv by (cases x) auto
  have r: "?r = (Inr (g', Some SOFT_CLOSE_WARNING), s')" using x g'(1) by simp
  obtain g where "get_goal demo_store1 ''g_1'' = Some g" "get_goal s' ''g_1'' = Some g'"
    "goal_close_without_review s' = goal_close_without_review demo_store1 +
      (if jget g ''status'' = JStr ''open'' then 1 else 0)"
    using update_goal_soft_close [OF r] by auto
  with e r g' show ?thesis by simp
qed

lemma update_task_saved_cases:
  fixes nt :: "json option"
  assumes "find_task (load_ledger s) i = Some (g, t)" and "save_ok E"
    and "\<not> bad_status TASK_STATUSES status" and "title_arg title = Inr ti"
    and "jget t ''goal_id'' = JStr gid"
  defines "t' \<equiv> edited ''notes'' nt ti status (g_now E) t"
    and "ready \<equiv> status = Some ''ready'' \<and> jget t ''status'' \<noteq> JStr ''ready''"
    and "s1 \<equiv> s\<lparr>ledger := Some (JObj (put_task (load_ledger s) i
               (edited ''notes'' nt ti status (g_now E) t) (g_now E)))\<rparr>"
  shows "update_task E s i title status nt =
    (if ready
     then (case fire_task_ready E s1 i (JStr gid) of
             (Inl e, s2) \<Rightarrow> (Inl e, s2)
           | (Inr _, s2) \<Rightarrow> (Inr (t', True), s2))
     else (Inr (t', False), s1))"
proof -
  have "edits [''title'', ''notes'', ''status'', ''updated_at''] TASK_STATUSES t t'"
    unfolding t'_def
    by (rule edited_edits) (use assms(3,4) title_arg_Inr in \<open>auto simp: bad_status_def\<close>)
  then have "jget t' ''goal_id'' = JStr gid" using assms(5) by (simp add: edits_def)
  then have "jindex t' ''goal_id'' = Inr (JStr gid)"
    by (auto simp: jindex_def jget_def split: option.splits)
  then show ?thesis
    using assms(2,3) unfolding update_task_eq assms(1,4) option.case sum.case prod.case Let_def
      t'_def ready_def s1_def by simp
qed

text \<open>
  C13. The ready hook. On a well-formed ledger, when \<open>update_task\<close> returns, it has stored the
  row it returns (no other task changed), \<open>became_ready\<close> is true exactly when the status was
  set to ready and was not ready before, and a registered hook has been called with the task
  and its goal exactly then, once. When the save fails it raises, and neither the ledger nor
  the log of hook calls changes.
\<close>

theorem update_task_fires_ready_hook:
  assumes "store_wf s" and "update_task E s i title status notes = (r, s')"
  shows "(\<forall>t' ready. r = Inr (t', ready) \<longrightarrow>
      (\<exists>g t. find_task_pair s i = Some (g, t) \<and>
         (\<forall>j. get_task s' j = (if j = i then Some t' else get_task s j)) \<and>
         jget t' ''status'' = (case status of None \<Rightarrow> jget t ''status'' | Some st \<Rightarrow> JStr st) \<and>
         ready = (status = Some ''ready'' \<and> jget t ''status'' \<noteq> JStr ''ready'') \<and>
         ready_calls s' = ready_calls s @
           (if ready \<and> on_task_ready E \<noteq> None then [(i, jget g ''id'')] else []))) \<and>
    (\<not> save_ok E \<longrightarrow> (\<exists>e. r = Inl e) \<and> s' = s)"
proof (cases "find_task (load_ledger s) i")
  case None
  then show ?thesis using assms(2) by (auto simp: update_task_eq)
next
  case (Some gt)
  obtain g t where gt: "gt = (g, t)" by (cases gt)
  note f = Some [unfolded gt]
  show ?thesis
  proof (cases "bad_status TASK_STATUSES status \<or> (\<exists>e. title_arg title = Inl e) \<or> \<not> save_ok E")
    case True
    then have "s' = s \<and> (\<exists>e. r = Inl e)" using assms(2) unfolding update_task_eq f option.case prod.case Let_def
      by (cases "bad_status TASK_STATUSES status"; cases "title_arg title"; cases "save_ok E") auto
    then show ?thesis by auto
  next
    case False
    then obtain ti where ti: "title_arg title = Inr ti" by (cases "title_arg title") auto
    obtain gid where gid: "jget g ''id'' = JStr gid" "jget t ''goal_id'' = JStr gid"
      using task_in_goal [OF assms(1) f] by blast
    define t' where "t' = edited ''notes'' notes ti status (g_now E) t"
    define s1 where "s1 = s\<lparr>ledger := Some (JObj (put_task (load_ledger s) i t' (g_now E)))\<rparr>"
    define rd where "rd = (status = Some ''ready'' \<and> jget t ''status'' \<noteq> JStr ''ready'')"
    have eq: "(if rd then (case fire_task_ready E s1 i (JStr gid) of
             (Inl e, s2) \<Rightarrow> (Inl e, s2) | (Inr _, s2) \<Rightarrow> (Inr (t', True), s2))
       else (Inr (t', False), s1)) = (r, s')"
      using update_task_saved_cases [OF f _ _ ti gid(2), where E = E and status = status] False assms(2)
      unfolding t'_def s1_def rd_def by simp
    have "edits [''title'', ''notes'', ''status'', ''updated_at''] TASK_STATUSES t t'"
      unfolding t'_def by (rule edited_edits) (use False ti title_arg_Inr in \<open>auto simp: bad_status_def\<close>)
    then have tid: "jget t' ''id'' = JStr i" using find_task_Some(3) [OF f] by (simp add: edits_def)
    have look: "get_task x j = (if j = i then Some t' else get_task s j)" if "ledger x = ledger s1" for x j
    proof -
      have "load_ledger x = put_task (load_ledger s) i t' (g_now E)"
        by (rule load_put_task) (use that in \<open>simp add: s1_def\<close>)
      then show ?thesis unfolding get_task_def using find_task_put_task [OF f tid] by simp
    qed
    have st: "jget t' ''status'' = (case status of None \<Rightarrow> jget t ''status'' | Some st \<Rightarrow> JStr st)"
      unfolding t'_def by (rule status_edited) simp
    obtain x s2 where fr: "fire_task_ready E s1 i (JStr gid) = (x, s2)" by (rule prod.exhaust)
    have s2: "ledger s2 = ledger s1"
      "ready_calls s2 = ready_calls s @ (if on_task_ready E \<noteq> None then [(i, JStr gid)] else [])"
      using fr by (auto simp: fire_task_ready_def s1_def split: option.splits)
    have res: "t'' = t' \<and> rdy = rd \<and> ledger s' = ledger s1 \<and>
        ready_calls s' = ready_calls s @ (if rdy \<and> on_task_ready E \<noteq> None then [(i, JStr gid)] else [])"
      if "r = Inr (t'', rdy)" for t'' rdy
      using that eq s2 unfolding fr by (cases x; cases rd) (auto simp: s1_def)
    have "\<exists>g t. find_task_pair s i = Some (g, t) \<and>
         (\<forall>j. get_task s' j = (if j = i then Some t'' else get_task s j)) \<and>
         jget t'' ''status'' = (case status of None \<Rightarrow> jget t ''status'' | Some st \<Rightarrow> JStr st) \<and>
         ready = (status = Some ''ready'' \<and> jget t ''status'' \<noteq> JStr ''ready'') \<and>
         ready_calls s' = ready_calls s @
           (if ready \<and> on_task_ready E \<noteq> None then [(i, jget g ''id'')] else [])"
      if "r = Inr (t'', ready)" for t'' ready
      using res [OF that] look [of s'] f st gid(1)
      by (intro exI [of _ g] exI [of _ t]) (simp add: find_task_pair_def rd_def)
    then show ?thesis using False by blast
  qed
qed

theorem update_task_fires_ready_hook_witness:
  "\<exists>t' s'. update_task (demo_genv ''3'') demo_store2 ''t_2'' JNull (Some ''ready'') None = (Inr (t', True), s') \<and>
     ready_calls s' = [(''t_2'', JStr ''g_1'')] \<and> get_task s' ''t_2'' = Some t'"
proof -
  let ?r = "update_task (demo_genv ''3'') demo_store2 ''t_2'' JNull (Some ''ready'') None"
  have e: "case fst ?r of Inl _ \<Rightarrow> False | Inr (t', b) \<Rightarrow> b"
    "store_wf demo_store2" "ready_calls demo_store2 = []"
    "map_option (\<lambda>(g, t). jget g ''id'') (find_task_pair demo_store2 ''t_2'') = Some (JStr ''g_1'')" by code_simp+
  obtain x s' where x: "?r = (x, s')" by (rule prod.exhaust)
  obtain t' where t': "x = Inr (t', True)" using e(1) unfolding x fst_conv by (cases x) auto
  have r: "?r = (Inr (t', True), s')" using x t' by simp
  have h: "on_task_ready (demo_genv ''3'') \<noteq> None" by (simp add: demo_genv_def)
  obtain g t where g: "find_task_pair demo_store2 ''t_2'' = Some (g, t)" "get_task s' ''t_2'' = Some t'"
    "ready_calls s' = ready_calls demo_store2 @ [(''t_2'', jget g ''id'')]"
    using update_task_fires_ready_hook [OF e(2) r] h by auto
  then show ?thesis using e(3,4) r by simp
qed

text \<open>
  Created rows can be read back. When \<open>create_goal\<close> returns a goal whose id the ledger did not
  hold, the goal is found under its id, every other id finds what it found before, and the
  goals list with no filter gains the new goal at its end; a goal created as closed is refused, and a raise
  changes nothing.
\<close>

theorem create_goal_roundtrip:
  assumes "create_goal E s title acceptance status ctx = (r, s')"
    and "get_goal s (new_id E ''g'') = None"
  shows "(\<forall>g. r = Inr g \<longrightarrow>
       jget g ''id'' = JStr (new_id E ''g'') \<and> jget g ''status'' = JStr status \<and> status \<noteq> ''closed'' \<and>
       (\<forall>j. get_goal s' j = (if j = new_id E ''g'' then Some g else get_goal s j)) \<and>
       (\<forall>gs. list_goals s None = Inr gs \<longrightarrow> list_goals s' None = Inr (gs @ [g]))) \<and>
    (\<forall>e. r = Inl e \<longrightarrow> s' = s)"
proof (cases r)
  case (Inl e)
  then show ?thesis using assms(1) create_goal_Inl by blast
next
  case (Inr g)
  then obtain t where t: "clean_title title = Inr t" and st: "status \<in> set GOAL_CREATE_STATUSES"
    and g: "g = goal_row E t acceptance status ctx"
    and s': "s' = s\<lparr>ledger := Some (JObj (dset (load_ledger s) ''goals'' (JArr (goals_of (load_ledger s) @ [JObj g]))))\<rparr>"
    using create_goal_Inr assms(1) by metis
  have gid: "jget g ''id'' = JStr (new_id E ''g'')" by (simp add: g)
  have none: "List.find (is_row (new_id E ''g'')) (goals_of (load_ledger s)) = None"
    using assms(2) by (simp add: get_goal_def find_goal_def)
  have l: "goals_of (load_ledger s') = goals_of (load_ledger s) @ [JObj g]" by (simp add: s')
  have "get_goal s' j = (if j = new_id E ''g'' then Some g else get_goal s j)" for j
    using rows.find_snoc_new [OF none, of "JObj g"] rows.find_snoc_other [of j "JObj g" "goals_of (load_ledger s)"] gid
    by (auto simp: get_goal_def find_goal_def l)
  moreover have "list_goals s' None = Inr (gs @ [g])" if "list_goals s None = Inr gs" for gs
    using that by (auto simp: list_goals_def l List.map_filter_def)
  ultimately show ?thesis
    using Inr gid st by (auto simp: g GOAL_CREATE_STATUSES_def)
qed

theorem create_goal_roundtrip_witness:
  "\<exists>g. create_goal (demo_genv ''1'') demo_store0 (JStr '' ship '') JNull ''open'' None = (Inr g, demo_store1) \<and>
     get_goal demo_store1 ''g_1'' = Some g"
proof -
  let ?r = "create_goal (demo_genv ''1'') demo_store0 (JStr '' ship '') JNull ''open'' None"
  have e: "case fst ?r of Inl _ \<Rightarrow> False | Inr g \<Rightarrow> True" "new_id (demo_genv ''1'') ''g'' = ''g_1''"
    "get_goal demo_store0 ''g_1'' = None" by code_simp+
  obtain x where x: "?r = (x, demo_store1)" by (metis demo_store1_def prod.collapse)
  obtain g where g: "x = Inr g" using e(1) unfolding x fst_conv by (cases x) auto
  have r: "?r = (Inr g, demo_store1)" using x g by simp
  from create_goal_roundtrip [OF r] e r show ?thesis by auto
qed

end
