(* ===== verification/Sha256.thy ===== *)
theory Sha256
  imports Prelude "HOL-Library.Word"
begin

text \<open>
  \<open>hashlib.sha256(text.encode("utf-8")).hexdigest()\<close>, which the tool fingerprints, the package
  hashes and the memory keys of the program use: UTF-8 encoding of characters up to 255,
  padding, message schedule and compression on 32-bit words, and the hexadecimal digest.
\<close>

unbundle bit_operations_syntax

type_synonym w32 = "32 word"

section \<open>Bytes\<close>

definition utf8_char :: "char \<Rightarrow> int list" where
  "utf8_char c = (let n = int (code c) in if n < 128 then [n] else [192 + n div 64, 128 + n mod 64])"

definition utf8 :: "string \<Rightarrow> int list" where
  "utf8 s = concat (map utf8_char s)"

fun be_bytes :: "nat \<Rightarrow> int \<Rightarrow> int list" where
  "be_bytes 0 n = []"
| "be_bytes (Suc k) n = be_bytes k (n div 256) @ [n mod 256]"

definition pad :: "int list \<Rightarrow> int list" where
  "pad bs = bs @ [128] @ replicate ((119 - length bs mod 64) mod 64) 0 @ be_bytes 8 (8 * int (length bs))"

fun words_of :: "int list \<Rightarrow> w32 list" where
  "words_of (a # b # c # d # bs) = of_int (((a * 256 + b) * 256 + c) * 256 + d) # words_of bs"
| "words_of _ = []"

fun blocks_of :: "w32 list \<Rightarrow> w32 list list" where
  "blocks_of [] = []"
| "blocks_of ws = take 16 ws # blocks_of (drop 16 ws)"

section \<open>Compression\<close>

text \<open>
  The constants of the standard are the first 32 bits of the fractional parts of the cube roots
  (round constants) and square roots (initial hash) of the first primes; the two lemmas after
  them check the tables against that description.
\<close>

definition primes :: "int list" where
  "primes = [2, 3, 5, 7, 11, 13, 17, 19, 23, 29, 31, 37, 41, 43, 47, 53, 59, 61, 67, 71, 73, 79, 83,
     89, 97, 101, 103, 107, 109, 113, 127, 131, 137, 139, 149, 151, 157, 163, 167, 173, 179, 181,
     191, 193, 197, 199, 211, 223, 227, 229, 233, 239, 241, 251, 257, 263, 269, 271, 277, 281, 283,
     293, 307, 311]"

definition cube_root_bits :: "int list" where
  "cube_root_bits =
    [1116352408, 1899447441, 3049323471, 3921009573, 961987163, 1508970993, 2453635748,
     2870763221, 3624381080, 310598401, 607225278, 1426881987, 1925078388, 2162078206,
     2614888103, 3248222580, 3835390401, 4022224774, 264347078, 604807628, 770255983, 1249150122,
     1555081692, 1996064986, 2554220882, 2821834349, 2952996808, 3210313671, 3336571891,
     3584528711, 113926993, 338241895, 666307205, 773529912, 1294757372, 1396182291, 1695183700,
     1986661051, 2177026350, 2456956037, 2730485921, 2820302411, 3259730800, 3345764771,
     3516065817, 3600352804, 4094571909, 275423344, 430227734, 506948616, 659060556, 883997877,
     958139571, 1322822218, 1537002063, 1747873779, 1955562222, 2024104815, 2227730452,
     2361852424, 2428436474, 2756734187, 3204031479, 3329325298]"

definition square_root_bits :: "int list" where
  "square_root_bits =
    [1779033703, 3144134277, 1013904242, 2773480762, 1359893119, 2600822924, 528734635,
     1541459225]"

definition int_root :: "nat \<Rightarrow> int \<Rightarrow> int" where
  "int_root n p = int (length (takeWhile (\<lambda>i. i ^ n \<le> p) [1, 2, 3, 4, 5, 6]))"

definition root_digits :: "nat \<Rightarrow> int \<Rightarrow> int \<Rightarrow> bool" where
  "root_digits n p k = (let r = int_root n p * 4294967296 + k; a = p * 4294967296 ^ n
     in r ^ n \<le> a \<and> a < (r + 1) ^ n)"

lemma cube_root_bits_correct: "list_all2 (root_digits 3) primes cube_root_bits"
  by code_simp

lemma square_root_bits_correct: "list_all2 (root_digits 2) (take 8 primes) square_root_bits"
  by code_simp

definition round_consts :: "w32 list" where
  "round_consts = map of_int cube_root_bits"

definition initial_hash :: "w32 list" where
  "initial_hash = map of_int square_root_bits"

definition small_sigma0 :: "w32 \<Rightarrow> w32" where
  "small_sigma0 x = word_rotr 7 x XOR word_rotr 18 x XOR drop_bit 3 x"

definition small_sigma1 :: "w32 \<Rightarrow> w32" where
  "small_sigma1 x = word_rotr 17 x XOR word_rotr 19 x XOR drop_bit 10 x"

definition big_sigma0 :: "w32 \<Rightarrow> w32" where
  "big_sigma0 x = word_rotr 2 x XOR word_rotr 13 x XOR word_rotr 22 x"

definition big_sigma1 :: "w32 \<Rightarrow> w32" where
  "big_sigma1 x = word_rotr 6 x XOR word_rotr 11 x XOR word_rotr 25 x"

text \<open>The schedule, newest word first: each new word reads the last sixteen.\<close>

fun schedule_rev :: "nat \<Rightarrow> w32 list \<Rightarrow> w32 list" where
  "schedule_rev 0 ws = ws"
| "schedule_rev (Suc n) ws =
     schedule_rev n ((small_sigma1 (ws ! 1) + ws ! 6 + small_sigma0 (ws ! 14) + ws ! 15) # ws)"

definition schedule :: "w32 list \<Rightarrow> w32 list" where
  "schedule block = rev (schedule_rev 48 (rev block))"

fun round_step :: "w32 list \<Rightarrow> w32 \<times> w32 \<Rightarrow> w32 list" where
  "round_step [a, b, c, d, e, f, g, h] (k, w) =
     (let t1 = h + big_sigma1 e + ((e AND f) XOR (NOT e AND g)) + k + w;
          t2 = big_sigma0 a + ((a AND b) XOR (a AND c) XOR (b AND c))
      in [t1 + t2, a, b, c, d + t1, e, f, g])"
| "round_step st _ = st"

definition compress :: "w32 list \<Rightarrow> w32 list \<Rightarrow> w32 list" where
  "compress st block = map2 (+) st (foldl round_step st (zip round_consts (schedule block)))"

section \<open>Digest\<close>

fun hex_of :: "nat \<Rightarrow> int \<Rightarrow> string" where
  "hex_of 0 n = []"
| "hex_of (Suc k) n = hex_of k (n div 16) @ [hex_digit (nat (n mod 16))]"

definition sha256_hex :: "string \<Rightarrow> string" where
  "sha256_hex s =
     concat (map (\<lambda>w. hex_of 8 (uint w)) (foldl compress initial_hash (blocks_of (words_of (pad (utf8 s))))))"

section \<open>Shape of the digest\<close>

lemma length_be_bytes [simp]: "length (be_bytes k n) = k"
  by (induction k arbitrary: n) simp_all

lemma length_hex_of [simp]: "length (hex_of k n) = k"
  by (induction k arbitrary: n) simp_all

text \<open>The padded message is a whole number of 64-byte blocks.\<close>

lemma pad_blocks: "64 dvd length (pad bs)"
proof -
  let ?n = "length bs"
  have "(?n + 1 + (119 - ?n mod 64) mod 64 + 8) mod 64 = 0"
  proof -
    define r where "r = ?n mod 64"
    have r: "r < 64" by (simp add: r_def)
    have "(?n + 1 + (119 - r) mod 64 + 8) mod 64 = (r + 1 + (119 - r) mod 64 + 8) mod 64"
      unfolding r_def by (metis (no_types, opaque_lifting) add.assoc mod_add_left_eq)
    also have "\<dots> = 0"
    proof (cases "r < 56")
      case True
      then have "119 - r = (55 - r) + 64" by simp
      then have "(119 - r) mod 64 = (55 - r) mod 64" by (simp only: mod_add_self2)
      also have "\<dots> = 55 - r" by (rule mod_less) simp
      finally have "(119 - r) mod 64 = 55 - r" .
      then show ?thesis using True by simp
    next
      case False
      then show ?thesis using r by simp
    qed
    finally show ?thesis by (simp add: r_def)
  qed
  moreover have "length (pad bs) = ?n + 1 + (119 - ?n mod 64) mod 64 + 8" by (simp add: pad_def)
  ultimately show ?thesis unfolding dvd_eq_mod_eq_0 by presburger
qed

lemma length_compress [simp]: "length st = 8 \<Longrightarrow> length (compress st b) = 8"
proof -
  have step: "length (round_step st kw) = length st" for st kw
    by (cases "(st, kw)" rule: round_step.cases) (simp_all add: Let_def)
  have "length (foldl round_step st kws) = length st" for st kws
    by (induction kws arbitrary: st) (simp_all add: step)
  then show "length st = 8 \<Longrightarrow> ?thesis" by (simp add: compress_def)
qed

lemma length_sha256_hex [simp]: "length (sha256_hex s) = 64"
proof -
  have "length (foldl compress st bs) = 8" if "length st = 8" for st bs
    using that by (induction bs arbitrary: st) simp_all
  then have "length (foldl compress initial_hash bs) = 8" for bs by (simp add: initial_hash_def square_root_bits_def)
  then show ?thesis
    unfolding sha256_hex_def by (simp add: length_concat comp_def sum_list_triv)
qed

end
