(* ===== verification/Thrash.thy ===== *)
theory Thrash
  imports Loop_Policy Sha256
begin

text \<open>
  Tool-call fingerprints, repeat streaks and the thrash decisions of
  \<open>elyra/loop/tool_thrash_policy.py\<close>, with the JSON encoder they call. The lemmas show what a
  fingerprint can and cannot depend on: not on the order of object keys, and on the value of a
  secret argument only through its length and truncated digest.
\<close>

section \<open>Compact JSON\<close>

text \<open>\<open>json.dumps(x, ensure_ascii=False, sort_keys=True, separators=(",", ":"))\<close>.\<close>

definition json_escape :: "char \<Rightarrow> string" where
  "json_escape c =
     (let n = code c; bs = CHR 0x5C in
      if n = 34 then [bs, c] else if n = 92 then [bs, c]
      else if n = 10 then [bs, CHR ''n''] else if n = 13 then [bs, CHR ''r'']
      else if n = 9 then [bs, CHR ''t''] else if n = 8 then [bs, CHR ''b'']
      else if n = 12 then [bs, CHR ''f'']
      else if n < 32 then [bs, CHR ''u'', CHR ''0'', CHR ''0'', hex_digit (n div 16), hex_digit (n mod 16)]
      else [c])"

definition json_string :: "string \<Rightarrow> string" where
  "json_string s = dquote @ concat (map json_escape s) @ dquote"

definition json_float :: "string \<Rightarrow> rat option \<Rightarrow> string" where
  "json_float r v =
     (if v \<noteq> None then r
      else if r = ''nan'' then ''NaN'' else if r = ''inf'' then ''Infinity'' else ''-Infinity'')"

fun dumps :: "json \<Rightarrow> string" where
  "dumps JNull = ''null''"
| "dumps (JBool b) = (if b then ''true'' else ''false'')"
| "dumps (JInt i) = int_str i"
| "dumps (JFloat r v) = json_float r v"
| "dumps (JStr s) = json_string s"
| "dumps (JArr xs) = ''['' @ join '','' (map dumps xs) @ '']''"
| "dumps (JObj d) =
     ''{'' @ join '','' (map (\<lambda>(k, t). json_string k @ '':'' @ t)
                (sort_key fst (map (\<lambda>(k, v). (k, dumps v)) d))) @ ''}''"

section \<open>Fingerprints\<close>

definition FAIL_STREAK_THRESHOLD :: int where "FAIL_STREAK_THRESHOLD = 3"
definition OK_STREAK_THRESHOLD :: int where "OK_STREAK_THRESHOLD = 5"
definition MAX_THRASH_HOSTS :: int where "MAX_THRASH_HOSTS = 1"
definition THRASH_TRIED_CAP :: nat where "THRASH_TRIED_CAP = 8"
definition MAX_LESSON_PINS :: nat where "MAX_LESSON_PINS = 2"
definition LESSON_SYNTH_FAIL_STREAK :: int where "LESSON_SYNTH_FAIL_STREAK = 3"
definition SKIP_IDENTICAL_ENABLED :: bool where "SKIP_IDENTICAL_ENABLED = False"
definition SKIP_IDENTICAL_AFTER :: int where "SKIP_IDENTICAL_AFTER = 5"
definition MAX_SKIPS_PER_MOMENT :: int where "MAX_SKIPS_PER_MOMENT = 8"
definition LARGE_STR_THRESHOLD :: nat where "LARGE_STR_THRESHOLD = 64"

definition SECRET_WRITE_ARG_KEYS :: "string list" where
  "SECRET_WRITE_ARG_KEYS = [''value'', ''secret'', ''token'', ''password'', ''api_key'']"

definition normalize_tool_name :: "string \<Rightarrow> string" where
  "normalize_tool_name tool_name = casefold (strip tool_name)"

text \<open>\<open>s.replace("//", "/")\<close> and \<open>"//" in s\<close>.\<close>

fun replace_dslash :: "string \<Rightarrow> string" where
  "replace_dslash (c # d # cs) =
     (if c = CHR ''/'' \<and> d = CHR ''/'' then CHR ''/'' # replace_dslash cs
      else c # replace_dslash (d # cs))"
| "replace_dslash s = s"

fun has_dslash :: "string \<Rightarrow> bool" where
  "has_dslash (c # d # cs) = ((c = CHR ''/'' \<and> d = CHR ''/'') \<or> has_dslash (d # cs))"
| "has_dslash s = False"

lemma length_replace_le: "length (replace_dslash s) \<le> length s"
  by (induction s rule: replace_dslash.induct) auto

lemma length_replace_less: "has_dslash s \<Longrightarrow> length (replace_dslash s) < length s"
proof (induction s rule: replace_dslash.induct)
  case (1 c d cs)
  show ?case
  proof (cases "c = CHR ''/'' \<and> d = CHR ''/''")
    case True
    then show ?thesis using length_replace_le [of cs] by simp
  next
    case False
    then have "has_dslash (d # cs)" using 1 by auto
    then show ?thesis using 1(2) False by auto
  qed
qed auto

function collapse_loop :: "string \<Rightarrow> string" where
  "collapse_loop s = (if has_dslash s then collapse_loop (replace_dslash s) else s)"
  by auto

termination
  by (relation "measure length") (simp_all add: length_replace_less)

declare collapse_loop.simps [simp del]

definition normalize_pathish :: "string \<Rightarrow> string" where
  "normalize_pathish value =
     collapse_loop (map (\<lambda>c. if code c = 92 then CHR ''/'' else c) (strip value))"

definition hash16 :: "string \<Rightarrow> string" where
  "hash16 text = take 16 (sha256_hex text)"

definition digest_obj :: "string \<Rightarrow> json" where
  "digest_obj s = JObj [(''len'', JInt (int (length s))), (''sha256_16'', JStr (hash16 s))]"

definition hash_secretish :: "json \<Rightarrow> json" where
  "hash_secretish value = (case value of JStr s \<Rightarrow> digest_obj s | _ \<Rightarrow> digest_obj (dumps value))"

text \<open>\<open>re.sub(r"\s+", " ", s)\<close>.\<close>

fun squeeze_spaces :: "string \<Rightarrow> string" where
  "squeeze_spaces [] = []"
| "squeeze_spaces (c # cs) =
     (if is_space c
      then (case cs of d # _ \<Rightarrow> if is_space d then squeeze_spaces cs else CHR '' '' # squeeze_spaces cs
            | [] \<Rightarrow> [CHR '' ''])
      else c # squeeze_spaces cs)"

definition canonical_str :: "string \<Rightarrow> string \<Rightarrow> json" where
  "canonical_str key s =
     (if key \<in> {''text'', ''content'', ''message''} then JStr (squeeze_spaces (strip s))
      else if key \<in> {''path'', ''file'', ''dir'', ''directory'', ''target'', ''src'', ''dst''}
      then JStr (normalize_pathish s)
      else if length s > LARGE_STR_THRESHOLD then digest_obj s
      else JStr s)"

lemma size_in_dict: "(k, v) \<in> set d \<Longrightarrow> size (v :: json) < size (JObj d)"
  by (induction d) auto

function canonicalize_value :: "string \<Rightarrow> json \<Rightarrow> json" where
  "canonicalize_value key value =
     (if key \<in> set SECRET_WRITE_ARG_KEYS then hash_secretish value
      else case value of
             JObj d \<Rightarrow>
               if key = ''files''
               then JObj (sort_key fst (map (\<lambda>(k, body).
                      (k, case body of JStr s \<Rightarrow> digest_obj s | _ \<Rightarrow> canonicalize_value [] body)) d))
               else JObj (sort_key fst (map (\<lambda>(k, v). (k, canonicalize_value k v)) d))
           | JArr xs \<Rightarrow> JArr (map (canonicalize_value key) xs)
           | JStr s \<Rightarrow> canonical_str key s
           | other \<Rightarrow> other)"
  by pat_completeness auto

termination
  by (relation "measure (\<lambda>(k, v). size v)")
    (auto dest: size_in_dict simp: less_Suc_eq_le intro: size_list_estimation')

declare canonicalize_value.simps [simp del]

definition canonical_args :: "jdict option \<Rightarrow> string" where
  "canonical_args args =
     (case args of
        None \<Rightarrow> ''{}''
      | Some d \<Rightarrow>
          if d = [] then ''{}''
          else dumps (JObj (sort_key fst (map (\<lambda>(k, v). (k, canonicalize_value k v)) d))))"

definition tool_fingerprint :: "string \<Rightarrow> jdict option \<Rightarrow> string" where
  "tool_fingerprint tool_name args = normalize_tool_name tool_name @ ''|'' @ canonical_args args"

section \<open>Streaks and decisions\<close>

record thrash_update =
  tu_fingerprint :: string
  tu_streak :: int
  tu_repeated :: bool
  tu_ok :: bool
  tu_error_reason :: "string option"
  tu_tool_name :: string

definition update_thrash_streak ::
  "string option \<Rightarrow> int \<Rightarrow> string \<Rightarrow> jdict option \<Rightarrow> bool \<Rightarrow> string option \<Rightarrow> thrash_update" where
  "update_thrash_streak prev_fp prev_streak tool_name args ok error_reason =
     (let n0 = normalize_tool_name tool_name;
          name = (if n0 = [] then strip tool_name else n0);
          fp = tool_fingerprint tool_name args;
          streak = (if prev_fp = Some fp then max prev_streak 0 + 1 else 1)
      in \<lparr>tu_fingerprint = fp, tu_streak = streak, tu_repeated = (streak \<ge> 2), tu_ok = ok,
          tu_error_reason = error_reason, tu_tool_name = (if name = [] then tool_name else name)\<rparr>)"

record thrash_host_decision =
  th_inject :: bool
  th_reason :: string
  th_kind :: string

definition thrash_host :: "bool \<Rightarrow> string \<Rightarrow> string \<Rightarrow> thrash_host_decision" where
  "thrash_host b r k = \<lparr>th_inject = b, th_reason = r, th_kind = k\<rparr>"

definition should_inject_thrash_host ::
  "int \<Rightarrow> bool option \<Rightarrow> int \<Rightarrow> string option \<Rightarrow> int \<Rightarrow> int \<Rightarrow> int \<Rightarrow> thrash_host_decision" where
  "should_inject_thrash_host streak last_ok thrash_host_sent tool_name max_thrash_hosts
     fail_streak_threshold ok_streak_threshold =
     (if (case tool_name of None \<Rightarrow> True | Some n \<Rightarrow> strip n = []) then thrash_host False ''no_tool'' ''''
      else if max_thrash_hosts \<le> 0 \<or> thrash_host_sent \<ge> max_thrash_hosts then thrash_host False ''budget'' ''''
      else case last_ok of
             Some False \<Rightarrow>
               if streak \<ge> fail_streak_threshold then thrash_host True ''injected'' ''thrash_fail_streak''
               else thrash_host False ''below_threshold'' ''''
           | Some True \<Rightarrow>
               if streak \<ge> ok_streak_threshold
               then thrash_host True ''injected''
                      (if normalize_tool_name (the tool_name) = ''speak'' then ''thrash_speak_repeat''
                       else ''thrash_repeat'')
               else thrash_host False ''below_threshold'' ''''
           | None \<Rightarrow> thrash_host False ''below_threshold'' '''')"

definition ISOLATION_ERROR_PREFIXES :: "string list" where
  "ISOLATION_ERROR_PREFIXES = [''sandbox_unavailable'', ''guest_pytest_unavailable'']"

definition is_isolation_error :: "string option \<Rightarrow> bool" where
  "is_isolation_error error_reason =
     (if blank_str error_reason then False
      else let er = casefold (strip (the error_reason)) in
        if er = [] then False
        else list_ex (\<lambda>p. er = p \<or> starts_with (p @ '':'') er) ISOLATION_ERROR_PREFIXES)"

definition thrash_host_message :: "string \<Rightarrow> int \<Rightarrow> string \<Rightarrow> string" where
  "thrash_host_message tool_name streak detail =
     (let detail_s = (if detail = [] then ''unknown'' else detail);
          head = ''HOST: tool thrash '' @ em_dash @ '' repeated '' @ tool_name @ '' '' @ times_sign @ int_str streak
      in if is_isolation_error (Some detail_s)
         then head @ '' with isolation error ('' @ detail_s @ ''). Sandbox unavailable / guest not ready '' @
              em_dash @ '' do not retry the same guest call. Change approach: update_task blocked with reason, '' @
              ''speak if the operator must fix MSB/pyenv, or load_skill('' @ dquote @ ''rest'' @ dquote @
              ''). Rest is not a tool name.''
         else head @ '' with same args ('' @ detail_s @ ''). Do not repeat that call. Change tool or arguments, '' @
              ''or stop with free-text (no tools). Rest means load_skill('' @ dquote @ ''rest'' @ dquote @
              '') or honest no-tool stop '' @ em_dash @ '' rest is not a tool name.'')"

definition thrash_detail :: "bool option \<Rightarrow> string option \<Rightarrow> string" where
  "thrash_detail last_ok last_error =
     (if last_ok = Some True then ''ok''
      else if \<not> blank_str last_error then the last_error
      else if last_ok = Some False then ''error''
      else ''unknown'')"

record skip_decision =
  sk_skip :: bool
  sk_reason :: string

definition should_skip_identical :: "bool \<Rightarrow> int \<Rightarrow> bool option \<Rightarrow> int \<Rightarrow> int \<Rightarrow> int \<Rightarrow> skip_decision" where
  "should_skip_identical enabled streak last_ok skip_count skip_after max_skips =
     (if \<not> enabled then \<lparr>sk_skip = False, sk_reason = ''disabled''\<rparr>
      else if last_ok \<noteq> Some False then \<lparr>sk_skip = False, sk_reason = ''last_was_ok''\<rparr>
      else if streak < skip_after then \<lparr>sk_skip = False, sk_reason = ''below_threshold''\<rparr>
      else if max_skips \<le> 0 \<or> skip_count \<ge> max_skips then \<lparr>sk_skip = False, sk_reason = ''budget''\<rparr>
      else \<lparr>sk_skip = True, sk_reason = ''skip''\<rparr>)"

definition thrash_lesson_request_message :: string where
  "thrash_lesson_request_message =
     ''HOST: thrash lesson '' @ em_dash @ '' reply in free-text only (1'' @ [CHR 0x82] @ ''3 sentences) OR structured:'' @
     newline @ ''FAILURE: '' @ ellipsis @ newline @ ''TRIED: '' @ ellipsis @ newline @ ''WHY: '' @ ellipsis @
     newline @ ''NEXT: '' @ ellipsis @ newline @
     ''Then change tool/args on a following hop (or honest no-tool stop). '' @
     ''Do not repeat the thrashing call.''"

definition lesson_pin_host_message :: "string \<Rightarrow> string" where
  "lesson_pin_host_message lesson =
     ''HOST: moment lesson pin '' @ em_dash @ '' '' @ (if strip lesson = [] then ''(empty)'' else strip lesson)"

definition LESSON_MAX_CHARS :: nat where "LESSON_MAX_CHARS = 480"

text \<open>\<open>_STRUCTURED_LESSON_RE\<close>: \<open>match\<close> looks at the start only, \<open>search\<close> also after every newline.\<close>

definition structured_match :: "string \<Rightarrow> bool" where
  "structured_match s =
     (let r = lstrip s in
      list_ex (\<lambda>label. starts_ci label r \<and> starts_with '':'' (lstrip (drop (length label) r)))
        [''failure'', ''tried'', ''why'', ''next''])"

function structured_search :: "string \<Rightarrow> bool" where
  "structured_search s =
     (structured_match s \<or>
      (case dropWhile (\<lambda>c. c \<noteq> CHR 0x0A) s of [] \<Rightarrow> False | _ # rest \<Rightarrow> structured_search rest))"
  by pat_completeness auto

termination
  by (relation "measure length") (auto dest: length_after_break)

declare structured_search.simps [simp del]

text \<open>\<open>re.split(r"(?<=[.!?])\s+", s)\<close>.\<close>

function sentence_split :: "string \<Rightarrow> string list" where
  "sentence_split [] = [[]]"
| "sentence_split (c # cs) =
     (if c \<in> {CHR ''.'', CHR ''!'', CHR ''?''} \<and> cs \<noteq> [] \<and> is_space (hd cs)
      then [c] # sentence_split (dropWhile is_space cs)
      else case sentence_split cs of p # ps \<Rightarrow> (c # p) # ps | [] \<Rightarrow> [[c]])"
  by pat_completeness auto

termination
  by (relation "measure length") (auto simp: length_dropWhile_le less_Suc_eq_le)

fun keep_labelled :: "string list \<Rightarrow> string list \<Rightarrow> string list" where
  "keep_labelled kept [] = kept"
| "keep_labelled kept (l # ls) =
     (let kept' = (if structured_match l \<or> length kept < 4 then kept @ [l] else kept)
      in if length kept' \<ge> 8 then kept' else keep_labelled kept' ls)"

definition nonblank :: "string list \<Rightarrow> string list" where
  "nonblank ls = filter (\<lambda>l. l \<noteq> []) (map strip ls)"

definition compact_lesson :: "string \<Rightarrow> string" where
  "compact_lesson c =
     (let text = strip c in
      if text = [] then []
      else
        let text' =
          (if structured_search text then join newline (keep_labelled [] (nonblank (splitlines text)))
           else let parts = nonblank (sentence_split text)
                in strip (squeeze_spaces
                     (if length parts > 3 then join '' '' (take 3 parts)
                      else if parts \<noteq> [] then join '' '' parts else text)))
        in if length text' > LESSON_MAX_CHARS then rstrip (take (LESSON_MAX_CHARS - 1) text') @ ellipsis
           else text')"

lemma length_rstrip_le: "length (rstrip s) \<le> length s"
  using length_dropWhile_le [of is_space "rev s"] by (simp add: rstrip_def)

lemma compact_lesson_bounded: "length (compact_lesson c) \<le> LESSON_MAX_CHARS"
proof -
  have "length (rstrip (take (LESSON_MAX_CHARS - 1) t) @ ellipsis) \<le> LESSON_MAX_CHARS" for t
    using length_rstrip_le [of "take (LESSON_MAX_CHARS - 1) t"] by (simp add: LESSON_MAX_CHARS_def ellipsis_def)
  then show ?thesis unfolding compact_lesson_def Let_def by (simp del: length_append)
qed

definition last_n :: "nat \<Rightarrow> 'a list \<Rightarrow> 'a list" where
  "last_n n xs = drop (length xs - n) xs"

definition synthesize_lesson :: "string list \<Rightarrow> string option \<Rightarrow> string \<Rightarrow> string" where
  "synthesize_lesson tried last_error tool_name =
     (let name = (if strip tool_name = [] then ''tool'' else strip tool_name);
          err = (if blank_str last_error then ''ok_spam'' else the last_error);
          tried_tail = py_repr (JArr (map JStr (last_n 4 tried)))
      in if is_isolation_error last_error
         then ''HOST-synthesized lesson: isolation blocked '' @ name @ '' ('' @ err @ ''); tried='' @ tried_tail @
              ''; next=block task / speak / rest '' @ em_dash @ '' not retry same guest tool; not a first-person claim.''
         else ''HOST-synthesized lesson: failed repeating '' @ name @ '' ('' @ err @ ''); tried='' @ tried_tail @
              ''; next=change args or stop '' @ em_dash @ '' not a first-person claim.'')"

section \<open>What a fingerprint depends on\<close>

text \<open>Equality of documents up to the order of object keys.\<close>

inductive perm_eq :: "json \<Rightarrow> json \<Rightarrow> bool" where
  refl: "perm_eq v v"
| arr: "list_all2 perm_eq xs ys \<Longrightarrow> perm_eq (JArr xs) (JArr ys)"
| obj: "list_all2 (\<lambda>a b. fst a = fst b \<and> perm_eq (snd a) (snd b)) d e \<Longrightarrow> mset e = mset f \<Longrightarrow>
    distinct (dkeys f) \<Longrightarrow> perm_eq (JObj d) (JObj f)"

text \<open>Objects are rendered from their sorted items, so the order of the items does not matter.\<close>

lemma sort_items_eq:
  assumes "mset e = mset f" and "distinct (dkeys f)"
  shows "sort_key fst (map (\<lambda>(k, v). (k, g k v)) e) = sort_key fst (map (\<lambda>(k, v). (k, g k v)) f)"
proof (rule sort_key_inj_key_eq)
  let ?h = "\<lambda>(k, v). (k, g k v)"
  show "mset (map ?h e) = mset (sort_key fst (map ?h f))" using assms(1) by simp
  have "set e = set f" using assms(1) by (rule mset_eq_setD)
  moreover have "inj_on fst (set f)" using assms(2) by (simp add: distinct_map)
  ultimately show "inj_on fst (set (map ?h e))"
    by (auto simp: inj_on_def) (metis fst_conv prod.inject)
qed simp

lemma list_all2_map_eq:
  "list_all2 (\<lambda>a b. fst a = fst b \<and> g (fst a) (snd a) = g (fst b) (snd b)) d e \<Longrightarrow>
   map (\<lambda>(k, v). (k, g k v)) d = map (\<lambda>(k, v). (k, g k v)) e"
  by (induction rule: list_all2_induct) auto

lemma list_all2_map_eq': "list_all2 (\<lambda>a b. f a = f b) xs ys \<Longrightarrow> map f xs = map f ys"
  by (induction rule: list_all2_induct) auto

lemma dumps_perm: "perm_eq v w \<Longrightarrow> dumps v = dumps w"
proof (induction rule: perm_eq.induct)
  case (arr xs ys)
  then have "list_all2 (\<lambda>a b. dumps a = dumps b) xs ys" by (rule list_all2_mono) simp
  then have "map dumps xs = map dumps ys" by (rule list_all2_map_eq')
  then show ?case by simp
next
  case (obj d e f)
  have "list_all2 (\<lambda>a b. fst a = fst b \<and> (\<lambda>_. dumps) (fst a) (snd a) = (\<lambda>_. dumps) (fst b) (snd b)) d e"
    using obj(1) by (rule list_all2_mono) simp
  then have "map (\<lambda>(k, v). (k, dumps v)) d = map (\<lambda>(k, v). (k, dumps v)) e"
    by (rule list_all2_map_eq)
  then show ?case using sort_items_eq [OF obj(2,3), of "\<lambda>_. dumps"] by simp
qed simp

lemma hash_secretish_perm:
  assumes "perm_eq v w"
  shows "hash_secretish v = hash_secretish w"
  using assms dumps_perm [OF assms] by (cases rule: perm_eq.cases) (simp_all add: hash_secretish_def)

definition canon_file :: "json \<Rightarrow> json" where
  "canon_file body = (case body of JStr s \<Rightarrow> digest_obj s | _ \<Rightarrow> canonicalize_value [] body)"

lemma canonicalize_obj:
  "key \<notin> set SECRET_WRITE_ARG_KEYS \<Longrightarrow>
   canonicalize_value key (JObj d) =
     JObj (sort_key fst (map (\<lambda>(k, v). (k, (if key = ''files'' then canon_file v else canonicalize_value k v))) d))"
  by (subst canonicalize_value.simps) (simp add: canon_file_def case_prod_beta')

lemma canonicalize_arr:
  "key \<notin> set SECRET_WRITE_ARG_KEYS \<Longrightarrow>
   canonicalize_value key (JArr xs) = JArr (map (canonicalize_value key) xs)"
  by (subst canonicalize_value.simps) simp

lemma canonicalize_secret:
  "key \<in> set SECRET_WRITE_ARG_KEYS \<Longrightarrow> canonicalize_value key v = hash_secretish v"
  by (subst canonicalize_value.simps) simp

lemma canonicalize_perm: "perm_eq v w \<Longrightarrow> canonicalize_value key v = canonicalize_value key w"
proof (induction arbitrary: key rule: perm_eq.induct)
  case (arr xs ys)
  show ?case
  proof (cases "key \<in> set SECRET_WRITE_ARG_KEYS")
    case True
    have "perm_eq (JArr xs) (JArr ys)" using arr by (intro perm_eq.arr) (auto elim: list_all2_mono)
    with True show ?thesis by (simp add: canonicalize_secret hash_secretish_perm)
  next
    case False
    have "list_all2 (\<lambda>a b. canonicalize_value key a = canonicalize_value key b) xs ys"
      using arr by (rule list_all2_mono) simp
    then have "map (canonicalize_value key) xs = map (canonicalize_value key) ys" by (rule list_all2_map_eq')
    with False show ?thesis by (simp add: canonicalize_arr)
  qed
next
  case (obj d e f)
  show ?case
  proof (cases "key \<in> set SECRET_WRITE_ARG_KEYS")
    case True
    have "list_all2 (\<lambda>a b. fst a = fst b \<and> perm_eq (snd a) (snd b)) d e"
      using obj(1) by (rule list_all2_mono) simp
    then have "perm_eq (JObj d) (JObj f)" using obj(2,3) by (rule perm_eq.obj)
    with True show ?thesis by (simp add: canonicalize_secret hash_secretish_perm)
  next
    case False
    let ?g = "\<lambda>k v. if key = ''files'' then canon_file v else canonicalize_value k v"
    have cf: "canon_file a = canon_file b"
      if "perm_eq a b" "\<And>k. canonicalize_value k a = canonicalize_value k b" for a b
      using that by (cases rule: perm_eq.cases) (auto simp: canon_file_def)
    have "list_all2 (\<lambda>a b. fst a = fst b \<and> ?g (fst a) (snd a) = ?g (fst b) (snd b)) d e"
      using obj(1) by (rule list_all2_mono) (auto intro: cf)
    then have "map (\<lambda>(k, v). (k, ?g k v)) d = map (\<lambda>(k, v). (k, ?g k v)) e"
      by (rule list_all2_map_eq)
    then show ?thesis
      using False sort_items_eq [OF obj(2,3), of ?g] by (simp add: canonicalize_obj)
  qed
qed simp

lemma canonical_args_eq:
  "d \<noteq> [] \<Longrightarrow> canonical_args (Some d) = dumps (canonicalize_value [] (JObj d))"
  by (subst canonicalize_obj) (simp_all add: canonical_args_def SECRET_WRITE_ARG_KEYS_def)

text \<open>Equality of argument values, except for what stands under a secret key.\<close>

inductive blind :: "string \<Rightarrow> json \<Rightarrow> json \<Rightarrow> bool" where
  refl: "blind key v v"
| secret: "key \<in> set SECRET_WRITE_ARG_KEYS \<Longrightarrow> hash_secretish v = hash_secretish w \<Longrightarrow> blind key v w"
| arr: "list_all2 (blind key) xs ys \<Longrightarrow> key \<notin> set SECRET_WRITE_ARG_KEYS \<Longrightarrow> blind key (JArr xs) (JArr ys)"
| obj: "list_all2 (\<lambda>a b. fst a = fst b \<and> blind (fst a) (snd a) (snd b)) d e \<Longrightarrow>
    key \<notin> set SECRET_WRITE_ARG_KEYS \<Longrightarrow> key \<noteq> ''files'' \<Longrightarrow> blind key (JObj d) (JObj e)"

lemma canonicalize_blind: "blind key v w \<Longrightarrow> canonicalize_value key v = canonicalize_value key w"
proof (induction rule: blind.induct)
  case (arr key xs ys)
  have "list_all2 (\<lambda>a b. canonicalize_value key a = canonicalize_value key b) xs ys"
    using arr(1) by (rule list_all2_mono) simp
  then have "map (canonicalize_value key) xs = map (canonicalize_value key) ys" by (rule list_all2_map_eq')
  with arr(2) show ?case by (simp add: canonicalize_arr)
next
  case (obj d e key)
  have "list_all2 (\<lambda>a b. fst a = fst b \<and>
      canonicalize_value (fst a) (snd a) = canonicalize_value (fst b) (snd b)) d e"
    using obj(1) by (rule list_all2_mono) auto
  then have "map (\<lambda>(k, v). (k, canonicalize_value k v)) d = map (\<lambda>(k, v). (k, canonicalize_value k v)) e"
    by (rule list_all2_map_eq)
  with obj(2,3) show ?case by (simp add: canonicalize_obj)
qed (simp_all add: canonicalize_secret)

section \<open>The path loop and the streak against reference definitions\<close>

fun collapse :: "string \<Rightarrow> string" where
  "collapse [] = []"
| "collapse (c # cs) =
     (if c = CHR ''/'' \<and> cs \<noteq> [] \<and> hd cs = CHR ''/'' then collapse cs else c # collapse cs)"

lemma replace_hd: "replace_dslash s = [] \<longleftrightarrow> s = []" "s \<noteq> [] \<Longrightarrow> hd (replace_dslash s) = hd s"
  by (induction s rule: replace_dslash.induct) auto

lemma collapse_replace: "collapse (replace_dslash s) = collapse s"
proof (induction s rule: replace_dslash.induct)
  case (1 c d cs)
  show ?case
  proof (cases "c = CHR ''/'' \<and> d = CHR ''/''")
    case True
    then show ?thesis using 1(1) replace_hd [of cs] by auto
  next
    case False
    then show ?thesis using 1(2) replace_hd [of "d # cs"] by auto
  qed
qed simp_all

lemma collapse_id: "\<not> has_dslash s \<Longrightarrow> collapse s = s"
  by (induction s rule: has_dslash.induct) auto

lemma collapse_loop_eq: "collapse_loop s = collapse s"
proof (induction s rule: collapse_loop.induct)
  case (1 s)
  then show ?case
    by (cases "has_dslash s")
      (simp_all add: collapse_loop.simps [of s] collapse_replace collapse_id)
qed

lemma collapse_no_dslash: "\<not> has_dslash (collapse s)"
proof (induction s)
  case (Cons c cs)
  have "collapse cs \<noteq> [] \<Longrightarrow> hd (collapse cs) = hd cs" by (induction cs) auto
  moreover have "collapse cs = [] \<longleftrightarrow> cs = []" by (induction cs) auto
  ultimately show ?case using Cons by (cases "collapse cs") auto
qed simp

record tool_use =
  u_name :: string
  u_args :: "jdict option"
  u_ok :: bool
  u_error :: "string option"

abbreviation u_fp :: "tool_use \<Rightarrow> string" where
  "u_fp u \<equiv> tool_fingerprint (u_name u) (u_args u)"

definition note_use :: "string option \<times> int \<Rightarrow> tool_use \<Rightarrow> string option \<times> int" where
  "note_use st u =
     (let r = update_thrash_streak (fst st) (snd st) (u_name u) (u_args u) (u_ok u) (u_error u)
      in (Some (tu_fingerprint r), tu_streak r))"

definition streak_of :: "tool_use list \<Rightarrow> string option \<times> int" where
  "streak_of us = foldl note_use (None, 0) us"

text \<open>Reference: how many of the last calls in a row share the last call's fingerprint.\<close>

definition trailing_same :: "tool_use list \<Rightarrow> nat" where
  "trailing_same us = length (takeWhile (\<lambda>u. u_fp u = u_fp (last us)) (rev us))"

lemma streak_of_snoc: "streak_of (us @ [u]) = note_use (streak_of us) u"
  by (simp add: streak_of_def)

lemma streak_of_eq:
  "us \<noteq> [] \<Longrightarrow> streak_of us = (Some (u_fp (last us)), int (trailing_same us))"
proof (induction us rule: rev_induct)
  case (snoc u us)
  show ?case
  proof (cases "us = []")
    case True
    then show ?thesis
      by (simp add: streak_of_def note_use_def update_thrash_streak_def trailing_same_def Let_def)
  next
    case False
    have pos: "trailing_same us \<ge> 1"
      using False by (cases us rule: rev_cases) (simp_all add: trailing_same_def)
    have tr: "trailing_same (us @ [u]) = (if u_fp u = u_fp (last us) then trailing_same us + 1 else 1)"
    proof (cases "u_fp u = u_fp (last us)")
      case True
      then show ?thesis by (simp add: trailing_same_def)
    next
      case no: False
      then show ?thesis using False
        by (cases us rule: rev_cases) (auto simp: trailing_same_def)
    qed
    show ?thesis
      using snoc False pos
      by (auto simp: streak_of_snoc note_use_def update_thrash_streak_def tr Let_def)
  qed
qed simp

section \<open>Properties\<close>



text \<open>
  Key order does not matter. Arguments that differ only in the order of object keys, at any
  depth, have the same fingerprint, so reordering the keys of a repeated call does not break
  its streak.
\<close>

theorem fingerprint_ignores_key_order:
  assumes "perm_eq (JObj d) (JObj e)"
  shows "tool_fingerprint name (Some d) = tool_fingerprint name (Some e)"
proof -
  have "d = [] \<longleftrightarrow> e = []" using assms
    by (cases rule: perm_eq.cases) (auto dest: list_all2_lengthD mset_eq_length)
  then show ?thesis
    using canonicalize_perm [OF assms, of "[]"]
    by (cases "d = []") (simp_all add: tool_fingerprint_def canonical_args_eq)
qed

theorem fingerprint_ignores_key_order_witness:
  "tool_fingerprint ''run'' (Some [(''cmd'', JStr ''ls''), (''cwd'', JStr ''/'')]) =
   tool_fingerprint ''run'' (Some [(''cwd'', JStr ''/''), (''cmd'', JStr ''ls'')])"
proof (rule fingerprint_ignores_key_order)
  show "perm_eq (JObj [(''cmd'', JStr ''ls''), (''cwd'', JStr ''/'')]) (JObj [(''cwd'', JStr ''/''), (''cmd'', JStr ''ls'')])"
    by (rule perm_eq.obj [where e = "[(''cmd'', JStr ''ls''), (''cwd'', JStr ''/'')]"]) (simp_all add: perm_eq.refl)
qed

text \<open>
  The path loop. Replacing double slashes until none is left terminates for every string
  and is the one-pass collapse of each run of slashes to a single one; the result holds no
  double slash, so normalizing is stable.
\<close>

theorem normalize_pathish_collapses:
  "normalize_pathish s = collapse (map (\<lambda>c. if code c = 92 then CHR ''/'' else c) (strip s)) \<and>
   \<not> has_dslash (normalize_pathish s) \<and> collapse_loop (normalize_pathish s) = normalize_pathish s"
  by (simp add: normalize_pathish_def collapse_loop_eq collapse_no_dslash collapse_id)

text \<open>
  C15. The thrash HOST fires on real repetition. After any non-empty sequence of tool calls the
  streak is the number of last calls in a row with the last call's fingerprint, and with the
  default thresholds and an unspent budget the HOST line is due exactly when that number is at
  least 3 and the last call failed, or at least 5 and it succeeded.
\<close>

theorem thrash_host_counts_repeats:
  assumes "us \<noteq> []" and "strip (u_name (last us)) \<noteq> []"
  shows "streak_of us = (Some (u_fp (last us)), int (trailing_same us)) \<and>
    (th_inject (should_inject_thrash_host (snd (streak_of us)) (Some (u_ok (last us))) 0
        (Some (u_name (last us))) MAX_THRASH_HOSTS FAIL_STREAK_THRESHOLD OK_STREAK_THRESHOLD) \<longleftrightarrow>
     trailing_same us \<ge> (if u_ok (last us) then 5 else 3))"
  using assms(2)
  by (cases "u_ok (last us)")
    (auto simp: streak_of_eq [OF assms(1)] should_inject_thrash_host_def thrash_host_def MAX_THRASH_HOSTS_def
      FAIL_STREAK_THRESHOLD_def OK_STREAK_THRESHOLD_def)

theorem thrash_host_counts_repeats_witness:
  "trailing_same (replicate 3 \<lparr>u_name = ''ls'', u_args = None, u_ok = False, u_error = None\<rparr>) = 3 \<and>
   th_inject (should_inject_thrash_host
     (snd (streak_of (replicate 3 \<lparr>u_name = ''ls'', u_args = None, u_ok = False, u_error = None\<rparr>)))
     (Some False) 0 (Some ''ls'') MAX_THRASH_HOSTS FAIL_STREAK_THRESHOLD OK_STREAK_THRESHOLD)"
proof -
  let ?u = "\<lparr>u_name = ''ls'', u_args = None, u_ok = False, u_error = None\<rparr>"
  have "trailing_same (replicate 3 ?u) = 3" "strip ''ls'' \<noteq> []" by code_simp+
  then show ?thesis
    using thrash_host_counts_repeats [of "replicate 3 ?u"] by auto
qed

end
