(* ===== verification/Chain.thy ===== *)
theory Chain
  imports Thrash
begin

text \<open>
  The in-turn message chain of the do-loop and its budget, from the first half of
  \<open>elyra/loop/doloop.py\<close> with the token heuristics of \<open>elyra/loop/context.py\<close>: token estimates,
  truncation of tool results, the grouping of a chain into tool batches, HOST injects and other
  messages, dropping and compressing batches, and \<open>enforce_in_turn_budget\<close>. The lemmas show
  that trimming only removes whole batches, oldest first, that it keeps the rest of the chain
  in order, and that the chain stays a legal exchange for the provider (every tool call
  answered, no orphan answer).
\<close>

type_synonym message = jdict

text \<open>
  The exceptions that can leave the body of the loop: the usage gate's hard stop (level and
  reason), a \<open>TimeoutError\<close>, a \<open>RuntimeError\<close> and any other \<open>Exception\<close> (class name and text).
\<close>

datatype loop_exc =
    UsageHardStop string string
  | Timeout_Error string
  | Runtime_Error string string
  | Other_Error string string

section \<open>Token estimates\<close>

definition IMAGE_PART_TOKEN_HEURISTIC :: int where "IMAGE_PART_TOKEN_HEURISTIC = 1024"

definition estimate_tokens :: "string \<Rightarrow> int" where
  "estimate_tokens text = int (length text) div 4"

text \<open>\<open>str(x or "")\<close> on a JSON value.\<close>

definition str_or_empty :: "json \<Rightarrow> string" where
  "str_or_empty v = (if truthy v then py_str v else [])"

definition byte_size_tokens :: "json \<Rightarrow> int" where
  "byte_size_tokens raw_size =
     (let n = (case raw_size of JInt i \<Rightarrow> i | JBool b \<Rightarrow> (if b then 1 else 0) | _ \<Rightarrow> 0)
      in if n > 0 then min IMAGE_PART_TOKEN_HEURISTIC (max 1 (n div 750)) else IMAGE_PART_TOKEN_HEURISTIC)"

definition part_tokens :: "json \<Rightarrow> int" where
  "part_tokens part =
     (case part of
        JObj d \<Rightarrow>
          (let ptype = jget d ''type'' in
           if ptype = JStr ''text'' then estimate_tokens (str_or_empty (jget d ''text''))
           else if ptype = JStr ''image_url'' then byte_size_tokens (jget d ''byte_size'')
           else if ptype \<in> {JStr ''input_audio'', JStr ''video_url'', JStr ''input_video''}
           then IMAGE_PART_TOKEN_HEURISTIC
           else estimate_tokens (py_str part))
      | _ \<Rightarrow> estimate_tokens (py_str part))"

definition estimate_content_tokens :: "json \<Rightarrow> int" where
  "estimate_content_tokens content =
     (case content of
        JNull \<Rightarrow> 0
      | JStr s \<Rightarrow> estimate_tokens s
      | JArr parts \<Rightarrow> sum_list (map part_tokens parts)
      | _ \<Rightarrow> estimate_tokens (py_str content))"

text \<open>\<open>json.dumps(x, ensure_ascii=False)\<close>: items in insertion order, default separators.\<close>

fun dumps_plain :: "json \<Rightarrow> string" where
  "dumps_plain JNull = ''null''"
| "dumps_plain (JBool b) = (if b then ''true'' else ''false'')"
| "dumps_plain (JInt i) = int_str i"
| "dumps_plain (JFloat r v) = json_float r v"
| "dumps_plain (JStr s) = json_string s"
| "dumps_plain (JArr xs) = ''['' @ join '', '' (map dumps_plain xs) @ '']''"
| "dumps_plain (JObj d) =
     ''{'' @ join '', '' (map (\<lambda>(k, v). json_string k @ '': '' @ dumps_plain v) d) @ ''}''"

definition message_tokens :: "message \<Rightarrow> int" where
  "message_tokens msg =
     (let n = estimate_content_tokens (jget msg ''content'');
          tcs = jget msg ''tool_calls''
      in if truthy tcs then n + estimate_tokens (dumps_plain tcs) else n)"

definition messages_tokens :: "message list \<Rightarrow> int" where
  "messages_tokens messages = sum_list (map message_tokens messages)"

section \<open>Truncation\<close>

definition TRUNC_MARKER :: string where
  "TRUNC_MARKER = ellipsis @ ''[truncated]''"

definition truncate_tool_content :: "string \<Rightarrow> int \<Rightarrow> string" where
  "truncate_tool_content content max_chars =
     (if max_chars \<le> 0 \<or> int (length content) \<le> max_chars then content
      else if max_chars \<le> int (length TRUNC_MARKER) then take (nat max_chars) content
      else take (nat (max_chars - int (length TRUNC_MARKER))) content @ TRUNC_MARKER)"

definition is_tool_msg :: "message \<Rightarrow> bool" where
  "is_tool_msg msg = (jget msg ''role'' = JStr ''tool'')"

definition truncate_msg :: "int \<Rightarrow> message \<Rightarrow> message" where
  "truncate_msg max_chars msg =
     (if \<not> is_tool_msg msg then msg
      else case jget msg ''content'' of
             JStr s \<Rightarrow> dset msg ''content'' (JStr (truncate_tool_content s max_chars))
           | _ \<Rightarrow> msg)"

definition truncate_chain_tool_contents :: "message list \<Rightarrow> int \<Rightarrow> message list" where
  "truncate_chain_tool_contents chain max_chars = map (truncate_msg max_chars) chain"

section \<open>Spans\<close>

datatype span_kind = Batch | Inject | Other

definition is_tool_batch_start :: "message \<Rightarrow> bool" where
  "is_tool_batch_start msg = (jget msg ''role'' = JStr ''assistant'' \<and> truthy (jget msg ''tool_calls''))"

definition is_host_inject :: "message \<Rightarrow> bool" where
  "is_host_inject msg =
     (if jget msg ''role'' \<noteq> JStr ''user'' then False
      else case jget msg ''content'' of JStr s \<Rightarrow> starts_with ''HOST:'' s | _ \<Rightarrow> False)"

function spans_from :: "nat \<Rightarrow> message list \<Rightarrow> (span_kind \<times> nat \<times> nat) list" where
  "spans_from i [] = []"
| "spans_from i (msg # rest) =
     (if is_tool_batch_start msg
      then let n = length (takeWhile is_tool_msg rest)
           in (Batch, i, Suc (i + n)) # spans_from (Suc (i + n)) (drop n rest)
      else if is_host_inject msg then (Inject, i, Suc i) # spans_from (Suc i) rest
      else (Other, i, Suc i) # spans_from (Suc i) rest)"
  by pat_completeness auto

termination
  by (relation "measure (\<lambda>(i, ms). length ms)") auto

definition group_chain_spans :: "message list \<Rightarrow> (span_kind \<times> nat \<times> nat) list" where
  "group_chain_spans chain = spans_from 0 chain"

definition slice :: "'a list \<Rightarrow> nat \<Rightarrow> nat \<Rightarrow> 'a list" where
  "slice xs s e = take (e - s) (drop s xs)"

definition batch_spans :: "message list \<Rightarrow> (nat \<times> nat) list" where
  "batch_spans chain = map snd (filter (\<lambda>sp. fst sp = Batch) (group_chain_spans chain))"

text \<open>The chain after the deletion, or \<open>None\<close> where the code returns \<open>False\<close>.\<close>

definition drop_oldest_batch :: "message list \<Rightarrow> message list option" where
  "drop_oldest_batch chain =
     (case batch_spans chain of
        (s, e) # _ # _ \<Rightarrow> Some (take s chain @ drop e chain)
      | _ \<Rightarrow> None)"

definition REOUTER_KEEP_GROUPS :: nat where "REOUTER_KEEP_GROUPS = 2"

definition compress_chain_for_reouter :: "message list \<Rightarrow> message list" where
  "compress_chain_for_reouter chain =
     (let spans = group_chain_spans chain;
          keep_starts = map fst (last_n REOUTER_KEEP_GROUPS (batch_spans chain))
      in concat (map (\<lambda>(kind, s, e). slice chain s e)
           (filter (\<lambda>(kind, s, e). \<not> (kind = Batch \<and> s \<notin> set keep_starts)) spans)))"

section \<open>Chains as lists of segments\<close>

text \<open>The same grouping without indices, which the proofs work on.\<close>

function segments :: "message list \<Rightarrow> (span_kind \<times> message list) list" where
  "segments [] = []"
| "segments (msg # rest) =
     (if is_tool_batch_start msg
      then (Batch, msg # takeWhile is_tool_msg rest) # segments (dropWhile is_tool_msg rest)
      else ((if is_host_inject msg then Inject else Other), [msg]) # segments rest)"
  by pat_completeness auto

termination
  by (relation "measure length") (auto simp: length_dropWhile_le less_Suc_eq_le)

lemma concat_segments [simp]: "concat (map snd (segments chain)) = chain"
  by (induction chain rule: segments.induct) auto

lemma segments_eq_Nil [simp]: "segments chain = [] \<longleftrightarrow> chain = []"
  by (cases chain) auto

lemma segment_nonempty: "(k, seg) \<in> set (segments chain) \<Longrightarrow> seg \<noteq> []"
  by (induction chain rule: segments.induct) (auto split: if_splits)

definition starts_fresh :: "message list \<Rightarrow> bool" where
  "starts_fresh ms = (ms = [] \<or> \<not> is_tool_msg (hd ms))"

lemma takeWhile_fresh:
  assumes "starts_fresh ys"
  shows "takeWhile is_tool_msg (xs @ ys) = takeWhile is_tool_msg xs"
    and "dropWhile is_tool_msg (xs @ ys) = dropWhile is_tool_msg xs @ ys"
proof -
  have "takeWhile is_tool_msg ys = []" "dropWhile is_tool_msg ys = ys"
    using assms by (cases ys; simp add: starts_fresh_def)+
  then show "takeWhile is_tool_msg (xs @ ys) = takeWhile is_tool_msg xs"
    and "dropWhile is_tool_msg (xs @ ys) = dropWhile is_tool_msg xs @ ys"
    by (induction xs) auto
qed

lemma segments_append: "starts_fresh ys \<Longrightarrow> segments (xs @ ys) = segments xs @ segments ys"
  by (induction xs rule: segments.induct) (auto simp: takeWhile_fresh)

text \<open>Spans are the segments with their positions.\<close>

fun offsets :: "nat \<Rightarrow> (span_kind \<times> message list) list \<Rightarrow> (span_kind \<times> nat \<times> nat) list" where
  "offsets i [] = []"
| "offsets i ((k, seg) # segs) = (k, i, i + length seg) # offsets (i + length seg) segs"

lemma spans_from_offsets: "spans_from i ms = offsets i (segments ms)"
proof (induction i ms rule: spans_from.induct)
  case (2 i msg rest)
  have "drop (length (takeWhile is_tool_msg rest)) rest = dropWhile is_tool_msg rest"
    by (simp add: dropWhile_eq_drop)
  then show ?case using 2 by (auto simp: Let_def)
qed simp

lemma slices_offsets:
  "map (\<lambda>(k, s, e). slice (pre @ concat (map snd segs)) s e) (offsets (length pre) segs) = map snd segs"
proof (induction segs arbitrary: pre)
  case (Cons x segs)
  obtain k seg where x: "x = (k, seg)" by (rule prod.exhaust)
  have "map (\<lambda>(k, s, e). slice ((pre @ seg) @ concat (map snd segs)) s e)
      (offsets (length (pre @ seg)) segs) = map snd segs"
    by (rule Cons.IH)
  then show ?case by (simp add: x slice_def)
qed simp

definition is_batch :: "span_kind \<times> 'a \<Rightarrow> bool" where
  "is_batch sp = (fst sp = Batch)"

lemma is_batch_pair [simp]: "is_batch (k, x) \<longleftrightarrow> k = Batch"
  by (simp add: is_batch_def)

definition batch_count :: "message list \<Rightarrow> nat" where
  "batch_count chain = length (filter is_batch (segments chain))"

fun drop_first_batch :: "(span_kind \<times> message list) list \<Rightarrow> (span_kind \<times> message list) list" where
  "drop_first_batch [] = []"
| "drop_first_batch ((k, seg) # segs) = (if k = Batch then segs else (k, seg) # drop_first_batch segs)"

lemma length_batches_offsets: "length (filter is_batch (offsets i segs)) = length (filter is_batch segs)"
  by (induction segs arbitrary: i) auto

lemma batch_spans_offsets: "batch_spans chain = map snd (filter is_batch (offsets 0 (segments chain)))"
  by (simp add: batch_spans_def group_chain_spans_def spans_from_offsets is_batch_def [abs_def])

lemma length_batch_spans [simp]: "length (batch_spans chain) = batch_count chain"
  by (simp add: batch_spans_offsets batch_count_def length_batches_offsets)

lemma first_batch_span:
  assumes "filter is_batch (offsets (length pre) segs) = (k, s, e) # rst"
  shows "take s (pre @ concat (map snd segs)) @ drop e (pre @ concat (map snd segs)) =
    pre @ concat (map snd (drop_first_batch segs))"
  using assms
proof (induction segs arbitrary: pre)
  case (Cons x segs)
  obtain k' seg where x: "x = (k', seg)" by (rule prod.exhaust)
  show ?case
  proof (cases "k' = Batch")
    case True
    then show ?thesis using Cons.prems by (auto simp: x)
  next
    case False
    then have "filter is_batch (offsets (length (pre @ seg)) segs) = (k, s, e) # rst"
      using Cons.prems by (simp add: x)
    from Cons.IH [OF this] show ?thesis using False by (simp add: x)
  qed
qed simp

lemma drop_oldest_batch_eq:
  "drop_oldest_batch chain =
     (if batch_count chain \<le> 1 then None else Some (concat (map snd (drop_first_batch (segments chain)))))"
proof (cases "filter is_batch (offsets 0 (segments chain))")
  case Nil
  then show ?thesis
    using length_batches_offsets [of 0 "segments chain"]
    by (simp add: drop_oldest_batch_def batch_spans_offsets batch_count_def)
next
  case (Cons sp rst)
  obtain k s e where sp: "sp = (k, s, e)" by (cases sp) auto
  have n: "batch_count chain = Suc (length rst)"
    using length_batches_offsets [of 0 "segments chain"] Cons by (simp add: batch_count_def)
  have "take s chain @ drop e chain = concat (map snd (drop_first_batch (segments chain)))"
    using first_batch_span [of "[]" "segments chain" k s e rst] Cons by (simp add: sp)
  then show ?thesis
    using Cons n by (cases rst) (simp_all add: drop_oldest_batch_def batch_spans_offsets sp)
qed

lemma segments_drop_first [simp]:
  "segments (concat (map snd (drop_first_batch (segments chain)))) = drop_first_batch (segments chain)"
  by (induction chain rule: segments.induct) auto

lemma drop_oldest_batch_segments:
  "drop_oldest_batch chain = Some chain' \<Longrightarrow> segments chain' = drop_first_batch (segments chain)"
  by (auto simp: drop_oldest_batch_eq split: if_splits)

lemma batches_drop_first:
  "filter is_batch (drop_first_batch segs) = drop 1 (filter is_batch segs)"
  "filter (\<lambda>sp. \<not> is_batch sp) (drop_first_batch segs) = filter (\<lambda>sp. \<not> is_batch sp) segs"
  by (induction segs rule: drop_first_batch.induct) auto

lemma length_drop_oldest:
  assumes "drop_oldest_batch chain = Some chain'"
  shows "length chain' < length chain"
proof -
  have seg: "length (concat (map snd (drop_first_batch segs))) < length (concat (map snd segs))"
    if "list_ex is_batch segs" and "\<And>k seg. (k, seg) \<in> set segs \<Longrightarrow> seg \<noteq> []" for segs
    using that
  proof (induction segs rule: drop_first_batch.induct)
    case (2 k seg segs)
    then have "seg \<noteq> []" by auto
    then show ?case using 2 by auto
  qed simp
  have "batch_count chain \<noteq> 0" using assms by (auto simp: drop_oldest_batch_eq split: if_splits)
  then have "list_ex is_batch (segments chain)"
    by (auto simp: batch_count_def filter_empty_conv list_ex_iff)
  then have "length (concat (map snd (drop_first_batch (segments chain)))) < length chain"
    using seg [of "segments chain"] segment_nonempty [of _ _ chain] by simp
  then show ?thesis using assms by (auto simp: drop_oldest_batch_eq split: if_splits)
qed

text \<open>Re-outer compression removes all but the last two batches.\<close>

lemma offsets_starts_ge: "(k, s, e) \<in> set (offsets i segs) \<Longrightarrow> i \<le> s"
  by (induction segs arbitrary: i) fastforce+

lemma drop_first_batch_pow:
  "k \<noteq> Batch \<Longrightarrow> (drop_first_batch ^^ n) ((k, seg) # segs) = (k, seg) # (drop_first_batch ^^ n) segs"
  by (induction n) simp_all

lemma last_n_Cons: "n \<le> length xs \<Longrightarrow> last_n n (x # xs) = last_n n xs"
  by (simp add: last_n_def Suc_diff_le)

lemma last_n_all: "length xs \<le> n \<Longrightarrow> last_n n xs = xs"
  by (simp add: last_n_def)

definition kept :: "nat \<Rightarrow> nat \<Rightarrow> (span_kind \<times> message list) list \<Rightarrow> (span_kind \<times> nat \<times> nat) list" where
  "kept n i segs =
     (let sps = offsets i segs; starts = map fst (last_n n (map snd (filter is_batch sps)))
      in filter (\<lambda>(kind, s, e). \<not> (kind = Batch \<and> s \<notin> set starts)) sps)"

lemma kept_all: "length (filter is_batch segs) \<le> n \<Longrightarrow> kept n i segs = offsets i segs"
  by (auto simp: kept_def Let_def last_n_all length_batches_offsets intro!: filter_True image_eqI)

lemma slices_kept:
  assumes "\<And>k seg. (k, seg) \<in> set segs \<Longrightarrow> seg \<noteq> []"
  shows "map (\<lambda>(k, s, e). slice (pre @ concat (map snd segs)) s e) (kept n (length pre) segs) =
    map snd ((drop_first_batch ^^ (length (filter is_batch segs) - n)) segs)"
  using assms
proof (induction segs arbitrary: pre)
  case Nil
  have "(drop_first_batch ^^ m) [] = []" for m by (induction m) simp_all
  then show ?case by (simp add: kept_def)
next
  case (Cons x segs)
  obtain k seg where x: "x = (k, seg)" by (rule prod.exhaust)
  have ne: "seg \<noteq> []" using Cons.prems x by auto
  let ?nb = "length (filter is_batch segs)"
  have IH: "map (\<lambda>(k, s, e). slice ((pre @ seg) @ concat (map snd segs)) s e) (kept n (length (pre @ seg)) segs) =
      map snd ((drop_first_batch ^^ (?nb - n)) segs)"
    by (rule Cons.IH) (use Cons.prems in auto)
  show ?case
  proof (cases "length (filter is_batch (x # segs)) \<le> n")
    case True
    then have "kept n (length pre) (x # segs) = offsets (length pre) (x # segs)" by (rule kept_all)
    moreover have "length (filter is_batch (x # segs)) - n = 0" using True by simp
    ultimately show ?thesis using slices_offsets [of pre "x # segs"] by (simp del: offsets.simps)
  next
    case False
    show ?thesis
    proof (cases "k = Batch")
      case True
      have nb: "n \<le> ?nb" using False True by (simp add: x)
      have notin: "length pre \<notin> fst ` set (last_n n (map snd (filter is_batch (offsets (length pre + length seg) segs))))"
        using ne offsets_starts_ge [of _ "length pre" _ "length pre + length seg" segs]
        by (auto simp: last_n_def dest!: in_set_dropD)
      have "kept n (length pre) (x # segs) = kept n (length (pre @ seg)) segs"
        using True nb notin
        by (simp add: kept_def Let_def x last_n_Cons length_batches_offsets)
      then show ?thesis using IH True nb by (simp add: x Suc_diff_le funpow_swap1)
    next
      case nB: False
      have "kept n (length pre) (x # segs) = (k, length pre, length pre + length seg) # kept n (length (pre @ seg)) segs"
        using nB by (simp add: kept_def Let_def x)
      then show ?thesis using IH nB by (simp add: x drop_first_batch_pow slice_def)
    qed
  qed
qed

lemma compress_chain_eq:
  "compress_chain_for_reouter chain =
     concat (map snd ((drop_first_batch ^^ (batch_count chain - 2)) (segments chain)))"
proof -
  have "compress_chain_for_reouter chain =
      concat (map (\<lambda>(k, s, e). slice ([] @ concat (map snd (segments chain))) s e) (kept 2 (length ([] :: message list)) (segments chain)))"
    by (simp add: compress_chain_for_reouter_def kept_def group_chain_spans_def spans_from_offsets
        batch_spans_offsets REOUTER_KEEP_GROUPS_def Let_def)
  also have "\<dots> = concat (map snd ((drop_first_batch ^^ (batch_count chain - 2)) (segments chain)))"
    by (subst slices_kept) (auto simp: batch_count_def dest: segment_nonempty)
  finally show ?thesis .
qed

lemma compress_chain_short: "batch_count chain \<le> 2 \<Longrightarrow> compress_chain_for_reouter chain = chain"
  by (simp add: compress_chain_eq)

section \<open>The in-turn budget\<close>

definition over_budget :: "int \<Rightarrow> message list \<Rightarrow> message list \<Rightarrow> bool" where
  "over_budget budget_tokens outer_prefix chain_messages =
     (messages_tokens outer_prefix + messages_tokens chain_messages > budget_tokens)"

function drop_while_over :: "int \<Rightarrow> message list \<Rightarrow> message list \<Rightarrow> message list" where
  "drop_while_over budget_tokens outer_prefix chain =
     (if over_budget budget_tokens outer_prefix chain
      then case drop_oldest_batch chain of
             Some chain' \<Rightarrow> drop_while_over budget_tokens outer_prefix chain'
           | None \<Rightarrow> chain
      else chain)"
  by pat_completeness auto

termination
  by (relation "measure (\<lambda>(b, out, chain). length chain)") (auto dest: length_drop_oldest)

declare drop_while_over.simps [simp del]

text \<open>
  The outcome carries the new outer meal and whether it was rebuilt, or the exception
  \<open>rebuild_outer\<close> raised; the chain is mutated in place either way.
\<close>

definition enforce_in_turn_budget ::
  "message list \<Rightarrow> message list \<Rightarrow> int \<Rightarrow> int \<Rightarrow> ('w \<Rightarrow> (loop_exc + message list) \<times> 'w) option \<Rightarrow> 'w \<Rightarrow>
   (loop_exc + message list \<times> bool) \<times> message list \<times> 'w" where
  "enforce_in_turn_budget outer_prefix chain_messages budget_tokens max_chars rebuild_outer w =
     (let chain1 = truncate_chain_tool_contents chain_messages max_chars in
      if \<not> over_budget budget_tokens outer_prefix chain1 then (Inr (outer_prefix, False), chain1, w)
      else
        let chain2 = drop_while_over budget_tokens outer_prefix chain1 in
        if \<not> over_budget budget_tokens outer_prefix chain2 then (Inr (outer_prefix, False), chain2, w)
        else
          let chain3 = truncate_chain_tool_contents (compress_chain_for_reouter chain2) max_chars in
          case rebuild_outer of
            None \<Rightarrow> (Inr (outer_prefix, False), drop_while_over budget_tokens outer_prefix chain3, w)
          | Some rebuild \<Rightarrow>
              (case rebuild w of
                 (Inl e, w') \<Rightarrow> (Inl e, chain3, w')
               | (Inr outer', w') \<Rightarrow> (Inr (outer', True), drop_while_over budget_tokens outer' chain3, w')))"

subsection \<open>Truncation is bounded, idempotent and keeps the grouping\<close>

lemma length_truncate: "0 < m \<Longrightarrow> int (length (truncate_tool_content c m)) \<le> m"
  by (auto simp: truncate_tool_content_def)

lemma truncate_short: "m \<le> 0 \<or> int (length c) \<le> m \<Longrightarrow> truncate_tool_content c m = c"
  by (simp add: truncate_tool_content_def)

lemma truncate_idem [simp]: "truncate_tool_content (truncate_tool_content c m) m = truncate_tool_content c m"
  by (cases "0 < m") (auto intro: truncate_short length_truncate)

lemma jget_truncate: "k \<noteq> ''content'' \<Longrightarrow> jget (truncate_msg m msg) k = jget msg k"
  by (auto simp: truncate_msg_def split: json.split)

lemma jget_truncate_other: "\<not> is_tool_msg msg \<Longrightarrow> truncate_msg m msg = msg"
  by (simp add: truncate_msg_def)

lemma truncate_kinds [simp]:
  "is_tool_msg (truncate_msg m msg) = is_tool_msg msg"
  "is_tool_batch_start (truncate_msg m msg) = is_tool_batch_start msg"
  "is_host_inject (truncate_msg m msg) = is_host_inject msg"
proof -
  show t: "is_tool_msg (truncate_msg m msg) = is_tool_msg msg"
    by (simp add: is_tool_msg_def jget_truncate)
  show "is_tool_batch_start (truncate_msg m msg) = is_tool_batch_start msg"
    by (simp add: is_tool_batch_start_def jget_truncate)
  show "is_host_inject (truncate_msg m msg) = is_host_inject msg"
  proof (cases "is_tool_msg msg")
    case True
    then show ?thesis by (simp add: is_host_inject_def jget_truncate is_tool_msg_def)
  qed (simp add: jget_truncate_other)
qed

lemma truncate_msg_idem [simp]: "truncate_msg m (truncate_msg m msg) = truncate_msg m msg"
proof (cases "is_tool_msg msg")
  case True
  have upd: "dset (dset msg k v) k v = dset msg k v" for k v by (induction msg) auto
  from True show ?thesis
    by (cases "jget msg ''content''") (simp_all add: truncate_msg_def is_tool_msg_def upd)
qed (simp add: jget_truncate_other)

lemma segments_truncate:
  "segments (map (truncate_msg m) chain) = map (map_prod id (map (truncate_msg m))) (segments chain)"
proof (induction chain rule: segments.induct)
  case (2 msg rest)
  have "takeWhile is_tool_msg (map (truncate_msg m) rest) = map (truncate_msg m) (takeWhile is_tool_msg rest)"
    and "dropWhile is_tool_msg (map (truncate_msg m) rest) = map (truncate_msg m) (dropWhile is_tool_msg rest)"
    by (simp_all add: takeWhile_map dropWhile_map comp_def)
  then show ?case using 2 by simp
qed simp

subsection \<open>What trimming keeps\<close>

text \<open>\<open>trimmed n chain chain'\<close>: \<open>chain'\<close> is \<open>chain\<close> without its \<open>n\<close> oldest batches, \<open>n\<close> smaller than their number.\<close>

definition trimmed :: "nat \<Rightarrow> message list \<Rightarrow> message list \<Rightarrow> bool" where
  "trimmed n chain chain' \<longleftrightarrow>
     segments chain' = (drop_first_batch ^^ n) (segments chain) \<and> (n = 0 \<or> n < batch_count chain)"

lemma trimmed_refl: "trimmed 0 chain chain"
  by (simp add: trimmed_def)

lemma batch_count_trimmed: "trimmed n chain chain' \<Longrightarrow> batch_count chain' = batch_count chain - n"
proof -
  have "length (filter is_batch ((drop_first_batch ^^ n) segs)) = length (filter is_batch segs) - n" for segs
    by (induction n) (simp_all add: batches_drop_first)
  then show "trimmed n chain chain' \<Longrightarrow> ?thesis" by (simp add: trimmed_def batch_count_def)
qed

lemma trimmed_drop_oldest:
  assumes "trimmed n chain chain'" and "drop_oldest_batch chain' = Some chain''"
  shows "trimmed (Suc n) chain chain''"
proof -
  have "1 < batch_count chain'" using assms(2) by (auto simp: drop_oldest_batch_eq split: if_splits)
  then show ?thesis
    using assms drop_oldest_batch_segments [OF assms(2)] batch_count_trimmed [OF assms(1)]
    by (simp add: trimmed_def)
qed

lemma trimmed_drop_while_over:
  "trimmed n chain chain' \<Longrightarrow> \<exists>n'. trimmed n' chain (drop_while_over b out chain')"
proof (induction b out chain' arbitrary: n rule: drop_while_over.induct)
  case (1 b out chain')
  show ?case
  proof (cases "over_budget b out chain'")
    case over: True
    show ?thesis
    proof (cases "drop_oldest_batch chain'")
      case None
      then have "drop_while_over b out chain' = chain'" by (subst drop_while_over.simps) simp
      then show ?thesis using 1(2) by auto
    next
      case (Some c)
      then have "drop_while_over b out chain' = drop_while_over b out c"
        using over by (subst drop_while_over.simps) simp
      then show ?thesis using 1(1) [OF over Some trimmed_drop_oldest [OF 1(2) Some]] by simp
    qed
  next
    case False
    then have "drop_while_over b out chain' = chain'" by (subst drop_while_over.simps) simp
    then show ?thesis using 1(2) by auto
  qed
qed

lemma drop_while_over_done:
  "\<not> over_budget b out (drop_while_over b out chain) \<or> batch_count (drop_while_over b out chain) \<le> 1"
proof (induction b out chain rule: drop_while_over.induct)
  case (1 b out chain)
  then show ?case
    by (subst (1 2) drop_while_over.simps) (auto simp: drop_oldest_batch_eq split: option.splits if_splits)
qed

lemma set_drop_while_over: "set (drop_while_over b out chain) \<subseteq> set chain"
proof (induction b out chain rule: drop_while_over.induct)
  case (1 b out chain)
  have sub: "set (concat (map snd (drop_first_batch segs))) \<subseteq> set (concat (map snd segs))" for segs
    by (induction segs rule: drop_first_batch.induct) auto
  have "set chain' \<subseteq> set chain" if "drop_oldest_batch chain = Some chain'" for chain'
    using that sub [of "segments chain"] by (auto simp: drop_oldest_batch_eq split: if_splits)
  note step = this
  show ?case
  proof (cases "over_budget b out chain \<and> drop_oldest_batch chain \<noteq> None")
    case True
    then obtain c where c: "over_budget b out chain" "drop_oldest_batch chain = Some c" by auto
    then have "drop_while_over b out chain = drop_while_over b out c" by (subst drop_while_over.simps) simp
    then show ?thesis using 1 [OF c] step [OF c(2)] by auto
  next
    case False
    then have "drop_while_over b out chain = chain" by (subst drop_while_over.simps) auto
    then show ?thesis by simp
  qed
qed

lemma truncate_after_trim:
  assumes "set chain \<subseteq> truncate_msg m ` A"
  shows "truncate_chain_tool_contents chain m = chain"
proof -
  have "\<forall>x\<in>set chain. truncate_msg m x = x" using assms by auto
  then show ?thesis by (simp add: truncate_chain_tool_contents_def map_idI)
qed

text \<open>
  In one step: whatever happens, the chain afterwards is the truncated chain without some of
  its oldest batches, and the outcome reports the outer meal it was trimmed against.
\<close>

lemma enforce_cases:
  assumes "enforce_in_turn_budget outer_prefix chain budget cap rebuild w = (r, chain', w')"
  defines "chain1 \<equiv> truncate_chain_tool_contents chain cap"
  shows "(\<exists>n. trimmed n chain1 chain') \<and> set chain' \<subseteq> set chain1 \<and>
    (\<forall>outer' did. r = Inr (outer', did) \<longrightarrow> \<not> over_budget budget outer' chain' \<or> batch_count chain' \<le> 1)"
proof (cases "over_budget budget outer_prefix chain1")
  case False
  then show ?thesis using assms trimmed_refl by (auto simp: enforce_in_turn_budget_def Let_def)
next
  case True
  define chain2 where "chain2 = drop_while_over budget outer_prefix chain1"
  obtain n where n: "trimmed n chain1 chain2"
    using trimmed_drop_while_over [OF trimmed_refl] chain2_def by blast
  have sub: "set chain2 \<subseteq> set chain1" by (simp add: chain2_def set_drop_while_over)
  have fits: "\<not> over_budget budget outer_prefix chain2 \<or> batch_count chain2 \<le> 1"
    unfolding chain2_def by (rule drop_while_over_done)
  show ?thesis
  proof (cases "over_budget budget outer_prefix chain2")
    case False
    then have "r = Inr (outer_prefix, False)" "chain' = chain2"
      using assms(1) True by (simp_all add: enforce_in_turn_budget_def chain1_def chain2_def)
    then show ?thesis using n sub False by auto
  next
    case over2: True
    then have "compress_chain_for_reouter chain2 = chain2" using fits by (simp add: compress_chain_short)
    moreover have "truncate_chain_tool_contents chain2 cap = chain2"
      using sub by (intro truncate_after_trim [of _ _ "set chain"])
        (simp add: chain1_def truncate_chain_tool_contents_def)
    ultimately have c3: "truncate_chain_tool_contents (compress_chain_for_reouter chain2) cap = chain2" by simp
    have *: "(\<exists>n. trimmed n chain1 (drop_while_over budget out chain2)) \<and>
        set (drop_while_over budget out chain2) \<subseteq> set chain1 \<and>
        (\<not> over_budget budget out (drop_while_over budget out chain2) \<or>
          batch_count (drop_while_over budget out chain2) \<le> 1)" for out
      using trimmed_drop_while_over [OF n, of budget out] set_drop_while_over [of budget out chain2] sub
        drop_while_over_done [of budget out chain2] by blast
    show ?thesis
    proof (cases rebuild)
      case None
      then have "r = Inr (outer_prefix, False)" "chain' = drop_while_over budget outer_prefix chain2"
        using assms(1) True over2 c3 by (simp_all add: enforce_in_turn_budget_def chain1_def chain2_def)
      then show ?thesis using * by auto
    next
      case (Some f)
      obtain x w1 where f: "f w = (x, w1)" by (rule prod.exhaust)
      show ?thesis
      proof (cases x)
        case (Inl e)
        then have "r = Inl e" "chain' = chain2"
          using assms(1) True over2 c3 Some f
          by (simp_all add: enforce_in_turn_budget_def chain1_def chain2_def)
        then show ?thesis using n sub by auto
      next
        case (Inr out)
        then have "r = Inr (out, True)" "chain' = drop_while_over budget out chain2"
          using assms(1) True over2 c3 Some f
          by (simp_all add: enforce_in_turn_budget_def chain1_def chain2_def)
        then show ?thesis using * by auto
      qed
    qed
  qed
qed

subsection \<open>Legal exchanges\<close>

text \<open>
  What the provider requires of a chain: the answers after an assistant message with tool calls
  are exactly the calls' ids in order, and no tool answer stands anywhere else.
\<close>

definition call_ids :: "message \<Rightarrow> json list" where
  "call_ids msg =
     (case jget msg ''tool_calls'' of
        JArr xs \<Rightarrow> map (\<lambda>x. case x of JObj d \<Rightarrow> jget d ''id'' | _ \<Rightarrow> JNull) xs
      | _ \<Rightarrow> [])"

fun seg_ok :: "span_kind \<times> message list \<Rightarrow> bool" where
  "seg_ok (k, []) = False"
| "seg_ok (k, m # ts) =
     (if k = Batch then map (\<lambda>t. jget t ''tool_call_id'') ts = call_ids m else \<not> is_tool_msg m)"

definition exchange_ok :: "message list \<Rightarrow> bool" where
  "exchange_ok chain = list_all seg_ok (segments chain)"

lemma exchange_ok_Nil [simp]: "exchange_ok []"
  by (simp add: exchange_ok_def)

lemma exchange_ok_append:
  "starts_fresh ys \<Longrightarrow> exchange_ok (xs @ ys) \<longleftrightarrow> exchange_ok xs \<and> exchange_ok ys"
  by (simp add: exchange_ok_def segments_append)

lemma exchange_ok_plain: "\<not> is_tool_msg m \<Longrightarrow> \<not> is_tool_batch_start m \<Longrightarrow> exchange_ok [m]"
  by (simp add: exchange_ok_def)

lemma exchange_ok_snoc:
  "\<not> is_tool_msg m \<Longrightarrow> \<not> is_tool_batch_start m \<Longrightarrow> exchange_ok (xs @ [m]) \<longleftrightarrow> exchange_ok xs"
  by (simp add: exchange_ok_append exchange_ok_plain starts_fresh_def)

lemma exchange_ok_batch:
  assumes "is_tool_batch_start m" and "\<And>t. t \<in> set ts \<Longrightarrow> is_tool_msg t"
    and "map (\<lambda>t. jget t ''tool_call_id'') ts = call_ids m"
  shows "exchange_ok (m # ts)"
proof -
  have t: "takeWhile is_tool_msg ts = ts" and d: "dropWhile is_tool_msg ts = []"
    using assms(2) by (simp_all add: takeWhile_eq_all_conv dropWhile_eq_Nil_conv)
  have "segments (m # ts) = [(Batch, m # ts)]"
    unfolding segments.simps(2) t d using assms(1) by simp
  then show ?thesis using assms(3) by (simp add: exchange_ok_def)
qed

lemma exchange_ok_truncate: "exchange_ok (truncate_chain_tool_contents chain m) = exchange_ok chain"
proof -
  have c: "call_ids (truncate_msg m x) = call_ids x" for x by (simp add: call_ids_def jget_truncate)
  have "seg_ok (map_prod id (map (truncate_msg m)) sp) = seg_ok sp" for sp
    by (cases sp rule: seg_ok.cases) (simp_all add: c comp_def jget_truncate)
  then show ?thesis
    by (simp add: exchange_ok_def truncate_chain_tool_contents_def segments_truncate list_all_iff)
qed

lemma exchange_ok_trimmed: "trimmed n chain chain' \<Longrightarrow> exchange_ok chain \<Longrightarrow> exchange_ok chain'"
proof -
  have step: "list_all seg_ok segs \<Longrightarrow> list_all seg_ok (drop_first_batch segs)" for segs
    by (induction segs rule: drop_first_batch.induct) auto
  have "list_all seg_ok segs \<Longrightarrow> list_all seg_ok ((drop_first_batch ^^ n) segs)" for segs
    by (induction n) (simp_all add: step)
  then show "trimmed n chain chain' \<Longrightarrow> exchange_ok chain \<Longrightarrow> ?thesis"
    by (simp add: trimmed_def exchange_ok_def)
qed

lemma enforce_exchange_ok:
  assumes "enforce_in_turn_budget outer_prefix chain budget cap rebuild w = (r, chain', w')"
    and "exchange_ok chain"
  shows "exchange_ok chain'"
  using enforce_cases [OF assms(1)] assms(2) exchange_ok_trimmed exchange_ok_truncate by metis

lemma enforce_tool_caps:
  assumes run: "enforce_in_turn_budget outer_prefix chain budget cap rebuild w = (r, chain', w')"
    and m: "m \<in> set chain'" "0 < cap" "is_tool_msg m" "jget m ''content'' = JStr c"
  shows "int (length c) \<le> cap"
proof -
  have "m \<in> set (truncate_chain_tool_contents chain cap)" using m(1) enforce_cases [OF run] by blast
  then obtain m0 where m0: "m = truncate_msg cap m0" by (auto simp: truncate_chain_tool_contents_def)
  then have "is_tool_msg m0" using m(3) by simp
  then obtain c0 where "c = truncate_tool_content c0 cap"
    using m(4) m0 by (cases "jget m0 ''content''") (auto simp: truncate_msg_def)
  then show ?thesis using length_truncate [OF m(2)] by simp
qed

text \<open>
  C16. Trimming to the in-turn budget. Whether it returns or the rebuild raises, \<open>enforce_in_turn_budget\<close>
  leaves the chain with its tool contents cut to the cap and some of its oldest batches, never the
  last one, removed whole; every other message stays in place, and a legal exchange stays legal. When
  it returns, outer meal and chain fit the budget or at most one batch is left, and a chain that
  already fits loses no batch.
\<close>

theorem enforce_in_turn_budget_trims:
  assumes run: "enforce_in_turn_budget outer_prefix chain budget cap rebuild w = (r, chain', w')"
  shows "(\<exists>n. (n = 0 \<or> n < batch_count chain) \<and>
      segments chain' = (drop_first_batch ^^ n) (map (map_prod id (map (truncate_msg cap))) (segments chain)))
    \<and> (exchange_ok chain \<longrightarrow> exchange_ok chain')
    \<and> (\<forall>m\<in>set chain'. \<forall>c. 0 < cap \<and> is_tool_msg m \<and> jget m ''content'' = JStr c \<longrightarrow> int (length c) \<le> cap)
    \<and> (\<forall>outer' did. r = Inr (outer', did) \<longrightarrow> \<not> over_budget budget outer' chain' \<or> batch_count chain' \<le> 1)
    \<and> (\<not> over_budget budget outer_prefix (truncate_chain_tool_contents chain cap) \<longrightarrow>
        r = Inr (outer_prefix, False) \<and> chain' = truncate_chain_tool_contents chain cap \<and> w' = w)"
proof -
  let ?c = "truncate_chain_tool_contents chain cap"
  obtain n where n: "trimmed n ?c chain'" using enforce_cases [OF run] by blast
  have "batch_count ?c = batch_count chain"
    by (simp add: batch_count_def truncate_chain_tool_contents_def segments_truncate filter_map comp_def is_batch_def [abs_def])
  then have 1: "(n = 0 \<or> n < batch_count chain) \<and>
      segments chain' = (drop_first_batch ^^ n) (map (map_prod id (map (truncate_msg cap))) (segments chain))"
    using n by (simp add: trimmed_def truncate_chain_tool_contents_def segments_truncate)
  have 5: "r = Inr (outer_prefix, False) \<and> chain' = ?c \<and> w' = w" if "\<not> over_budget budget outer_prefix ?c"
    using run that by (simp add: enforce_in_turn_budget_def Let_def)
  show ?thesis
    using 1 5 enforce_tool_caps [OF run] enforce_exchange_ok [OF run] enforce_cases [OF run] by blast
qed

definition demo_call :: "string \<Rightarrow> message" where
  "demo_call i = [(''role'', JStr ''assistant''), (''content'', JNull),
     (''tool_calls'', JArr [JObj [(''id'', JStr i), (''type'', JStr ''function'')]])]"

definition demo_answer :: "string \<Rightarrow> string \<Rightarrow> message" where
  "demo_answer i c = [(''role'', JStr ''tool''), (''tool_call_id'', JStr i), (''content'', JStr c)]"

definition demo_chain :: "message list" where
  "demo_chain = [demo_call ''a'', demo_answer ''a'' (replicate 60 CHR ''x''),
     [(''role'', JStr ''user''), (''content'', JStr ''HOST: go on'')],
     demo_call ''b'', demo_answer ''b'' ''ok'']"

theorem enforce_in_turn_budget_trims_witness:
  "enforce_in_turn_budget [] demo_chain 20 40 (None :: (unit \<Rightarrow> (loop_exc + message list) \<times> unit) option) () =
     (Inr ([], False), drop 2 demo_chain, ())
   \<and> exchange_ok demo_chain \<and> exchange_ok (drop 2 demo_chain)"
proof -
  have run: "enforce_in_turn_budget [] demo_chain 20 40
      (None :: (unit \<Rightarrow> (loop_exc + message list) \<times> unit) option) () =
      (Inr ([], False), drop 2 demo_chain, ())"
    by code_simp
  have "exchange_ok demo_chain" by code_simp
  then show ?thesis using run enforce_in_turn_budget_trims [OF run] by blast
qed

end
