(* ===== verification/Hygiene.thy ===== *)
theory Hygiene
  imports Prelude
begin

text \<open>
  Channel hygiene of completions (\<open>elyra/llm/reasoning_hygiene.py\<close>) over the completion values of
  \<open>elyra/llm/client.py\<close>: counting and removing channel-protocol markers, flood detection and
  \<open>sanitize_completion\<close>. The lemmas show that a completion without markers passes unchanged, that
  a text of markers and white space is emptied, and that removal is a single pass: markers that
  nest inside another leave a marker behind.
\<close>

record tool_call =
  tc_id :: string
  tc_name :: string
  arguments :: jdict
  arguments_raw :: string
  arguments_parse_ok :: bool

record chat_completion =
  content :: string
  reasoning_content :: string
  tool_calls :: "tool_call list"
  finish_reason :: "string option"

section \<open>Markers\<close>

definition CHANNEL_FLOOD_MIN_MARKERS :: int where "CHANNEL_FLOOD_MIN_MARKERS = 5"

text \<open>Length of the match of the marker expression at the start of a text, if it matches there.\<close>

definition marker_at :: "string \<Rightarrow> nat option" where
  "marker_at s =
     (if starts_ci ''<|channel|>'' s then Some (11 + length (takeWhile is_word (drop 11 s)))
      else if starts_ci ''<|channel>'' s then Some (10 + length (takeWhile is_word (drop 10 s)))
      else if starts_ci ''</channel'' s \<or> starts_ci ''<channel'' s
      then let k = (if starts_ci ''</channel'' s then 9 else 8); r = drop k s
           in if r \<noteq> [] \<and> \<not> is_word (hd r) \<and> CHR ''>'' \<in> set r
              then Some (Suc (k + length (takeWhile (\<lambda>c. c \<noteq> CHR ''>'') r))) else None
      else None)"

lemma marker_at_Nil [simp]: "marker_at [] = None"
  by (simp add: marker_at_def starts_ci_def lower_def)

text \<open>\<open>re.finditer\<close>: leftmost matches, one after the other; the pieces between them are kept.\<close>

function scan :: "string \<Rightarrow> nat \<times> string" where
  "scan s =
     (case marker_at s of
        Some (Suc n) \<Rightarrow> (let (k, out) = scan (drop (Suc n) s) in (Suc k, out))
      | _ \<Rightarrow> (case s of [] \<Rightarrow> (0, []) | c # cs \<Rightarrow> (let (k, out) = scan cs in (k, c # out))))"
  by pat_completeness auto

termination
proof (relation "measure length")
  show "(drop (Suc n) s, s) \<in> measure length" if "marker_at s = Some x2" and "x2 = Suc n" for s x2 n
    using that by (cases s) auto
qed auto

declare scan.simps [simp del]

definition channel_marker_count :: "string \<Rightarrow> int" where
  "channel_marker_count text = int (fst (scan text))"

definition is_channel_flood :: "string \<Rightarrow> bool" where
  "is_channel_flood text = (channel_marker_count text \<ge> CHANNEL_FLOOD_MIN_MARKERS)"

text \<open>\<open>re.sub(r"\n{3,}", "\n\n", s)\<close>.\<close>

function squeeze_blank_runs :: "string \<Rightarrow> string" where
  "squeeze_blank_runs s =
     (case s of
        [] \<Rightarrow> []
      | c # cs \<Rightarrow>
          let run = takeWhile (\<lambda>d. d = CHR 0x0A) s in
          if length run \<ge> 3 then [CHR 0x0A, CHR 0x0A] @ squeeze_blank_runs (drop (length run) s)
          else c # squeeze_blank_runs cs)"
  by pat_completeness auto

termination
  by (relation "measure length") auto

declare squeeze_blank_runs.simps [simp del]

text \<open>The loop that keeps at most one blank line in a row and none at the start.\<close>

fun compact_lines :: "string list \<Rightarrow> string list \<Rightarrow> int \<Rightarrow> string list" where
  "compact_lines kept [] blank_run = kept"
| "compact_lines kept (line # lns) blank_run =
     (if strip line = []
      then compact_lines (if blank_run + 1 \<le> 1 \<and> kept \<noteq> [] then kept @ [[]] else kept) lns (blank_run + 1)
      else compact_lines (kept @ [line]) lns 0)"

definition strip_channel_markers :: "string \<Rightarrow> string" where
  "strip_channel_markers text =
     (if text = [] then []
      else let cleaned = squeeze_blank_runs (snd (scan text));
               lines = map rstrip (splitlines cleaned)
           in strip (join [CHR 0x0A] (compact_lines [] lines 0)))"

section \<open>Completions\<close>

record hygiene_report =
  original_content_markers :: int
  original_reasoning_markers :: int
  content_changed :: bool
  reasoning_changed :: bool
  content_flood :: bool
  reasoning_flood :: bool

definition any_markers :: "hygiene_report \<Rightarrow> bool" where
  "any_markers h = (original_content_markers h > 0 \<or> original_reasoning_markers h > 0)"

definition any_flood :: "hygiene_report \<Rightarrow> bool" where
  "any_flood h = (content_flood h \<or> reasoning_flood h)"

definition any_change :: "hygiene_report \<Rightarrow> bool" where
  "any_change h = (content_changed h \<or> reasoning_changed h)"

definition sanitize_completion :: "chat_completion \<Rightarrow> chat_completion \<times> hygiene_report" where
  "sanitize_completion result =
     (let c_raw = content result; r_raw = reasoning_content result;
          c_n = channel_marker_count c_raw; r_n = channel_marker_count r_raw;
          c_clean = (if c_n \<noteq> 0 then strip_channel_markers c_raw else c_raw);
          r_clean = (if r_n \<noteq> 0 then strip_channel_markers r_raw else r_raw);
          report = \<lparr>original_content_markers = c_n, original_reasoning_markers = r_n,
                    content_changed = (c_clean \<noteq> c_raw), reasoning_changed = (r_clean \<noteq> r_raw),
                    content_flood = is_channel_flood c_raw, reasoning_flood = is_channel_flood r_raw\<rparr>
      in if \<not> any_change report then (result, report)
         else (result\<lparr>content := c_clean, reasoning_content := r_clean\<rparr>, report))"

section \<open>What sanitizing does\<close>

lemma strip_Nil [simp]: "strip [] = []"
  by (simp add: strip_def lstrip_def rstrip_def)

lemma strip_all_space: "list_all is_space s \<Longrightarrow> strip s = []"
  by (auto simp: strip_def lstrip_def rstrip_def list_all_iff dropWhile_eq_Nil_conv dest: set_dropWhileD)

lemma set_squeeze: "set (squeeze_blank_runs s) \<subseteq> set s"
proof (induction s rule: squeeze_blank_runs.induct)
  case (1 s)
  show ?case
  proof (cases s)
    case Nil
    then show ?thesis by (simp add: squeeze_blank_runs.simps)
  next
    case (Cons c cs)
    let ?run = "takeWhile (\<lambda>d. d = CHR 0x0A) s"
    show ?thesis
    proof (cases "length ?run \<ge> 3")
      case True
      then have "hd ?run \<in> set ?run" by (intro hd_in_set) auto
      then have nl: "CHR 0x0A \<in> set s" by (auto dest: set_takeWhileD)
      have "set (squeeze_blank_runs (drop (length ?run) s)) \<subseteq> set s"
        using 1(1) [OF Cons refl True] set_drop_subset by fastforce
      then show ?thesis using True nl Cons by (subst squeeze_blank_runs.simps) (simp add: Let_def)
    next
      case False
      have "set (squeeze_blank_runs cs) \<subseteq> set cs" using 1(2) [OF Cons refl False] .
      then show ?thesis using False Cons by (subst squeeze_blank_runs.simps) (auto simp: Let_def)
    qed
  qed
qed

lemma set_splitlines: "line \<in> set (splitlines s) \<Longrightarrow> set line \<subseteq> set s"
proof (induction s rule: splitlines.induct)
  case (1 s)
  show ?case
  proof (cases "dropWhile (\<lambda>c. \<not> is_line_break c) s")
    case Nil
    then have "splitlines s = (if s = [] then [] else [s])"
      by (subst splitlines.simps) (simp only: list.case)
    then show ?thesis using 1(2) by (simp split: if_splits)
  next
    case (Cons c rest)
    let ?next = "case rest of d # rest' \<Rightarrow> if code c = 13 \<and> code d = 10 then rest' else rest | [] \<Rightarrow> []"
    have "set rest \<subseteq> set s" using Cons by (metis set_dropWhileD set_subset_Cons subset_code(1) subset_iff)
    then have nxt: "set ?next \<subseteq> set s" by (auto split: list.splits)
    have "line = takeWhile (\<lambda>c. \<not> is_line_break c) s \<or> line \<in> set (splitlines ?next)"
      using 1(2) unfolding splitlines.simps [of s] Cons by simp
    then show ?thesis using 1(1) [OF Cons] nxt by (auto dest: set_takeWhileD)
  qed
qed

lemma compact_lines_blank:
  "\<forall>line\<in>set lns. strip line = [] \<Longrightarrow> compact_lines [] lns n = []"
  by (induction lns arbitrary: n) auto

lemma strip_rstrip_space: "list_all is_space s \<Longrightarrow> strip (rstrip s) = []"
proof -
  assume "list_all is_space s"
  moreover have "set (rstrip s) \<subseteq> set s"
    unfolding rstrip_def using set_dropWhileD by fastforce
  ultimately show ?thesis by (intro strip_all_space) (auto simp: list_all_iff)
qed

lemma strip_pure_markers:
  assumes "list_all is_space (snd (scan text))"
  shows "strip_channel_markers text = []"
proof -
  let ?lines = "map rstrip (splitlines (squeeze_blank_runs (snd (scan text))))"
  have "strip line = []" if "line \<in> set ?lines" for line
  proof -
    from that obtain l where l: "line = rstrip l" "l \<in> set (splitlines (squeeze_blank_runs (snd (scan text))))"
      by auto
    then have "list_all is_space l"
      using assms set_splitlines [OF l(2)] set_squeeze by (fastforce simp: list_all_iff)
    then show ?thesis by (simp add: l(1) strip_rstrip_space)
  qed
  then show ?thesis by (simp add: strip_channel_markers_def Let_def compact_lines_blank)
qed

text \<open>
  Sanitizing a completion. A field without channel markers is kept as it is; a field that is
  nothing but markers and white space becomes empty; tool calls and the finish reason are never
  touched; and a flood is always reported with its markers.
\<close>

theorem sanitize_completion_effect:
  assumes "sanitize_completion r = (r', h)"
  shows "(channel_marker_count (content r) = 0 \<longrightarrow> content r' = content r)
    \<and> (channel_marker_count (reasoning_content r) = 0 \<longrightarrow> reasoning_content r' = reasoning_content r)
    \<and> (channel_marker_count (content r) \<noteq> 0 \<and> list_all is_space (snd (scan (content r))) \<longrightarrow> content r' = [])
    \<and> (channel_marker_count (reasoning_content r) \<noteq> 0 \<and> list_all is_space (snd (scan (reasoning_content r))) \<longrightarrow>
        reasoning_content r' = [])
    \<and> tool_calls r' = tool_calls r \<and> finish_reason r' = finish_reason r
    \<and> (any_flood h \<longrightarrow> any_markers h)"
proof -
  have eq: "content r' = (if channel_marker_count (content r) \<noteq> 0 then strip_channel_markers (content r) else content r)"
    "reasoning_content r' = (if channel_marker_count (reasoning_content r) \<noteq> 0
       then strip_channel_markers (reasoning_content r) else reasoning_content r)"
    "tool_calls r' = tool_calls r" "finish_reason r' = finish_reason r"
    using assms by (auto simp: sanitize_completion_def Let_def any_change_def split: if_splits)
  have "any_flood h \<longrightarrow> any_markers h"
    using assms by (auto simp: sanitize_completion_def Let_def any_flood_def any_markers_def is_channel_flood_def
        CHANNEL_FLOOD_MIN_MARKERS_def split: if_splits)
  then show ?thesis using eq strip_pure_markers by simp
qed

definition demo_completion :: chat_completion where
  "demo_completion = \<lparr>content = ''ok'',
     reasoning_content = ''<CHANNEL></channel><|channel>thought <channel|><channel>'',
     tool_calls = [], finish_reason = None\<rparr>"

theorem sanitize_completion_effect_witness:
  "fst (sanitize_completion demo_completion) = demo_completion\<lparr>reasoning_content := []\<rparr>
   \<and> any_flood (snd (sanitize_completion demo_completion))"
proof -
  obtain r h where rh: "sanitize_completion demo_completion = (r, h)" by (rule prod.exhaust)
  have "scan (content demo_completion) = (0, ''ok'')" by code_simp
  then have c: "channel_marker_count (content demo_completion) = 0" by (simp add: channel_marker_count_def)
  have sc: "scan (reasoning_content demo_completion) = (5, '' '')" by code_simp
  then have n: "channel_marker_count (reasoning_content demo_completion) = 5"
    "list_all is_space (snd (scan (reasoning_content demo_completion)))"
    by (simp_all add: channel_marker_count_def is_space_def code_def)
  then have "content r = content demo_completion" "reasoning_content r = []"
    "tool_calls r = tool_calls demo_completion" "finish_reason r = finish_reason demo_completion"
    using sanitize_completion_effect [OF rh] c by auto
  then have "r = demo_completion\<lparr>reasoning_content := []\<rparr>" by (simp add: chat_completion.equality)
  moreover have "is_channel_flood (reasoning_content demo_completion)"
    by (simp add: is_channel_flood_def n CHANNEL_FLOOD_MIN_MARKERS_def)
  then have "any_flood (snd (sanitize_completion demo_completion))"
    by (simp add: sanitize_completion_def Let_def any_flood_def)
  ultimately show ?thesis by (simp add: rh)
qed

text \<open>
  Removal is one pass. A marker split by another marker is put together by the removal: the
  sanitized text then holds a channel marker again, so stored text and chain fuel can carry one.
\<close>

theorem nested_marker_survives:
  "strip_channel_markers ''<|chan<channel>nel>thought'' = ''<|channel>thought''
   \<and> channel_marker_count (strip_channel_markers ''<|chan<channel>nel>thought'') = 1"
  by code_simp

end
