(* ===== verification/Do_Loop.thy ===== *)
theory Do_Loop
  imports Chain Hygiene
begin

text \<open>
  The multi-hop do-loop of one moment (\<open>elyra/loop/doloop.py\<close>, second half): its state, the
  execution of a tool batch, the free-text nudges, one iteration of the loop and the loop itself,
  with the mapping of exceptions to results. The chat client, the tool registry, the clock, the
  meal builder, the moment and memory stores and the host's hooks are the fields of an
  environment record over an abstract world: the theorems hold for every environment.
\<close>

section \<open>Data\<close>

record wait_arm =
  wait_id :: string
  timeout_seconds :: int
  prompt :: string
  choices :: "string list"
  user_id :: string

record tool_result =
  tr_ok :: bool
  payload :: json
  error_reason :: "string option"
  ends_moment :: bool
  stop_reason :: "string option"
  arm_wait :: "wait_arm option"
  counts_as_speak :: bool

text \<open>The meal meter of \<open>context_meter.py\<close>, module-level state the loop updates before every call.\<close>

record meal_meter =
  meal_used_tokens :: int
  meal_budget_tokens :: int
  model_window_tokens :: int
  meter_hop :: "int option"
  meter_moment_id :: "string option"

definition reset_meter :: meal_meter where
  "reset_meter = \<lparr>meal_used_tokens = 0, meal_budget_tokens = DEFAULT_SLIDING_INPUT_TOKENS,
     model_window_tokens = MODEL_CONTEXT_WINDOW_TOKENS, meter_hop = None, meter_moment_id = None\<rparr>"

definition record_meal ::
  "int \<Rightarrow> int option \<Rightarrow> int option \<Rightarrow> int option \<Rightarrow> string option \<Rightarrow> meal_meter \<Rightarrow> meal_meter" where
  "record_meal used budget window hop_opt moment m =
     \<lparr>meal_used_tokens = max 0 used,
      meal_budget_tokens = (case budget of None \<Rightarrow> meal_budget_tokens m | Some b \<Rightarrow> max 1 b),
      model_window_tokens = (case window of None \<Rightarrow> model_window_tokens m | Some x \<Rightarrow> max 1 x),
      meter_hop = (case hop_opt of None \<Rightarrow> meter_hop m | Some h \<Rightarrow> Some h),
      meter_moment_id = (case moment of None \<Rightarrow> meter_moment_id m | Some i \<Rightarrow> Some i)\<rparr>"

text \<open>
  \<open>_LoopState\<close>, followed by what the loop reads and writes outside it: the world of the
  environment, the meter, and two logs of the model that only grow, the beats handed to
  \<open>_record_beat\<close> and the requests sent to the client (outer meal, chain and tool choice).
\<close>

record 'w loop_state =
  outer_prefix :: "message list"
  chain_messages :: "message list"
  hop :: int
  spoke :: bool
  last_activity :: pytime
  continue_injects :: int
  no_speak_nudge_sent :: bool
  answer_speak_nudge_sent :: bool
  work_continue_injects :: int
  pending_skill_commit :: "string option"
  skill_commit_sent :: bool
  skill_commit_injects :: int
  tools_ran :: bool
  spoke_since_non_speak_tool :: bool
  ledger_mutated :: bool
  model_beats :: int
  channel_flood_beats :: int
  last_stop_hop_was_flood :: bool
  armed_wait :: "wait_arm option"
  reouter_count :: int
  thrash_last_fp :: "string option"
  thrash_streak :: int
  thrash_last_ok :: "bool option"
  thrash_last_error :: "string option"
  thrash_last_tool :: "string option"
  thrash_host_sent :: int
  thrash_tried :: "string list"
  lessons :: "string list"
  lesson_request_sent :: bool
  lesson_captured :: bool
  lesson_pin_message :: "string option"
  lesson_fails_since_request :: int
  lesson_synth_fp :: "string option"
  thrash_skip_count :: int
  world :: 'w
  meter :: meal_meter
  beats :: "jdict list"
  requests :: "(message list \<times> message list \<times> json option) list"

record do_loop_result =
  r_stop_reason :: string
  r_hop_count :: int
  r_arm_wait :: "wait_arm option"
  r_spoke :: bool
  r_moment_id :: string
  r_reouter_count :: int
  r_continue_injects :: int
  r_work_continue_injects :: int
  r_skill_commit_injects :: int
  r_thrash_host_injects :: int
  r_thrash_skips :: int
  r_tools_ran :: bool
  r_ledger_mutated :: bool
  r_model_beats :: int
  r_channel_flood_beats :: int
  r_last_stop_hop_was_flood :: bool
  r_error :: "string option"

text \<open>A callback a tool handler makes on its context while it runs.\<close>

datatype hook = MarkSpoke | MarkTaskChanged

text \<open>
  The environment. A call that may raise returns its exception on the left; a call whose
  exceptions the loop swallows returns \<open>None\<close>, or just the new world, for a failure.
  \<open>run_tool\<close> also returns the callbacks the handler made, in order. \<open>append_beat\<close> is \<open>None\<close> when no
  moment store was given, \<open>promote\<close> when atoms are not written; \<open>loads\<close> is \<open>json.loads\<close>.
\<close>

record 'w loop_env =
  clock :: "'w \<Rightarrow> pytime \<times> 'w"
  chat :: "message list \<Rightarrow> json option \<Rightarrow> 'w \<Rightarrow> (loop_exc + chat_completion) \<times> 'w"
  run_tool :: "string \<Rightarrow> jdict \<Rightarrow> 'w \<Rightarrow> (loop_exc + tool_result) \<times> hook list \<times> 'w"
  rebuild_outer :: "('w \<Rightarrow> (loop_exc + message list) \<times> 'w) option"
  drain_interjections_fn :: "('w \<Rightarrow> json list option \<times> 'w) option"
  viewing_dirty_fn :: "('w \<Rightarrow> bool option \<times> 'w) option"
  clear_viewing_dirty_fn :: "('w \<Rightarrow> 'w) option"
  host_spoke :: "('w \<Rightarrow> 'w) option"
  host_task :: "('w \<Rightarrow> 'w) option"
  append_beat :: "(string \<Rightarrow> jdict \<Rightarrow> 'w \<Rightarrow> bool \<times> 'w) option"
  promote :: "(string \<Rightarrow> jdict \<Rightarrow> 'w \<Rightarrow> 'w) option"
  sleep :: "rat \<Rightarrow> 'w \<Rightarrow> 'w"
  loads :: "string \<Rightarrow> json option"

record loop_config =
  moment_id :: string
  social_wake :: bool
  wake_kind :: string
  has_open_goals_slice :: bool
  continuous_enabled :: bool
  work_nudge_max :: int
  hop_delay_seconds :: rat
  started :: pytime
  budget :: int
  tool_cap :: int
  max_hops :: int
  loop :: loop_settings

section \<open>Messages\<close>

definition NO_SPEAK_NUDGE :: string where
  "NO_SPEAK_NUDGE =
     ''HOST: no speak tool used '' @ em_dash @ '' if the user needs a reply, call speak; otherwise stop.''"

definition SPEAK_TOOL_CHOICE :: json where
  "SPEAK_TOOL_CHOICE = JObj [(''type'', JStr ''function''), (''function'', JObj [(''name'', JStr ''speak'')])]"

definition social_first_hop_tool_choice :: "bool \<Rightarrow> int \<Rightarrow> json option" where
  "social_first_hop_tool_choice social hop_now =
     (if social \<and> hop_now = 0 then Some SPEAK_TOOL_CHOICE else None)"

definition opt_str :: "string option \<Rightarrow> json" where
  "opt_str x = (case x of None \<Rightarrow> JNull | Some s \<Rightarrow> JStr s)"

definition dict_of :: "json \<Rightarrow> jdict" where
  "dict_of j = (case j of JObj d \<Rightarrow> d | _ \<Rightarrow> [])"

definition serialize_tool_result :: "tool_result \<Rightarrow> jdict" where
  "serialize_tool_result tr =
     (let body0 = [(''ok'', JBool (tr_ok tr))];
          body1 = (case error_reason tr of None \<Rightarrow> body0 | Some e \<Rightarrow> dset body0 ''error_reason'' (JStr e))
      in foldl (\<lambda>body (k, v). if k \<in> set (dkeys body) then body else dset body k v) body1 (dict_of (payload tr)))"

definition as_str_opt :: "json \<Rightarrow> string option" where
  "as_str_opt j = (case j of JStr s \<Rightarrow> Some s | _ \<Rightarrow> None)"

definition is_playbook :: "tool_result \<Rightarrow> string \<Rightarrow> bool" where
  "is_playbook tr tool_name =
     (tool_name = ''load_skill'' \<and> tr_ok tr \<and> is_obj (payload tr) \<and>
      \<not> blank_str (as_str_opt (jget (dict_of (payload tr)) ''body'')))"

text \<open>Payloads are JSON values here, so the fallback for an unserialisable one does not arise.\<close>

definition tool_result_to_content :: "tool_result \<Rightarrow> int \<Rightarrow> string \<Rightarrow> string" where
  "tool_result_to_content tr max_chars tool_name =
     (if is_playbook tr tool_name
      then let p = dict_of (payload tr);
               name = str_or (as_str_opt (jget p ''name'')) ''unknown''
           in truncate_tool_content
                (format_playbook_active name (the (as_str_opt (jget p ''body'')))
                   (as_str_opt (jget p ''source'')) (as_str_opt (jget p ''description''))) max_chars
      else truncate_tool_content (dumps_plain (JObj (serialize_tool_result tr))) max_chars)"

definition SECRET_WRITE_TOOLS :: "string list" where "SECRET_WRITE_TOOLS = [''secrets_set'']"
definition REDACT_PLACEHOLDER :: string where "REDACT_PLACEHOLDER = ''***''"

definition redact_tool_call_arguments :: "jdict \<Rightarrow> jdict" where
  "redact_tool_call_arguments args =
     map (\<lambda>(k, v). (k, if k \<in> set SECRET_WRITE_ARG_KEYS then JStr REDACT_PLACEHOLDER else v)) args"

definition chain_function_arguments :: "'w loop_env \<Rightarrow> tool_call \<Rightarrow> string" where
  "chain_function_arguments E tc =
     (if tc_name tc \<in> set SECRET_WRITE_TOOLS
      then let args =
             (if arguments_parse_ok tc then arguments tc
              else case (if arguments_raw tc = [] then Some (JObj []) else loads E (arguments_raw tc)) of
                     Some (JObj d) \<Rightarrow> d | _ \<Rightarrow> [])
           in dumps_plain (JObj (redact_tool_call_arguments args))
      else if arguments_raw tc \<noteq> [] then arguments_raw tc
      else dumps_plain (JObj (arguments tc)))"

definition call_entry :: "'w loop_env \<Rightarrow> tool_call \<Rightarrow> json" where
  "call_entry E tc =
     JObj [(''id'', JStr (tc_id tc)), (''type'', JStr ''function''),
       (''function'', JObj [(''name'', JStr (tc_name tc)), (''arguments'', JStr (chain_function_arguments E tc))])]"

definition assistant_message_from_result :: "'w loop_env \<Rightarrow> chat_completion \<Rightarrow> bool \<Rightarrow> message" where
  "assistant_message_from_result E result include_reasoning =
     (let rc = strip (reasoning_content result)
      in [(''role'', JStr ''assistant''),
          (''content'', if content result \<noteq> [] then JStr (content result) else JNull)]
         @ (if tool_calls result \<noteq> [] then [(''tool_calls'', JArr (map (call_entry E) (tool_calls result)))] else [])
         @ (if include_reasoning \<and> rc \<noteq> [] \<and> \<not> is_channel_flood rc
            then [(''reasoning_content'', JStr (reasoning_content result))] else []))"

definition obs_user_message :: "string \<Rightarrow> message" where
  "obs_user_message text = [(''role'', JStr ''user''), (''content'', JStr text)]"

definition say :: "string \<Rightarrow> 'w loop_state \<Rightarrow> 'w loop_state" where
  "say text s = s\<lparr>chain_messages := chain_messages s @ [obs_user_message text]\<rparr>"

section \<open>Beats, hooks and the clock\<close>

definition record_beat :: "'w loop_env \<Rightarrow> loop_config \<Rightarrow> jdict \<Rightarrow> 'w loop_state \<Rightarrow> 'w loop_state" where
  "record_beat E C beat s0 =
     (let s = s0\<lparr>beats := beats s0 @ [beat]\<rparr>;
          (ok, w) = (case append_beat E of
              Some f \<Rightarrow> if moment_id C \<noteq> [] then f (moment_id C) beat (world s) else (True, world s)
            | None \<Rightarrow> (True, world s));
          w' = (if ok then (case promote E of None \<Rightarrow> w | Some p \<Rightarrow> p (moment_id C) beat w) else w)
      in s\<lparr>world := w'\<rparr>)"

definition obs_beat :: "string \<Rightarrow> string \<Rightarrow> jdict" where
  "obs_beat kind text = [(''type'', JStr ''obs''), (''kind'', JStr kind), (''content'', JStr text)]"

definition now_step :: "'w loop_env \<Rightarrow> 'w loop_state \<Rightarrow> pytime \<times> 'w loop_state" where
  "now_step E s = (let (t, w) = clock E (world s) in (t, s\<lparr>world := w\<rparr>))"

definition host_call :: "('w \<Rightarrow> 'w) option \<Rightarrow> 'w loop_state \<Rightarrow> 'w loop_state" where
  "host_call f s = (case f of None \<Rightarrow> s | Some g \<Rightarrow> s\<lparr>world := g (world s)\<rparr>)"

definition mark_spoke :: "'w loop_env \<Rightarrow> 'w loop_state \<Rightarrow> 'w loop_state" where
  "mark_spoke E s =
     (let (t, s1) = now_step E (s\<lparr>spoke := True\<rparr>)
      in host_call (host_spoke E) (s1\<lparr>last_activity := t\<rparr>))"

definition mark_task_changed :: "'w loop_env \<Rightarrow> 'w loop_state \<Rightarrow> 'w loop_state" where
  "mark_task_changed E s =
     (let (t, s1) = now_step E s
      in host_call (host_task E) (s1\<lparr>last_activity := t, ledger_mutated := True\<rparr>))"

fun run_hook :: "'w loop_env \<Rightarrow> hook \<Rightarrow> 'w loop_state \<Rightarrow> 'w loop_state" where
  "run_hook E MarkSpoke s = mark_spoke E s"
| "run_hook E MarkTaskChanged s = mark_task_changed E s"

section \<open>Lessons\<close>

definition has_pin :: "string \<Rightarrow> message list \<Rightarrow> bool" where
  "has_pin pin chain = list_ex (\<lambda>m. jget m ''role'' = JStr ''user'' \<and> jget m ''content'' = JStr pin) chain"

definition ensure_lesson_pin_in_chain :: "'w loop_state \<Rightarrow> 'w loop_state" where
  "ensure_lesson_pin_in_chain s =
     (if blank_str (lesson_pin_message s) then s
      else if has_pin (the (lesson_pin_message s)) (chain_messages s) then s
      else say (the (lesson_pin_message s)) s)"

definition store_and_pin_lesson ::
  "'w loop_env \<Rightarrow> loop_config \<Rightarrow> string \<Rightarrow> bool \<Rightarrow> 'w loop_state \<Rightarrow> 'w loop_state" where
  "store_and_pin_lesson E C lesson synthesized s =
     (let body = strip lesson in
      if body = [] then s
      else
        let pin = lesson_pin_host_message body;
            s1 = s\<lparr>lessons := last_n MAX_LESSON_PINS (lessons s @ [body]), lesson_captured := True,
                   lesson_pin_message := Some pin\<rparr>;
            s2 = (if has_pin pin (chain_messages s1) then s1 else say pin s1)
        in record_beat E C (obs_beat ''lesson_pin'' pin @ [(''synthesized'', JBool synthesized)]) s2)"

definition maybe_capture_free_text_lesson ::
  "'w loop_env \<Rightarrow> loop_config \<Rightarrow> string \<Rightarrow> bool \<Rightarrow> 'w loop_state \<Rightarrow> 'w loop_state" where
  "maybe_capture_free_text_lesson E C text hop_was_flood s =
     (if \<not> lesson_request_sent s \<or> lesson_captured s then s
      else if hop_was_flood then s
      else if strip text = [] then s
      else let lesson = compact_lesson (strip text)
           in if lesson = [] then s else store_and_pin_lesson E C lesson False s)"

section \<open>One tool call\<close>

definition execute_one ::
  "'w loop_env \<Rightarrow> tool_call \<Rightarrow> 'w loop_state \<Rightarrow> (loop_exc + tool_result) \<times> 'w loop_state" where
  "execute_one E tc s =
     (if \<not> arguments_parse_ok tc
      then (Inr \<lparr>tr_ok = False, payload = JObj [], error_reason = Some ''invalid_json_arguments'',
                 ends_moment = False, stop_reason = None, arm_wait = None, counts_as_speak = False\<rparr>, s)
      else let (r, hooks, w) = run_tool E (tc_name tc) (arguments tc) (world s)
           in (r, fold (run_hook E) hooks (s\<lparr>world := w\<rparr>)))"

definition skipped_identical_result :: "jdict \<Rightarrow> int \<Rightarrow> string option \<Rightarrow> tool_result" where
  "skipped_identical_result args_echo attempt prior_error =
     \<lparr>tr_ok = False,
      payload = JObj [(''blocked_duplicate'', JBool True), (''prior_error_reason'', opt_str prior_error),
        (''attempt'', JInt attempt), (''args_echo'', JObj args_echo),
        (''next_actions'', JArr [JStr ''change tool or arguments'', JStr ''or free-text stop / thrash lesson'']),
        (''do_not'', JArr [JStr ''repeat this exact call'']),
        (''host_note'', JStr (''HOST skipped re-exec of identical failing call '' @ em_dash @ '' visible by design''))],
      error_reason = Some ''skipped_identical'', ends_moment = False, stop_reason = None,
      arm_wait = None, counts_as_speak = False\<rparr>"

definition call_args :: "tool_call \<Rightarrow> jdict" where
  "call_args tc = (if arguments_parse_ok tc then arguments tc else [])"

text \<open>Execution, or the synthetic result of the skip-identical path; the flag says which.\<close>

definition execute_or_skip ::
  "'w loop_env \<Rightarrow> tool_call \<Rightarrow> 'w loop_state \<Rightarrow> (loop_exc + tool_result) \<times> bool \<times> 'w loop_state" where
  "execute_or_skip E tc s =
     (let fp = tool_fingerprint (tc_name tc) (Some (call_args tc)) in
      if thrash_last_fp s = Some fp \<and>
         sk_skip (should_skip_identical SKIP_IDENTICAL_ENABLED (thrash_streak s) (thrash_last_ok s)
           (thrash_skip_count s) SKIP_IDENTICAL_AFTER MAX_SKIPS_PER_MOMENT)
      then (Inr (skipped_identical_result (redact_tool_call_arguments (call_args tc)) (thrash_streak s + 1)
                   (thrash_last_error s)),
            True, s\<lparr>thrash_skip_count := thrash_skip_count s + 1\<rparr>)
      else let (r, s') = execute_one E tc s in (r, False, s'))"

definition note_tried :: "string \<Rightarrow> string list \<Rightarrow> string list" where
  "note_tried fp tried = (if fp \<in> set tried then tried else last_n THRASH_TRIED_CAP (tried @ [fp]))"

definition note_thrash :: "thrash_update \<Rightarrow> 'w loop_state \<Rightarrow> 'w loop_state" where
  "note_thrash upd s =
     s\<lparr>thrash_last_fp := Some (tu_fingerprint upd), thrash_streak := tu_streak upd,
       thrash_last_ok := Some (tu_ok upd), thrash_last_error := tu_error_reason upd,
       thrash_last_tool := Some (tu_tool_name upd),
       thrash_tried := note_tried (tu_fingerprint upd) (thrash_tried s)\<rparr>"

definition count_lesson_fails :: "thrash_update \<Rightarrow> 'w loop_state \<Rightarrow> 'w loop_state" where
  "count_lesson_fails upd s =
     (if lesson_request_sent s \<and> \<not> lesson_captured s
      then if \<not> tu_ok upd \<and> lesson_synth_fp s = Some (tu_fingerprint upd)
           then s\<lparr>lesson_fails_since_request := lesson_fails_since_request s + 1\<rparr>
           else if \<not> tu_ok upd
           then s\<lparr>lesson_synth_fp := Some (tu_fingerprint upd), lesson_fails_since_request := 1\<rparr>
           else s\<lparr>lesson_fails_since_request := 0, lesson_synth_fp := None\<rparr>
      else s)"

definition tool_message :: "tool_call \<Rightarrow> string \<Rightarrow> message" where
  "tool_message tc text =
     [(''role'', JStr ''tool''), (''tool_call_id'', JStr (tc_id tc)), (''content'', JStr text)]"

text \<open>\<open>s[:n]\<close>, also for a negative \<open>n\<close>.\<close>

definition take_py :: "int \<Rightarrow> string \<Rightarrow> string" where
  "take_py n s = (if n \<ge> 0 then take (nat n) s else take (length s - nat (- n)) s)"

definition tool_beat :: "tool_call \<Rightarrow> tool_result \<Rightarrow> string \<Rightarrow> jdict" where
  "tool_beat tc tr text =
     [(''type'', JStr ''tool''), (''name'', JStr (tc_name tc)), (''tool_call_id'', JStr (tc_id tc)),
      (''ok'', JBool (tr_ok tr)), (''error_reason'', opt_str (error_reason tr)),
      (''ends_moment'', JBool (ends_moment tr)), (''content'', JStr text)]"

definition skip_beat :: "tool_call \<Rightarrow> thrash_update \<Rightarrow> int \<Rightarrow> string option \<Rightarrow> string \<Rightarrow> jdict" where
  "skip_beat tc upd skips prior_error text =
     [(''type'', JStr ''obs''), (''kind'', JStr ''tool_skip_identical''), (''name'', JStr (tc_name tc)),
      (''fingerprint'', JStr (tu_fingerprint upd)), (''streak'', JInt (tu_streak upd)),
      (''skip_count'', JInt skips), (''prior_error_reason'', opt_str prior_error), (''content'', JStr text)]"

definition nonblank_str :: "json \<Rightarrow> string option" where
  "nonblank_str j = (case j of JStr s \<Rightarrow> if strip s \<noteq> [] then Some (strip s) else None | _ \<Rightarrow> None)"

definition skill_name_from_load :: "tool_call \<Rightarrow> tool_result \<Rightarrow> string option" where
  "skill_name_from_load tc tr =
     (case nonblank_str (jget (dict_of (payload tr)) ''name'') of
        Some n \<Rightarrow> Some n
      | None \<Rightarrow> if arguments_parse_ok tc then nonblank_str (jget (arguments tc) ''name'') else None)"

definition arm_skill_commit :: "tool_call \<Rightarrow> tool_result \<Rightarrow> 'w loop_state \<Rightarrow> 'w loop_state" where
  "arm_skill_commit tc tr s =
     (if tr_ok tr \<and> tc_name tc = ''load_skill''
      then (case skill_name_from_load tc tr of
              Some name \<Rightarrow>
                if name \<noteq> [] \<and> is_commit_eligible_skill name then s\<lparr>pending_skill_commit := Some name\<rparr>
                else s\<lparr>pending_skill_commit := None\<rparr>
            | None \<Rightarrow> s\<lparr>pending_skill_commit := None\<rparr>)
      else if tr_ok tr then s\<lparr>pending_skill_commit := None\<rparr>
      else s)"

definition note_progress :: "'w loop_env \<Rightarrow> tool_result \<Rightarrow> 'w loop_state \<Rightarrow> 'w loop_state" where
  "note_progress E tr s =
     (let s1 = (if tr_ok tr \<and> \<not> counts_as_speak tr
                then s\<lparr>tools_ran := True, spoke_since_non_speak_tool := False\<rparr> else s)
      in if counts_as_speak tr \<and> tr_ok tr then mark_spoke E (s1\<lparr>spoke_since_non_speak_tool := True\<rparr>) else s1)"

text \<open>The body of the \<open>for\<close> loop after the result is there.\<close>

definition absorb_result ::
  "'w loop_env \<Rightarrow> loop_config \<Rightarrow> tool_call \<Rightarrow> tool_result \<Rightarrow> bool \<Rightarrow> string option \<Rightarrow> 'w loop_state \<Rightarrow>
   string option \<times> 'w loop_state" where
  "absorb_result E C tc tr0 skipped prior_error s =
     (let upd = update_thrash_streak (thrash_last_fp s) (thrash_streak s) (tc_name tc) (Some (call_args tc))
                  (tr_ok tr0) (error_reason tr0);
          s1 = count_lesson_fails upd (note_thrash upd s);
          tr = tr0\<lparr>payload := JObj (dset (dict_of (payload tr0)) ''attempt'' (JInt (tu_streak upd)))\<rparr>;
          text = tool_result_to_content tr (tool_cap C) (tc_name tc);
          s2 = record_beat E C (tool_beat tc tr (take_py (tool_cap C) text))
                 (s1\<lparr>chain_messages := chain_messages s1 @ [tool_message tc text]\<rparr>);
          s3 = (if skipped
                then record_beat E C (skip_beat tc upd (thrash_skip_count s2) prior_error
                       (take_py (tool_cap C) text)) s2
                else s2);
          s4 = note_progress E tr (arm_skill_commit tc tr s3)
      in if ends_moment tr
         then (Some (str_or (stop_from_tool_result True (stop_reason tr)) ''policy''),
               (case arm_wait tr of None \<Rightarrow> s4 | Some a \<Rightarrow> s4\<lparr>armed_wait := Some a\<rparr>))
         else (None, s4))"

definition tool_step ::
  "'w loop_env \<Rightarrow> loop_config \<Rightarrow> tool_call \<Rightarrow> 'w loop_state \<Rightarrow> (loop_exc + string option) \<times> 'w loop_state" where
  "tool_step E C tc s =
     (case execute_or_skip E tc s of
        (Inl e, _, s') \<Rightarrow> (Inl e, s')
      | (Inr tr, skipped, s') \<Rightarrow>
          (let (stop, s'') = absorb_result E C tc tr skipped (if skipped then thrash_last_error s else None) s'
           in (Inr stop, s'')))"

fun tool_calls_loop ::
  "'w loop_env \<Rightarrow> loop_config \<Rightarrow> tool_call list \<Rightarrow> 'w loop_state \<Rightarrow> (loop_exc + string option) \<times> 'w loop_state" where
  "tool_calls_loop E C [] s = (Inr None, s)"
| "tool_calls_loop E C (tc # tcs) s =
     (case tool_step E C tc s of
        (Inr None, s') \<Rightarrow> tool_calls_loop E C tcs s'
      | (r, s') \<Rightarrow> (r, s'))"

section \<open>After a batch\<close>

definition interjection_text :: "json \<Rightarrow> string" where
  "interjection_text item =
     (case item of
        JStr s \<Rightarrow> s
      | JObj d \<Rightarrow> if truthy (jget d ''content'') then py_str (jget d ''content'') else str_or_empty (jget d ''text'')
      | _ \<Rightarrow> [])"

definition add_interjection :: "'w loop_env \<Rightarrow> loop_config \<Rightarrow> json \<Rightarrow> 'w loop_state \<Rightarrow> 'w loop_state" where
  "add_interjection E C item s =
     (let text = interjection_text item
      in if text = [] then s else record_beat E C (obs_beat ''interjection'' text) (say text s))"

definition drain_interjections :: "'w loop_env \<Rightarrow> loop_config \<Rightarrow> 'w loop_state \<Rightarrow> 'w loop_state" where
  "drain_interjections E C s =
     (case drain_interjections_fn E of
        None \<Rightarrow> s
      | Some drain \<Rightarrow>
          (let (items, w) = drain (world s)
           in fold (add_interjection E C) (case items of None \<Rightarrow> [] | Some xs \<Rightarrow> xs) (s\<lparr>world := w\<rparr>)))"

definition thrash_host_step :: "'w loop_env \<Rightarrow> loop_config \<Rightarrow> 'w loop_state \<Rightarrow> 'w loop_state" where
  "thrash_host_step E C s =
     (let dec = should_inject_thrash_host (thrash_streak s) (thrash_last_ok s) (thrash_host_sent s)
                  (thrash_last_tool s) MAX_THRASH_HOSTS FAIL_STREAK_THRESHOLD OK_STREAK_THRESHOLD
      in if th_inject dec \<and> \<not> blank_str (thrash_last_tool s)
         then let host_line = thrash_host_message (the (thrash_last_tool s)) (thrash_streak s)
                    (thrash_detail (thrash_last_ok s) (thrash_last_error s));
                  s1 = say host_line s;
                  s2 = s1\<lparr>thrash_host_sent := thrash_host_sent s1 + 1\<rparr>
              in record_beat E C (obs_beat ''tool_thrash'' host_line @
                   [(''fingerprint'', opt_str (thrash_last_fp s)), (''streak'', JInt (thrash_streak s)),
                    (''thrash_kind'', JStr (th_kind dec))]) s2
         else s)"

definition lesson_request_step :: "'w loop_env \<Rightarrow> loop_config \<Rightarrow> 'w loop_state \<Rightarrow> 'w loop_state" where
  "lesson_request_step E C s =
     (if thrash_host_sent s > 0 \<and> \<not> lesson_request_sent s
      then record_beat E C (obs_beat ''thrash_lesson'' thrash_lesson_request_message)
             ((say thrash_lesson_request_message s)\<lparr>lesson_request_sent := True,
                lesson_fails_since_request := 0, lesson_synth_fp := thrash_last_fp s\<rparr>)
      else s)"

definition synthesize_step :: "'w loop_env \<Rightarrow> loop_config \<Rightarrow> 'w loop_state \<Rightarrow> 'w loop_state" where
  "synthesize_step E C s =
     (if lesson_request_sent s \<and> \<not> lesson_captured s \<and> lesson_fails_since_request s \<ge> LESSON_SYNTH_FAIL_STREAK
      then store_and_pin_lesson E C
             (synthesize_lesson (thrash_tried s) (thrash_last_error s) (str_or (thrash_last_tool s) ''tool'')) True s
      else s)"

definition handle_tool_batch ::
  "'w loop_env \<Rightarrow> loop_config \<Rightarrow> chat_completion \<Rightarrow> 'w loop_state \<Rightarrow> (loop_exc + string option) \<times> 'w loop_state" where
  "handle_tool_batch E C result s =
     (case tool_calls_loop E C (tool_calls result)
             (s\<lparr>chain_messages := chain_messages s @ [assistant_message_from_result E result True]\<rparr>) of
        (Inr None, s1) \<Rightarrow>
          (Inr None,
           synthesize_step E C (lesson_request_step E C (thrash_host_step E C (drain_interjections E C s1))))
      | (r, s1) \<Rightarrow> (r, s1))"

section \<open>Results\<close>

definition result_of :: "loop_config \<Rightarrow> string \<Rightarrow> string option \<Rightarrow> 'w loop_state \<Rightarrow> do_loop_result" where
  "result_of C reason err s =
     \<lparr>r_stop_reason = reason, r_hop_count = hop s, r_arm_wait = armed_wait s, r_spoke = spoke s,
      r_moment_id = moment_id C, r_reouter_count = reouter_count s, r_continue_injects = continue_injects s,
      r_work_continue_injects = work_continue_injects s, r_skill_commit_injects = skill_commit_injects s,
      r_thrash_host_injects = thrash_host_sent s, r_thrash_skips = thrash_skip_count s,
      r_tools_ran = tools_ran s, r_ledger_mutated = ledger_mutated s, r_model_beats = model_beats s,
      r_channel_flood_beats = channel_flood_beats s,
      r_last_stop_hop_was_flood = last_stop_hop_was_flood s, r_error = err\<rparr>"

definition stop_beat :: "string \<Rightarrow> 'w loop_state \<Rightarrow> jdict" where
  "stop_beat reason s =
     [(''type'', JStr ''stop''), (''stop_reason'', JStr reason), (''hop_count'', JInt (hop s)),
      (''spoke'', JBool (spoke s)), (''tools_ran'', JBool (tools_ran s)),
      (''ledger_mutated'', JBool (ledger_mutated s)),
      (''work_continue_injects'', JInt (work_continue_injects s)),
      (''skill_commit_injects'', JInt (skill_commit_injects s)),
      (''thrash_host_injects'', JInt (thrash_host_sent s)), (''thrash_skips'', JInt (thrash_skip_count s))]"

text \<open>The \<open>arm\<close> argument of \<open>_finish\<close> is always the state's own armed wait, or absent.\<close>

definition finish ::
  "'w loop_env \<Rightarrow> loop_config \<Rightarrow> string \<Rightarrow> 'w loop_state \<Rightarrow> do_loop_result \<times> 'w loop_state" where
  "finish E C reason s = (result_of C reason None s, record_beat E C (stop_beat reason s) s)"

section \<open>One iteration\<close>

text \<open>How an iteration ends: another one follows, the loop returns, or an exception leaves it.\<close>

datatype iter_out = Next | Stopped do_loop_result | Raised loop_exc

definition pace :: "'w loop_env \<Rightarrow> loop_config \<Rightarrow> 'w loop_state \<Rightarrow> 'w loop_state" where
  "pace E C s =
     (if hop_delay_seconds C > 0 \<and> hop s > 0 then s\<lparr>world := sleep E (hop_delay_seconds C) (world s)\<rparr> else s)"

definition precheck :: "loop_config \<Rightarrow> pytime \<Rightarrow> 'w loop_state \<Rightarrow> string option" where
  "precheck C t s =
     resolve_host_precheck_stop (should_stop_wall_clock (started C) t None (loop C)) (hop s) (max_hops C)
       (should_stop_time_continue_declined (last_activity s) (continue_injects s) t None None (loop C))"

definition continue_step :: "'w loop_env \<Rightarrow> loop_config \<Rightarrow> pytime \<Rightarrow> 'w loop_state \<Rightarrow> 'w loop_state" where
  "continue_step E C t s =
     (if should_inject_continue (last_activity s) (continue_injects s) t None None (loop C)
      then let idle = trunc_rat (idle_minutes_since (last_activity s) t);
               host_line = continue_host_message (max idle (continue_idle_minutes (loop C)));
               s1 = say host_line s
           in record_beat E C (obs_beat ''continue'' host_line)
                (s1\<lparr>continue_injects := continue_injects s1 + 1, last_activity := t\<rparr>)
      else s)"

definition viewing_step :: "'w loop_env \<Rightarrow> 'w loop_state \<Rightarrow> 'w loop_state" where
  "viewing_step E s =
     (case (rebuild_outer E, viewing_dirty_fn E) of
        (Some rebuild, Some dirty) \<Rightarrow>
          (let (b, w) = dirty (world s); s1 = s\<lparr>world := w\<rparr> in
           if b = Some True
           then (case rebuild w of
                   (Inl _, w') \<Rightarrow> s1\<lparr>world := w'\<rparr>
                 | (Inr out, w') \<Rightarrow>
                     host_call (clear_viewing_dirty_fn E)
                       (s1\<lparr>world := w', outer_prefix := out, reouter_count := reouter_count s1 + 1\<rparr>))
           else s1)
      | _ \<Rightarrow> s)"

definition budget_step ::
  "'w loop_env \<Rightarrow> loop_config \<Rightarrow> 'w loop_state \<Rightarrow> loop_exc option \<times> 'w loop_state" where
  "budget_step E C s =
     (case enforce_in_turn_budget (outer_prefix s) (chain_messages s) (budget C) (tool_cap C)
             (rebuild_outer E) (world s) of
        (Inl e, chain, w) \<Rightarrow> (Some e, s\<lparr>chain_messages := chain, world := w\<rparr>)
      | (Inr (out, did), chain, w) \<Rightarrow>
          (None, s\<lparr>outer_prefix := out, chain_messages := chain, world := w,
                   reouter_count := (if did then reouter_count s + 1 else reouter_count s)\<rparr>))"

definition tool_choice_for :: "loop_config \<Rightarrow> 'w loop_state \<Rightarrow> json option" where
  "tool_choice_for C s =
     (case social_first_hop_tool_choice (social_wake C) (hop s) of
        Some c \<Rightarrow> Some c
      | None \<Rightarrow> map_option JStr (post_load_skill_tool_choice (pending_skill_commit s)
                  (post_load_skill_tool_choice_required (loop C))))"

definition request_step ::
  "'w loop_env \<Rightarrow> loop_config \<Rightarrow> 'w loop_state \<Rightarrow> (loop_exc + chat_completion) \<times> 'w loop_state" where
  "request_step E C s =
     (let msgs = outer_prefix s @ chain_messages s;
          choice = tool_choice_for C s;
          s1 = s\<lparr>meter := record_meal (messages_tokens msgs) (Some (budget C))
                   (Some (model_context_window_tokens (loop C))) (Some (hop s)) (Some (moment_id C)) (meter s),
                 requests := requests s @ [(outer_prefix s, chain_messages s, choice)]\<rparr>;
          (r, w) = chat E msgs choice (world s1)
      in (r, s1\<lparr>world := w\<rparr>))"

definition model_beat :: "int \<Rightarrow> chat_completion \<Rightarrow> hygiene_report \<Rightarrow> jdict" where
  "model_beat hop_now result h =
     [(''type'', JStr ''model''), (''content'', JStr (content result)),
      (''reasoning'', JStr (reasoning_content result)),
      (''tool_calls'', JArr (map (\<lambda>tc. JObj [(''id'', JStr (tc_id tc)), (''name'', JStr (tc_name tc))]) (tool_calls result))),
      (''hop'', JInt hop_now)]
     @ (case finish_reason result of None \<Rightarrow> [] | Some f \<Rightarrow> [(''finish_reason'', JStr f)])
     @ (if any_markers h
        then [(''hygiene'', JObj [(''c_markers'', JInt (original_content_markers h)),
                (''r_markers'', JInt (original_reasoning_markers h)), (''flood'', JBool (any_flood h))])]
        else [])"

definition ingest ::
  "'w loop_env \<Rightarrow> loop_config \<Rightarrow> chat_completion \<Rightarrow> hygiene_report \<Rightarrow> 'w loop_state \<Rightarrow> 'w loop_state" where
  "ingest E C result h s =
     (let s1 = s\<lparr>hop := hop s + 1, model_beats := model_beats s + 1,
                 channel_flood_beats := (if any_flood h then channel_flood_beats s + 1 else channel_flood_beats s)\<rparr>
      in record_beat E C (model_beat (hop s1) result h) s1)"

text \<open>The free-text nudges, in the order the code tries them.\<close>

definition skill_commit_inject :: "'w loop_env \<Rightarrow> loop_config \<Rightarrow> 'w loop_state \<Rightarrow> 'w loop_state" where
  "skill_commit_inject E C s =
     (let skill_name = str_or (pending_skill_commit s) '''';
          host_line = skill_commit_host_message skill_name;
          s1 = say host_line s
      in record_beat E C (obs_beat ''skill_commit'' host_line @ [(''skill'', JStr skill_name)])
           (s1\<lparr>skill_commit_sent := True, pending_skill_commit := None,
               skill_commit_injects := skill_commit_injects s1 + 1\<rparr>))"

definition no_speak_inject :: "'w loop_env \<Rightarrow> loop_config \<Rightarrow> 'w loop_state \<Rightarrow> 'w loop_state" where
  "no_speak_inject E C s =
     record_beat E C (obs_beat ''no_speak_nudge'' NO_SPEAK_NUDGE)
       (say NO_SPEAK_NUDGE (s\<lparr>no_speak_nudge_sent := True\<rparr>))"

definition answer_speak_inject :: "'w loop_env \<Rightarrow> loop_config \<Rightarrow> 'w loop_state \<Rightarrow> 'w loop_state" where
  "answer_speak_inject E C s =
     record_beat E C (obs_beat ''answer_speak_nudge'' ANSWER_SPEAK_HOST)
       (say ANSWER_SPEAK_HOST (s\<lparr>answer_speak_nudge_sent := True\<rparr>))"

definition work_continue_inject :: "'w loop_env \<Rightarrow> loop_config \<Rightarrow> 'w loop_state \<Rightarrow> 'w loop_state" where
  "work_continue_inject E C s =
     (let s1 = say WORK_CONTINUE_HOST s
      in record_beat E C (obs_beat ''work_continue'' WORK_CONTINUE_HOST)
           (s1\<lparr>work_continue_injects := work_continue_injects s1 + 1\<rparr>))"

definition wants_skill_commit :: "'w loop_state \<Rightarrow> bool" where
  "wants_skill_commit s = inject (should_skill_commit_nudge (pending_skill_commit s) (skill_commit_sent s) True)"

definition wants_no_speak :: "loop_config \<Rightarrow> 'w loop_state \<Rightarrow> bool" where
  "wants_no_speak C s =
     should_allow_no_speak (social_wake C) (spoke s) (no_speak_nudge_sent s) (pending_skill_commit s)
       (skill_commit_sent s)"

definition wants_answer_speak :: "loop_config \<Rightarrow> string \<Rightarrow> bool \<Rightarrow> 'w loop_state \<Rightarrow> bool" where
  "wants_answer_speak C text flood s =
     inject (should_answer_speak_nudge (social_wake C) (spoke s) (answer_speak_nudge_sent s) True text
       (tools_ran s) (spoke_since_non_speak_tool s) flood (pending_skill_commit s) (skill_commit_sent s))"

definition wants_work_continue :: "loop_config \<Rightarrow> bool \<Rightarrow> 'w loop_state \<Rightarrow> bool" where
  "wants_work_continue C flood s =
     inject (should_in_moment_work_nudge (continuous_enabled C) (social_wake C) (spoke s) (wants_no_speak C s)
       (work_continue_injects s) (work_nudge_max C)
       (in_moment_work_context (social_wake C) (tools_ran s) (ledger_mutated s) (wake_kind C) (has_open_goals_slice C))
       flood (thrash_host_sent s))"

definition free_text_hop ::
  "'w loop_env \<Rightarrow> loop_config \<Rightarrow> chat_completion \<Rightarrow> bool \<Rightarrow> 'w loop_state \<Rightarrow> iter_out \<times> 'w loop_state" where
  "free_text_hop E C result flood s0 =
     (let s = maybe_capture_free_text_lesson E C (content result) flood (s0\<lparr>last_stop_hop_was_flood := flood\<rparr>)
      in if wants_skill_commit s then (Next, skill_commit_inject E C s)
         else if wants_no_speak C s then (Next, no_speak_inject E C s)
         else if wants_answer_speak C (content result) flood s then (Next, answer_speak_inject E C s)
         else if wants_work_continue C flood s then (Next, work_continue_inject E C s)
         else let (r, s') = finish E C stop_for_no_tools s in (Stopped r, s'))"

definition tool_hop ::
  "'w loop_env \<Rightarrow> loop_config \<Rightarrow> chat_completion \<Rightarrow> 'w loop_state \<Rightarrow> iter_out \<times> 'w loop_state" where
  "tool_hop E C result s =
     (case handle_tool_batch E C result (s\<lparr>last_stop_hop_was_flood := False\<rparr>) of
        (Inl e, s') \<Rightarrow> (Raised e, s')
      | (Inr (Some reason), s') \<Rightarrow> (let (r, s'') = finish E C reason s' in (Stopped r, s''))
      | (Inr None, s') \<Rightarrow> (Next, s'))"

definition after_request ::
  "'w loop_env \<Rightarrow> loop_config \<Rightarrow> chat_completion \<Rightarrow> 'w loop_state \<Rightarrow> iter_out \<times> 'w loop_state" where
  "after_request E C raw s =
     (let (result, h) = sanitize_completion raw; s' = ingest E C result h s
      in if tool_calls result \<noteq> [] then tool_hop E C result s' else free_text_hop E C result (any_flood h) s')"

definition before_request :: "'w loop_env \<Rightarrow> loop_config \<Rightarrow> pytime \<Rightarrow> 'w loop_state \<Rightarrow> loop_exc option \<times> 'w loop_state" where
  "before_request E C t s =
     (let (e, s') = budget_step E C (viewing_step E (continue_step E C t s))
      in (e, if e = None then ensure_lesson_pin_in_chain s' else s'))"

definition loop_iter :: "'w loop_env \<Rightarrow> loop_config \<Rightarrow> 'w loop_state \<Rightarrow> iter_out \<times> 'w loop_state" where
  "loop_iter E C s0 =
     (let (t, s) = now_step E (pace E C s0) in
      case precheck C t s of
        Some reason \<Rightarrow> (let (r, s') = finish E C reason s in (Stopped r, s'))
      | None \<Rightarrow>
          (case before_request E C t s of
             (Some e, s') \<Rightarrow> (Raised e, s')
           | (None, s') \<Rightarrow>
               (case request_step E C s' of
                  (Inl e, s'') \<Rightarrow> (Raised e, s'')
                | (Inr raw, s'') \<Rightarrow> after_request E C raw s'')))"

section \<open>Frames\<close>

text \<open>What the steps leave alone: beats, hooks and the clock touch none of the loop's budgets.\<close>

lemma record_beat_frame [simp]:
  "chain_messages (record_beat E C b s) = chain_messages s"
  "hop (record_beat E C b s) = hop s"
  "continue_injects (record_beat E C b s) = continue_injects s"
  "work_continue_injects (record_beat E C b s) = work_continue_injects s"
  "pending_skill_commit (record_beat E C b s) = pending_skill_commit s"
  "skill_commit_sent (record_beat E C b s) = skill_commit_sent s"
  "skill_commit_injects (record_beat E C b s) = skill_commit_injects s"
  "no_speak_nudge_sent (record_beat E C b s) = no_speak_nudge_sent s"
  "answer_speak_nudge_sent (record_beat E C b s) = answer_speak_nudge_sent s"
  "model_beats (record_beat E C b s) = model_beats s"
  "thrash_host_sent (record_beat E C b s) = thrash_host_sent s"
  "thrash_skip_count (record_beat E C b s) = thrash_skip_count s"
  "requests (record_beat E C b s) = requests s"
  "outer_prefix (record_beat E C b s) = outer_prefix s"
  "lesson_request_sent (record_beat E C b s) = lesson_request_sent s"
  "lesson_captured (record_beat E C b s) = lesson_captured s"
  "lesson_pin_message (record_beat E C b s) = lesson_pin_message s"
  "spoke (record_beat E C b s) = spoke s"
  "tools_ran (record_beat E C b s) = tools_ran s"
  "last_activity (record_beat E C b s) = last_activity s"
  "armed_wait (record_beat E C b s) = armed_wait s"
  "thrash_last_fp (record_beat E C b s) = thrash_last_fp s"
  "thrash_streak (record_beat E C b s) = thrash_streak s"
  by (simp_all add: record_beat_def Let_def split_beta)

lemma now_step_frame [simp]:
  "chain_messages (snd (now_step E s)) = chain_messages s"
  "hop (snd (now_step E s)) = hop s"
  "continue_injects (snd (now_step E s)) = continue_injects s"
  "work_continue_injects (snd (now_step E s)) = work_continue_injects s"
  "pending_skill_commit (snd (now_step E s)) = pending_skill_commit s"
  "skill_commit_sent (snd (now_step E s)) = skill_commit_sent s"
  "skill_commit_injects (snd (now_step E s)) = skill_commit_injects s"
  "no_speak_nudge_sent (snd (now_step E s)) = no_speak_nudge_sent s"
  "answer_speak_nudge_sent (snd (now_step E s)) = answer_speak_nudge_sent s"
  "model_beats (snd (now_step E s)) = model_beats s"
  "thrash_host_sent (snd (now_step E s)) = thrash_host_sent s"
  "thrash_skip_count (snd (now_step E s)) = thrash_skip_count s"
  "requests (snd (now_step E s)) = requests s"
  "outer_prefix (snd (now_step E s)) = outer_prefix s"
  "lesson_request_sent (snd (now_step E s)) = lesson_request_sent s"
  "lesson_captured (snd (now_step E s)) = lesson_captured s"
  "lesson_pin_message (snd (now_step E s)) = lesson_pin_message s"
  by (simp_all add: now_step_def split_beta)

lemma host_call_frame [simp]:
  "chain_messages (host_call f s) = chain_messages s"
  "hop (host_call f s) = hop s"
  "continue_injects (host_call f s) = continue_injects s"
  "work_continue_injects (host_call f s) = work_continue_injects s"
  "pending_skill_commit (host_call f s) = pending_skill_commit s"
  "skill_commit_sent (host_call f s) = skill_commit_sent s"
  "skill_commit_injects (host_call f s) = skill_commit_injects s"
  "no_speak_nudge_sent (host_call f s) = no_speak_nudge_sent s"
  "answer_speak_nudge_sent (host_call f s) = answer_speak_nudge_sent s"
  "model_beats (host_call f s) = model_beats s"
  "thrash_host_sent (host_call f s) = thrash_host_sent s"
  "thrash_skip_count (host_call f s) = thrash_skip_count s"
  "requests (host_call f s) = requests s"
  "outer_prefix (host_call f s) = outer_prefix s"
  "lesson_request_sent (host_call f s) = lesson_request_sent s"
  "lesson_captured (host_call f s) = lesson_captured s"
  "lesson_pin_message (host_call f s) = lesson_pin_message s"
  by (simp_all add: host_call_def split: option.split)

lemma mark_spoke_frame [simp]:
  "chain_messages (mark_spoke E s) = chain_messages s"
  "hop (mark_spoke E s) = hop s"
  "continue_injects (mark_spoke E s) = continue_injects s"
  "work_continue_injects (mark_spoke E s) = work_continue_injects s"
  "pending_skill_commit (mark_spoke E s) = pending_skill_commit s"
  "skill_commit_sent (mark_spoke E s) = skill_commit_sent s"
  "skill_commit_injects (mark_spoke E s) = skill_commit_injects s"
  "no_speak_nudge_sent (mark_spoke E s) = no_speak_nudge_sent s"
  "answer_speak_nudge_sent (mark_spoke E s) = answer_speak_nudge_sent s"
  "model_beats (mark_spoke E s) = model_beats s"
  "thrash_host_sent (mark_spoke E s) = thrash_host_sent s"
  "thrash_skip_count (mark_spoke E s) = thrash_skip_count s"
  "requests (mark_spoke E s) = requests s"
  "outer_prefix (mark_spoke E s) = outer_prefix s"
  "lesson_request_sent (mark_spoke E s) = lesson_request_sent s"
  "lesson_captured (mark_spoke E s) = lesson_captured s"
  "lesson_pin_message (mark_spoke E s) = lesson_pin_message s"
  by (simp_all add: mark_spoke_def split_beta)

lemma mark_task_frame [simp]:
  "chain_messages (mark_task_changed E s) = chain_messages s"
  "hop (mark_task_changed E s) = hop s"
  "continue_injects (mark_task_changed E s) = continue_injects s"
  "work_continue_injects (mark_task_changed E s) = work_continue_injects s"
  "pending_skill_commit (mark_task_changed E s) = pending_skill_commit s"
  "skill_commit_sent (mark_task_changed E s) = skill_commit_sent s"
  "skill_commit_injects (mark_task_changed E s) = skill_commit_injects s"
  "no_speak_nudge_sent (mark_task_changed E s) = no_speak_nudge_sent s"
  "answer_speak_nudge_sent (mark_task_changed E s) = answer_speak_nudge_sent s"
  "model_beats (mark_task_changed E s) = model_beats s"
  "thrash_host_sent (mark_task_changed E s) = thrash_host_sent s"
  "thrash_skip_count (mark_task_changed E s) = thrash_skip_count s"
  "requests (mark_task_changed E s) = requests s"
  "outer_prefix (mark_task_changed E s) = outer_prefix s"
  "lesson_request_sent (mark_task_changed E s) = lesson_request_sent s"
  "lesson_captured (mark_task_changed E s) = lesson_captured s"
  "lesson_pin_message (mark_task_changed E s) = lesson_pin_message s"
  by (simp_all add: mark_task_changed_def split_beta)

lemma run_hook_frame [simp]:
  "chain_messages (run_hook E h s) = chain_messages s"
  "hop (run_hook E h s) = hop s"
  "continue_injects (run_hook E h s) = continue_injects s"
  "work_continue_injects (run_hook E h s) = work_continue_injects s"
  "pending_skill_commit (run_hook E h s) = pending_skill_commit s"
  "skill_commit_sent (run_hook E h s) = skill_commit_sent s"
  "skill_commit_injects (run_hook E h s) = skill_commit_injects s"
  "no_speak_nudge_sent (run_hook E h s) = no_speak_nudge_sent s"
  "answer_speak_nudge_sent (run_hook E h s) = answer_speak_nudge_sent s"
  "model_beats (run_hook E h s) = model_beats s"
  "thrash_host_sent (run_hook E h s) = thrash_host_sent s"
  "thrash_skip_count (run_hook E h s) = thrash_skip_count s"
  "requests (run_hook E h s) = requests s"
  "outer_prefix (run_hook E h s) = outer_prefix s"
  "lesson_request_sent (run_hook E h s) = lesson_request_sent s"
  "lesson_captured (run_hook E h s) = lesson_captured s"
  "lesson_pin_message (run_hook E h s) = lesson_pin_message s"
  by (cases h; simp)+

lemma run_hooks_frame [simp]:
  "chain_messages (fold (run_hook E) hs s) = chain_messages s"
  "hop (fold (run_hook E) hs s) = hop s"
  "continue_injects (fold (run_hook E) hs s) = continue_injects s"
  "work_continue_injects (fold (run_hook E) hs s) = work_continue_injects s"
  "pending_skill_commit (fold (run_hook E) hs s) = pending_skill_commit s"
  "skill_commit_sent (fold (run_hook E) hs s) = skill_commit_sent s"
  "skill_commit_injects (fold (run_hook E) hs s) = skill_commit_injects s"
  "no_speak_nudge_sent (fold (run_hook E) hs s) = no_speak_nudge_sent s"
  "answer_speak_nudge_sent (fold (run_hook E) hs s) = answer_speak_nudge_sent s"
  "model_beats (fold (run_hook E) hs s) = model_beats s"
  "thrash_host_sent (fold (run_hook E) hs s) = thrash_host_sent s"
  "thrash_skip_count (fold (run_hook E) hs s) = thrash_skip_count s"
  "requests (fold (run_hook E) hs s) = requests s"
  "outer_prefix (fold (run_hook E) hs s) = outer_prefix s"
  "lesson_request_sent (fold (run_hook E) hs s) = lesson_request_sent s"
  "lesson_captured (fold (run_hook E) hs s) = lesson_captured s"
  "lesson_pin_message (fold (run_hook E) hs s) = lesson_pin_message s"
  by (induction hs arbitrary: s) simp_all

lemma execute_one_frame [simp]:
  "chain_messages (snd (execute_one E tc s)) = chain_messages s"
  "hop (snd (execute_one E tc s)) = hop s"
  "continue_injects (snd (execute_one E tc s)) = continue_injects s"
  "work_continue_injects (snd (execute_one E tc s)) = work_continue_injects s"
  "pending_skill_commit (snd (execute_one E tc s)) = pending_skill_commit s"
  "skill_commit_sent (snd (execute_one E tc s)) = skill_commit_sent s"
  "skill_commit_injects (snd (execute_one E tc s)) = skill_commit_injects s"
  "no_speak_nudge_sent (snd (execute_one E tc s)) = no_speak_nudge_sent s"
  "answer_speak_nudge_sent (snd (execute_one E tc s)) = answer_speak_nudge_sent s"
  "model_beats (snd (execute_one E tc s)) = model_beats s"
  "thrash_host_sent (snd (execute_one E tc s)) = thrash_host_sent s"
  "thrash_skip_count (snd (execute_one E tc s)) = thrash_skip_count s"
  "requests (snd (execute_one E tc s)) = requests s"
  "outer_prefix (snd (execute_one E tc s)) = outer_prefix s"
  "lesson_request_sent (snd (execute_one E tc s)) = lesson_request_sent s"
  "lesson_captured (snd (execute_one E tc s)) = lesson_captured s"
  "lesson_pin_message (snd (execute_one E tc s)) = lesson_pin_message s"
  by (simp_all add: execute_one_def split_beta)

lemma say_frame [simp]:
  "hop (say t s) = hop s"
  "continue_injects (say t s) = continue_injects s"
  "work_continue_injects (say t s) = work_continue_injects s"
  "pending_skill_commit (say t s) = pending_skill_commit s"
  "skill_commit_sent (say t s) = skill_commit_sent s"
  "skill_commit_injects (say t s) = skill_commit_injects s"
  "no_speak_nudge_sent (say t s) = no_speak_nudge_sent s"
  "answer_speak_nudge_sent (say t s) = answer_speak_nudge_sent s"
  "model_beats (say t s) = model_beats s"
  "thrash_host_sent (say t s) = thrash_host_sent s"
  "thrash_skip_count (say t s) = thrash_skip_count s"
  "requests (say t s) = requests s"
  "outer_prefix (say t s) = outer_prefix s"
  "lesson_request_sent (say t s) = lesson_request_sent s"
  "lesson_captured (say t s) = lesson_captured s"
  "lesson_pin_message (say t s) = lesson_pin_message s"
  "spoke (say t s) = spoke s"
  "tools_ran (say t s) = tools_ran s"
  "last_activity (say t s) = last_activity s"
  by (simp_all add: say_def)

lemma chain_say [simp]: "chain_messages (say t s) = chain_messages s @ [obs_user_message t]"
  by (simp add: say_def)

lemma note_thrash_frame [simp]:
  "chain_messages (note_thrash u s) = chain_messages s"
  "hop (note_thrash u s) = hop s"
  "continue_injects (note_thrash u s) = continue_injects s"
  "work_continue_injects (note_thrash u s) = work_continue_injects s"
  "pending_skill_commit (note_thrash u s) = pending_skill_commit s"
  "skill_commit_sent (note_thrash u s) = skill_commit_sent s"
  "skill_commit_injects (note_thrash u s) = skill_commit_injects s"
  "no_speak_nudge_sent (note_thrash u s) = no_speak_nudge_sent s"
  "answer_speak_nudge_sent (note_thrash u s) = answer_speak_nudge_sent s"
  "model_beats (note_thrash u s) = model_beats s"
  "thrash_host_sent (note_thrash u s) = thrash_host_sent s"
  "thrash_skip_count (note_thrash u s) = thrash_skip_count s"
  "requests (note_thrash u s) = requests s"
  "outer_prefix (note_thrash u s) = outer_prefix s"
  "lesson_request_sent (note_thrash u s) = lesson_request_sent s"
  "lesson_captured (note_thrash u s) = lesson_captured s"
  "lesson_pin_message (note_thrash u s) = lesson_pin_message s"
  by (simp_all add: note_thrash_def)

lemma count_fails_frame [simp]:
  "chain_messages (count_lesson_fails u s) = chain_messages s"
  "hop (count_lesson_fails u s) = hop s"
  "continue_injects (count_lesson_fails u s) = continue_injects s"
  "work_continue_injects (count_lesson_fails u s) = work_continue_injects s"
  "pending_skill_commit (count_lesson_fails u s) = pending_skill_commit s"
  "skill_commit_sent (count_lesson_fails u s) = skill_commit_sent s"
  "skill_commit_injects (count_lesson_fails u s) = skill_commit_injects s"
  "no_speak_nudge_sent (count_lesson_fails u s) = no_speak_nudge_sent s"
  "answer_speak_nudge_sent (count_lesson_fails u s) = answer_speak_nudge_sent s"
  "model_beats (count_lesson_fails u s) = model_beats s"
  "thrash_host_sent (count_lesson_fails u s) = thrash_host_sent s"
  "thrash_skip_count (count_lesson_fails u s) = thrash_skip_count s"
  "requests (count_lesson_fails u s) = requests s"
  "outer_prefix (count_lesson_fails u s) = outer_prefix s"
  "lesson_request_sent (count_lesson_fails u s) = lesson_request_sent s"
  "lesson_captured (count_lesson_fails u s) = lesson_captured s"
  "lesson_pin_message (count_lesson_fails u s) = lesson_pin_message s"
  by (simp_all add: count_lesson_fails_def)

lemma arm_skill_frame [simp]:
  "chain_messages (arm_skill_commit tc tr s) = chain_messages s"
  "hop (arm_skill_commit tc tr s) = hop s"
  "continue_injects (arm_skill_commit tc tr s) = continue_injects s"
  "work_continue_injects (arm_skill_commit tc tr s) = work_continue_injects s"
  "skill_commit_sent (arm_skill_commit tc tr s) = skill_commit_sent s"
  "skill_commit_injects (arm_skill_commit tc tr s) = skill_commit_injects s"
  "no_speak_nudge_sent (arm_skill_commit tc tr s) = no_speak_nudge_sent s"
  "answer_speak_nudge_sent (arm_skill_commit tc tr s) = answer_speak_nudge_sent s"
  "model_beats (arm_skill_commit tc tr s) = model_beats s"
  "thrash_host_sent (arm_skill_commit tc tr s) = thrash_host_sent s"
  "thrash_skip_count (arm_skill_commit tc tr s) = thrash_skip_count s"
  "requests (arm_skill_commit tc tr s) = requests s"
  "outer_prefix (arm_skill_commit tc tr s) = outer_prefix s"
  "lesson_request_sent (arm_skill_commit tc tr s) = lesson_request_sent s"
  "lesson_captured (arm_skill_commit tc tr s) = lesson_captured s"
  "lesson_pin_message (arm_skill_commit tc tr s) = lesson_pin_message s"
  by (simp_all add: arm_skill_commit_def split: option.split)

lemma note_progress_frame [simp]:
  "chain_messages (note_progress E tr s) = chain_messages s"
  "hop (note_progress E tr s) = hop s"
  "continue_injects (note_progress E tr s) = continue_injects s"
  "work_continue_injects (note_progress E tr s) = work_continue_injects s"
  "pending_skill_commit (note_progress E tr s) = pending_skill_commit s"
  "skill_commit_sent (note_progress E tr s) = skill_commit_sent s"
  "skill_commit_injects (note_progress E tr s) = skill_commit_injects s"
  "no_speak_nudge_sent (note_progress E tr s) = no_speak_nudge_sent s"
  "answer_speak_nudge_sent (note_progress E tr s) = answer_speak_nudge_sent s"
  "model_beats (note_progress E tr s) = model_beats s"
  "thrash_host_sent (note_progress E tr s) = thrash_host_sent s"
  "thrash_skip_count (note_progress E tr s) = thrash_skip_count s"
  "requests (note_progress E tr s) = requests s"
  "outer_prefix (note_progress E tr s) = outer_prefix s"
  "lesson_request_sent (note_progress E tr s) = lesson_request_sent s"
  "lesson_captured (note_progress E tr s) = lesson_captured s"
  "lesson_pin_message (note_progress E tr s) = lesson_pin_message s"
  by (simp_all add: note_progress_def Let_def)

lemma pace_frame [simp]:
  "chain_messages (pace E C s) = chain_messages s"
  "hop (pace E C s) = hop s"
  "continue_injects (pace E C s) = continue_injects s"
  "work_continue_injects (pace E C s) = work_continue_injects s"
  "pending_skill_commit (pace E C s) = pending_skill_commit s"
  "skill_commit_sent (pace E C s) = skill_commit_sent s"
  "skill_commit_injects (pace E C s) = skill_commit_injects s"
  "no_speak_nudge_sent (pace E C s) = no_speak_nudge_sent s"
  "answer_speak_nudge_sent (pace E C s) = answer_speak_nudge_sent s"
  "model_beats (pace E C s) = model_beats s"
  "thrash_host_sent (pace E C s) = thrash_host_sent s"
  "thrash_skip_count (pace E C s) = thrash_skip_count s"
  "requests (pace E C s) = requests s"
  "outer_prefix (pace E C s) = outer_prefix s"
  "lesson_request_sent (pace E C s) = lesson_request_sent s"
  "lesson_captured (pace E C s) = lesson_captured s"
  "lesson_pin_message (pace E C s) = lesson_pin_message s"
  by (simp_all add: pace_def)

lemma viewing_frame [simp]:
  "chain_messages (viewing_step E s) = chain_messages s"
  "hop (viewing_step E s) = hop s"
  "continue_injects (viewing_step E s) = continue_injects s"
  "work_continue_injects (viewing_step E s) = work_continue_injects s"
  "pending_skill_commit (viewing_step E s) = pending_skill_commit s"
  "skill_commit_sent (viewing_step E s) = skill_commit_sent s"
  "skill_commit_injects (viewing_step E s) = skill_commit_injects s"
  "no_speak_nudge_sent (viewing_step E s) = no_speak_nudge_sent s"
  "answer_speak_nudge_sent (viewing_step E s) = answer_speak_nudge_sent s"
  "model_beats (viewing_step E s) = model_beats s"
  "thrash_host_sent (viewing_step E s) = thrash_host_sent s"
  "thrash_skip_count (viewing_step E s) = thrash_skip_count s"
  "requests (viewing_step E s) = requests s"
  "lesson_request_sent (viewing_step E s) = lesson_request_sent s"
  "lesson_captured (viewing_step E s) = lesson_captured s"
  "lesson_pin_message (viewing_step E s) = lesson_pin_message s"
  by (simp_all add: viewing_step_def split_beta Let_def split: option.split sum.split)

lemma budget_frame [simp]:
  "hop (snd (budget_step E C s)) = hop s"
  "continue_injects (snd (budget_step E C s)) = continue_injects s"
  "work_continue_injects (snd (budget_step E C s)) = work_continue_injects s"
  "pending_skill_commit (snd (budget_step E C s)) = pending_skill_commit s"
  "skill_commit_sent (snd (budget_step E C s)) = skill_commit_sent s"
  "skill_commit_injects (snd (budget_step E C s)) = skill_commit_injects s"
  "no_speak_nudge_sent (snd (budget_step E C s)) = no_speak_nudge_sent s"
  "answer_speak_nudge_sent (snd (budget_step E C s)) = answer_speak_nudge_sent s"
  "model_beats (snd (budget_step E C s)) = model_beats s"
  "thrash_host_sent (snd (budget_step E C s)) = thrash_host_sent s"
  "thrash_skip_count (snd (budget_step E C s)) = thrash_skip_count s"
  "requests (snd (budget_step E C s)) = requests s"
  "lesson_request_sent (snd (budget_step E C s)) = lesson_request_sent s"
  "lesson_captured (snd (budget_step E C s)) = lesson_captured s"
  "lesson_pin_message (snd (budget_step E C s)) = lesson_pin_message s"
  by (simp_all add: budget_step_def split_beta split: sum.split)

lemma ensure_pin_frame [simp]:
  "hop (ensure_lesson_pin_in_chain s) = hop s"
  "continue_injects (ensure_lesson_pin_in_chain s) = continue_injects s"
  "work_continue_injects (ensure_lesson_pin_in_chain s) = work_continue_injects s"
  "pending_skill_commit (ensure_lesson_pin_in_chain s) = pending_skill_commit s"
  "skill_commit_sent (ensure_lesson_pin_in_chain s) = skill_commit_sent s"
  "skill_commit_injects (ensure_lesson_pin_in_chain s) = skill_commit_injects s"
  "no_speak_nudge_sent (ensure_lesson_pin_in_chain s) = no_speak_nudge_sent s"
  "answer_speak_nudge_sent (ensure_lesson_pin_in_chain s) = answer_speak_nudge_sent s"
  "model_beats (ensure_lesson_pin_in_chain s) = model_beats s"
  "thrash_host_sent (ensure_lesson_pin_in_chain s) = thrash_host_sent s"
  "thrash_skip_count (ensure_lesson_pin_in_chain s) = thrash_skip_count s"
  "requests (ensure_lesson_pin_in_chain s) = requests s"
  "outer_prefix (ensure_lesson_pin_in_chain s) = outer_prefix s"
  "lesson_request_sent (ensure_lesson_pin_in_chain s) = lesson_request_sent s"
  "lesson_captured (ensure_lesson_pin_in_chain s) = lesson_captured s"
  "lesson_pin_message (ensure_lesson_pin_in_chain s) = lesson_pin_message s"
  by (simp_all add: ensure_lesson_pin_in_chain_def)

lemma store_lesson_frame [simp]:
  "hop (store_and_pin_lesson E C l b s) = hop s"
  "continue_injects (store_and_pin_lesson E C l b s) = continue_injects s"
  "work_continue_injects (store_and_pin_lesson E C l b s) = work_continue_injects s"
  "pending_skill_commit (store_and_pin_lesson E C l b s) = pending_skill_commit s"
  "skill_commit_sent (store_and_pin_lesson E C l b s) = skill_commit_sent s"
  "skill_commit_injects (store_and_pin_lesson E C l b s) = skill_commit_injects s"
  "no_speak_nudge_sent (store_and_pin_lesson E C l b s) = no_speak_nudge_sent s"
  "answer_speak_nudge_sent (store_and_pin_lesson E C l b s) = answer_speak_nudge_sent s"
  "model_beats (store_and_pin_lesson E C l b s) = model_beats s"
  "thrash_host_sent (store_and_pin_lesson E C l b s) = thrash_host_sent s"
  "thrash_skip_count (store_and_pin_lesson E C l b s) = thrash_skip_count s"
  "requests (store_and_pin_lesson E C l b s) = requests s"
  "outer_prefix (store_and_pin_lesson E C l b s) = outer_prefix s"
  "lesson_request_sent (store_and_pin_lesson E C l b s) = lesson_request_sent s"
  by (simp_all add: store_and_pin_lesson_def Let_def)

lemma capture_frame [simp]:
  "hop (maybe_capture_free_text_lesson E C t b s) = hop s"
  "continue_injects (maybe_capture_free_text_lesson E C t b s) = continue_injects s"
  "work_continue_injects (maybe_capture_free_text_lesson E C t b s) = work_continue_injects s"
  "pending_skill_commit (maybe_capture_free_text_lesson E C t b s) = pending_skill_commit s"
  "skill_commit_sent (maybe_capture_free_text_lesson E C t b s) = skill_commit_sent s"
  "skill_commit_injects (maybe_capture_free_text_lesson E C t b s) = skill_commit_injects s"
  "no_speak_nudge_sent (maybe_capture_free_text_lesson E C t b s) = no_speak_nudge_sent s"
  "answer_speak_nudge_sent (maybe_capture_free_text_lesson E C t b s) = answer_speak_nudge_sent s"
  "model_beats (maybe_capture_free_text_lesson E C t b s) = model_beats s"
  "thrash_host_sent (maybe_capture_free_text_lesson E C t b s) = thrash_host_sent s"
  "thrash_skip_count (maybe_capture_free_text_lesson E C t b s) = thrash_skip_count s"
  "requests (maybe_capture_free_text_lesson E C t b s) = requests s"
  "outer_prefix (maybe_capture_free_text_lesson E C t b s) = outer_prefix s"
  "lesson_request_sent (maybe_capture_free_text_lesson E C t b s) = lesson_request_sent s"
  by (simp_all add: maybe_capture_free_text_lesson_def Let_def)

lemma continue_frame [simp]:
  "hop (continue_step E C t s) = hop s"
  "work_continue_injects (continue_step E C t s) = work_continue_injects s"
  "pending_skill_commit (continue_step E C t s) = pending_skill_commit s"
  "skill_commit_sent (continue_step E C t s) = skill_commit_sent s"
  "skill_commit_injects (continue_step E C t s) = skill_commit_injects s"
  "no_speak_nudge_sent (continue_step E C t s) = no_speak_nudge_sent s"
  "answer_speak_nudge_sent (continue_step E C t s) = answer_speak_nudge_sent s"
  "model_beats (continue_step E C t s) = model_beats s"
  "thrash_host_sent (continue_step E C t s) = thrash_host_sent s"
  "thrash_skip_count (continue_step E C t s) = thrash_skip_count s"
  "requests (continue_step E C t s) = requests s"
  "outer_prefix (continue_step E C t s) = outer_prefix s"
  "lesson_request_sent (continue_step E C t s) = lesson_request_sent s"
  "lesson_captured (continue_step E C t s) = lesson_captured s"
  "lesson_pin_message (continue_step E C t s) = lesson_pin_message s"
  by (simp_all add: continue_step_def Let_def)

lemma request_frame [simp]:
  "chain_messages (snd (request_step E C s)) = chain_messages s"
  "hop (snd (request_step E C s)) = hop s"
  "continue_injects (snd (request_step E C s)) = continue_injects s"
  "work_continue_injects (snd (request_step E C s)) = work_continue_injects s"
  "pending_skill_commit (snd (request_step E C s)) = pending_skill_commit s"
  "skill_commit_sent (snd (request_step E C s)) = skill_commit_sent s"
  "skill_commit_injects (snd (request_step E C s)) = skill_commit_injects s"
  "no_speak_nudge_sent (snd (request_step E C s)) = no_speak_nudge_sent s"
  "answer_speak_nudge_sent (snd (request_step E C s)) = answer_speak_nudge_sent s"
  "model_beats (snd (request_step E C s)) = model_beats s"
  "thrash_host_sent (snd (request_step E C s)) = thrash_host_sent s"
  "thrash_skip_count (snd (request_step E C s)) = thrash_skip_count s"
  "outer_prefix (snd (request_step E C s)) = outer_prefix s"
  "lesson_request_sent (snd (request_step E C s)) = lesson_request_sent s"
  "lesson_captured (snd (request_step E C s)) = lesson_captured s"
  "lesson_pin_message (snd (request_step E C s)) = lesson_pin_message s"
  by (simp_all add: request_step_def split_beta Let_def)

lemma ingest_frame [simp]:
  "chain_messages (ingest E C r h s) = chain_messages s"
  "continue_injects (ingest E C r h s) = continue_injects s"
  "work_continue_injects (ingest E C r h s) = work_continue_injects s"
  "pending_skill_commit (ingest E C r h s) = pending_skill_commit s"
  "skill_commit_sent (ingest E C r h s) = skill_commit_sent s"
  "skill_commit_injects (ingest E C r h s) = skill_commit_injects s"
  "no_speak_nudge_sent (ingest E C r h s) = no_speak_nudge_sent s"
  "answer_speak_nudge_sent (ingest E C r h s) = answer_speak_nudge_sent s"
  "thrash_host_sent (ingest E C r h s) = thrash_host_sent s"
  "thrash_skip_count (ingest E C r h s) = thrash_skip_count s"
  "requests (ingest E C r h s) = requests s"
  "outer_prefix (ingest E C r h s) = outer_prefix s"
  "lesson_request_sent (ingest E C r h s) = lesson_request_sent s"
  "lesson_captured (ingest E C r h s) = lesson_captured s"
  "lesson_pin_message (ingest E C r h s) = lesson_pin_message s"
  by (simp_all add: ingest_def Let_def)

lemma execute_or_skip_frame [simp]:
  "chain_messages (snd (snd (execute_or_skip E tc s))) = chain_messages s"
  "hop (snd (snd (execute_or_skip E tc s))) = hop s"
  "continue_injects (snd (snd (execute_or_skip E tc s))) = continue_injects s"
  "work_continue_injects (snd (snd (execute_or_skip E tc s))) = work_continue_injects s"
  "pending_skill_commit (snd (snd (execute_or_skip E tc s))) = pending_skill_commit s"
  "skill_commit_sent (snd (snd (execute_or_skip E tc s))) = skill_commit_sent s"
  "skill_commit_injects (snd (snd (execute_or_skip E tc s))) = skill_commit_injects s"
  "no_speak_nudge_sent (snd (snd (execute_or_skip E tc s))) = no_speak_nudge_sent s"
  "answer_speak_nudge_sent (snd (snd (execute_or_skip E tc s))) = answer_speak_nudge_sent s"
  "model_beats (snd (snd (execute_or_skip E tc s))) = model_beats s"
  "thrash_host_sent (snd (snd (execute_or_skip E tc s))) = thrash_host_sent s"
  "thrash_skip_count (snd (snd (execute_or_skip E tc s))) = thrash_skip_count s"
  "requests (snd (snd (execute_or_skip E tc s))) = requests s"
  "outer_prefix (snd (snd (execute_or_skip E tc s))) = outer_prefix s"
  "lesson_request_sent (snd (snd (execute_or_skip E tc s))) = lesson_request_sent s"
  "lesson_captured (snd (snd (execute_or_skip E tc s))) = lesson_captured s"
  "lesson_pin_message (snd (snd (execute_or_skip E tc s))) = lesson_pin_message s"
  by (simp_all add: execute_or_skip_def split_beta Let_def should_skip_identical_def SKIP_IDENTICAL_ENABLED_def)

lemma absorb_frame [simp]:
  "hop (snd (absorb_result E C tc tr b p s)) = hop s"
  "continue_injects (snd (absorb_result E C tc tr b p s)) = continue_injects s"
  "work_continue_injects (snd (absorb_result E C tc tr b p s)) = work_continue_injects s"
  "skill_commit_sent (snd (absorb_result E C tc tr b p s)) = skill_commit_sent s"
  "skill_commit_injects (snd (absorb_result E C tc tr b p s)) = skill_commit_injects s"
  "no_speak_nudge_sent (snd (absorb_result E C tc tr b p s)) = no_speak_nudge_sent s"
  "answer_speak_nudge_sent (snd (absorb_result E C tc tr b p s)) = answer_speak_nudge_sent s"
  "model_beats (snd (absorb_result E C tc tr b p s)) = model_beats s"
  "thrash_host_sent (snd (absorb_result E C tc tr b p s)) = thrash_host_sent s"
  "thrash_skip_count (snd (absorb_result E C tc tr b p s)) = thrash_skip_count s"
  "requests (snd (absorb_result E C tc tr b p s)) = requests s"
  "outer_prefix (snd (absorb_result E C tc tr b p s)) = outer_prefix s"
  "lesson_request_sent (snd (absorb_result E C tc tr b p s)) = lesson_request_sent s"
  "lesson_captured (snd (absorb_result E C tc tr b p s)) = lesson_captured s"
  "lesson_pin_message (snd (absorb_result E C tc tr b p s)) = lesson_pin_message s"
  by (simp_all add: absorb_result_def Let_def split: option.split)

lemma tool_step_frame [simp]:
  "hop (snd (tool_step E C tc s)) = hop s"
  "continue_injects (snd (tool_step E C tc s)) = continue_injects s"
  "work_continue_injects (snd (tool_step E C tc s)) = work_continue_injects s"
  "skill_commit_sent (snd (tool_step E C tc s)) = skill_commit_sent s"
  "skill_commit_injects (snd (tool_step E C tc s)) = skill_commit_injects s"
  "no_speak_nudge_sent (snd (tool_step E C tc s)) = no_speak_nudge_sent s"
  "answer_speak_nudge_sent (snd (tool_step E C tc s)) = answer_speak_nudge_sent s"
  "model_beats (snd (tool_step E C tc s)) = model_beats s"
  "thrash_host_sent (snd (tool_step E C tc s)) = thrash_host_sent s"
  "thrash_skip_count (snd (tool_step E C tc s)) = thrash_skip_count s"
  "requests (snd (tool_step E C tc s)) = requests s"
  "outer_prefix (snd (tool_step E C tc s)) = outer_prefix s"
  "lesson_request_sent (snd (tool_step E C tc s)) = lesson_request_sent s"
  "lesson_captured (snd (tool_step E C tc s)) = lesson_captured s"
  "lesson_pin_message (snd (tool_step E C tc s)) = lesson_pin_message s"
  using execute_or_skip_frame [of E tc s] by (simp_all add: tool_step_def split_beta split: sum.split)

lemma tool_calls_loop_snd:
  "snd (tool_calls_loop E C (tc # tcs) s) =
     (if fst (tool_step E C tc s) = Inr None then snd (tool_calls_loop E C tcs (snd (tool_step E C tc s)))
      else snd (tool_step E C tc s))"
  by (auto split: prod.split sum.split option.split)

lemma tool_calls_frame [simp]:
  "hop (snd (tool_calls_loop E C tcs s)) = hop s"
  "continue_injects (snd (tool_calls_loop E C tcs s)) = continue_injects s"
  "work_continue_injects (snd (tool_calls_loop E C tcs s)) = work_continue_injects s"
  "skill_commit_sent (snd (tool_calls_loop E C tcs s)) = skill_commit_sent s"
  "skill_commit_injects (snd (tool_calls_loop E C tcs s)) = skill_commit_injects s"
  "no_speak_nudge_sent (snd (tool_calls_loop E C tcs s)) = no_speak_nudge_sent s"
  "answer_speak_nudge_sent (snd (tool_calls_loop E C tcs s)) = answer_speak_nudge_sent s"
  "model_beats (snd (tool_calls_loop E C tcs s)) = model_beats s"
  "thrash_host_sent (snd (tool_calls_loop E C tcs s)) = thrash_host_sent s"
  "thrash_skip_count (snd (tool_calls_loop E C tcs s)) = thrash_skip_count s"
  "requests (snd (tool_calls_loop E C tcs s)) = requests s"
  "outer_prefix (snd (tool_calls_loop E C tcs s)) = outer_prefix s"
  "lesson_request_sent (snd (tool_calls_loop E C tcs s)) = lesson_request_sent s"
  "lesson_captured (snd (tool_calls_loop E C tcs s)) = lesson_captured s"
  "lesson_pin_message (snd (tool_calls_loop E C tcs s)) = lesson_pin_message s"
  by (induction tcs arbitrary: s) (simp_all add: tool_calls_loop_snd del: tool_calls_loop.simps(2))

lemma add_interjection_frame [simp]:
  "hop (add_interjection E C x s) = hop s"
  "continue_injects (add_interjection E C x s) = continue_injects s"
  "work_continue_injects (add_interjection E C x s) = work_continue_injects s"
  "pending_skill_commit (add_interjection E C x s) = pending_skill_commit s"
  "skill_commit_sent (add_interjection E C x s) = skill_commit_sent s"
  "skill_commit_injects (add_interjection E C x s) = skill_commit_injects s"
  "no_speak_nudge_sent (add_interjection E C x s) = no_speak_nudge_sent s"
  "answer_speak_nudge_sent (add_interjection E C x s) = answer_speak_nudge_sent s"
  "model_beats (add_interjection E C x s) = model_beats s"
  "thrash_host_sent (add_interjection E C x s) = thrash_host_sent s"
  "thrash_skip_count (add_interjection E C x s) = thrash_skip_count s"
  "requests (add_interjection E C x s) = requests s"
  "outer_prefix (add_interjection E C x s) = outer_prefix s"
  "lesson_request_sent (add_interjection E C x s) = lesson_request_sent s"
  "lesson_captured (add_interjection E C x s) = lesson_captured s"
  "lesson_pin_message (add_interjection E C x s) = lesson_pin_message s"
  by (simp_all add: add_interjection_def Let_def)

lemma add_interjections_frame [simp]:
  "hop (fold (add_interjection E C) xs s) = hop s"
  "continue_injects (fold (add_interjection E C) xs s) = continue_injects s"
  "work_continue_injects (fold (add_interjection E C) xs s) = work_continue_injects s"
  "pending_skill_commit (fold (add_interjection E C) xs s) = pending_skill_commit s"
  "skill_commit_sent (fold (add_interjection E C) xs s) = skill_commit_sent s"
  "skill_commit_injects (fold (add_interjection E C) xs s) = skill_commit_injects s"
  "no_speak_nudge_sent (fold (add_interjection E C) xs s) = no_speak_nudge_sent s"
  "answer_speak_nudge_sent (fold (add_interjection E C) xs s) = answer_speak_nudge_sent s"
  "model_beats (fold (add_interjection E C) xs s) = model_beats s"
  "thrash_host_sent (fold (add_interjection E C) xs s) = thrash_host_sent s"
  "thrash_skip_count (fold (add_interjection E C) xs s) = thrash_skip_count s"
  "requests (fold (add_interjection E C) xs s) = requests s"
  "outer_prefix (fold (add_interjection E C) xs s) = outer_prefix s"
  "lesson_request_sent (fold (add_interjection E C) xs s) = lesson_request_sent s"
  "lesson_captured (fold (add_interjection E C) xs s) = lesson_captured s"
  "lesson_pin_message (fold (add_interjection E C) xs s) = lesson_pin_message s"
  by (induction xs arbitrary: s) simp_all

lemma drain_frame [simp]:
  "hop (drain_interjections E C s) = hop s"
  "continue_injects (drain_interjections E C s) = continue_injects s"
  "work_continue_injects (drain_interjections E C s) = work_continue_injects s"
  "pending_skill_commit (drain_interjections E C s) = pending_skill_commit s"
  "skill_commit_sent (drain_interjections E C s) = skill_commit_sent s"
  "skill_commit_injects (drain_interjections E C s) = skill_commit_injects s"
  "no_speak_nudge_sent (drain_interjections E C s) = no_speak_nudge_sent s"
  "answer_speak_nudge_sent (drain_interjections E C s) = answer_speak_nudge_sent s"
  "model_beats (drain_interjections E C s) = model_beats s"
  "thrash_host_sent (drain_interjections E C s) = thrash_host_sent s"
  "thrash_skip_count (drain_interjections E C s) = thrash_skip_count s"
  "requests (drain_interjections E C s) = requests s"
  "outer_prefix (drain_interjections E C s) = outer_prefix s"
  "lesson_request_sent (drain_interjections E C s) = lesson_request_sent s"
  "lesson_captured (drain_interjections E C s) = lesson_captured s"
  "lesson_pin_message (drain_interjections E C s) = lesson_pin_message s"
  by (simp_all add: drain_interjections_def split_beta split: option.split)

lemma thrash_host_frame [simp]:
  "hop (thrash_host_step E C s) = hop s"
  "continue_injects (thrash_host_step E C s) = continue_injects s"
  "work_continue_injects (thrash_host_step E C s) = work_continue_injects s"
  "pending_skill_commit (thrash_host_step E C s) = pending_skill_commit s"
  "skill_commit_sent (thrash_host_step E C s) = skill_commit_sent s"
  "skill_commit_injects (thrash_host_step E C s) = skill_commit_injects s"
  "no_speak_nudge_sent (thrash_host_step E C s) = no_speak_nudge_sent s"
  "answer_speak_nudge_sent (thrash_host_step E C s) = answer_speak_nudge_sent s"
  "model_beats (thrash_host_step E C s) = model_beats s"
  "thrash_skip_count (thrash_host_step E C s) = thrash_skip_count s"
  "requests (thrash_host_step E C s) = requests s"
  "outer_prefix (thrash_host_step E C s) = outer_prefix s"
  "lesson_request_sent (thrash_host_step E C s) = lesson_request_sent s"
  "lesson_captured (thrash_host_step E C s) = lesson_captured s"
  "lesson_pin_message (thrash_host_step E C s) = lesson_pin_message s"
  by (simp_all add: thrash_host_step_def Let_def)

lemma lesson_request_frame [simp]:
  "hop (lesson_request_step E C s) = hop s"
  "continue_injects (lesson_request_step E C s) = continue_injects s"
  "work_continue_injects (lesson_request_step E C s) = work_continue_injects s"
  "pending_skill_commit (lesson_request_step E C s) = pending_skill_commit s"
  "skill_commit_sent (lesson_request_step E C s) = skill_commit_sent s"
  "skill_commit_injects (lesson_request_step E C s) = skill_commit_injects s"
  "no_speak_nudge_sent (lesson_request_step E C s) = no_speak_nudge_sent s"
  "answer_speak_nudge_sent (lesson_request_step E C s) = answer_speak_nudge_sent s"
  "model_beats (lesson_request_step E C s) = model_beats s"
  "thrash_host_sent (lesson_request_step E C s) = thrash_host_sent s"
  "thrash_skip_count (lesson_request_step E C s) = thrash_skip_count s"
  "requests (lesson_request_step E C s) = requests s"
  "outer_prefix (lesson_request_step E C s) = outer_prefix s"
  "lesson_captured (lesson_request_step E C s) = lesson_captured s"
  "lesson_pin_message (lesson_request_step E C s) = lesson_pin_message s"
  by (simp_all add: lesson_request_step_def)

lemma synthesize_frame [simp]:
  "hop (synthesize_step E C s) = hop s"
  "continue_injects (synthesize_step E C s) = continue_injects s"
  "work_continue_injects (synthesize_step E C s) = work_continue_injects s"
  "pending_skill_commit (synthesize_step E C s) = pending_skill_commit s"
  "skill_commit_sent (synthesize_step E C s) = skill_commit_sent s"
  "skill_commit_injects (synthesize_step E C s) = skill_commit_injects s"
  "no_speak_nudge_sent (synthesize_step E C s) = no_speak_nudge_sent s"
  "answer_speak_nudge_sent (synthesize_step E C s) = answer_speak_nudge_sent s"
  "model_beats (synthesize_step E C s) = model_beats s"
  "thrash_host_sent (synthesize_step E C s) = thrash_host_sent s"
  "thrash_skip_count (synthesize_step E C s) = thrash_skip_count s"
  "requests (synthesize_step E C s) = requests s"
  "outer_prefix (synthesize_step E C s) = outer_prefix s"
  "lesson_request_sent (synthesize_step E C s) = lesson_request_sent s"
  by (simp_all add: synthesize_step_def)

lemma handle_tool_batch_snd:
  "snd (handle_tool_batch E C result s) =
     (let r = tool_calls_loop E C (tool_calls result)
        (s\<lparr>chain_messages := chain_messages s @ [assistant_message_from_result E result True]\<rparr>)
      in if fst r = Inr None
         then synthesize_step E C (lesson_request_step E C (thrash_host_step E C (drain_interjections E C (snd r))))
         else snd r)"
  by (auto simp: handle_tool_batch_def Let_def split: prod.split sum.split option.split)

lemma handle_tool_batch_frame [simp]:
  "hop (snd (handle_tool_batch E C r s)) = hop s"
  "continue_injects (snd (handle_tool_batch E C r s)) = continue_injects s"
  "work_continue_injects (snd (handle_tool_batch E C r s)) = work_continue_injects s"
  "skill_commit_sent (snd (handle_tool_batch E C r s)) = skill_commit_sent s"
  "skill_commit_injects (snd (handle_tool_batch E C r s)) = skill_commit_injects s"
  "no_speak_nudge_sent (snd (handle_tool_batch E C r s)) = no_speak_nudge_sent s"
  "answer_speak_nudge_sent (snd (handle_tool_batch E C r s)) = answer_speak_nudge_sent s"
  "model_beats (snd (handle_tool_batch E C r s)) = model_beats s"
  "thrash_skip_count (snd (handle_tool_batch E C r s)) = thrash_skip_count s"
  "requests (snd (handle_tool_batch E C r s)) = requests s"
  "outer_prefix (snd (handle_tool_batch E C r s)) = outer_prefix s"
  by (simp_all add: handle_tool_batch_snd Let_def)
section \<open>The loop\<close>

lemma injects_hop [simp]:
  "hop (skill_commit_inject E C s) = hop s" "hop (no_speak_inject E C s) = hop s"
  "hop (answer_speak_inject E C s) = hop s" "hop (work_continue_inject E C s) = hop s"
  by (simp_all add: skill_commit_inject_def no_speak_inject_def answer_speak_inject_def
      work_continue_inject_def Let_def)

lemma finish_snd [simp]: "snd (finish E C reason s) = record_beat E C (stop_beat reason s) s"
  by (simp add: finish_def)

lemma free_text_hop_hop [simp]: "hop (snd (free_text_hop E C r b s)) = hop s"
  by (simp add: free_text_hop_def Let_def split_beta)

lemma tool_hop_snd:
  "snd (tool_hop E C r s) =
     (let (out, s') = handle_tool_batch E C r (s\<lparr>last_stop_hop_was_flood := False\<rparr>)
      in case out of Inr (Some reason) \<Rightarrow> record_beat E C (stop_beat reason s') s' | _ \<Rightarrow> s')"
  by (auto simp: tool_hop_def split_beta split: sum.split option.split)

lemma tool_hop_hop [simp]: "hop (snd (tool_hop E C r s)) = hop s"
  by (simp add: tool_hop_snd Let_def split_beta split: sum.split option.split)

lemma hop_ingest [simp]:
  "hop (ingest E C r h s) = hop s + 1" "model_beats (ingest E C r h s) = model_beats s + 1"
  by (simp_all add: ingest_def Let_def)

lemma hop_after_request [simp]: "hop (snd (after_request E C raw s)) = hop s + 1"
  by (simp add: after_request_def split_beta Let_def)

lemma hop_before_request [simp]: "hop (snd (before_request E C t s)) = hop s"
  by (simp add: before_request_def split_beta Let_def)

lemma precheck_hop: "precheck C t s = None \<Longrightarrow> hop s < max_hops C"
  by (auto simp: precheck_def resolve_host_precheck_stop_def split: if_splits)

lemma loop_iter_hop:
  assumes "loop_iter E C s = (Next, s')"
  shows "hop s < max_hops C \<and> hop s' = hop s + 1"
proof -
  obtain t s1 where s1: "now_step E (pace E C s) = (t, s1)" by (rule prod.exhaust)
  then have h1: "hop s1 = hop s" by (metis now_step_frame(2) pace_frame(2) snd_conv)
  have pre: "precheck C t s1 = None"
    using assms s1 by (auto simp: loop_iter_def split_beta split: option.splits)
  obtain e s2 where s2: "before_request E C t s1 = (e, s2)" by (rule prod.exhaust)
  then have h2: "hop s2 = hop s1" by (metis hop_before_request snd_conv)
  have e: "e = None" using assms s1 s2 pre by (cases e) (auto simp: loop_iter_def)
  obtain r s3 where s3: "request_step E C s2 = (r, s3)" by (rule prod.exhaust)
  then have h3: "hop s3 = hop s2" by (metis request_frame(2) snd_conv)
  obtain raw where "r = Inr raw" using assms s1 s2 s3 pre e by (cases r) (auto simp: loop_iter_def)
  then have "after_request E C raw s3 = (Next, s')"
    using assms s1 s2 s3 pre e by (simp add: loop_iter_def)
  then have "hop s' = hop s3 + 1" by (metis hop_after_request snd_conv)
  then show ?thesis using h1 h2 h3 precheck_hop [OF pre] by simp
qed

function run_loop_body ::
  "'w loop_env \<Rightarrow> loop_config \<Rightarrow> 'w loop_state \<Rightarrow> (loop_exc + do_loop_result) \<times> 'w loop_state" where
  "run_loop_body E C s =
     (case loop_iter E C s of
        (Next, s') \<Rightarrow> run_loop_body E C s'
      | (Stopped r, s') \<Rightarrow> (Inr r, s')
      | (Raised e, s') \<Rightarrow> (Inl e, s'))"
  by pat_completeness auto

termination
  by (relation "measure (\<lambda>(E, C, s). nat (max_hops C - hop s))") (auto dest: loop_iter_hop loop_iter_hop [OF sym])

declare run_loop_body.simps [simp del]

section \<open>Entry point\<close>

datatype settings_arg = No_Settings | Loop_Only loop_settings | Full_Settings loop_settings continuous_settings

definition loop_settings_of :: "settings_arg \<Rightarrow> loop_settings" where
  "loop_settings_of x =
     (case x of No_Settings \<Rightarrow> default_loop_settings | Loop_Only l \<Rightarrow> l | Full_Settings l c \<Rightarrow> l)"

definition continuous_settings_of :: "settings_arg \<Rightarrow> continuous_settings" where
  "continuous_settings_of x =
     (case x of Full_Settings l c \<Rightarrow> c | _ \<Rightarrow> default_continuous_settings)"

definition contains :: "string \<Rightarrow> string \<Rightarrow> bool" where
  "contains p s = list_ex (\<lambda>i. starts_with p (drop i s)) [0..<Suc (length s)]"

definition is_timeout :: "loop_exc \<Rightarrow> bool" where
  "is_timeout e =
     (case e of
        Timeout_Error msg \<Rightarrow> True
      | Runtime_Error name msg \<Rightarrow> starts_with ''chat request timed out'' msg \<or> contains ''timed out after'' msg
      | _ \<Rightarrow> False)"

definition exc_text :: "loop_exc \<Rightarrow> string" where
  "exc_text e =
     (case e of UsageHardStop level reason \<Rightarrow> reason | Timeout_Error msg \<Rightarrow> msg
      | Runtime_Error name msg \<Rightarrow> msg | Other_Error name msg \<Rightarrow> msg)"

definition exc_class :: "loop_exc \<Rightarrow> string" where
  "exc_class e =
     (case e of UsageHardStop level reason \<Rightarrow> ''UsageHardStopError'' | Timeout_Error msg \<Rightarrow> ''TimeoutError''
      | Runtime_Error name msg \<Rightarrow> name | Other_Error name msg \<Rightarrow> name)"

text \<open>The \<open>except\<close> clauses: stop reason, error of the result, and the stop beat.\<close>

definition handle_exc :: "loop_exc \<Rightarrow> string \<times> string \<times> jdict" where
  "handle_exc e =
     (let beat = (\<lambda>reason err more_fields.
            [(''type'', JStr ''stop''), (''stop_reason'', JStr reason), (''error'', JStr err)] @ more_fields)
      in case e of
           UsageHardStop level reason \<Rightarrow>
             (let d = ''usage_hard_stop:'' @ level @ '':'' @ reason in (STOP_POLICY, d, beat STOP_POLICY d []))
         | _ \<Rightarrow>
             if is_timeout e
             then let d = ''provider_timeout:'' @ exc_text e
                  in (STOP_ERROR, d, beat STOP_ERROR d [(''error_class'', JStr ''provider_timeout'')])
             else (STOP_ERROR, exc_class e @ '': '' @ exc_text e, beat STOP_ERROR (exc_text e) []))"

record run_args =
  a_outer_prefix :: "message list option"
  a_settings :: settings_arg
  a_social_wake :: bool
  a_wake_kind :: string
  a_has_open_goals_slice :: bool
  a_continuous_enabled :: "bool option"
  a_hop_delay_seconds :: rat
  a_started_at :: "pytime option"
  a_moment_id :: string

definition config_of :: "run_args \<Rightarrow> pytime \<Rightarrow> loop_config" where
  "config_of A t0 =
     (let l = loop_settings_of (a_settings A); c = continuous_settings_of (a_settings A)
      in \<lparr>moment_id = a_moment_id A, social_wake = a_social_wake A, wake_kind = a_wake_kind A,
          has_open_goals_slice = a_has_open_goals_slice A,
          continuous_enabled = (case a_continuous_enabled A of Some b \<Rightarrow> b | None \<Rightarrow> cs_enabled c),
          work_nudge_max = in_moment_work_nudge_max c, hop_delay_seconds = max 0 (a_hop_delay_seconds A),
          started = t0, budget = min (sliding_input_tokens l) (in_turn_max_tokens l),
          tool_cap = tool_result_max_chars l, max_hops = max_tool_hops l, loop = l\<rparr>)"

definition initial_state :: "message list \<Rightarrow> pytime \<Rightarrow> 'w \<Rightarrow> meal_meter \<Rightarrow> 'w loop_state" where
  "initial_state out t0 w m =
     \<lparr>outer_prefix = out, chain_messages = [], hop = 0, spoke = False, last_activity = t0,
      continue_injects = 0, no_speak_nudge_sent = False, answer_speak_nudge_sent = False,
      work_continue_injects = 0, pending_skill_commit = None, skill_commit_sent = False,
      skill_commit_injects = 0, tools_ran = False, spoke_since_non_speak_tool = True,
      ledger_mutated = False, model_beats = 0, channel_flood_beats = 0, last_stop_hop_was_flood = False,
      armed_wait = None, reouter_count = 0, thrash_last_fp = None, thrash_streak = 0,
      thrash_last_ok = None, thrash_last_error = None, thrash_last_tool = None, thrash_host_sent = 0,
      thrash_tried = [], lessons = [], lesson_request_sent = False, lesson_captured = False,
      lesson_pin_message = None, lesson_fails_since_request = 0, lesson_synth_fp = None,
      thrash_skip_count = 0, world = w, meter = m, beats = [], requests = []\<rparr>"

definition run_guarded ::
  "'w loop_env \<Rightarrow> loop_config \<Rightarrow> 'w loop_state \<Rightarrow> do_loop_result \<times> 'w loop_state" where
  "run_guarded E C s =
     (case run_loop_body E C s of
        (Inr r, s') \<Rightarrow> (r, s')
      | (Inl e, s') \<Rightarrow>
          (let (reason, err, beat) = handle_exc e
           in (result_of C reason (Some err) s', record_beat E C beat s')))"

text \<open>
  The first meal is built before the guarded region: an exception there leaves the function,
  as the left outcome with the world at that point.
\<close>

definition run_do_loop ::
  "'w loop_env \<Rightarrow> run_args \<Rightarrow> meal_meter \<Rightarrow> 'w \<Rightarrow> (loop_exc \<times> 'w) + (do_loop_result \<times> 'w loop_state)" where
  "run_do_loop E A m w =
     (let (t0, w1) = (case a_started_at A of Some t \<Rightarrow> (t, w) | None \<Rightarrow> clock E w);
          (out, w2) = (case a_outer_prefix A of
              Some p \<Rightarrow> (Inr p, w1)
            | None \<Rightarrow> (case rebuild_outer E of
                  Some rebuild \<Rightarrow> rebuild w1
                | None \<Rightarrow> (Inr [[(''role'', JStr ''system''), (''content'', JStr ''elyra'')]], w1)))
      in case out of
           Inl e \<Rightarrow> Inl (e, w2)
         | Inr p \<Rightarrow> Inr (run_guarded E (config_of A t0) (initial_state p t0 w2 m)))"

end
