(* ===== verification/Worker.thy ===== *)
theory Worker
  imports User_Input Moments Goals Do_Loop
begin

text \<open>
  The presence worker (\<open>elyra/presence/worker.py\<close>): claim a wake, open a moment, run it, close the
  moment and settle the wake, with the startup recovery and the calls other threads make in
  between. The worker owns the stores of the components below it: the timer service with its
  wake queue, the moment store and the goals ledger. Every critical section of the code (one
  \<open>with self._lock\<close> block) is one definition, so an interleaving is a sequence of them.
  The memory, browser and traversal hooks are best effort, touch none of these stores and are
  left out.
\<close>

section \<open>State\<close>

record continuous_state =
  c_enabled :: bool
  c_streak :: int
  last_enqueue_at :: "int option"
  last_continue_wake_id :: "string option"
  last_source_moment_id :: "string option"
  last_skip_reason :: "string option"
  c_resetting :: bool

record worker =
  p_svc :: timer_service
  p_store :: moment_store
  p_goals :: goals_store
  p_phase :: string
  p_busy :: bool
  p_active :: "string option"
  p_error :: "string option"
  p_hop :: int
  p_last_tool :: "string option"
  p_injects :: int
  p_interject :: interject_buffer
  p_cont :: continuous_state
  p_viewing :: "(string, viewing_entry) dict"
  p_viewing_dirty :: bool

abbreviation p_queue :: "worker \<Rightarrow> wake_queue" where
  "p_queue p \<equiv> queue (p_svc p)"

definition put_queue :: "wake_queue \<Rightarrow> worker \<Rightarrow> worker" where
  "put_queue q p = p\<lparr>p_svc := (p_svc p)\<lparr>queue := q\<rparr>\<rparr>"

text \<open>
  What one iteration reads from the outside, in the order of its calls: clocks and draws of the
  timer polls, the model gate (\<open>None\<close> when the hook raises), uuids, the outcome of each store
  write and the clock of the continue gate. \<open>k_show\<close> is the text \<open>Type: message\<close> of an exception.
\<close>

record tick =
  k_due :: tenv
  k_timeouts :: tenv
  k_available :: "bool option"
  k_moment :: string
  k_claim :: draw
  k_open :: moment_draw
  k_cancel :: draw
  k_close :: moment_draw
  k_done :: draw
  k_flush :: draws
  k_message_ids :: "nat \<Rightarrow> string"
  k_arm :: tenv
  k_since_now :: int
  k_now :: int
  k_continue :: draw
  k_idle_due :: tenv
  k_idle_timeouts :: tenv
  k_fail_close :: moment_draw
  k_fail_done :: draw
  k_fail_flush :: draws
  k_show :: "pyerr \<Rightarrow> string"

section \<open>What a wake says\<close>

text \<open>\<open>" ".join(text.split())\<close>.\<close>

function squash :: "string \<Rightarrow> string" where
  "squash [] = []"
| "squash (c # cs) =
     (if is_space c
      then (case squash (dropWhile is_space cs) of [] \<Rightarrow> [] | r \<Rightarrow> CHR '' '' # r)
      else c # squash cs)"
  by pat_completeness auto
termination
  by (relation "measure length") (auto simp: le_imp_less_Suc length_dropWhile_le)

definition WHY_NOW_SNIPPET_MAX_CHARS :: int where "WHY_NOW_SNIPPET_MAX_CHARS = 160"

definition snippet :: "json \<Rightarrow> int \<Rightarrow> string" where
  "snippet v cap =
     (if v = JNull then []
      else let t = squash (lstrip (py_str v)) in
        if t = [] then []
        else if cap \<le> 0 \<or> int (length t) \<le> cap then t
        else if cap \<le> 1 then take (nat cap) t
        else rstrip (take (nat (cap - 1)) t) @ ellipsis)"

definition why_now :: "wake_item \<Rightarrow> string" where
  "why_now wake =
     (let k = kind wake; pl = wake_item.payload wake in
      if k = ''user_message'' then ''user message from '' @ str_or_default pl ''user_id'' ''user''
      else if k = ''wait_reply''
      then (let wid = str_or_default pl ''wait_id'' ''?''; sn = snippet (jget pl ''content'') WHY_NOW_SNIPPET_MAX_CHARS
            in if sn \<noteq> [] then ''wait reply (wait_id='' @ wid @ ''): '' @ sn else ''wait reply (wait_id='' @ wid @ '')'')
      else if k = ''wait_timeout'' then ''wait timeout (wait_id='' @ str_or_default pl ''wait_id'' ''?'' @ '')''
      else if k = ''timer''
      then (let reason = str_or_default pl ''reason'' [] in if reason \<noteq> [] then ''timer due: '' @ reason else ''timer due'')
      else if k = ''task_ready'' then ''task ready: '' @ str_or_default pl ''task_id'' ''?''
      else if k = ''moment_continue'' then ''continue work (from moment '' @ str_or_default pl ''source_moment_id'' ''?'' @ '')''
      else if k = ''background'' then ''background wake''
      else ''wake kind='' @ k)"

definition user_id_from_wake :: "wake_item \<Rightarrow> string option" where
  "user_id_from_wake wake =
     (let uid = jget (wake_item.payload wake) ''user_id'' in if uid = JNull \<or> uid = JStr [] then None else Some (py_str uid))"

section \<open>Claiming\<close>

definition fire_due :: "tenv \<Rightarrow> tenv \<Rightarrow> worker \<Rightarrow> worker" where
  "fire_due E1 E2 p =
     (case schedule_due E1 NowClock (p_svc p) of
        (Inl _, s) \<Rightarrow> p\<lparr>p_svc := s\<rparr>
      | (Inr _, s) \<Rightarrow> p\<lparr>p_svc := snd (check_timeouts E2 NowClock s)\<rparr>)"

definition enter_moment :: "wake_item \<Rightarrow> string \<Rightarrow> worker \<Rightarrow> worker" where
  "enter_moment wake mid p =
     (let p1 = (if kind wake \<in> set SOCIAL_WAKE_KINDS then p\<lparr>p_cont := (p_cont p)\<lparr>c_streak := 0\<rparr>\<rparr> else p)
      in p1\<lparr>p_phase := PHASE_IN_MOMENT, p_busy := True, p_active := Some mid, p_error := None, p_hop := 0,
            p_last_tool := None, p_injects := 0, p_interject := clear_buffer (p_interject p1)\<rparr>)"

text \<open>The part of the section after a wake is claimed; a failed open cancels the wake.\<close>

definition open_claimed :: "tick \<Rightarrow> wake_item \<Rightarrow> worker \<Rightarrow> (wake_item \<times> string) option res \<times> worker" where
  "open_claimed K wake p =
     (case open_moment (k_open K) (p_store p) (why_now wake) (user_id_from_wake wake) (Some (id wake)) [] []
             (Some (k_moment K)) of
        (Inl e, st) \<Rightarrow>
          (let p1 = p\<lparr>p_store := st\<rparr> in
           case cancel (p_queue p1) (id wake) ''open_moment_failed'' (k_cancel K) of
             Inl (KeyError _) \<Rightarrow> (Inl e, p1)
           | Inl e' \<Rightarrow> (Inl e', p1)
           | Inr q \<Rightarrow> (Inl e, put_queue q p1))
      | (Inr _, st) \<Rightarrow> (Inr (Some (wake, k_moment K)), enter_moment wake (k_moment K) (p\<lparr>p_store := st\<rparr>)))"

definition claim_and_open :: "tick \<Rightarrow> worker \<Rightarrow> (wake_item \<times> string) option res \<times> worker" where
  "claim_and_open K p =
     (if c_resetting (p_cont p) then (Inr None, p)
      else let p1 = fire_due (k_due K) (k_timeouts K) p in
        if k_available K \<noteq> Some True then (Inr None, p1)
        else case claim (p_queue p1) (k_moment K) (k_claim K) of
          Inl e \<Rightarrow> (Inl e, p1)
        | Inr (q, None) \<Rightarrow> (Inr None, put_queue q p1)
        | Inr (q, Some wake) \<Rightarrow> open_claimed K wake (put_queue q p1))"

section \<open>Settling\<close>

type_synonym step = "unit res \<times> worker"

definition and_then :: "step \<Rightarrow> (worker \<Rightarrow> step) \<Rightarrow> step" where
  "and_then r f = (case r of (Inl e, p) \<Rightarrow> (Inl e, p) | (Inr _, p) \<Rightarrow> f p)"

text \<open>\<open>try: ... except <handled>: log\<close>.\<close>

definition swallow :: "(pyerr \<Rightarrow> bool) \<Rightarrow> step \<Rightarrow> step" where
  "swallow handled r = (case r of (Inl e, p) \<Rightarrow> if handled e then (Inr (), p) else (Inl e, p) | ok \<Rightarrow> ok)"

fun is_key_or_value :: "pyerr \<Rightarrow> bool" where
  "is_key_or_value (KeyError _) = True"
| "is_key_or_value (ValueError _) = True"
| "is_key_or_value _ = False"

fun is_key :: "pyerr \<Rightarrow> bool" where
  "is_key (KeyError _) = True"
| "is_key _ = False"

fun is_os :: "pyerr \<Rightarrow> bool" where
  "is_os OSError = True"
| "is_os (FileExistsError _) = True"
| "is_os (FileNotFoundError _) = True"
| "is_os _ = False"

fun is_value_type_or_os :: "pyerr \<Rightarrow> bool" where
  "is_value_type_or_os (ValueError _) = True"
| "is_value_type_or_os (TypeError _) = True"
| "is_value_type_or_os e = is_os e"

definition unit_of :: "'a res \<Rightarrow> unit res" where
  "unit_of r = (case r of Inl e \<Rightarrow> Inl e | Inr _ \<Rightarrow> Inr ())"

definition close_step ::
  "moment_draw \<Rightarrow> string \<Rightarrow> string \<Rightarrow> int option \<Rightarrow> string list option \<Rightarrow> worker \<Rightarrow> step" where
  "close_step dr mid stop hops skills p =
     (case close_moment dr (p_store p) mid stop hops skills of (r, st) \<Rightarrow> (unit_of r, p\<lparr>p_store := st\<rparr>))"

definition done_step :: "draw \<Rightarrow> string \<Rightarrow> worker \<Rightarrow> step" where
  "done_step dr wid p =
     (case mark_done (p_queue p) wid dr of Inl e \<Rightarrow> (Inl e, p) | Inr q \<Rightarrow> (Inr (), put_queue q p))"

text \<open>A beat that is not an object has no \<open>get\<close>.\<close>

definition beat_tool_name :: "jdict \<Rightarrow> string option" where
  "beat_tool_name b =
     (let v = (if truthy (jget b ''name'') then jget b ''name''
               else if truthy (jget b ''tool'') then jget b ''tool'' else jget b ''tool_name'')
      in case v of JStr s \<Rightarrow> if s = [] then None else Some s | _ \<Rightarrow> None)"

definition tape_tool :: "string option \<Rightarrow> json \<Rightarrow> string option res" where
  "tape_tool acc beat =
     (case beat of
        JObj b \<Rightarrow>
          if jget b ''type'' \<noteq> JStr ''tool'' then Inr acc
          else (case beat_tool_name b of None \<Rightarrow> Inr acc | Some n \<Rightarrow> Inr (Some n))
      | _ \<Rightarrow> Inl (AttributeError ''get''))"

definition last_tool_from_tape :: "moment_store \<Rightarrow> string \<Rightarrow> string option res" where
  "last_tool_from_tape st mid =
     (case list_beats st mid of
        Inl e \<Rightarrow> if is_key_or_value e \<or> is_os e then Inr None else Inl e
      | Inr bs \<Rightarrow> foldl_res tape_tool None bs)"

definition remainder_payload :: "interject_item \<Rightarrow> string \<Rightarrow> jdict" where
  "remainder_payload it uuid =
     [(''content'', JStr (ij_content it)), (''user_id'', JStr (ij_user_id it)),
      (''message_id'', JStr (str_or (ij_message_id it) uuid)), (''from_interject_remainder'', JBool True)]"

fun flush_loop :: "draws \<Rightarrow> (nat \<Rightarrow> string) \<Rightarrow> nat \<Rightarrow> interject_item list \<Rightarrow> worker \<Rightarrow> step" where
  "flush_loop ds us i [] p = (Inr (), p)"
| "flush_loop ds us i (it # its) p =
     (case enqueue (p_queue p) ''user_message'' (Some (remainder_payload it (us i))) None None (ds i) of
        Inl e \<Rightarrow> (Inl e, p)
      | Inr (q, _) \<Rightarrow> flush_loop ds us (i + 1) its (put_queue q p))"

definition flush_interjects :: "draws \<Rightarrow> (nat \<Rightarrow> string) \<Rightarrow> worker \<Rightarrow> step" where
  "flush_interjects ds us p =
     (case drain_buffer (p_interject p) of (its, b) \<Rightarrow> flush_loop ds us 0 its (p\<lparr>p_interject := b\<rparr>))"

definition ensure_wait_armed :: "tenv \<Rightarrow> wait_arm option \<Rightarrow> string \<Rightarrow> worker \<Rightarrow> step" where
  "ensure_wait_armed E arm mid p =
     (case arm of
        None \<Rightarrow> (Inr (), p)
      | Some a \<Rightarrow>
          if get_wait (p_svc p) (wait_id a) \<noteq> None then (Inr (), p)
          else swallow is_value_type_or_os
            (case Timers.arm_wait E (p_svc p) (prompt a) (user_id a) mid None (Some (of_int (timeout_seconds a)))
                    (Some (choices a)) (Some (wait_id a)) of
               Inl e \<Rightarrow> (Inl e, p)
             | Inr (s, _) \<Rightarrow> (Inr (), p\<lparr>p_svc := s\<rparr>)))"

definition has_pending_wait :: "worker \<Rightarrow> bool" where
  "has_pending_wait p = (list_waits (p_svc p) (Some STATUS_PENDING) \<noteq> [])"

definition phase_from_pending_waits :: "worker \<Rightarrow> string" where
  "phase_from_pending_waits p = (if has_pending_wait p then PHASE_WAITING else PHASE_IDLE)"

definition OPEN_GOAL_STATUSES :: "string list" where
  "OPEN_GOAL_STATUSES = [''open'', ''review'']"

definition OPEN_TASK_STATUSES :: "string list" where
  "OPEN_TASK_STATUSES = [''ready'', ''in_progress'', ''blocked'']"

text \<open>Membership in a set of strings raises for a value that cannot be hashed.\<close>

definition status_in :: "jdict \<Rightarrow> string list \<Rightarrow> bool res" where
  "status_in d xs =
     (case jget d ''status'' of
        JStr s \<Rightarrow> Inr (s \<in> set xs)
      | JArr _ \<Rightarrow> Inl (TypeError ''unhashable'')
      | JObj _ \<Rightarrow> Inl (TypeError ''unhashable'')
      | _ \<Rightarrow> Inr False)"

fun any_open_task :: "json list \<Rightarrow> bool res" where
  "any_open_task [] = Inr False"
| "any_open_task (JObj t # ts) =
     bind_res (status_in t OPEN_TASK_STATUSES) (\<lambda>b. if b then Inr True else any_open_task ts)"
| "any_open_task (_ # ts) = any_open_task ts"

fun any_open_goal :: "jdict list \<Rightarrow> bool res" where
  "any_open_goal [] = Inr False"
| "any_open_goal (g # gs) =
     bind_res (status_in g OPEN_GOAL_STATUSES) (\<lambda>b.
       if b then Inr True
       else bind_res (case jget g ''tasks'' of JArr ts \<Rightarrow> any_open_task ts | _ \<Rightarrow> Inr False)
              (\<lambda>b. if b then Inr True else any_open_goal gs))"

definition has_open_work :: "worker \<Rightarrow> bool res" where
  "has_open_work p =
     (case list_goals (p_goals p) None of Inl _ \<Rightarrow> Inr False | Inr gs \<Rightarrow> any_open_goal gs)"

definition known_stop :: "string \<Rightarrow> string" where
  "known_stop r = (if r \<in> set STOP_REASONS then r else ''error'')"

definition continue_inputs_of ::
  "continuous_settings \<Rightarrow> int \<Rightarrow> wake_item \<Rightarrow> do_loop_result \<Rightarrow> worker \<Rightarrow> bool \<Rightarrow> continue_inputs" where
  "continue_inputs_of cfg now wake r p has_open =
     \<lparr>ci_enabled = c_enabled (p_cont p), ci_stop_reason = known_stop (r_stop_reason r), ci_wake_kind = kind wake,
      ci_tools_ran = r_tools_ran r, ci_ledger_mutated = r_ledger_mutated r,
      ci_has_pending_wait = has_pending_wait p,
      ci_pending_task_ready = int (length (pending_of_kind (p_queue p) ''task_ready'')),
      ci_has_open_work = has_open,
      ci_pending_continues = int (length (pending_of_kind (p_queue p) ''moment_continue'')),
      ci_streak = c_streak (p_cont p), ci_max_streak = max_continue_streak cfg,
      ci_since_last = map_option (\<lambda>last. total_seconds (now - last)) (last_enqueue_at (p_cont p)),
      ci_cooldown = cooldown_seconds cfg, ci_model_beats = r_model_beats r,
      ci_flood_beats = r_channel_flood_beats r, ci_last_stop_flood = r_last_stop_hop_was_flood r,
      ci_require_progress = require_progress cfg, ci_skip_pure_social = skip_pure_social cfg,
      ci_max_pending = max_pending_continues cfg\<rparr>"

definition maybe_enqueue_moment_continue ::
  "tick \<Rightarrow> continuous_settings \<Rightarrow> wake_item \<Rightarrow> string \<Rightarrow> do_loop_result \<Rightarrow> worker \<Rightarrow> step" where
  "maybe_enqueue_moment_continue K cfg wake mid r p =
     (case has_open_work p of Inl e \<Rightarrow> (Inl e, p) | Inr has_open \<Rightarrow>
      let dec = should_enqueue_moment_continue (continue_inputs_of cfg (k_since_now K) wake r p has_open);
          cont = p_cont p;
          c1 = (if start_cooldown dec then cont\<lparr>last_enqueue_at := Some (k_now K)\<rparr> else cont)
      in if \<not> mc_enqueue dec
         then (Inr (), p\<lparr>p_cont := (if mc_reason dec \<noteq> ''disabled'' then c1\<lparr>last_skip_reason := Some (mc_reason dec)\<rparr> else c1)\<rparr>)
         else let c2 = c1\<lparr>last_skip_reason := None\<rparr>; p2 = p\<lparr>p_cont := c2\<rparr> in
           case enqueue (p_queue p2) ''moment_continue''
                  (Some [(''source_moment_id'', JStr mid), (''source_wake_kind'', JStr (kind wake)),
                         (''source_stop_reason'', JStr (known_stop (r_stop_reason r))),
                         (''streak'', JInt (c_streak c2))]) None None (k_continue K) of
             Inl e \<Rightarrow> (Inl e, p2)
           | Inr (q, item) \<Rightarrow>
               (Inr (), (put_queue q p2)\<lparr>p_cont := c2\<lparr>last_continue_wake_id := Some (id item),
                                                    last_source_moment_id := Some mid\<rparr>\<rparr>))"

definition clear_moment_viewing :: "worker \<Rightarrow> worker" where
  "clear_moment_viewing p = p\<lparr>p_viewing := [], p_viewing_dirty := False\<rparr>"

definition count_streak :: "wake_item \<Rightarrow> worker \<Rightarrow> worker" where
  "count_streak wake p =
     (if kind wake = ''moment_continue'' \<and> c_enabled (p_cont p)
      then p\<lparr>p_cont := (p_cont p)\<lparr>c_streak := c_streak (p_cont p) + 1\<rparr>\<rparr> else p)"

definition leave_moment :: "do_loop_result \<Rightarrow> worker \<Rightarrow> worker" where
  "leave_moment r p =
     (let p1 = p\<lparr>p_busy := False, p_active := None\<rparr>;
          p2 = (if blank_str (r_error r) then p1 else p1\<lparr>p_error := r_error r\<rparr>)
      in clear_moment_viewing p2)"

definition finalize_moment ::
  "tick \<Rightarrow> continuous_settings \<Rightarrow> wake_item \<Rightarrow> string \<Rightarrow> do_loop_result \<Rightarrow> string list \<Rightarrow> worker \<Rightarrow> step" where
  "finalize_moment K cfg wake mid r skills p =
     (let stop = known_stop (r_stop_reason r) in
      and_then (swallow is_key_or_value
        (close_step (k_close K) mid stop (Some (r_hop_count r)) (Some skills) p)) (\<lambda>p.
      and_then (swallow is_key (done_step (k_done K) (id wake) p)) (\<lambda>p.
      case last_tool_from_tape (p_store p) mid of
        Inl e \<Rightarrow> (Inl e, p\<lparr>p_hop := r_hop_count r, p_injects := r_continue_injects r\<rparr>)
      | Inr tool \<Rightarrow>
      and_then (flush_interjects (k_flush K) (k_message_ids K)
        (p\<lparr>p_hop := r_hop_count r, p_injects := r_continue_injects r, p_last_tool := tool\<rparr>)) (\<lambda>p.
      and_then (if stop = ''wait'' \<or> r_arm_wait r \<noteq> None then ensure_wait_armed (k_arm K) (r_arm_wait r) mid p
                else (Inr (), p)) (\<lambda>p.
      and_then (maybe_enqueue_moment_continue K cfg wake mid r
        (count_streak wake (p\<lparr>p_phase := phase_from_pending_waits p\<rparr>))) (\<lambda>p.
      (Inr (), leave_moment r p)))))))"

definition fail_close :: "tick \<Rightarrow> string option \<Rightarrow> worker \<Rightarrow> step" where
  "fail_close K mid p =
     (case mid of
        None \<Rightarrow> (Inr (), p)
      | Some m \<Rightarrow>
          swallow is_key_or_value
            (case get_moment (p_store p) m of
               Inl e \<Rightarrow> (Inl e, p)
             | Inr None \<Rightarrow> (Inr (), p)
             | Inr (Some meta) \<Rightarrow>
                 if jget meta ''ended_at'' = JNull
                 then close_step (k_fail_close K) m ''error'' (Some (p_hop p)) None p
                 else (Inr (), p)))"

definition fail_done :: "tick \<Rightarrow> wake_item option \<Rightarrow> worker \<Rightarrow> step" where
  "fail_done K wake p =
     (case wake of
        None \<Rightarrow> (Inr (), p)
      | Some w \<Rightarrow>
          swallow is_key
            (case status (p_queue p) (id w) of
               None \<Rightarrow> (Inr (), p)
             | Some x \<Rightarrow> if terminal x then (Inr (), p) else done_step (k_fail_done K) (id w) p))"

definition fail_in_flight :: "tick \<Rightarrow> wake_item option \<Rightarrow> string option \<Rightarrow> pyerr \<Rightarrow> worker \<Rightarrow> step" where
  "fail_in_flight K wake mid e p =
     and_then (fail_close K mid (p\<lparr>p_error := Some (k_show K e)\<rparr>)) (\<lambda>p.
     and_then (fail_done K wake p) (\<lambda>p.
     and_then (flush_interjects (k_fail_flush K) (k_message_ids K) p) (\<lambda>p.
     (Inr (), clear_moment_viewing
        (p\<lparr>p_phase := phase_from_pending_waits p, p_busy := False, p_active := None\<rparr>)))))"

section \<open>The loop of the worker thread\<close>

type_synonym moment_port = "wake_item \<Rightarrow> string \<Rightarrow> worker \<Rightarrow> (do_loop_result \<times> string list) res \<times> worker"

text \<open>
  One pass of the poll loop. \<open>run\<close> is the injected do-loop port together with everything other
  threads do to the worker while it runs. The result is \<open>Inl\<close> when an exception leaves the
  handler and with it the thread.
\<close>

definition iteration :: "tick \<Rightarrow> continuous_settings \<Rightarrow> moment_port \<Rightarrow> worker \<Rightarrow> step" where
  "iteration K cfg run p =
     (case claim_and_open K p of
        (Inl e, p1) \<Rightarrow> fail_in_flight K None None e p1
      | (Inr None, p1) \<Rightarrow> (Inr (), fire_due (k_idle_due K) (k_idle_timeouts K) p1)
      | (Inr (Some (wake, mid)), p1) \<Rightarrow>
          (case run wake mid p1 of
             (Inl e, p2) \<Rightarrow> fail_in_flight K (Some wake) (Some mid) e p2
           | (Inr (r, skills), p2) \<Rightarrow>
               (case finalize_moment K cfg wake mid r skills p2 of
                  (Inl e, p3) \<Rightarrow> fail_in_flight K (Some wake) (Some mid) e p3
                | ok \<Rightarrow> ok)))"

text \<open>A process starts from what is on disk.\<close>

definition boot :: "timer_service \<Rightarrow> moment_store \<Rightarrow> goals_store \<Rightarrow> bool \<Rightarrow> worker" where
  "boot svc st gs cont_on =
     \<lparr>p_svc = svc, p_store = st, p_goals = gs, p_phase = PHASE_IDLE, p_busy = False, p_active = None,
      p_error = None, p_hop = 0, p_last_tool = None, p_injects = 0, p_interject = new_buffer,
      p_cont = \<lparr>c_enabled = cont_on, c_streak = 0, last_enqueue_at = None, last_continue_wake_id = None,
                last_source_moment_id = None, last_skip_reason = None, c_resetting = False\<rparr>,
      p_viewing = [], p_viewing_dirty = False\<rparr>"

definition startup_recover :: "moment_draw \<Rightarrow> draws \<Rightarrow> tenv \<Rightarrow> worker \<Rightarrow> step" where
  "startup_recover dr ds E p =
     (case recover_open_moments dr (p_store p) of
        (Inl e, st) \<Rightarrow> (Inl e, p\<lparr>p_store := st\<rparr>)
      | (Inr _, st) \<Rightarrow>
          (let p1 = p\<lparr>p_store := st\<rparr> in
           case recover_claimed (p_queue p1) ds of
             Inl e \<Rightarrow> (Inl e, p1)
           | Inr (q, _) \<Rightarrow>
               (let p2 = put_queue q p1 in
                case rehydrate E NowClock (p_svc p2) of
                  (Inl e, s) \<Rightarrow> (Inl e, p2\<lparr>p_svc := s\<rparr>)
                | (Inr _, s) \<Rightarrow>
                    (let p3 = p2\<lparr>p_svc := s\<rparr> in (Inr (), p3\<lparr>p_phase := phase_from_pending_waits p3\<rparr>)))))"
section \<open>Calls of other threads and of tools\<close>

text \<open>What one such call reads: draws for the queue, a message id, the timer environment.\<close>

record call_env =
  n_draws :: draws
  n_uuid :: string
  n_tenv :: tenv

definition pending_wait_dict :: "(rat \<Rightarrow> string) \<Rightarrow> pending_wait \<Rightarrow> jdict" where
  "pending_wait_dict repr w =
     [(''id'', JStr (w_id w)), (''prompt'', JStr (w_prompt w)), (''choices'', str_list (w_choices w)),
      (''user_id'', JStr (w_user_id w)), (''moment_id'', JStr (w_moment_id w)), (''expires_at'', JStr (expires_at w)),
      (''timeout'', (case w_timeout w of None \<Rightarrow> JNull | Some q \<Rightarrow> JFloat (repr q) (Some q))),
      (''armed_at'', null_or (armed_at w)), (''status'', JStr (w_status w)), (''wake_id'', null_or (w_wake_id w))]"

definition pending_wait_of :: "(rat \<Rightarrow> string) \<Rightarrow> worker \<Rightarrow> jdict option" where
  "pending_wait_of repr p =
     (case list_waits (p_svc p) (Some STATUS_PENDING) of [] \<Rightarrow> None | w # _ \<Rightarrow> Some (pending_wait_dict repr w))"

definition message_payload :: "string \<Rightarrow> string \<Rightarrow> string \<Rightarrow> jdict" where
  "message_payload body_s user mid =
     [(''content'', JStr body_s), (''user_id'', JStr user), (''message_id'', JStr mid)]"

definition send_to_queue :: "draw \<Rightarrow> string \<Rightarrow> jdict option \<Rightarrow> string option \<Rightarrow> worker \<Rightarrow> string res \<times> worker" where
  "send_to_queue dr knd pl wid p =
     (case enqueue (p_queue p) knd pl wid None dr of
        Inl e \<Rightarrow> (Inl e, p)
      | Inr (q, item) \<Rightarrow> (Inr (id item), put_queue q p))"

definition enqueue_wake :: "call_env \<Rightarrow> string \<Rightarrow> jdict option \<Rightarrow> string option \<Rightarrow> worker \<Rightarrow> string res \<times> worker" where
  "enqueue_wake N knd pl wid p =
     (if c_resetting (p_cont p) then (Inl (RuntimeError ''resetting''), p)
      else send_to_queue (n_draws N 0) knd pl wid p)"

definition enqueue_user_message ::
  "call_env \<Rightarrow> string \<Rightarrow> string \<Rightarrow> string option \<Rightarrow> worker \<Rightarrow> string res \<times> worker" where
  "enqueue_user_message N body_s user mid p =
     (if c_resetting (p_cont p) then (Inl (RuntimeError ''resetting''), p)
      else send_to_queue (n_draws N 0) ''user_message''
             (Some (message_payload body_s user (str_or mid (n_uuid N)))) None p)"

definition resetting_reply :: jdict where
  "resetting_reply = [(''ok'', JBool False), (''error'', JStr ''resetting''), (''reason'', JStr ''resetting'')]"

definition interject :: "call_env \<Rightarrow> string \<Rightarrow> string \<Rightarrow> string option \<Rightarrow> worker \<Rightarrow> jdict res \<times> worker" where
  "interject N body_s user mid p =
     (if c_resetting (p_cont p) then (Inr resetting_reply, p)
      else if p_phase p \<noteq> PHASE_IN_MOMENT
      then (case send_to_queue (n_draws N 0) ''user_message''
                   (Some (message_payload body_s user (str_or mid (n_uuid N)))) None p of
              (Inl e, p') \<Rightarrow> (Inl e, p')
            | (Inr wid, p') \<Rightarrow>
                (Inr [(''ok'', JBool True), (''routed'', JStr ROUTE_USER_MESSAGE), (''wake_id'', JStr wid),
                      (''reason'', JStr ''not_in_moment'')], p'))
      else case try_add (p_interject p) \<lparr>ij_content = body_s, ij_user_id = user, ij_message_id = mid\<rparr> of
        ((True, _), b) \<Rightarrow> (Inr [(''ok'', JBool True), (''routed'', JStr ROUTE_INTERJECT)], p\<lparr>p_interject := b\<rparr>)
      | ((False, reason), b) \<Rightarrow>
          (case send_to_queue (n_draws N 0) ''user_message''
                  (Some (message_payload body_s user (str_or mid (n_uuid N)) @ [(''from_interject_overflow'', JBool True)]))
                  None (p\<lparr>p_interject := b\<rparr>) of
             (Inl e, p') \<Rightarrow> (Inl e, p')
           | (Inr wid, p') \<Rightarrow>
               (Inr [(''ok'', JBool False), (''routed'', JStr ROUTE_INTERJECT),
                     (''reason'', JStr (str_or reason REASON_BUFFER_FULL)), (''wake_id'', JStr wid)], p')))"

definition apply_wait_reply ::
  "call_env \<Rightarrow> string \<Rightarrow> string \<Rightarrow> string option \<Rightarrow> string option \<Rightarrow> string option \<Rightarrow> worker \<Rightarrow> jdict res \<times> worker" where
  "apply_wait_reply N body_s user choice wid msg p =
     (let text_s = strip body_s; choice_s = strip_opt choice;
          (r, p1) = (if blank_str wid then (Inr (), p)
             else swallow is_key
               (case mark_wait_answered (n_tenv N) (p_svc p) (the wid) of
                  Inl e \<Rightarrow> (Inl e, p)
                | Inr (s, _) \<Rightarrow> (Inr (), p\<lparr>p_svc := s\<rparr>)));
          mid = str_or msg (n_uuid N);
          pl0 = [(''user_id'', JStr user), (''content'', JStr (str_dflt text_s choice_s)), (''message_id'', JStr mid)];
          pl1 = (if blank_str wid then pl0 else pl0 @ [(''wait_id'', JStr (the wid))]);
          pl2 = (if choice_s = [] then pl1 else pl1 @ [(''choice'', JStr choice_s)])
      in case r of
           Inl e \<Rightarrow> (Inl e, p1)
         | Inr _ \<Rightarrow>
             (case send_to_queue (n_draws N 0) ''wait_reply'' (Some pl2) None p1 of
                (Inl e, p') \<Rightarrow> (Inl e, p')
              | (Inr w, p') \<Rightarrow>
                  (Inr [(''ok'', JBool True), (''routed'', JStr ROUTE_WAIT_REPLY), (''wake_id'', JStr w),
                        (''wait_id'', null_or wid), (''message_id'', JStr mid), (''cancel_stale_wait'', JBool False),
                        (''answer_wait_id'', null_or wid)], p')))"

definition decision_dict :: "decision \<Rightarrow> jdict" where
  "decision_dict d =
     [(''routed'', JStr (routed d)), (''ok'', JBool (d_ok d))] @
     (case d_reason d of None \<Rightarrow> [] | Some r \<Rightarrow> [(''reason'', JStr r)]) @
     [(''cancel_stale_wait'', JBool (cancel_stale_wait d)), (''answer_wait_id'', null_or (answer_wait_id d))]"

definition dict_update :: "jdict \<Rightarrow> jdict \<Rightarrow> jdict" where
  "dict_update d e = foldl (\<lambda>a (k, v). dset a k v) d e"

definition drop_stale_wait :: "call_env \<Rightarrow> decision \<Rightarrow> jdict option \<Rightarrow> worker \<Rightarrow> step" where
  "drop_stale_wait N d pw p =
     (if cancel_stale_wait d \<and> pw \<noteq> None
      then and_then
        (case wait_id_of pw of
           None \<Rightarrow> (Inr (), p)
         | Some wid \<Rightarrow>
             swallow is_key
               (case cancel_wait (n_tenv N) (p_svc p) wid of
                  Inl e \<Rightarrow> (Inl e, p)
                | Inr (s, _) \<Rightarrow> (Inr (), p\<lparr>p_svc := s\<rparr>)))
        (\<lambda>p. (Inr (), if p_phase p = PHASE_WAITING \<and> \<not> has_pending_wait p then p\<lparr>p_phase := PHASE_IDLE\<rparr> else p))
      else (Inr (), p))"

definition handle_user_input ::
  "call_env \<Rightarrow> string \<Rightarrow> string \<Rightarrow> string option \<Rightarrow> bool \<Rightarrow> string option \<Rightarrow> bool \<Rightarrow> worker \<Rightarrow> jdict res \<times> worker" where
  "handle_user_input N body_s user choice from_wait_api msg has_attachments p =
     (if c_resetting (p_cont p) then (Inr resetting_reply, p)
      else
        let pw = pending_wait_of (float_repr (n_tenv N)) p;
            d = resolve_user_input body_s user choice from_wait_api (p_phase p) pw has_attachments
        in if \<not> d_ok d then (Inr (decision_dict d), p)
           else if routed d = ROUTE_INTERJECT
           then (case interject N body_s user msg p of
                   (Inl e, p') \<Rightarrow> (Inl e, p')
                 | (Inr r, p') \<Rightarrow> (Inr (dict_update (decision_dict d) r), p'))
           else if routed d = ROUTE_WAIT_REPLY
           then apply_wait_reply N body_s user choice (answer_wait_id d) msg p
           else case drop_stale_wait N d pw p of
             (Inl e, p1) \<Rightarrow> (Inl e, p1)
           | (Inr _, p1) \<Rightarrow>
               (let mid = str_or msg (n_uuid N) in
                case send_to_queue (n_draws N 0) ''user_message'' (Some (message_payload body_s user mid)) None p1 of
                  (Inl e, p') \<Rightarrow> (Inl e, p')
                | (Inr wid, p') \<Rightarrow>
                    (Inr (dset (dset (decision_dict d) ''wake_id'' (JStr wid)) ''message_id'' (JStr mid)), p')))"

definition set_continuous_enabled ::
  "call_env \<Rightarrow> bool \<Rightarrow> worker \<Rightarrow> (bool \<times> string list) option res \<times> worker" where
  "set_continuous_enabled N want p =
     (if c_resetting (p_cont p) then (Inr None, p)
      else
        let prev = c_enabled (p_cont p); p1 = p\<lparr>p_cont := (p_cont p)\<lparr>c_enabled := want\<rparr>\<rparr>
        in if want then (Inr (Some (prev \<noteq> want, [])), p1)
           else case cancel_all_pending_of_kind (p_queue p1) ''moment_continue'' ''continuous_disabled'' (n_draws N) of
             Inl e \<Rightarrow> (Inl e, p1)
           | Inr (q, ws) \<Rightarrow>
               (Inr (Some (prev \<noteq> want, ws)),
                (put_queue q p1)\<lparr>p_cont := (p_cont p1)\<lparr>c_streak := 0, last_skip_reason := None\<rparr>\<rparr>))"

text \<open>The keyword arguments of the tool port: \<open>wid\<close> its \<open>wake_id\<close>, \<open>extra\<close> all others.\<close>

definition tool_payload :: "jdict option \<Rightarrow> jdict \<Rightarrow> jdict option" where
  "tool_payload pl extra =
     (case pl of
        None \<Rightarrow> (if extra = [] then None else Some extra)
      | Some d \<Rightarrow> Some (d @ filter (\<lambda>(k, v). k \<notin> set (dkeys d)) extra))"

definition tool_enqueue_wake ::
  "call_env \<Rightarrow> string \<Rightarrow> jdict option \<Rightarrow> string option \<Rightarrow> jdict \<Rightarrow> worker \<Rightarrow> string res \<times> worker" where
  "tool_enqueue_wake N knd pl wid extra p =
     (if knd = [] then (Inl (TypeError ''enqueue_wake requires kind''), p)
      else let body = tool_payload pl extra in
        if c_resetting (p_cont p) then (Inl (RuntimeError ''resetting''), p)
        else if knd = ''task_ready'' \<and> (case body of None \<Rightarrow> False | Some d \<Rightarrow> truthy (jget d ''task_id''))
        then (case enqueue_task_ready (p_queue p) (py_str (jget (the body) ''task_id''))
                     (case jget (the body) ''goal_id'' of JStr g \<Rightarrow> Some g | _ \<Rightarrow> None) body (n_draws N) of
                Inl e \<Rightarrow> (Inl e, p)
              | Inr (q, item) \<Rightarrow> (Inr (id item), put_queue q p))
        else send_to_queue (n_draws N 0) knd body wid p)"

definition tool_cancel_wait :: "call_env \<Rightarrow> string \<Rightarrow> worker \<Rightarrow> step" where
  "tool_cancel_wait N wid p =
     (case cancel_wait (n_tenv N) (p_svc p) wid of
        Inl e \<Rightarrow> (if is_key e then (Inr (), p) else (Inl e, p))
      | Inr (s, _) \<Rightarrow>
          (let p1 = p\<lparr>p_svc := s\<rparr> in
           (Inr (), if p_phase p1 = PHASE_WAITING \<and> \<not> p_busy p1 \<and> \<not> has_pending_wait p1
                    then p1\<lparr>p_phase := PHASE_IDLE\<rparr> else p1)))"

text \<open>Called by the goals store; whatever it raises is logged.\<close>

definition on_task_ready_hook :: "call_env \<Rightarrow> string \<Rightarrow> string \<Rightarrow> worker \<Rightarrow> worker" where
  "on_task_ready_hook N task_id goal_id p =
     (if c_resetting (p_cont p) then p
      else case enqueue_task_ready (p_queue p) task_id (Some goal_id) None (n_draws N) of
        Inl _ \<Rightarrow> p
      | Inr (q, _) \<Rightarrow> put_queue q p)"

definition drain_interjections_port :: "worker \<Rightarrow> jdict list \<times> worker" where
  "drain_interjections_port p =
     (case drain_buffer (p_interject p) of
        (its, b) \<Rightarrow>
          (map (\<lambda>it. [(''content'', JStr (ij_content it)), (''user_id'', JStr (ij_user_id it)),
                      (''message_id'', null_or (ij_message_id it))]) its,
           p\<lparr>p_interject := b\<rparr>))"

definition mark_viewing ::
  "string \<Rightarrow> string \<Rightarrow> string \<Rightarrow> string \<Rightarrow> int \<Rightarrow> rat option \<Rightarrow> worker \<Rightarrow> string list res \<times> worker" where
  "mark_viewing att knd mime name bytes dur p =
     (case add_viewing (p_viewing p) att knd mime name bytes dur MAX_VIEWING_SET of
        Inl e \<Rightarrow> (Inl e, p)
      | Inr (_, es) \<Rightarrow> (Inr (dkeys es), p\<lparr>p_viewing := es, p_viewing_dirty := True\<rparr>))"

definition drop_from_viewing :: "string \<Rightarrow> worker \<Rightarrow> bool \<times> worker" where
  "drop_from_viewing att p =
     (case drop_viewing (p_viewing p) att of
        (removed, es) \<Rightarrow> (removed, p\<lparr>p_viewing := es, p_viewing_dirty := (removed \<or> p_viewing_dirty p)\<rparr>))"

definition clear_viewing_port :: "worker \<Rightarrow> int \<times> worker" where
  "clear_viewing_port p =
     (case clear_viewing (p_viewing p) of
        (n, es) \<Rightarrow> (n, p\<lparr>p_viewing := es, p_viewing_dirty := (n > 0 \<or> p_viewing_dirty p)\<rparr>))"

text \<open>The dirty flag of the viewing set, which the loop reads and clears and a tool may set.\<close>

definition is_viewing_dirty :: "worker \<Rightarrow> bool" where
  "is_viewing_dirty p = p_viewing_dirty p"

definition clear_viewing_dirty :: "worker \<Rightarrow> worker" where
  "clear_viewing_dirty p = p\<lparr>p_viewing_dirty := False\<rparr>"

definition set_viewing_dirty :: "worker \<Rightarrow> worker" where
  "set_viewing_dirty p = p\<lparr>p_viewing_dirty := True\<rparr>"

end
