(* ===== verification/Worker_Safety.thy ===== *)
theory Worker_Safety
  imports Worker
begin

text \<open>
  The presence worker keeps its books: between two passes of its loop no wake is left claimed, no
  moment open and no interjection buffered, whatever other threads did in the middle and whether
  the moment returned or raised; after a crash the startup recovery brings this about.
\<close>

section \<open>Claimed wakes\<close>

definition claims :: "wake_queue \<Rightarrow> string set" where
  "claims q = {w. status q w = Some Claimed}"

lemma claims_cong: "ops q' = ops q \<Longrightarrow> claims q' = claims q"
  by (simp add: claims_def status_def)

lemma claims_enqueue: "enqueue q k pl wid cr dr = Inr (q', it) \<Longrightarrow> claims q' = claims q"
  using enqueue_Inr(5,6) [of q k pl wid cr dr q' it] by (auto simp: claims_def status_def terminal_def)

lemma claims_cancel: "cancel q w r dr = Inr q' \<Longrightarrow> claims q' = claims q - {w}"
  by (auto elim!: cancel_cases simp: claims_def status_def terminal_def split: if_splits)

lemma claims_mark_done: "mark_done q w dr = Inr q' \<Longrightarrow> claims q' = claims q - {w}"
  by (auto simp: mark_done_def claims_def status_def terminal_def split: option.splits if_splits)

lemma claims_claim:
  assumes "coherent q" and "claim q m dr = Inr (q', r)"
  shows "claims q' = (case r of None \<Rightarrow> claims q | Some it \<Rightarrow> insert (id it) (claims q))"
  using assms by (cases rule: claim_cases) (auto simp: claims_def status_def)

lemma claims_cancel_loop: "cancel_loop q ws r ds i = Inr q' \<Longrightarrow> claims q' = claims q - set ws"
  by (induction ws arbitrary: q i) (auto simp: bind_res_eq_Inr claims_cancel)

text \<open>Pending ids are not claimed ones.\<close>

lemma pending_where_live: "w \<in> set (pending_where q P) \<Longrightarrow> w \<notin> claims q"
  by (auto simp: pending_where_def claims_def status_def split: option.splits)

lemma claims_cancel_all:
  "cancel_all_pending_of_kind q k r ds = Inr (q', ws) \<Longrightarrow> claims q' = claims q"
  by (auto simp: cancel_all_pending_of_kind_def bind_res_eq_Inr Let_def claims_cancel_loop
      dest: pending_where_live split: if_splits)

lemma pending_ids_of_items:
  assumes "coherent q" and "it \<in> set (items_of q (pending_where q P))"
  shows "id it \<in> set (pending_where q P)"
proof -
  obtain w where "w \<in> set (pending_where q P)" "dget (items q) w = Some it"
    using assms(2) by (auto simp: items_of_def List.map_filter_def)
  then show ?thesis using coherent_live_ids [OF assms(1)] by (auto simp: live_ids_def)
qed

lemma claims_enqueue_task_ready:
  assumes "coherent q" and "enqueue_task_ready q t g pl ds = Inr (q', it)"
  shows "claims q' = claims q"
proof -
  have "claims q \<inter> id ` set (pending_task_ready q t) = {}"
    using pending_where_live pending_ids_of_items [OF assms(1)]
    by (force simp: pending_task_ready_def)
  then show ?thesis using assms(2)
    by (auto simp: enqueue_task_ready_def bind_res_eq_Inr Let_def claims_cancel_loop dest!: claims_enqueue
        split: if_splits)
qed
section \<open>Timers and waits keep the claims\<close>

lemma claims_put_timer: "put_timer b s t = Inr s' \<Longrightarrow> queue s' = queue s"
  by (auto simp: put_timer_def persist_timers_def Let_def split: if_splits)

lemma claims_put_wait: "put_wait b s t = Inr s' \<Longrightarrow> queue s' = queue s"
  by (auto simp: put_wait_def persist_waits_def Let_def split: if_splits)

lemma claims_fire_timers: "claims (queue (snd (fire_timers E i due s acc))) = claims (queue s)"
  by (rule ft.loop_keeps [where J = "\<lambda>t. claims (queue t) = claims (queue s)"])
    (simp_all add: claims_put_timer claims_enqueue)

lemma claims_fire_waits: "claims (queue (snd (fire_waits E i now due s acc))) = claims (queue s)"
  by (rule fw.loop_keeps [where J = "\<lambda>t. claims (queue t) = claims (queue s)"])
    (simp_all add: claims_put_wait claims_enqueue)

lemma claims_schedule_due_at: "claims (queue (snd (schedule_due_at E i now s))) = claims (queue s)"
  by (simp add: schedule_due_at_def claims_fire_timers split: sum.split)

lemma claims_check_timeouts_at: "claims (queue (snd (check_timeouts_at E i now s))) = claims (queue s)"
  by (simp add: check_timeouts_at_def claims_fire_waits split: sum.split)

lemma claims_schedule_due: "claims (queue (snd (schedule_due E n s))) = claims (queue s)"
  by (simp add: schedule_due_def claims_schedule_due_at split: sum.split)

lemma claims_check_timeouts: "claims (queue (snd (check_timeouts E n s))) = claims (queue s)"
  by (simp add: check_timeouts_def claims_check_timeouts_at split: sum.split)

lemma claims_reconcile_timers: "claims (queue (snd (reconcile_timers E i ts s acc))) = claims (queue s)"
  by (induction E i ts s acc rule: reconcile_timers.induct)
    (auto simp: claims_enqueue split: option.split sum.split)

lemma claims_reconcile_waits: "claims (queue (snd (reconcile_waits E i now ws s acc))) = claims (queue s)"
  by (induction E i now ws s acc rule: reconcile_waits.induct)
    (auto simp: claims_enqueue split: option.split sum.split)

lemma claims_rehydrate: "claims (queue (snd (rehydrate E n s))) = claims (queue s)"
proof (cases "resolve_now E n")
  case (Inr now)
  then show ?thesis unfolding rehydrate_def
    by (simp, intro andthen_keeps [where J = "\<lambda>t. claims (queue t) = claims (queue s)"])
      (simp_all add: reconcile_orphaned_wait_timeouts_def reconcile_orphaned_timer_fires_def
        claims_reconcile_timers claims_reconcile_waits claims_check_timeouts_at claims_schedule_due_at
        load_service_def)
qed (simp add: rehydrate_def)

lemma queue_arm_wait: "Timers.arm_wait E s p u m x t c i = Inr (s', w) \<Longrightarrow> queue s' = queue s"
  by (auto simp: Timers.arm_wait_def bind_res_eq_Inr Let_def dest: claims_put_wait)

lemma queue_end_wait: "end_wait st E s i = Inr (s', w) \<Longrightarrow> queue s' = queue s"
  by (auto simp: end_wait_def bind_res_eq_Inr dest: claims_put_wait split: option.splits if_splits)

lemmas queue_timer_calls = queue_arm_wait queue_end_wait [folded mark_wait_answered_def cancel_wait_def]
section \<open>What other threads and tools can do\<close>

definition base_ok :: "worker \<Rightarrow> bool" where
  "base_ok p \<longleftrightarrow> svc_ok (p_svc p) \<and> buffer_ok (p_interject p) \<and> viewing_ok MAX_VIEWING_SET (p_viewing p)"

text \<open>
  \<open>kept p p'\<close>: the moment store, the busy flag, the active moment and the claims are the same,
  the phase at most falls from waiting to idle, and outside a moment nothing is buffered.
\<close>

definition kept :: "worker \<Rightarrow> worker \<Rightarrow> bool" where
  "kept p p' \<longleftrightarrow>
     base_ok p' \<and> p_store p' = p_store p \<and> p_busy p' = p_busy p \<and> p_active p' = p_active p \<and>
     claims (p_queue p') = claims (p_queue p) \<and>
     (p_phase p' = p_phase p \<or> p_phase p = PHASE_WAITING \<and> p_phase p' = PHASE_IDLE) \<and>
     (p_phase p \<noteq> PHASE_IN_MOMENT \<longrightarrow> ij_items (p_interject p) = [] \<longrightarrow> ij_items (p_interject p') = [])"

named_theorems keeps

lemma kept_refl [keeps]: "base_ok p \<Longrightarrow> kept p p"
  by (simp add: kept_def)

lemma phases_differ [simp]:
  "PHASE_IDLE \<noteq> PHASE_WAITING" "PHASE_IDLE \<noteq> PHASE_IN_MOMENT" "PHASE_WAITING \<noteq> PHASE_IN_MOMENT"
  "PHASE_WAITING \<noteq> PHASE_IDLE" "PHASE_IN_MOMENT \<noteq> PHASE_IDLE" "PHASE_IN_MOMENT \<noteq> PHASE_WAITING"
  by (simp_all add: phase_defs)

lemma kept_trans: "kept p q \<Longrightarrow> kept q r \<Longrightarrow> kept p r"
  unfolding kept_def by (auto simp: phase_defs)

lemma put_queue_simps [simp]:
  "queue (p_svc (put_queue q p)) = q" "p_store (put_queue q p) = p_store p" "p_phase (put_queue q p) = p_phase p"
  "p_busy (put_queue q p) = p_busy p" "p_active (put_queue q p) = p_active p"
  "p_interject (put_queue q p) = p_interject p" "p_viewing (put_queue q p) = p_viewing p"
  "p_cont (put_queue q p) = p_cont p" "p_goals (put_queue q p) = p_goals p" "p_hop (put_queue q p) = p_hop p"
  "waits (p_svc (put_queue q p)) = waits (p_svc p)"
  by (simp_all add: put_queue_def)

lemma svc_ok_coherent: "svc_ok s \<Longrightarrow> coherent (queue s)"
  by (simp add: svc_ok_def)

lemma base_ok_put_queue: "base_ok p \<Longrightarrow> coherent q \<Longrightarrow> base_ok (put_queue q p)"
  by (simp add: base_ok_def put_queue_def svc_ok_queue)

lemma kept_put_queue:
  "base_ok p \<Longrightarrow> coherent q \<Longrightarrow> claims q = claims (p_queue p) \<Longrightarrow> kept p (put_queue q p)"
  by (simp add: kept_def base_ok_put_queue)

lemma kept_svc: "base_ok p \<Longrightarrow> svc_ok s \<Longrightarrow> claims (queue s) = claims (p_queue p) \<Longrightarrow> kept p (p\<lparr>p_svc := s\<rparr>)"
  by (simp add: kept_def base_ok_def)

lemma kept_cont: "kept p p' \<Longrightarrow> kept p (p'\<lparr>p_cont := c\<rparr>)" "kept (p\<lparr>p_cont := c\<rparr>) p' \<Longrightarrow> kept p p'"
  by (simp_all add: kept_def base_ok_def)

lemma base_ok_coherent: "base_ok p \<Longrightarrow> coherent (p_queue p)"
  by (simp add: base_ok_def svc_ok_def)

lemma kept_send [keeps]: "base_ok p \<Longrightarrow> kept p (snd (send_to_queue dr k pl wid p))"
proof (cases "enqueue (p_queue p) k pl wid None dr")
  case (Inr x)
  assume b: "base_ok p"
  obtain q it where x: "x = (q, it)" by (rule prod.exhaust)
  show ?thesis
    using enqueue_coherent [OF base_ok_coherent [OF b] Inr [unfolded x]] claims_enqueue [OF Inr [unfolded x]] b
    by (simp add: send_to_queue_def Inr x kept_put_queue)
qed (simp add: send_to_queue_def kept_refl)

lemma kept_enqueue_wake [keeps]: "base_ok p \<Longrightarrow> kept p (snd (enqueue_wake N k pl wid p))"
  by (simp add: enqueue_wake_def keeps)

lemma kept_enqueue_user_message [keeps]: "base_ok p \<Longrightarrow> kept p (snd (enqueue_user_message N c u m p))"
  by (simp add: enqueue_user_message_def keeps)

lemma kept_interject [keeps]: "base_ok p \<Longrightarrow> kept p (snd (interject N c u m p))"
proof (cases "c_resetting (p_cont p) \<or> p_phase p \<noteq> PHASE_IN_MOMENT")
  case True
  assume "base_ok p"
  with True show ?thesis
    using kept_send [of p "n_draws N 0" "''user_message''" "Some (message_payload c u (str_or m (n_uuid N)))" None]
    by (auto simp: interject_def kept_refl split: prod.splits sum.splits)
next
  case False
  assume b: "base_ok p"
  let ?it = "\<lparr>ij_content = c, ij_user_id = u, ij_message_id = m\<rparr>"
  show ?thesis
  proof (cases rule: try_add_cases [of "p_interject p" ?it])
    case added
    have "buffer_ok (snd (try_add (p_interject p) ?it))" using b by (simp add: base_ok_def buffer_ok_try_add)
    with added False b show ?thesis by (simp add: interject_def kept_def base_ok_def)
  next
    case full
    have "p\<lparr>p_interject := p_interject p\<rparr> = p" by simp
    with full False b show ?thesis
      using kept_send [of p "n_draws N 0" "''user_message''"
          "Some (message_payload c u (str_or m (n_uuid N)) @ [(''from_interject_overflow'', JBool True)])" None]
      by (auto simp: interject_def split: prod.splits sum.splits)
  qed
qed

lemma kept_mark_answered:
  "base_ok p \<Longrightarrow> mark_wait_answered E (p_svc p) w = Inr (s, x) \<Longrightarrow> kept p (p\<lparr>p_svc := s\<rparr>)"
  using queue_end_wait [of _ E "p_svc p" w s x] svc_ok_end_wait [of "p_svc p" _ E w s x]
  by (intro kept_svc) (auto simp: mark_wait_answered_def base_ok_def)

lemma kept_cancel_wait:
  "base_ok p \<Longrightarrow> cancel_wait E (p_svc p) w = Inr (s, x) \<Longrightarrow> kept p (p\<lparr>p_svc := s\<rparr>)"
  using queue_end_wait [of _ E "p_svc p" w s x] svc_ok_end_wait [of "p_svc p" _ E w s x]
  by (intro kept_svc) (auto simp: cancel_wait_def base_ok_def)

lemma kept_base: "kept p p' \<Longrightarrow> base_ok p'"
  by (simp add: kept_def)

lemma kept_to_idle: "kept p p' \<Longrightarrow> p_phase p' = PHASE_WAITING \<Longrightarrow> kept p (p'\<lparr>p_phase := PHASE_IDLE\<rparr>)"
  by (auto simp: kept_def base_ok_def phase_defs)
lemma kept_then_send:
  "kept p p1 \<Longrightarrow> kept p (snd (send_to_queue dr k pl wid p1))"
  by (blast intro: kept_trans kept_send dest: kept_base)

lemma snd_swallow [simp]: "snd (swallow h r) = snd r"
  by (cases r) (simp add: swallow_def split: sum.split)

text \<open>A caller that passes an exception on and wraps a result changes no state.\<close>

lemma snd_relay [simp]: "snd (case x of (Inl e, q) \<Rightarrow> (Inl e, q) | (Inr w, q) \<Rightarrow> (Inr (f w q), q)) = snd x"
  by (simp split: prod.split sum.split)

lemma kept_apply_wait_reply [keeps]:
  assumes "base_ok p"
  shows "kept p (snd (apply_wait_reply N c u ch wid m p))"
proof -
  define a where "a = (if blank_str wid then (Inr (), p)
     else swallow is_key (case mark_wait_answered (n_tenv N) (p_svc p) (the wid) of
        Inl e \<Rightarrow> (Inl e, p) | Inr (s, _) \<Rightarrow> (Inr (), p\<lparr>p_svc := s\<rparr>)))"
  have a: "kept p (snd a)"
    using assms kept_mark_answered [OF assms] by (simp add: a_def kept_refl split: sum.split prod.split)
  show ?thesis
  proof (cases a)
    case (Pair r p1)
    with a have k: "kept p p1" by simp
    show ?thesis
      unfolding apply_wait_reply_def a_def [symmetric] Pair Let_def prod.case
      by (cases r) (simp_all add: k kept_then_send)
  qed
qed

lemma kept_drop_stale [keeps]:
  assumes "base_ok p"
  shows "kept p (snd (drop_stale_wait N d pw p))"
proof -
  define a where "a = (case wait_id_of pw of None \<Rightarrow> (Inr (), p) | Some wid \<Rightarrow>
     swallow is_key (case cancel_wait (n_tenv N) (p_svc p) wid of
        Inl e \<Rightarrow> (Inl e, p) | Inr (s, _) \<Rightarrow> (Inr (), p\<lparr>p_svc := s\<rparr>)))"
  have a: "kept p (snd a)"
    using assms kept_cancel_wait [OF assms] by (simp add: a_def kept_refl split: sum.split prod.split option.split)
  show ?thesis
    using a kept_refl [OF assms] kept_to_idle [OF a]
    unfolding drop_stale_wait_def a_def [symmetric] and_then_def
    by (cases a) (auto split: sum.split)
qed

lemma kept_handle_user_input [keeps]:
  assumes "base_ok p"
  shows "kept p (snd (handle_user_input N c u ch api m att p))"
proof -
  note i = kept_interject [OF assms, of N c u m]
  have s: "kept p (snd (send_to_queue dr k pl wid (snd (drop_stale_wait N d pw p))))" for dr k pl wid d pw
    by (rule kept_then_send [OF kept_drop_stale [OF assms]])
  have t: "kept p p1" if "drop_stale_wait N d pw p = (r, p1)" for r p1 d pw
    using kept_drop_stale [OF assms, of N d pw] that by simp
  show ?thesis
    unfolding handle_user_input_def Let_def
    using i kept_refl [OF assms] kept_apply_wait_reply [OF assms] s t
    by (auto split: if_split sum.split prod.split) (metis snd_conv)+
qed

lemma cancel_all_coherent:
  "coherent q \<Longrightarrow> cancel_all_pending_of_kind q k r ds = Inr (q', ws) \<Longrightarrow> coherent q'"
  using cancel_all_pending_of_kind_run [of q k r ds q' ws any_id] run_coherent by blast

lemma kept_set_continuous [keeps]:
  assumes "base_ok p"
  shows "kept p (snd (set_continuous_enabled N want p))"
proof (cases "cancel_all_pending_of_kind (p_queue p) ''moment_continue'' ''continuous_disabled'' (n_draws N)")
  case (Inl e)
  then show ?thesis using assms kept_cont(1) [OF kept_refl [OF assms]]
    by (simp add: set_continuous_enabled_def Let_def kept_refl)
next
  case (Inr x)
  obtain q ws where x: "x = (q, ws)" by (rule prod.exhaust)
  have "kept p (put_queue q p)"
    using assms Inr cancel_all_coherent [OF base_ok_coherent [OF assms]] claims_cancel_all
    by (intro kept_put_queue) (auto simp: x)
  moreover have "put_queue q (p\<lparr>p_cont := c\<rparr>) = (put_queue q p)\<lparr>p_cont := c\<rparr>" for c by (simp add: put_queue_def)
  ultimately show ?thesis using Inr assms kept_cont(1) [OF kept_refl [OF assms]]
    by (simp add: set_continuous_enabled_def Let_def x kept_refl kept_cont(1))
qed

lemma kept_task_ready:
  assumes "base_ok p" and "enqueue_task_ready (p_queue p) t g pl ds = Inr (q, it)"
  shows "kept p (put_queue q p)"
  using assms enqueue_task_ready_run run_coherent claims_enqueue_task_ready base_ok_coherent
  by (intro kept_put_queue) blast+

lemma kept_tool_enqueue [keeps]: "base_ok p \<Longrightarrow> kept p (snd (tool_enqueue_wake N k pl wid ex p))"
  by (auto simp: tool_enqueue_wake_def Let_def keeps dest: kept_task_ready split: sum.split)

lemma kept_on_task_ready [keeps]: "base_ok p \<Longrightarrow> kept p (on_task_ready_hook N t g p)"
  by (auto simp: on_task_ready_hook_def keeps dest: kept_task_ready split: sum.split)

lemma kept_tool_cancel_wait [keeps]: "base_ok p \<Longrightarrow> kept p (snd (tool_cancel_wait N w p))"
  using kept_cancel_wait [of p "n_tenv N" w] kept_to_idle
  by (auto simp: tool_cancel_wait_def Let_def kept_refl split: sum.split)

lemma kept_drain [keeps]: "base_ok p \<Longrightarrow> kept p (snd (drain_interjections_port p))"
  by (simp add: drain_interjections_port_def drain_buffer_def kept_def base_ok_def buffer_ok_def)

lemma kept_mark_viewing [keeps]: "base_ok p \<Longrightarrow> kept p (snd (mark_viewing a k m n b d p))"
  by (auto simp: mark_viewing_def kept_def base_ok_def dest: viewing_ok_add split: sum.split)

lemma kept_drop_viewing [keeps]: "base_ok p \<Longrightarrow> kept p (snd (drop_from_viewing a p))"
  using viewing_ok_drop [of MAX_VIEWING_SET "p_viewing p" a]
  by (auto simp: drop_from_viewing_def kept_def base_ok_def split: prod.split)

lemma kept_clear_viewing [keeps]: "base_ok p \<Longrightarrow> kept p (snd (clear_viewing_port p))"
  by (simp add: clear_viewing_port_def clear_viewing_def kept_def base_ok_def viewing_ok_def MAX_VIEWING_SET_def)

lemma kept_fire_due [keeps]:
  assumes "base_ok p"
  shows "kept p (fire_due E1 E2 p)"
proof -
  obtain r s where r: "schedule_due E1 NowClock (p_svc p) = (r, s)" by (rule prod.exhaust)
  have s: "svc_ok s" "claims (queue s) = claims (p_queue p)"
    using svc_ok_schedule_due [of "p_svc p" E1 NowClock] claims_schedule_due [of E1 NowClock "p_svc p"] assms
    by (simp_all add: r base_ok_def)
  show ?thesis
    using assms s svc_ok_check_timeouts [OF s(1), of E2 NowClock] claims_check_timeouts [of E2 NowClock s]
    by (auto simp: fire_due_def r intro!: kept_svc split: sum.split)
qed
text \<open>
  The calls of the public interface and of the tool ports, and the writes of tools to the timer
  service and the goals ledger they hold.
\<close>

inductive api_step :: "worker \<Rightarrow> worker \<Rightarrow> bool" where
  enqueue_wake: "api_step p (snd (enqueue_wake N k pl wid p))"
| enqueue_user_message: "api_step p (snd (enqueue_user_message N c u m p))"
| interject: "api_step p (snd (interject N c u m p))"
| handle_user_input: "api_step p (snd (handle_user_input N c u ch api m att p))"
| set_continuous_enabled: "api_step p (snd (set_continuous_enabled N want p))"
| tool_enqueue_wake: "api_step p (snd (tool_enqueue_wake N k pl wid ex p))"
| tool_cancel_wait: "api_step p (snd (tool_cancel_wait N w p))"
| on_task_ready: "api_step p (on_task_ready_hook N t g p)"
| drain: "api_step p (snd (drain_interjections_port p))"
| mark_viewing: "api_step p (snd (mark_viewing a k m n b d p))"
| drop_viewing: "api_step p (snd (drop_from_viewing a p))"
| clear_viewing: "api_step p (snd (clear_viewing_port p))"
| arm_wait: "Timers.arm_wait E (p_svc p) pr u m x t c i = Inr (s, w) \<Longrightarrow> api_step p (p\<lparr>p_svc := s\<rparr>)"
| schedule_timer: "schedule_timer E (p_svc p) a r g k i = Inr (s, t) \<Longrightarrow> api_step p (p\<lparr>p_svc := s\<rparr>)"
| cancel_timer: "cancel_timer E (p_svc p) i = Inr s \<Longrightarrow> api_step p (p\<lparr>p_svc := s\<rparr>)"
| viewing_flag: "api_step p (p\<lparr>p_viewing_dirty := flag\<rparr>)"
| goals: "api_step p (p\<lparr>p_goals := g\<rparr>)"

lemma queue_schedule_timer: "schedule_timer E s a r g k i = Inr (s', t) \<Longrightarrow> queue s' = queue s"
  by (auto simp: schedule_timer_def bind_res_eq_Inr Let_def dest: claims_put_timer)

lemma queue_cancel_timer: "cancel_timer E s i = Inr s' \<Longrightarrow> queue s' = queue s"
  by (auto simp: cancel_timer_def dest: claims_put_timer split: option.splits if_splits)

lemma kept_api_step:
  assumes "api_step p p'" and "base_ok p"
  shows "kept p p'"
  using assms(1)
proof cases
  case (arm_wait E pr u m x t c i s w)
  then show ?thesis using assms(2) queue_arm_wait svc_ok_arm_wait
    by (intro kept_svc [OF assms(2), of s, folded arm_wait(1)]) (auto simp: base_ok_def)
next
  case (schedule_timer E a r g k i s t)
  then show ?thesis using assms(2) queue_schedule_timer svc_ok_schedule_timer
    by (intro kept_svc [OF assms(2), of s, folded schedule_timer(1)]) (auto simp: base_ok_def)
next
  case (cancel_timer E i s)
  then show ?thesis using assms(2) queue_cancel_timer svc_ok_cancel_timer
    by (intro kept_svc [OF assms(2), of s, folded cancel_timer(1)]) (auto simp: base_ok_def)
next
  case (viewing_flag flag)
  then show ?thesis using assms(2) by (simp add: kept_def base_ok_def)
next
  case (goals g)
  then show ?thesis using assms(2) by (simp add: kept_def base_ok_def)
qed (use assms(2) in \<open>simp_all add: keeps\<close>)

text \<open>While a moment runs, its beats are appended too.\<close>

inductive mid_step :: "string \<Rightarrow> worker \<Rightarrow> worker \<Rightarrow> bool" for mid where
  api: "api_step p p' \<Longrightarrow> mid_step mid p p'"
| beat: "Moments.append_beat dr (p_store p) mid b = (r, st) \<Longrightarrow> mid_step mid p (p\<lparr>p_store := st\<rparr>)"

section \<open>Settled and running\<close>

definition all_closed :: "moment_store \<Rightarrow> bool" where
  "all_closed st \<longleftrightarrow> (\<exists>ix. load_index_by_id st = Inr ix \<and> (\<forall>k m. dget ix k = Some m \<longrightarrow> \<not> is_open_meta m))"

definition only_open :: "string \<Rightarrow> moment_store \<Rightarrow> bool" where
  "only_open mid st \<longleftrightarrow>
     (\<exists>m. get_moment st mid = Inr (Some m) \<and> is_open_meta m) \<and>
     (\<forall>ix k m. load_index_by_id st = Inr ix \<longrightarrow> dget ix k = Some m \<longrightarrow> k \<noteq> mid \<longrightarrow> \<not> is_open_meta m)"

text \<open>Between two passes of the loop.\<close>

definition settled :: "worker \<Rightarrow> bool" where
  "settled p \<longleftrightarrow> base_ok p \<and> p_phase p \<noteq> PHASE_IN_MOMENT \<and> \<not> p_busy p \<and> p_active p = None \<and>
     claims (p_queue p) = {} \<and> all_closed (p_store p) \<and> ij_items (p_interject p) = []"

text \<open>While the moment \<open>mid\<close> of the wake runs.\<close>

definition running :: "wake_item \<Rightarrow> string \<Rightarrow> worker \<Rightarrow> bool" where
  "running wake mid p \<longleftrightarrow> base_ok p \<and> p_phase p = PHASE_IN_MOMENT \<and> p_busy p \<and> p_active p = Some mid \<and>
     claims (p_queue p) = {id wake} \<and> only_open mid (p_store p)"

lemma settled_api_step: "settled p \<Longrightarrow> api_step p p' \<Longrightarrow> settled p'"
  using kept_api_step [of p p'] by (auto simp: settled_def kept_def)

lemma running_mid_step:
  assumes "running wake mid p" and "mid_step mid p p'"
  shows "running wake mid p'"
  using assms(2)
proof cases
  case api
  then show ?thesis using assms(1) kept_api_step [of p p'] by (auto simp: running_def kept_def)
next
  case (beat dr b r st)
  have "only_open mid st"
  proof (cases "st = p_store p")
    case False
    with beat(2) have "index_file st = index_file (p_store p)"
      by (elim append_beat_cases) auto
    then show ?thesis using assms(1) get_moment_cong [of st "p_store p"] load_cong [of st "p_store p"]
      by (simp add: running_def only_open_def)
  qed (use assms(1) in \<open>simp add: running_def\<close>)
  then show ?thesis using assms(1) by (simp add: running_def base_ok_def beat(1))
qed

lemma running_mid_steps: "(mid_step mid)\<^sup>*\<^sup>* p p' \<Longrightarrow> running wake mid p \<Longrightarrow> running wake mid p'"
  by (induction rule: rtranclp_induct) (auto intro: running_mid_step)
section \<open>Claiming and opening\<close>

lemma open_moment_written:
  assumes load: "load_index_by_id st = Inr ix" and w: "m_write dr = Written"
  obtains (refused) e where "open_moment dr st why u wk gs ts (Some mid) = (Inl e, st)"
  | (opened) st' meta where "open_moment dr st why u wk gs ts (Some mid) = (Inr mid, st')" "dget ix mid = None"
      "meta = new_meta mid (m_now dr) why u wk gs ts" "load_index_by_id st' = Inr (dset ix mid meta)"
      "get_moment st' mid = Inr (Some meta)" "is_open_meta meta"
proof (cases "validate_moment_id mid")
  case (Inl e)
  then show thesis by (intro refused) (simp add: open_moment_def)
next
  case (Inr k)
  then have k: "k = mid" "mid \<noteq> []" using validate_moment_id_eq by auto
  show thesis
  proof (cases "dget ix mid = None")
    case False
    then show thesis using Inr k load by (intro refused) (simp add: open_moment_def)
  next
    case True
    let ?meta = "new_meta mid (m_now dr) why u wk gs ts"
    obtain r1 f where a: "append_line (m_write dr) (index_file st) (JObj ?meta) = (r1, f)" by (rule prod.exhaust)
    note d = decoded_append_line [OF a]
    let ?st = "st\<lparr>index_file := f\<rparr>"
    have "index_row ix (JObj ?meta) = Inr (dset ix mid ?meta)"
      using k by (simp add: index_row_def new_meta_def jget_def)
    then have l: "load_index_by_id ?st = Inr (dset ix mid ?meta)"
      using load d w by (simp add: load_index_by_id_def foldl_res_append)
    have "open_moment dr st why u wk gs ts (Some mid) = (Inr mid, ?st)"
      using Inr k True load a d w by (simp add: open_moment_def append_index_line_def)
    moreover have "get_moment ?st mid = Inr (Some ?meta)" using Inr k l by (simp add: get_moment_def)
    moreover have "is_open_meta ?meta" by (simp add: is_open_meta_def new_meta_def jget_def)
    ultimately show thesis using True l by (intro opened) auto
  qed
qed

lemma status_Enqueue_not_claimed: "status q w = Some Enqueue \<Longrightarrow> w \<notin> claims q"
  by (simp add: claims_def)

text \<open>\<open>pre_open\<close>: the wake is claimed and its moment not yet open.\<close>

definition pre_open :: "wake_item \<Rightarrow> worker \<Rightarrow> bool" where
  "pre_open wake p \<longleftrightarrow> base_ok p \<and> p_phase p \<noteq> PHASE_IN_MOMENT \<and> \<not> p_busy p \<and> p_active p = None \<and>
     claims (p_queue p) = {id wake} \<and> all_closed (p_store p) \<and> ij_items (p_interject p) = []"

lemma enter_moment_simps [simp]:
  "p_phase (enter_moment wake mid p) = PHASE_IN_MOMENT" "p_busy (enter_moment wake mid p)"
  "p_active (enter_moment wake mid p) = Some mid" "p_store (enter_moment wake mid p) = p_store p"
  "p_svc (enter_moment wake mid p) = p_svc p" "ij_items (p_interject (enter_moment wake mid p)) = []"
  "buffer_ok (p_interject (enter_moment wake mid p))" "p_viewing (enter_moment wake mid p) = p_viewing p"
  by (simp_all add: enter_moment_def Let_def)

lemma open_claimed_cases:
  assumes pre: "pre_open wake p" and w: "m_write (k_open K) = Written"
  obtains (raised) e p1 where "open_claimed K wake p = (Inl e, p1)" "settled p1"
  | (opened) p1 where "open_claimed K wake p = (Inr (Some (wake, k_moment K)), p1)"
      "running wake (k_moment K) p1" "ij_items (p_interject p1) = []"
proof -
  obtain ix where ix: "load_index_by_id (p_store p) = Inr ix" "\<forall>k m. dget ix k = Some m \<longrightarrow> \<not> is_open_meta m"
    using pre by (auto simp: pre_open_def all_closed_def)
  have b: "base_ok p" using pre by (simp add: pre_open_def)
  show thesis
  proof (cases rule: open_moment_written [OF ix(1) w, where why = "why_now wake" and
        u = "user_id_from_wake wake" and wk = "Some (id wake)" and gs = "[]" and ts = "[]" and mid = "k_moment K"])
    case (1 e)
    have "status (p_queue p) (id wake) = Some Claimed" using pre by (auto simp: pre_open_def claims_def)
    then obtain q where q: "cancel (p_queue p) (id wake) ''open_moment_failed'' (k_cancel K) = Inr q"
      by (auto simp: cancel_def status_def terminal_def)
    have "p\<lparr>p_store := p_store p\<rparr> = p" by simp
    then have "open_claimed K wake p = (Inl e, put_queue q p)" by (simp add: open_claimed_def 1 q)
    moreover have "settled (put_queue q p)"
      using pre claims_cancel [OF q] base_ok_put_queue [OF b cancel_coherent [OF base_ok_coherent [OF b] q]]
      by (simp add: settled_def pre_open_def)
    ultimately show thesis by (rule raised)
  next
    case (2 st meta)
    have "only_open (k_moment K) st" using 2 ix(2) by (auto simp: only_open_def)
    then have "running wake (k_moment K) (enter_moment wake (k_moment K) (p\<lparr>p_store := st\<rparr>))"
      using pre by (simp add: running_def pre_open_def base_ok_def)
    then show thesis by (rule opened [rotated]) (simp_all add: open_claimed_def 2)
  qed
qed

lemma settled_kept: "settled p \<Longrightarrow> kept p p' \<Longrightarrow> settled p'"
  by (auto simp: settled_def kept_def)

lemma settled_fire_due: "settled p \<Longrightarrow> settled (fire_due E1 E2 p)"
  by (rule settled_kept [OF _ kept_fire_due], assumption, simp add: settled_def)

lemma claim_and_open_cases:
  assumes "settled p" and w: "m_write (k_open K) = Written"
  obtains (none) p1 where "claim_and_open K p = (Inr None, p1)" "settled p1"
  | (raised) e p1 where "claim_and_open K p = (Inl e, p1)" "settled p1"
  | (opened) wake p1 where "claim_and_open K p = (Inr (Some (wake, k_moment K)), p1)"
      "running wake (k_moment K) p1" "ij_items (p_interject p1) = []"
proof (cases "c_resetting (p_cont p)")
  case True
  then show thesis using assms(1) by (intro none) (simp_all add: claim_and_open_def)
next
  case False
  define p1 where "p1 = fire_due (k_due K) (k_timeouts K) p"
  have s: "settled p1" unfolding p1_def by (rule settled_fire_due [OF assms(1)])
  then have b: "base_ok p1" by (simp add: settled_def)
  note c = claim_and_open_def [of K p, folded p1_def, simplified False Let_def]
  show thesis
  proof (cases "k_available K = Some True")
    case no: False
    then show thesis using s c by (intro none) simp_all
  next
    case ok: True
    show thesis
    proof (cases "claim (p_queue p1) (k_moment K) (k_claim K)")
      case (Inl e)
      then show thesis using ok s c by (intro raised) simp_all
    next
      case (Inr x)
      obtain q r where x: "x = (q, r)" by (rule prod.exhaust)
      note cl = claim_coherent [OF base_ok_coherent [OF b] Inr [unfolded x]]
        claims_claim [OF base_ok_coherent [OF b] Inr [unfolded x]]
      note bq = base_ok_put_queue [OF b cl(1)]
      show thesis
      proof (cases r)
        case None
        then have "settled (put_queue q p1)" using cl(2) s bq by (simp add: settled_def)
        then show thesis using ok Inr x c None by (intro none [of "put_queue q p1"]) simp_all
      next
        case (Some wake)
        have "pre_open wake (put_queue q p1)" using s cl(2) bq Some by (simp add: pre_open_def settled_def)
        then show thesis
          by (cases rule: open_claimed_cases [OF _ w]) (use ok Inr x Some c raised opened in simp_all)
      qed
    qed
  qed
qed
section \<open>Closing a moment and settling its wake\<close>


lemma known_stop_ok [simp]: "known_stop r \<in> set STOP_REASONS"
  by (simp add: known_stop_def STOP_REASONS_def)

lemma close_step_written:
  assumes opn: "only_open mid (p_store p)" and w: "m_write dr = Written" and r: "reason \<in> set STOP_REASONS"
  obtains st m where "close_step dr mid reason hops skills p = (Inr (), p\<lparr>p_store := st\<rparr>)" "all_closed st"
    "get_moment st mid = Inr (Some (close_meta (m_now dr) reason hops skills m))"
proof -
  obtain m where m: "get_moment (p_store p) mid = Inr (Some m)" "is_open_meta m"
    using opn by (auto simp: only_open_def)
  obtain st ix where st: "close_moment dr (p_store p) mid reason hops skills =
      (Inr (close_meta (m_now dr) reason hops skills m), st)"
    "get_moment st mid = Inr (Some (close_meta (m_now dr) reason hops skills m))"
    "load_index_by_id (p_store p) = Inr ix"
    "load_index_by_id st = Inr (dset ix mid (close_meta (m_now dr) reason hops skills m))"
    using close_moment_ok [OF m w r] by blast
  have "all_closed st"
    using opn st(3,4) by (auto simp: all_closed_def only_open_def is_open_meta_def split: if_splits)
  then show thesis using that st by (simp add: close_step_def unit_of_def)
qed

lemma done_step_claimed:
  assumes "status (p_queue p) w = Some Claimed"
  obtains q where "done_step dr w p = (Inr (), put_queue q p)" "mark_done (p_queue p) w dr = Inr q"
    "status q = (status (p_queue p))(w \<mapsto> Done)" "items q = items (p_queue p)"
  using assms that by (auto simp: done_step_def mark_done_def status_def terminal_def update_conv' fun_eq_iff)

text \<open>Ids that are pending stay so when something else is enqueued.\<close>

definition pending_item :: "wake_queue \<Rightarrow> wake_item \<Rightarrow> bool" where
  "pending_item q it \<longleftrightarrow> status q (id it) = Some Enqueue \<and> get q (id it) = Some it"

lemma pending_item_enqueue:
  assumes "enqueue q k pl wid cr dr = Inr (q', it)"
  shows "pending_item q' it" and "pending_item q j \<Longrightarrow> pending_item q' j"
    and "status q w = Some Done \<Longrightarrow> w \<noteq> id it \<Longrightarrow> status q' w = Some Done"
  using enqueue_Inr(5,6) [OF assms] by (auto simp: pending_item_def status_def get_def terminal_def)

definition fresh_for :: "wake_queue \<Rightarrow> draws \<Rightarrow> bool" where
  "fresh_for q ds \<longleftrightarrow> fresh_draws q ds 0 \<and> (\<forall>i. uuid4 (ds i) \<noteq> [])"

lemma enqueue_fresh:
  assumes "uuid4 dr \<noteq> []" and "dget (ops q) (uuid4 dr) = None" and "k \<in> set KNOWN_KINDS"
  obtains q' it where "enqueue q k pl None None dr = Inr (q', it)" "id it = uuid4 dr" "kind it = k"
    "wake_item.payload it = (case pl of None \<Rightarrow> [] | Some d \<Rightarrow> d)"
    "dget (ops q') = (dget (ops q))(uuid4 dr \<mapsto> Enqueue)"
proof -
  obtain band where "priority_for_kind k = Inr band" using assms(3) known_kind_priority by blast
  then obtain q' it where e: "enqueue q k pl None None dr = Inr (q', it)"
    using assms(1,2) by (auto simp: enqueue_def Let_def bind_res_def str_or_def split: if_splits)
  note f = enqueue_Inr [OF e]
  show thesis using that e f by (auto simp: update_conv' str_or_def)
qed
text \<open>
  \<open>extends w q q'\<close>: the same claims, every pending wake of \<open>q\<close> is pending in \<open>q'\<close>, and the wake
  \<open>w\<close> stays done.
\<close>

definition extends :: "string \<Rightarrow> wake_queue \<Rightarrow> wake_queue \<Rightarrow> bool" where
  "extends w q q' \<longleftrightarrow> coherent q' \<and> claims q' = claims q \<and>
     (\<forall>it. pending_item q it \<longrightarrow> pending_item q' it) \<and> (status q w = Some Done \<longrightarrow> status q' w = Some Done)"

lemma extends_refl: "coherent q \<Longrightarrow> extends w q q"
  by (simp add: extends_def)

lemma extends_trans: "extends w q q' \<Longrightarrow> extends w q' q'' \<Longrightarrow> extends w q q''"
  by (simp add: extends_def)

lemma extends_enqueue:
  assumes "coherent q" and "enqueue q k pl wid cr dr = Inr (q', it)" and "w \<noteq> id it"
  shows "extends w q q'"
  using enqueue_coherent [OF assms(1,2)] claims_enqueue [OF assms(2)] pending_item_enqueue(2,3) [OF assms(2)] assms(3)
  by (auto simp: extends_def)

definition delivers :: "wake_queue \<Rightarrow> interject_item \<Rightarrow> bool" where
  "delivers q x \<longleftrightarrow>
     (\<exists>it u. pending_item q it \<and> kind it = ''user_message'' \<and> wake_item.payload it = remainder_payload x u)"

lemma extends_delivers: "extends w q q' \<Longrightarrow> delivers q x \<Longrightarrow> delivers q' x"
  unfolding delivers_def extends_def by blast

lemma fresh_draws_next:
  assumes "fresh_draws q ds i" and "dget (ops q') = (dget (ops q))(uuid4 (ds i) \<mapsto> Enqueue)"
  shows "fresh_draws q' ds (Suc i)"
  using assms unfolding fresh_draws_def by auto (metis Suc_le_lessD order_refl)

lemma flush_loop_ok:
  assumes "coherent (p_queue p)" and "fresh_draws (p_queue p) ds i" and "\<forall>j. uuid4 (ds j) \<noteq> []"
    and "status (p_queue p) w \<noteq> None"
  shows "\<exists>q. flush_loop ds us i its p = (Inr (), put_queue q p) \<and> extends w (p_queue p) q \<and> (\<forall>x\<in>set its. delivers q x)"
  using assms(1,2,4)
proof (induction its arbitrary: i p)
  case Nil
  have "put_queue (p_queue p) p = p" by (simp add: put_queue_def)
  then show ?case using extends_refl [OF Nil(1)] by (intro exI [of _ "p_queue p"]) simp
next
  case (Cons x its)
  have "dget (ops (p_queue p)) (uuid4 (ds i)) = None" using Cons.prems(2) by (simp add: fresh_draws_def)
  moreover have "''user_message'' \<in> set KNOWN_KINDS" by (simp add: KNOWN_KINDS_def KIND_PRIORITY_def)
  ultimately obtain q1 it where e: "enqueue (p_queue p) ''user_message'' (Some (remainder_payload x (us i))) None None (ds i)
      = Inr (q1, it)" "id it = uuid4 (ds i)" "kind it = ''user_message''"
    "wake_item.payload it = remainder_payload x (us i)" "dget (ops q1) = (dget (ops (p_queue p)))(uuid4 (ds i) \<mapsto> Enqueue)"
    using enqueue_fresh [of "ds i" "p_queue p" "''user_message''" "Some (remainder_payload x (us i))"] assms(3) by auto
  have w: "w \<noteq> id it" "status q1 w \<noteq> None"
    using Cons.prems(2,3) e(2,5) by (auto simp: fresh_draws_def status_def)
  note ext = extends_enqueue [OF Cons.prems(1) e(1) w(1)]
  obtain q where q: "flush_loop ds us (i + 1) its (put_queue q1 p) = (Inr (), put_queue q (put_queue q1 p))"
    "extends w q1 q" "\<forall>x\<in>set its. delivers q x"
    using Cons.IH [of "put_queue q1 p" "i + 1"] ext w(2) fresh_draws_next [OF Cons.prems(2) e(5)] by (auto simp: extends_def)
  have "delivers q1 x" using pending_item_enqueue(1) [OF e(1)] e(3,4) by (auto simp: delivers_def)
  then have "delivers q x" by (rule extends_delivers [OF q(2)])
  moreover have "put_queue q (put_queue q1 p) = put_queue q p" by (simp add: put_queue_def)
  ultimately show ?case using q(1,3) extends_trans [OF ext q(2)] e(1) by auto
qed

lemma flush_ok:
  assumes "base_ok p" and "ij_items (p_interject p) = [] \<or> fresh_for (p_queue p) ds" and "status (p_queue p) w \<noteq> None"
  obtains q where "flush_interjects ds us p = (Inr (), put_queue q (p\<lparr>p_interject := clear_buffer (p_interject p)\<rparr>))"
    "extends w (p_queue p) q" "\<forall>x\<in>set (ij_items (p_interject p)). delivers q x"
proof (cases "ij_items (p_interject p) = []")
  case True
  have "put_queue (p_queue p) (p\<lparr>p_interject := b\<rparr>) = p\<lparr>p_interject := b\<rparr>" for b by (simp add: put_queue_def)
  then show thesis using True that [of "p_queue p"] extends_refl [OF base_ok_coherent [OF assms(1)]]
    by (simp add: flush_interjects_def drain_buffer_def clear_buffer_def)
next
  case False
  then show thesis
    using flush_loop_ok [of "p\<lparr>p_interject := clear_buffer (p_interject p)\<rparr>" ds 0 w us "ij_items (p_interject p)"] assms that
    by (auto simp: flush_interjects_def drain_buffer_def clear_buffer_def fresh_for_def base_ok_coherent)
qed

section \<open>Settling\<close>

text \<open>The moment is closed, its wake done; only the memory of the worker is left to reset.\<close>

definition wrapped :: "wake_item \<Rightarrow> string \<Rightarrow> jdict \<Rightarrow> worker \<Rightarrow> bool" where
  "wrapped wake mid m p \<longleftrightarrow> base_ok p \<and> claims (p_queue p) = {} \<and> all_closed (p_store p) \<and>
     status (p_queue p) (id wake) = Some Done \<and> get_moment (p_store p) mid = Inr (Some m) \<and> \<not> is_open_meta m"

definition late :: "wake_item \<Rightarrow> string \<Rightarrow> jdict \<Rightarrow> interject_item set \<Rightarrow> worker \<Rightarrow> bool" where
  "late wake mid m xs p \<longleftrightarrow> wrapped wake mid m p \<and> ij_items (p_interject p) = [] \<and> (\<forall>x\<in>xs. delivers (p_queue p) x)"

lemma wrapped_extends:
  "wrapped wake mid m p \<Longrightarrow> extends (id wake) (p_queue p) q \<Longrightarrow> wrapped wake mid m (put_queue q p)"
  by (simp add: wrapped_def extends_def base_ok_put_queue)

lemma late_extends:
  "late wake mid m xs p \<Longrightarrow> extends (id wake) (p_queue p) q \<Longrightarrow> late wake mid m xs (put_queue q p)"
  using extends_delivers by (auto simp: late_def wrapped_extends)

lemma wrapped_fields [simp]:
  "wrapped wake mid m (p\<lparr>p_phase := a\<rparr>) = wrapped wake mid m p" "wrapped wake mid m (p\<lparr>p_cont := c\<rparr>) = wrapped wake mid m p"
  "wrapped wake mid m (p\<lparr>p_hop := h\<rparr>) = wrapped wake mid m p" "wrapped wake mid m (p\<lparr>p_injects := n\<rparr>) = wrapped wake mid m p"
  "wrapped wake mid m (p\<lparr>p_last_tool := t\<rparr>) = wrapped wake mid m p" "wrapped wake mid m (p\<lparr>p_error := e\<rparr>) = wrapped wake mid m p"
  by (simp_all add: wrapped_def base_ok_def)

lemma late_fields [simp]:
  "late wake mid m xs (p\<lparr>p_phase := a\<rparr>) = late wake mid m xs p" "late wake mid m xs (p\<lparr>p_cont := c\<rparr>) = late wake mid m xs p"
  by (simp_all add: late_def)

lemma wrapped_flush:
  assumes "wrapped wake mid m p" and "ij_items (p_interject p) = [] \<or> fresh_for (p_queue p) ds"
    and "\<forall>x\<in>xs. delivers (p_queue p) x"
  obtains p' where "flush_interjects ds us p = (Inr (), p')" "late wake mid m (set (ij_items (p_interject p)) \<union> xs) p'"
proof -
  obtain q where q: "flush_interjects ds us p = (Inr (), put_queue q (p\<lparr>p_interject := clear_buffer (p_interject p)\<rparr>))"
    "extends (id wake) (p_queue p) q" "\<forall>x\<in>set (ij_items (p_interject p)). delivers q x"
    by (rule flush_ok [of p ds "id wake" us]) (use assms in \<open>auto simp: wrapped_def\<close>)
  have "wrapped wake mid m (p\<lparr>p_interject := clear_buffer (p_interject p)\<rparr>)"
    using assms(1) by (simp add: wrapped_def base_ok_def)
  moreover have "\<forall>x\<in>set (ij_items (p_interject p)) \<union> xs. delivers q x"
    using q(3) assms(3) extends_delivers [OF q(2)] by blast
  ultimately show thesis using that [OF q(1)] wrapped_extends q(2) by (simp add: late_def)
qed

lemma late_wait_armed:
  assumes "late wake mid m xs p"
  shows "late wake mid m xs (snd (ensure_wait_armed E arm mid p))"
proof -
  have "late wake mid m xs (p\<lparr>p_svc := s\<rparr>)" if "Timers.arm_wait E (p_svc p) a u n ex t c i = Inr (s, x)" for a u n ex t c i s x
    using assms queue_arm_wait [OF that] svc_ok_arm_wait [OF _ that] by (simp add: late_def wrapped_def base_ok_def)
  then show ?thesis using assms by (auto simp: ensure_wait_armed_def split: option.split sum.split)
qed

lemma late_streak: "late wake mid m xs (count_streak wake p) = late wake mid m xs p"
  by (simp add: count_streak_def)

lemma late_continue:
  assumes "late wake mid m xs p" and "uuid4 (k_continue K) \<noteq> id wake" and "uuid4 (k_continue K) \<noteq> []"
  shows "late wake mid m xs (snd (maybe_enqueue_moment_continue K cfg wake mid r p))"
    and "p_phase (snd (maybe_enqueue_moment_continue K cfg wake mid r p)) = p_phase p"
    and "waits (p_svc (snd (maybe_enqueue_moment_continue K cfg wake mid r p))) = waits (p_svc p)"
proof -
  have "late wake mid m xs (put_queue q (p\<lparr>p_cont := c\<rparr>))"
    if "enqueue (p_queue p) ''moment_continue'' pl None None (k_continue K) = Inr (q, it)" for q it pl c
  proof (rule late_extends)
    have "id wake \<noteq> id it" using enqueue_Inr(3) [OF that] assms(2,3) by (simp add: str_or_def)
    moreover have "coherent (p_queue p)" using assms(1) by (simp add: late_def wrapped_def base_ok_coherent)
    ultimately show "extends (id wake) (p_queue (p\<lparr>p_cont := c\<rparr>)) q" using extends_enqueue [OF _ that] by simp
  qed (simp add: assms(1))
  then show "late wake mid m xs (snd (maybe_enqueue_moment_continue K cfg wake mid r p))"
    using assms(1) by (auto simp: maybe_enqueue_moment_continue_def Let_def split: sum.split)
qed (auto simp: maybe_enqueue_moment_continue_def Let_def split: sum.split)

lemma phase_from_cong: "waits (p_svc p') = waits (p_svc p) \<Longrightarrow> phase_from_pending_waits p' = phase_from_pending_waits p"
  by (simp add: phase_from_pending_waits_def has_pending_wait_def list_waits_def)

lemma phase_from_not_moment [simp]: "phase_from_pending_waits p \<noteq> PHASE_IN_MOMENT"
  by (simp add: phase_from_pending_waits_def)

text \<open>What a pass leaves behind when it ran the moment \<open>mid\<close> of a wake with \<open>xs\<close> still buffered.\<close>

definition pass_done :: "wake_item \<Rightarrow> string \<Rightarrow> jdict \<Rightarrow> interject_item set \<Rightarrow> worker \<Rightarrow> bool" where
  "pass_done wake mid m xs p \<longleftrightarrow> settled p \<and> late wake mid m xs p \<and> p_phase p = phase_from_pending_waits p"

lemma late_reset:
  assumes "late wake mid m xs p"
  shows "pass_done wake mid m xs (clear_moment_viewing
    (p\<lparr>p_phase := phase_from_pending_waits p, p_busy := False, p_active := None\<rparr>))"
  using assms by (auto simp: pass_done_def late_def wrapped_def settled_def clear_moment_viewing_def base_ok_def
      viewing_ok_def MAX_VIEWING_SET_def phase_from_pending_waits_def has_pending_wait_def)

lemma late_leave:
  assumes "late wake mid m xs p" and "p_phase p = phase_from_pending_waits p"
  shows "pass_done wake mid m xs (leave_moment r p)"
  using assms(1) assms(2) [symmetric] phase_from_not_moment [of p]
  by (auto simp: pass_done_def late_def wrapped_def settled_def clear_moment_viewing_def base_ok_def leave_moment_def
      viewing_ok_def MAX_VIEWING_SET_def phase_from_pending_waits_def has_pending_wait_def Let_def)

lemma fail_wrapped:
  assumes "wrapped wake mid m p" and "ij_items (p_interject p) = [] \<or> fresh_for (p_queue p) (k_fail_flush K)"
    and "\<forall>x\<in>xs. delivers (p_queue p) x"
  obtains p' where "fail_in_flight K (Some wake) (Some mid) e p = (Inr (), p')"
    "pass_done wake mid m (set (ij_items (p_interject p)) \<union> xs) p'"
proof -
  let ?p = "p\<lparr>p_error := Some (k_show K e)\<rparr>"
  have m: "get_moment (p_store p) mid = Inr (Some m)" "jget m ''ended_at'' \<noteq> JNull"
    using assms(1) by (simp_all add: wrapped_def is_open_meta_def)
  have c: "fail_close K (Some mid) ?p = (Inr (), ?p)" using m by (simp add: fail_close_def swallow_def)
  have d: "fail_done K (Some wake) ?p = (Inr (), ?p)"
    using assms(1) by (simp add: fail_done_def wrapped_def terminal_def swallow_def)
  obtain p1 where f: "flush_interjects (k_fail_flush K) (k_message_ids K) ?p = (Inr (), p1)"
    "late wake mid m (set (ij_items (p_interject ?p)) \<union> xs) p1"
    by (rule wrapped_flush [of wake mid m ?p "k_fail_flush K" xs "k_message_ids K"]) (use assms in auto)
  then show thesis using late_reset [OF f(2)] that by (simp add: fail_in_flight_def c d and_then_def)
qed
lemma close_and_done:
  assumes run: "running wake mid p" and w: "m_write cd = Written" and r: "reason \<in> set STOP_REASONS"
  obtains p1 p2 m where "close_step cd mid reason hops skills p = (Inr (), p1)" "done_step dd (id wake) p1 = (Inr (), p2)"
    "wrapped wake mid m p2" "jget m ''stop_reason'' = JStr reason" "p_interject p2 = p_interject p" "\<forall>ds. fresh_for (p_queue p) ds \<longrightarrow> fresh_for (p_queue p2) ds"
    "status (p_queue p1) (id wake) = Some Claimed"
proof -
  have "only_open mid (p_store p)" using run by (simp add: running_def)
  then obtain st m where c: "close_step cd mid reason hops skills p = (Inr (), p\<lparr>p_store := st\<rparr>)" "all_closed st"
    "get_moment st mid = Inr (Some (close_meta (m_now cd) reason hops skills m))"
    using close_step_written [OF _ w r] by blast
  have cl: "claims (p_queue p) = {id wake}" "base_ok p" using run by (simp_all add: running_def)
  then have s: "status (p_queue p) (id wake) = Some Claimed" by (auto simp: claims_def)
  then obtain q where q: "done_step dd (id wake) (p\<lparr>p_store := st\<rparr>) = (Inr (), put_queue q (p\<lparr>p_store := st\<rparr>))"
    "mark_done (p_queue p) (id wake) dd = Inr q" "status q = (status (p_queue p))(id wake \<mapsto> Done)"
    using done_step_claimed [of "p\<lparr>p_store := st\<rparr>" "id wake" dd] by auto
  have "fresh_for q ds" if "fresh_for (p_queue p) ds" for ds
  proof -
    have "dget (ops q) v = None" if "dget (ops (p_queue p)) v = None" for v
      using that s fun_cong [OF q(3), of v] by (auto simp: status_def split: if_splits)
    with that show ?thesis by (simp add: fresh_for_def fresh_draws_def)
  qed
  moreover have "wrapped wake mid (close_meta (m_now cd) reason hops skills m) (put_queue q (p\<lparr>p_store := st\<rparr>))"
  proof -
    have "base_ok (p\<lparr>p_store := st\<rparr>)" using cl by (simp add: base_ok_def)
    moreover have "coherent q" using mark_done_coherent [OF base_ok_coherent [OF cl(2)] q(2)] .
    ultimately show ?thesis
      using cl c(2,3) q(3) claims_mark_done [OF q(2)] by (simp add: wrapped_def base_ok_put_queue is_open_meta_def)
  qed
  ultimately show thesis using that [OF c(1) q(1)] c(3) s by simp
qed

lemma fail_running:
  assumes run: "running wake mid p" and w: "m_write (k_fail_close K) = Written" and fr: "fresh_for (p_queue p) (k_fail_flush K)"
  obtains p' m where "fail_in_flight K (Some wake) (Some mid) e p = (Inr (), p')"
    "pass_done wake mid m (set (ij_items (p_interject p))) p'" "jget m ''stop_reason'' = JStr ''error''"
proof -
  let ?p = "p\<lparr>p_error := Some (k_show K e)\<rparr>"
  have r: "running wake mid ?p" using run by (simp add: running_def base_ok_def)
  have err: "''error'' \<in> set STOP_REASONS" by (simp add: STOP_REASONS_def)
  obtain p1 p2 m where c: "close_step (k_fail_close K) mid ''error'' (Some (p_hop ?p)) None ?p = (Inr (), p1)"
    "done_step (k_fail_done K) (id wake) p1 = (Inr (), p2)" "wrapped wake mid m p2" "p_interject p2 = p_interject ?p"
    "fresh_for (p_queue p2) (k_fail_flush K)" "status (p_queue p1) (id wake) = Some Claimed"
    "jget m ''stop_reason'' = JStr ''error''"
    by (rule close_and_done [OF r w err, of "Some (p_hop ?p)" None "k_fail_done K"]) (use fr in auto)
  obtain m0 where m: "get_moment (p_store ?p) mid = Inr (Some m0)" "jget m0 ''ended_at'' = JNull"
    using r by (auto simp: running_def only_open_def is_open_meta_def)
  have fc: "fail_close K (Some mid) ?p = (Inr (), p1)" using m c(1) by (simp add: fail_close_def swallow_def)
  have fd: "fail_done K (Some wake) p1 = (Inr (), p2)" using c(2,6) by (simp add: fail_done_def terminal_def swallow_def)
  obtain p3 where f: "flush_interjects (k_fail_flush K) (k_message_ids K) p2 = (Inr (), p3)"
    "late wake mid m (set (ij_items (p_interject p2))) p3"
    by (rule wrapped_flush [OF c(3), of "k_fail_flush K" "{}" "k_message_ids K"]) (use c(5) in auto)
  then show thesis using late_reset [OF f(2)] that [of _ m] c(4,7) by (simp add: fail_in_flight_def fc fd and_then_def)
qed

lemma finalize_running:
  assumes run: "running wake mid p" and w: "m_write (k_close K) = Written"
    and fr: "fresh_for (p_queue p) (k_flush K)" "fresh_for (p_queue p) (k_fail_flush K)"
    and u: "uuid4 (k_continue K) \<noteq> id wake" "uuid4 (k_continue K) \<noteq> []"
  obtains (ok) p' m where "finalize_moment K cfg wake mid r skills p = (Inr (), p')"
      "pass_done wake mid m (set (ij_items (p_interject p))) p'" "jget m ''stop_reason'' = JStr (known_stop (r_stop_reason r))"
  | (tape) e p' m where "finalize_moment K cfg wake mid r skills p = (Inl e, p')" "wrapped wake mid m p'"
      "p_interject p' = p_interject p" "fresh_for (p_queue p') (k_fail_flush K)" "jget m ''stop_reason'' = JStr (known_stop (r_stop_reason r))"
  | (later) e p' m where "finalize_moment K cfg wake mid r skills p = (Inl e, p')"
      "late wake mid m (set (ij_items (p_interject p))) p'" "jget m ''stop_reason'' = JStr (known_stop (r_stop_reason r))"
proof -
  let ?xs = "set (ij_items (p_interject p))"
  obtain p1 p2 m where c: "close_step (k_close K) mid (known_stop (r_stop_reason r)) (Some (r_hop_count r)) (Some skills) p = (Inr (), p1)"
    "done_step (k_done K) (id wake) p1 = (Inr (), p2)" "wrapped wake mid m p2" "p_interject p2 = p_interject p"
    "fresh_for (p_queue p2) (k_flush K)" "fresh_for (p_queue p2) (k_fail_flush K)"
    "jget m ''stop_reason'' = JStr (known_stop (r_stop_reason r))"
    by (rule close_and_done [OF run w known_stop_ok, of "r_stop_reason r" "Some (r_hop_count r)" "Some skills" "k_done K"])
      (use fr in auto)
  let ?f = "finalize_moment K cfg wake mid r skills p"
  let ?hop = "\<lambda>q. q\<lparr>p_hop := r_hop_count r, p_injects := r_continue_injects r\<rparr>"
  note F = finalize_moment_def [of K cfg wake mid r skills p, unfolded Let_def, simplified c(1) swallow_def and_then_def,
      simplified c(2)]
  show thesis
  proof (cases "last_tool_from_tape (p_store p2) mid")
    case (Inl e)
    then have "?f = (Inl e, ?hop p2)" by (simp add: F c(2))
    then show thesis using c(3,4,6,7) by (intro tape [of e "?hop p2" m]) simp_all
  next
    case (Inr tool)
    let ?p3 = "(?hop p2)\<lparr>p_last_tool := tool\<rparr>"
    obtain p4 where p4: "flush_interjects (k_flush K) (k_message_ids K) ?p3 = (Inr (), p4)" "late wake mid m ?xs p4"
      by (rule wrapped_flush [of wake mid m ?p3 "k_flush K" "{}" "k_message_ids K"]) (use c(3-5) in auto)
    let ?arm = "if known_stop (r_stop_reason r) = ''wait'' \<or> r_arm_wait r \<noteq> None
      then ensure_wait_armed (k_arm K) (r_arm_wait r) mid p4 else (Inr (), p4)"
    obtain a p5 where p5: "?arm = (a, p5)" by (rule prod.exhaust)
    have l5: "late wake mid m ?xs p5"
      using late_wait_armed [OF p4(2), of "k_arm K" "r_arm_wait r"] p4(2) p5 by (auto split: if_splits)
    show thesis
    proof (cases a)
      case (Inl e)
      then have "?f = (Inl e, p5)" using Inr p4(1) p5 by (simp add: F c(2))
      then show thesis using l5 c(7) by (rule later)
    next
      case a: (Inr x)
      let ?p6 = "count_streak wake (p5\<lparr>p_phase := phase_from_pending_waits p5\<rparr>)"
      obtain b p7 where p7: "maybe_enqueue_moment_continue K cfg wake mid r ?p6 = (b, p7)" by (rule prod.exhaust)
      have p6: "late wake mid m ?xs ?p6" "p_phase ?p6 = phase_from_pending_waits p5" "waits (p_svc ?p6) = waits (p_svc p5)"
        using l5 by (simp_all add: late_streak) (simp_all add: count_streak_def)
      have l7: "late wake mid m ?xs p7" "p_phase p7 = phase_from_pending_waits p7"
        using late_continue [OF p6(1) u, of cfg r] p6(2,3) phase_from_cong [of p7 p5] by (simp_all add: p7)
      show thesis
      proof (cases b)
        case (Inl e)
        then have "?f = (Inl e, p7)" using Inr p4(1) p5 a p7 by (simp add: F c(2))
        then show thesis using l7(1) c(7) by (rule later)
      next
        case b: (Inr y)
        then have "?f = (Inr (), leave_moment r p7)" using Inr p4(1) p5 a p7 by (simp add: F c(2))
        then show thesis using late_leave [OF l7] c(7) by (rule ok)
      qed
    qed
  qed
qed
section \<open>Passes of the loop\<close>

definition written :: "tick \<Rightarrow> bool" where
  "written K \<longleftrightarrow> m_write (k_open K) = Written \<and> m_write (k_close K) = Written \<and> m_write (k_fail_close K) = Written"

text \<open>Fresh uuids for what a pass may enqueue after the moment of the wake \<open>w\<close>.\<close>

definition fresh_ids :: "tick \<Rightarrow> string \<Rightarrow> wake_queue \<Rightarrow> bool" where
  "fresh_ids K w q \<longleftrightarrow>
     fresh_for q (k_flush K) \<and> fresh_for q (k_fail_flush K) \<and> uuid4 (k_continue K) \<noteq> w \<and> uuid4 (k_continue K) \<noteq> []"

lemma iteration_opened:
  assumes s: "settled p" and w: "written K"
    and op: "claim_and_open K p = (Inr (Some (wake, mid)), p1)"
    and run: "run wake mid p1 = (res, p2)" and mid: "(mid_step mid)\<^sup>*\<^sup>* p1 p2"
    and fr: "fresh_ids K (id wake) (p_queue p2)"
  obtains p' meta where "iteration K cfg run p = (Inr (), p')"
    "pass_done wake mid meta (set (ij_items (p_interject p2))) p'"
    "jget meta ''stop_reason'' = JStr (case res of Inl _ \<Rightarrow> ''error'' | Inr (r, _) \<Rightarrow> known_stop (r_stop_reason r))"
proof -
  have "running wake mid p1"
    by (rule claim_and_open_cases [OF s, of K]) (use w op in \<open>auto simp: written_def\<close>)
  then have r2: "running wake mid p2" by (rule running_mid_steps [OF mid])
  have f: "fresh_for (p_queue p2) (k_flush K)" "fresh_for (p_queue p2) (k_fail_flush K)"
    "uuid4 (k_continue K) \<noteq> id wake" "uuid4 (k_continue K) \<noteq> []" using fr by (simp_all add: fresh_ids_def)
  have w2: "m_write (k_close K) = Written" "m_write (k_fail_close K) = Written" using w by (simp_all add: written_def)
  note I = iteration_def [of K cfg run p, simplified op prod.case sum.case option.case run]
  show thesis
  proof (cases res)
    case (Inl e)
    show thesis
      by (rule fail_running [OF r2 w2(2) f(2), of e]) (use Inl I that in auto)
  next
    case (Inr x)
    obtain r skills where x: "x = (r, skills)" by (rule prod.exhaust)
    show thesis
    proof (cases rule: finalize_running [OF r2 w2(1) f, of cfg r skills])
      case (1 p' m)
      then show thesis using that Inr x I by simp
    next
      case (2 e p3 m)
      show thesis
        by (rule fail_wrapped [OF 2(2), of K "{}" e]) (use 2 Inr x I that in auto)
    next
      case (3 e p3 m)
      then have "wrapped wake mid m p3" by (simp add: late_def)
      then show thesis
        by (rule fail_wrapped [of wake mid m p3 K "set (ij_items (p_interject p2))" e])
          (use 3 Inr x I that in \<open>auto simp: late_def\<close>)
    qed
  qed
qed
lemma iteration_idle:
  assumes s: "settled p" and w: "written K" and no: "\<And>wake mid p1. claim_and_open K p \<noteq> (Inr (Some (wake, mid)), p1)"
  obtains p' where "iteration K cfg run p = (Inr (), p')" "settled p'"
proof -
  have "m_write (k_open K) = Written" using w by (simp add: written_def)
  then show thesis
  proof (cases rule: claim_and_open_cases [OF s, of K])
    case (2 p1)
    then show thesis using that settled_fire_due by (simp add: iteration_def)
  next
    case (3 e p1)
    let ?p = "p1\<lparr>p_error := Some (k_show K e)\<rparr>"
    have e: "put_queue (p_queue q) q = q" for q by (simp add: put_queue_def)
    have f: "flush_interjects ds us ?p = (Inr (), ?p\<lparr>p_interject := clear_buffer (p_interject p1)\<rparr>)" for ds us
      using 3(2) by (simp add: flush_interjects_def drain_buffer_def clear_buffer_def settled_def)
    have S: "settled (clear_moment_viewing (?p\<lparr>p_interject := clear_buffer (p_interject p1), p_phase := ph,
        p_busy := False, p_active := None\<rparr>))" if "ph \<noteq> PHASE_IN_MOMENT" for ph
      using 3(2) that by (simp add: settled_def base_ok_def clear_moment_viewing_def viewing_ok_def MAX_VIEWING_SET_def)
    show thesis
      by (rule that [OF _ S [OF phase_from_not_moment]])
        (simp add: iteration_def 3 fail_in_flight_def fail_close_def fail_done_def and_then_def f)
  qed (use no in auto)
qed


definition message_file :: events_file where
  "message_file = \<lparr>lines = [Row (enqueue_event ''T1'' (demo_item ''a'' ''user_message'' 0 ''T1''))], torn = False\<rparr>"

definition demo_worker :: worker where
  "demo_worker = boot \<lparr>queue = loaded message_file, timers = [], waits = [], timers_file = [], waits_file = []\<rparr>
     \<lparr>index_file = None, tapes = []\<rparr> \<lparr>ledger = None, goal_close_without_review = 0, ready_calls = []\<rparr> True"

definition demo_tick :: tick where
  "demo_tick = \<lparr>k_due = demo_env, k_timeouts = demo_env, k_available = Some True, k_moment = ''m'',
     k_claim = draw_of ''c'', k_open = demo_draw Written, k_cancel = draw_of ''c'', k_close = demo_draw Written,
     k_done = draw_of ''c'', k_flush = nat_draws, k_message_ids = (\<lambda>_. ''x''), k_arm = demo_env, k_since_now = 0,
     k_now = 0, k_continue = draw_of ''k'', k_idle_due = demo_env, k_idle_timeouts = demo_env,
     k_fail_close = demo_draw Written, k_fail_done = draw_of ''c'', k_fail_flush = nat_draws, k_show = (\<lambda>_. ''e'')\<rparr>"

definition demo_result :: do_loop_result where
  "demo_result = \<lparr>r_stop_reason = ''no_tools'', r_hop_count = 1, r_arm_wait = None, r_spoke = True,
     r_moment_id = ''m'', r_reouter_count = 0, r_continue_injects = 0, r_work_continue_injects = 0,
     r_skill_commit_injects = 0, r_thrash_host_injects = 0, r_thrash_skips = 0, r_tools_ran = False,
     r_ledger_mutated = False, r_model_beats = 1, r_channel_flood_beats = 0, r_last_stop_hop_was_flood = False,
     r_error = None\<rparr>"

definition demo_call :: call_env where
  "demo_call = \<lparr>n_draws = nat_draws, n_uuid = ''n'', n_tenv = demo_env\<rparr>"

text \<open>A moment during which the user says something nobody reads.\<close>

definition demo_run :: moment_port where
  "demo_run wake mid p = (Inr (demo_result, []), snd (interject demo_call ''hi'' ''op'' None p))"

lemma demo_settled: "settled demo_worker"
proof -
  have "load message_file = Inr (loaded message_file)" by code_simp
  then have "coherent (loaded message_file)" by (rule load_coherent) (simp add: message_file_def)
  moreover have "claims (loaded message_file) = {}"
  proof -
    have "ops (loaded message_file) = [(''a'', Enqueue)]" by code_simp
    then show ?thesis by (simp add: claims_def status_def)
  qed
  ultimately show ?thesis
    by (simp add: settled_def base_ok_def demo_worker_def boot_def svc_ok_def Timers.keyed_def saved_def rows_of_def
        dict_of_pairs_def viewing_ok_def MAX_VIEWING_SET_def new_buffer_def buffer_ok_def phase_defs all_closed_def
        load_index_by_id_def decoded_def)
qed

section \<open>From startup on\<close>

lemma recover_claimed_claims:
  assumes coh: "coherent q" and fr: "fresh_draws q ds 0" and rc: "recover_claimed q ds = Inr (q', out)"
  shows "claims q' = {}" and "coherent q'"
proof -
  have "distinct (dkeys (ops q))" using coherent_live_ids [OF coh] by (simp add: live_ids_def)
  note ids = claimed_ids_iff [OF this]
  have r: "recovered q (claimed_ids q) q' out"
    using recover_loop_ok [OF coh ids(2) _ fr, of "[]"] ids(1) rc by (auto simp: recover_claimed_def)
  have "status q' w \<noteq> Some Claimed" for w
    using r ids(1) by (cases "w \<in> set (claimed_ids q)"; cases "w \<in> id ` set out") (auto simp: recovered_def status_def)
  then show "claims q' = {}" by (simp add: claims_def)
  show "coherent q'" using recover_claimed_run [OF rc] coh run_coherent by blast
qed

lemma recover_open_closed:
  assumes load: "load_index_by_id st = Inr ix" and r: "recover_open_moments dr st = (Inr ids, st')"
  shows "all_closed st'"
proof -
  let ?g = "\<lambda>m. if is_open_meta m then interrupt_meta (m_now dr) m else m"
  let ?new = "map (\<lambda>(k, m). (k, ?g m)) ix"
  have closed: "\<not> is_open_meta (?g m)" for m by (simp add: is_open_meta_def)
  have keyed: "index_keyed ?new" by (rule keyed_map_meta [OF keyed_load [OF load]]) simp
  consider "st' = st" "filter (\<lambda>(k, m). is_open_meta m) ix = []"
    | "rewrite_index dr st ?new = (Inr (), st')"
    using r by (auto simp: recover_open_moments_def load Let_def split: sum.splits if_splits prod.splits)
  then show ?thesis
  proof cases
    case 1
    then have "\<not> is_open_meta m" if "dget ix k = Some m" for k m
      using that by (auto simp: filter_empty_conv dest: map_of_SomeD)
    then show ?thesis using load 1 by (auto simp: all_closed_def)
  next
    case 2
    then have "index_file st' = Some \<lparr>rows = map (\<lambda>(k, d). Decoded (JObj d)) ?new, open_end = False\<rparr>"
      by (auto simp: rewrite_index_def split: write_mode.splits)
    then have "load_index_by_id st' = Inr ?new" by (rule load_rewritten [OF keyed])
    moreover have "\<not> is_open_meta m" if "dget ?new k = Some m" for k m using that closed by (auto simp: dget_map_meta)
    ultimately show ?thesis unfolding all_closed_def by blast
  qed
qed

lemma startup_settles:
  assumes coh: "coherent (queue svc)" and load: "load_index_by_id st = Inr ix" and fr: "fresh_draws (queue svc) ds 0"
    and st: "startup_recover dr ds E (boot svc st gs on) = (Inr (), p)"
  shows "settled p \<and> p_phase p = phase_from_pending_waits p"
proof -
  let ?b = "boot svc st gs on"
  obtain ids st1 where r1: "recover_open_moments dr st = (Inr ids, st1)"
    using st by (auto simp: startup_recover_def boot_def split: sum.splits prod.splits)
  obtain q out where r2: "recover_claimed (queue svc) ds = Inr (q, out)"
    using st r1 by (auto simp: startup_recover_def boot_def Let_def split: sum.splits prod.splits)
  let ?p2 = "put_queue q (?b\<lparr>p_store := st1\<rparr>)"
  obtain its s where r3: "rehydrate E NowClock (p_svc ?p2) = (Inr its, s)"
    using st r1 r2 by (auto simp: startup_recover_def boot_def Let_def split: sum.splits prod.splits)
  let ?p3 = "?p2\<lparr>p_svc := s\<rparr>"
  have p: "p = ?p3\<lparr>p_phase := phase_from_pending_waits ?p3\<rparr>"
    using st r1 r2 r3 by (auto simp: startup_recover_def boot_def Let_def)
  note c = recover_claimed_claims [OF coh fr r2]
  have "claims (queue s) = {}" using claims_rehydrate [of E NowClock "p_svc ?p2"] r3 c(1) by simp
  moreover have "svc_ok s"
  proof -
    obtain now where "resolve_now E NowClock = Inr now" using r3 by (auto simp: rehydrate_def split: sum.splits)
    then show ?thesis using svc_ok_rehydrate_at [of "p_svc ?p2" E NowClock now] r3 c(2) by simp
  qed
  moreover have "phase_from_pending_waits p = phase_from_pending_waits ?p3" by (rule phase_from_cong) (simp add: p)
  ultimately show ?thesis using recover_open_closed [OF load r1]
    by (simp add: settled_def base_ok_def p boot_def put_queue_def new_buffer_def buffer_ok_def viewing_ok_def
        MAX_VIEWING_SET_def)
qed

text \<open>A pass whose writes succeed and whose moment does only what a moment can do.\<close>

definition fair_pass :: "tick \<Rightarrow> moment_port \<Rightarrow> worker \<Rightarrow> bool" where
  "fair_pass K run p \<longleftrightarrow> written K \<and>
     (\<forall>wake mid p1. claim_and_open K p = (Inr (Some (wake, mid)), p1) \<longrightarrow>
        (mid_step mid)\<^sup>*\<^sup>* p1 (snd (run wake mid p1)) \<and> fresh_ids K (id wake) (p_queue (snd (run wake mid p1))))"

inductive worker_step :: "worker \<Rightarrow> worker \<Rightarrow> bool" where
  api: "api_step p p' \<Longrightarrow> worker_step p p'"
| pass: "iteration K cfg run p = (r, p') \<Longrightarrow> fair_pass K run p \<Longrightarrow> worker_step p p'"

lemma settled_pass:
  assumes "settled p" and "fair_pass K run p"
  obtains p' where "iteration K cfg run p = (Inr (), p')" "settled p'"
proof (cases "\<exists>wake mid p1. claim_and_open K p = (Inr (Some (wake, mid)), p1)")
  case True
  then obtain wake mid p1 where op: "claim_and_open K p = (Inr (Some (wake, mid)), p1)" by blast
  obtain res p2 where run: "run wake mid p1 = (res, p2)" by (rule prod.exhaust)
  have w: "written K" using assms(2) by (simp add: fair_pass_def)
  have mid: "(mid_step mid)\<^sup>*\<^sup>* p1 p2" and fr: "fresh_ids K (id wake) (p_queue p2)"
    using assms(2) op run by (fastforce simp: fair_pass_def)+
  show thesis
    by (rule iteration_opened [where run = run and cfg = cfg, OF assms(1) w op run mid fr])
      (use that in \<open>auto simp: pass_done_def\<close>)
next
  case False
  then show thesis
    using iteration_idle [where run = run and cfg = cfg, OF assms(1), of K] assms(2) that by (auto simp: fair_pass_def)
qed

lemma settled_worker_step: "settled p \<Longrightarrow> worker_step p p' \<Longrightarrow> settled p'"
proof (erule worker_step.cases)
  fix K cfg run q r q'
  assume s: "settled p" and q: "p = q" "p' = q'" "iteration K cfg run q = (r, q')" "fair_pass K run q"
  show "settled p'" by (rule settled_pass [of q K run cfg]) (use s q in auto)
qed (auto intro: settled_api_step)

interpretation wks: transition_system
  "\<lambda>p. \<exists>dr ds E svc st ix gs on. coherent (queue svc) \<and> load_index_by_id st = Inr ix \<and>
     fresh_draws (queue svc) ds 0 \<and> startup_recover dr ds E (boot svc st gs on) = (Inr (), p)"
  worker_step settled
  by unfold_locales (use startup_settles in blast, rule settled_worker_step)

definition crashed_service :: timer_service where
  "crashed_service = \<lparr>queue = loaded crash_file, timers = [], waits = [], timers_file = [], waits_file = []\<rparr>"


section \<open>A close that cannot be written\<close>

lemma close_step_failed:
  assumes "only_open mid (p_store p)" and "m_write dr \<noteq> Written" and "reason \<in> set STOP_REASONS"
  shows "close_step dr mid reason hops skills p = (Inl OSError, p)"
proof -
  obtain m where m: "get_moment (p_store p) mid = Inr (Some m)" "is_open_meta m"
    using assms(1) by (auto simp: only_open_def)
  obtain ix where ix: "validate_moment_id mid = Inr mid" "load_index_by_id (p_store p) = Inr ix" "dget ix mid = Some m"
    using m(1) validate_moment_id_eq by (fastforce simp: get_moment_def bind_res_eq_Inr)
  have "rewrite_index dr (p_store p) d = (Inl OSError, p_store p)" for d
    using assms(2) by (cases "m_write dr") (simp_all add: rewrite_index_def)
  then have "close_moment dr (p_store p) mid reason hops skills = (Inl OSError, p_store p)"
    using ix m(2) assms(3) by (simp add: close_moment_def validate_stop_reason_def is_open_meta_def)
  then show ?thesis by (simp add: close_step_def unit_of_def)
qed

text \<open>
  A close that cannot be written ends the worker. The handler that is to keep the worker alive
  closes the moment itself and lets an \<open>OSError\<close> of that close escape: if a wake was claimed and
  the writes of the close fail, the exception leaves the loop, whether the run returned or raised,
  and it leaves the worker busy, in its moment, with the wake still claimed.
\<close>

theorem failed_close_ends_the_worker:
  assumes "settled p" and "m_write (k_open K) = Written"
    and "m_write (k_close K) \<noteq> Written" and "m_write (k_fail_close K) \<noteq> Written"
    and "claim_and_open K p = (Inr (Some (wake, mid)), p1)"
    and "run wake mid p1 = (res, p2)" and "(mid_step mid)\<^sup>*\<^sup>* p1 p2"
  shows "\<exists>p'. iteration K cfg run p = (Inl OSError, p') \<and> p_busy p' \<and> p_phase p' = PHASE_IN_MOMENT \<and>
    p_active p' = Some mid \<and> status (p_queue p') (id wake) = Some Claimed"
proof -
  have "running wake mid p1"
    by (rule claim_and_open_cases [OF assms(1,2)]) (use assms(5) in auto)
  then have r2: "running wake mid p2" by (rule running_mid_steps [OF assms(7)])
  then have opn: "only_open mid (p_store p2)" by (simp add: running_def)
  have fail: "fail_in_flight K (Some wake) (Some mid) e p2 = (Inl OSError, p2\<lparr>p_error := Some (k_show K e)\<rparr>)" for e
  proof -
    obtain m where "get_moment (p_store p2) mid = Inr (Some m)" "jget m ''ended_at'' = JNull"
      using opn by (auto simp: only_open_def is_open_meta_def)
    moreover have "''error'' \<in> set STOP_REASONS" by (simp add: STOP_REASONS_def)
    ultimately show ?thesis
      using close_step_failed [of mid "p2\<lparr>p_error := Some (k_show K e)\<rparr>" "k_fail_close K"] opn assms(4)
      by (simp add: fail_in_flight_def fail_close_def and_then_def swallow_def)
  qed
  have fin: "finalize_moment K cfg wake mid r skills p2 = (Inl OSError, p2)" for r skills
    using close_step_failed [OF opn assms(3)] by (simp add: finalize_moment_def and_then_def swallow_def)
  have "\<exists>e. iteration K cfg run p = (Inl OSError, p2\<lparr>p_error := Some (k_show K e)\<rparr>)"
    by (cases res) (auto simp: iteration_def assms(5,6) fail fin split: prod.split)
  moreover have "id wake \<in> claims (p_queue p2)" using r2 by (simp add: running_def)
  ultimately show ?thesis using r2 by (auto simp: running_def claims_def)
qed

definition full_disk_tick :: tick where
  "full_disk_tick = demo_tick\<lparr>k_close := demo_draw Cut, k_fail_close := demo_draw Cut\<rparr>"

theorem failed_close_ends_the_worker_witness:
  "\<exists>p'. iteration full_disk_tick default_continuous_settings demo_run demo_worker = (Inl OSError, p') \<and>
     p_busy p' \<and> status (p_queue p') ''a'' = Some Claimed"
proof -
  let ?wake = "demo_item ''a'' ''user_message'' 0 ''T1''"
  let ?p1 = "snd (claim_and_open full_disk_tick demo_worker)"
  let ?p2 = "snd (interject demo_call ''hi'' ''op'' None ?p1)"
  have "fst (claim_and_open full_disk_tick demo_worker) = Inr (Some (?wake, ''m''))" by code_simp
  then have op: "claim_and_open full_disk_tick demo_worker = (Inr (Some (?wake, ''m'')), ?p1)" by (metis prod.collapse)
  have run: "demo_run ?wake ''m'' ?p1 = (Inr (demo_result, []), ?p2)" by (simp add: demo_run_def)
  have mid: "(mid_step ''m'')\<^sup>*\<^sup>* ?p1 ?p2" by (intro r_into_rtranclp mid_step.api api_step.interject)
  have w: "m_write (k_open full_disk_tick) = Written" "m_write (k_close full_disk_tick) \<noteq> Written"
    "m_write (k_fail_close full_disk_tick) \<noteq> Written"
    by (simp_all add: full_disk_tick_def demo_tick_def demo_draw_def)
  have "id ?wake = ''a''" by (simp add: demo_item_def)
  then show ?thesis
    using failed_close_ends_the_worker [where cfg = default_continuous_settings and run = demo_run, OF demo_settled w op run mid]
    by auto
qed
section \<open>User text\<close>

text \<open>The queue holds a pending wake of a kind with this text and user.\<close>

definition says :: "wake_queue \<Rightarrow> string \<Rightarrow> string \<Rightarrow> string \<Rightarrow> bool" where
  "says q knd body user \<longleftrightarrow>
     (\<exists>it. pending_item q it \<and> kind it = knd \<and> jget (wake_item.payload it) ''content'' = JStr body \<and>
        jget (wake_item.payload it) ''user_id'' = JStr user)"

lemma send_to_queue_says:
  assumes "send_to_queue dr knd (Some pl) wid p = (Inr w, p')"
    and "jget pl ''content'' = JStr body" and "jget pl ''user_id'' = JStr user"
  shows "says (p_queue p') knd body user" and "p_interject p' = p_interject p" and "waits (p_svc p') = waits (p_svc p)"
proof -
  obtain q it where e: "enqueue (p_queue p) knd (Some pl) wid None dr = Inr (q, it)" "p' = put_queue q p"
    using assms(1) by (auto simp: send_to_queue_def split: sum.splits)
  then show "says (p_queue p') knd body user" "p_interject p' = p_interject p" "waits (p_svc p') = waits (p_svc p)"
    using pending_item_enqueue(1) [OF e(1)] enqueue_Inr(2,4) [OF e(1)] assms(2,3) by (auto simp: says_def)
qed

lemma message_payload_fields [simp]:
  "jget (message_payload c u m) ''content'' = JStr c" "jget (message_payload c u m) ''user_id'' = JStr u"
  "jget (message_payload c u m @ xs) ''content'' = JStr c" "jget (message_payload c u m @ xs) ''user_id'' = JStr u"
  by (simp_all add: message_payload_def jget_def)

lemma interject_kept_text:
  assumes "interject N c u m p = (Inr r, p')" and "\<not> c_resetting (p_cont p)"
  shows "ij_items (p_interject p') = ij_items (p_interject p) @ [\<lparr>ij_content = c, ij_user_id = u, ij_message_id = m\<rparr>] \<or>
    says (p_queue p') ''user_message'' c u"
proof (cases "p_phase p = PHASE_IN_MOMENT")
  case False
  then show ?thesis using assms
    by (auto simp: interject_def split: sum.splits prod.splits dest!: send_to_queue_says(1) [where body = c and user = u])
next
  case True
  show ?thesis
  proof (cases rule: try_add_cases [of "p_interject p" "\<lparr>ij_content = c, ij_user_id = u, ij_message_id = m\<rparr>"])
    case added
    then show ?thesis using assms True by (auto simp: interject_def)
  next
    case full
    then show ?thesis using assms True
      by (auto simp: interject_def split: sum.splits prod.splits dest!: send_to_queue_says(1) [where body = c and user = u])
  qed
qed

lemma wait_reply_kept_text:
  assumes "apply_wait_reply N c u ch wid m p = (Inr r, p')" and "strip c \<noteq> []"
  shows "says (p_queue p') ''wait_reply'' (strip c) u"
proof -
  define a where "a = (if blank_str wid then (Inr (), p)
     else swallow is_key (case mark_wait_answered (n_tenv N) (p_svc p) (the wid) of
        Inl e \<Rightarrow> (Inl e, p) | Inr (s, _) \<Rightarrow> (Inr (), p\<lparr>p_svc := s\<rparr>)))"
  show ?thesis
  proof (cases a)
    case (Pair x p1)
    show ?thesis
      using assms unfolding apply_wait_reply_def a_def [symmetric] Pair Let_def prod.case
      by (auto simp: jget_def str_dflt_def split: sum.splits prod.splits
          dest!: send_to_queue_says(1) [where body = "strip c" and user = u])
  qed
qed



end
