(* ===== verification/Loop_Safety.thy ===== *)
theory Loop_Safety
  imports Do_Loop
begin

text \<open>
  Properties of the do-loop for every environment: it always comes back with a known stop reason
  and within its hop budget, every HOST nudge stays within its own budget and the tape agrees
  with the counters, every request to the provider is a legal exchange, a tool result that ends
  the moment cuts off the rest of its batch, and secret arguments never reach the chain.
\<close>

section \<open>What batches add to the chain\<close>

lemma chain_absorb:
  "\<exists>body. chain_messages (snd (absorb_result E C tc tr b p s)) = chain_messages s @ [tool_message tc body]"
  by (auto simp: absorb_result_def Let_def split: option.split)

lemma chain_tool_step:
  assumes "tool_step E C tc s = (r, s')"
  shows "case r of Inl e \<Rightarrow> chain_messages s' = chain_messages s
    | Inr _ \<Rightarrow> \<exists>body. chain_messages s' = chain_messages s @ [tool_message tc body]"
proof -
  obtain r1 b s1 where x: "execute_or_skip E tc s = (r1, b, s1)" by (cases "execute_or_skip E tc s") auto
  then have c: "chain_messages s1 = chain_messages s"
    using execute_or_skip_frame(1) [of E tc s] by simp
  show ?thesis
  proof (cases r1)
    case (Inl e)
    then show ?thesis using assms x c by (auto simp: tool_step_def)
  next
    case (Inr tr)
    then show ?thesis
      using assms x c chain_absorb [of E C tc tr b _ s1] by (auto simp: tool_step_def split_beta)
  qed
qed

lemma tool_message_simps [simp]:
  "is_tool_msg (tool_message tc body)"
  "jget (tool_message tc body) ''tool_call_id'' = JStr (tc_id tc)"
  by (simp_all add: tool_message_def is_tool_msg_def jget_def)

lemma chain_tool_calls:
  assumes "tool_calls_loop E C tcs s = (r, s')"
  shows "\<exists>ts k. chain_messages s' = chain_messages s @ ts \<and> list_all is_tool_msg ts \<and>
    map (\<lambda>t. jget t ''tool_call_id'') ts = map (JStr \<circ> tc_id) (take k tcs) \<and> (r = Inr None \<longrightarrow> k = length tcs)"
  using assms
proof (induction tcs arbitrary: s)
  case Nil
  then show ?case by (intro exI [of _ "[]"]) auto
next
  case (Cons tc tcs)
  obtain r1 s1 where step: "tool_step E C tc s = (r1, s1)" by (rule prod.exhaust)
  consider e where "r1 = Inl e" | x where "r1 = Inr (Some x)" | "r1 = Inr None"
    by (metis option.exhaust sum.exhaust)
  then show ?case
  proof cases
    case 1
    then have "r = Inl e" "chain_messages s' = chain_messages s"
      using Cons.prems step chain_tool_step [OF step] by auto
    then show ?thesis by (intro exI [of _ "[]"] exI [of _ "0 :: nat"]) simp
  next
    case 2
    then obtain body where "r = Inr (Some x)" "chain_messages s' = chain_messages s @ [tool_message tc body]"
      using Cons.prems step chain_tool_step [OF step] by auto
    then show ?thesis by (intro exI [of _ "[tool_message tc body]"] exI [of _ "1 :: nat"]) simp
  next
    case 3
    then obtain body where body: "chain_messages s1 = chain_messages s @ [tool_message tc body]"
      using chain_tool_step [OF step] by auto
    have "tool_calls_loop E C tcs s1 = (r, s')" using Cons.prems step 3 by simp
    from Cons.IH [OF this] obtain ts k where
      "chain_messages s' = chain_messages s1 @ ts" "list_all is_tool_msg ts"
      "map (\<lambda>t. jget t ''tool_call_id'') ts = map (JStr \<circ> tc_id) (take k tcs)"
      "r = Inr None \<longrightarrow> k = length tcs" by blast
    then show ?thesis using body
      by (intro exI [of _ "tool_message tc body # ts"] exI [of _ "Suc k"]) simp
  qed
qed

lemma assistant_message_calls:
  assumes "tool_calls r \<noteq> []"
  shows "is_tool_batch_start (assistant_message_from_result E r b)"
    and "call_ids (assistant_message_from_result E r b) = map (JStr \<circ> tc_id) (tool_calls r)"
    and "\<not> is_tool_msg (assistant_message_from_result E r b)"
  using assms
  by (simp_all add: assistant_message_from_result_def is_tool_batch_start_def call_ids_def is_tool_msg_def
      jget_def Let_def call_entry_def comp_def)

section \<open>Legal exchanges survive every step\<close>

lemma obs_user_message_plain [simp]:
  "\<not> is_tool_msg (obs_user_message t)" "\<not> is_tool_batch_start (obs_user_message t)"
  by (simp_all add: obs_user_message_def is_tool_msg_def is_tool_batch_start_def jget_def)

lemma exchange_ok_say [simp]:
  "exchange_ok (chain @ [obs_user_message t]) = exchange_ok chain"
  by (simp add: exchange_ok_snoc)

lemma exchange_ok_host_steps [simp]:
  "exchange_ok (chain_messages (ensure_lesson_pin_in_chain s)) = exchange_ok (chain_messages s)"
  "exchange_ok (chain_messages (store_and_pin_lesson E C l b s)) = exchange_ok (chain_messages s)"
  "exchange_ok (chain_messages (maybe_capture_free_text_lesson E C t b s)) = exchange_ok (chain_messages s)"
  "exchange_ok (chain_messages (continue_step E C ti s)) = exchange_ok (chain_messages s)"
  "exchange_ok (chain_messages (add_interjection E C x s)) = exchange_ok (chain_messages s)"
  "exchange_ok (chain_messages (thrash_host_step E C s)) = exchange_ok (chain_messages s)"
  "exchange_ok (chain_messages (lesson_request_step E C s)) = exchange_ok (chain_messages s)"
  "exchange_ok (chain_messages (skill_commit_inject E C s)) = exchange_ok (chain_messages s)"
  "exchange_ok (chain_messages (no_speak_inject E C s)) = exchange_ok (chain_messages s)"
  "exchange_ok (chain_messages (answer_speak_inject E C s)) = exchange_ok (chain_messages s)"
  "exchange_ok (chain_messages (work_continue_inject E C s)) = exchange_ok (chain_messages s)"
proof -
  show pin: "exchange_ok (chain_messages (store_and_pin_lesson E C l b s)) = exchange_ok (chain_messages s)" for l b
    by (simp add: store_and_pin_lesson_def Let_def)
  show "exchange_ok (chain_messages (maybe_capture_free_text_lesson E C t b s)) = exchange_ok (chain_messages s)"
    by (simp add: maybe_capture_free_text_lesson_def Let_def pin)
qed (simp_all add: ensure_lesson_pin_in_chain_def continue_step_def add_interjection_def
    thrash_host_step_def lesson_request_step_def skill_commit_inject_def no_speak_inject_def
    answer_speak_inject_def work_continue_inject_def Let_def)

lemma exchange_ok_drain [simp]:
  "exchange_ok (chain_messages (drain_interjections E C s)) = exchange_ok (chain_messages s)"
proof -
  have "exchange_ok (chain_messages (fold (add_interjection E C) xs s)) = exchange_ok (chain_messages s)" for xs s
    by (induction xs arbitrary: s) simp_all
  then show ?thesis by (simp add: drain_interjections_def split_beta split: option.split)
qed

lemma exchange_ok_synthesize [simp]:
  "exchange_ok (chain_messages (synthesize_step E C s)) = exchange_ok (chain_messages s)"
  by (simp add: synthesize_step_def)

lemma exchange_ok_batch_hop:
  assumes "handle_tool_batch E C r s = (Inr None, s')" and "tool_calls r \<noteq> []"
    and "exchange_ok (chain_messages s)"
  shows "exchange_ok (chain_messages s')"
proof -
  let ?m = "assistant_message_from_result E r True"
  obtain o1 s1 where l: "tool_calls_loop E C (tool_calls r) (s\<lparr>chain_messages := chain_messages s @ [?m]\<rparr>) = (o1, s1)"
    by (rule prod.exhaust)
  then have "o1 = Inr None"
    using assms(1) by (auto simp: handle_tool_batch_def split: sum.splits option.splits)
  with chain_tool_calls [OF l] obtain ts where ts: "chain_messages s1 = chain_messages s @ [?m] @ ts"
    "list_all is_tool_msg ts" "map (\<lambda>t. jget t ''tool_call_id'') ts = map (JStr \<circ> tc_id) (tool_calls r)"
    by auto
  have "exchange_ok (?m # ts)"
    using ts(2,3) assistant_message_calls [OF assms(2), of E True]
    by (intro exchange_ok_batch) (auto simp: list_all_iff)
  then have "exchange_ok (chain_messages s1)"
    using ts(1) assms(3) assistant_message_calls(3) [OF assms(2), of E True]
    by (simp add: exchange_ok_append starts_fresh_def)
  then show ?thesis using assms(1) l \<open>o1 = Inr None\<close> by (auto simp: handle_tool_batch_def)
qed

section \<open>Budgets and tape\<close>

definition count_by :: "string \<Rightarrow> string \<Rightarrow> jdict list \<Rightarrow> int" where
  "count_by key v bs = int (length (filter (\<lambda>b. jget b key = JStr v) bs))"

lemma count_by_append [simp]:
  "count_by key v [] = 0"
  "count_by key v (bs @ [b]) = count_by key v bs + (if jget b key = JStr v then 1 else 0)"
  by (simp_all add: count_by_def)

abbreviation kinds :: "string \<Rightarrow> 'w loop_state \<Rightarrow> int" where
  "kinds k s \<equiv> count_by ''kind'' k (beats s)"

text \<open>
  Every nudge is on the tape exactly as often as its counter or flag says, and every beat has one
  of four types.
\<close>

definition beat_typed :: "jdict \<Rightarrow> bool" where
  "beat_typed b \<longleftrightarrow> jget b ''type'' \<in> {JStr ''model'', JStr ''tool'', JStr ''obs'', JStr ''stop''}"

definition tape_ok :: "'w loop_state \<Rightarrow> bool" where
  "tape_ok s \<longleftrightarrow>
     count_by ''type'' ''model'' (beats s) = model_beats s \<and>
     kinds ''continue'' s = continue_injects s \<and>
     kinds ''work_continue'' s = work_continue_injects s \<and>
     kinds ''skill_commit'' s = skill_commit_injects s \<and>
     kinds ''tool_thrash'' s = thrash_host_sent s \<and>
     kinds ''no_speak_nudge'' s = of_bool (no_speak_nudge_sent s) \<and>
     kinds ''answer_speak_nudge'' s = of_bool (answer_speak_nudge_sent s) \<and>
     kinds ''thrash_lesson'' s = of_bool (lesson_request_sent s) \<and>
     kinds ''lesson_pin'' s = of_bool (lesson_captured s) \<and>
     list_all beat_typed (beats s)"

definition budgets_ok :: "loop_config \<Rightarrow> 'w loop_state \<Rightarrow> bool" where
  "budgets_ok C s \<longleftrightarrow>
     0 \<le> continue_injects s \<and> continue_injects s \<le> max 0 (continue_max_injects (loop C)) \<and>
     0 \<le> work_continue_injects s \<and> work_continue_injects s \<le> max 0 (work_nudge_max C) \<and>
     skill_commit_injects s = of_bool (skill_commit_sent s) \<and>
     0 \<le> thrash_host_sent s \<and> thrash_host_sent s \<le> 1 \<and>
     thrash_skip_count s = 0"

lemma beats_frame [simp]:
  "beats (record_beat E C b s) = beats s @ [b]"
  "beats (say t s) = beats s"
  "beats (snd (now_step E s)) = beats s"
  "beats (host_call f s) = beats s"
  "beats (pace E C s) = beats s"
  "beats (viewing_step E s) = beats s"
  "beats (snd (budget_step E C s)) = beats s"
  "beats (ensure_lesson_pin_in_chain s) = beats s"
  "beats (snd (request_step E C s)) = beats s"
  "beats (note_thrash u s) = beats s"
  "beats (count_lesson_fails u s) = beats s"
  "beats (arm_skill_commit tc tr s) = beats s"
  by (simp_all add: record_beat_def say_def now_step_def host_call_def pace_def viewing_step_def
      budget_step_def ensure_lesson_pin_in_chain_def request_step_def note_thrash_def
      count_lesson_fails_def arm_skill_commit_def Let_def split_beta split: option.split sum.split)

lemma beats_hooks [simp]:
  "beats (mark_spoke E s) = beats s"
  "beats (mark_task_changed E s) = beats s"
  by (simp_all add: mark_spoke_def mark_task_changed_def split_beta)

lemma beats_run_hooks [simp]: "beats (fold (run_hook E) hs s) = beats s"
proof (induction hs arbitrary: s)
  case (Cons h hs)
  have "beats (run_hook E h s) = beats s" by (cases h) simp_all
  then show ?case using Cons by simp
qed simp

lemma beats_execute [simp]:
  "beats (snd (execute_one E tc s)) = beats s"
  "beats (snd (snd (execute_or_skip E tc s))) = beats s"
  "beats (note_progress E tr s) = beats s"
  by (simp_all add: execute_one_def execute_or_skip_def note_progress_def Let_def split_beta)

lemma execute_or_skip_runs [simp]: "fst (snd (execute_or_skip E tc s)) = False"
  by (simp add: execute_or_skip_def should_skip_identical_def SKIP_IDENTICAL_ENABLED_def Let_def split_beta)

lemma jget_beats [simp]:
  "jget (obs_beat k t) ''kind'' = JStr k" "jget (obs_beat k t @ fs) ''kind'' = JStr k"
  "jget (obs_beat k t) ''type'' = JStr ''obs''" "jget (obs_beat k t @ fs) ''type'' = JStr ''obs''"
  "jget (tool_beat tc tr t) ''kind'' = JNull" "jget (tool_beat tc tr t) ''type'' = JStr ''tool''"
  "jget (stop_beat r s) ''kind'' = JNull" "jget (stop_beat r s) ''type'' = JStr ''stop''"
  "jget (model_beat h c g) ''type'' = JStr ''model''"
  by (simp_all add: obs_beat_def tool_beat_def stop_beat_def model_beat_def jget_def)

lemma jget_model_beat_kind [simp]: "jget (model_beat h c g) ''kind'' = JNull"
  by (simp add: model_beat_def jget_def split: option.split)

lemma tape_ok_tool_step: "tape_ok s \<Longrightarrow> tape_ok (snd (tool_step E C tc s))"
proof -
  assume ok: "tape_ok s"
  obtain r b s1 where x: "execute_or_skip E tc s = (r, b, s1)" by (cases "execute_or_skip E tc s") auto
  have b: "\<not> b" using execute_or_skip_runs [of E tc s] x by simp
  have s1: "tape_ok s1"
    using ok execute_or_skip_frame [of E tc s] beats_execute(2) [of E tc s] x by (simp add: tape_ok_def)
  have "tape_ok (snd (absorb_result E C tc tr False p s1))" for tr p
    using s1 by (simp add: tape_ok_def absorb_result_def beat_typed_def Let_def split: option.split)
  then show ?thesis using s1 b x by (simp add: tool_step_def split_beta split: sum.split)
qed

lemma tape_ok_tool_calls: "tape_ok s \<Longrightarrow> tape_ok (snd (tool_calls_loop E C tcs s))"
  by (induction tcs arbitrary: s) (simp_all add: tool_calls_loop_snd tape_ok_tool_step del: tool_calls_loop.simps(2))

lemma tape_ok_steps:
  assumes "tape_ok s"
  shows "tape_ok (continue_step E C t s)"
    and "\<not> lesson_captured s \<Longrightarrow> tape_ok (store_and_pin_lesson E C l b s)"
    and "tape_ok (add_interjection E C x s)"
    and "tape_ok (thrash_host_step E C s)"
    and "tape_ok (lesson_request_step E C s)"
    and "wants_skill_commit s \<Longrightarrow> tape_ok (skill_commit_inject E C s)"
    and "wants_no_speak C s \<Longrightarrow> tape_ok (no_speak_inject E C s)"
    and "wants_answer_speak C c fl s \<Longrightarrow> tape_ok (answer_speak_inject E C s)"
    and "tape_ok (work_continue_inject E C s)"
    and "tape_ok (ingest E C r h s)"
    and "tape_ok (record_beat E C (stop_beat reason s') s)"
  using assms
  by (simp_all add: tape_ok_def continue_step_def store_and_pin_lesson_def add_interjection_def
      thrash_host_step_def lesson_request_step_def skill_commit_inject_def no_speak_inject_def
      answer_speak_inject_def work_continue_inject_def ingest_def wants_no_speak_def
      should_allow_no_speak_def wants_answer_speak_def should_answer_speak_nudge_def nudge_def beat_typed_def
      Let_def split: if_splits)

definition core_ok :: "loop_config \<Rightarrow> 'w loop_state \<Rightarrow> bool" where
  "core_ok C s \<longleftrightarrow> budgets_ok C s \<and> tape_ok s"

lemma tape_ok_drain: "tape_ok s \<Longrightarrow> tape_ok (drain_interjections E C s)"
proof -
  have "tape_ok s \<Longrightarrow> tape_ok (fold (add_interjection E C) xs s)" for xs s
    by (induction xs arbitrary: s) (simp_all add: tape_ok_steps)
  moreover have "tape_ok s \<Longrightarrow> tape_ok (s\<lparr>world := w\<rparr>)" for w by (simp add: tape_ok_def)
  ultimately show "tape_ok s \<Longrightarrow> ?thesis"
    by (simp add: drain_interjections_def split_beta split: option.split)
qed

lemma tape_ok_synthesize: "tape_ok s \<Longrightarrow> tape_ok (synthesize_step E C s)"
  by (simp add: synthesize_step_def tape_ok_steps)

lemma tape_ok_capture: "tape_ok s \<Longrightarrow> tape_ok (maybe_capture_free_text_lesson E C t b s)"
  by (simp add: maybe_capture_free_text_lesson_def Let_def tape_ok_steps)

lemma tape_ok_quiet:
  assumes "tape_ok s"
  shows "tape_ok (pace E C s)" and "tape_ok (snd (now_step E s))" and "tape_ok (viewing_step E s)"
    and "tape_ok (snd (budget_step E C s))" and "tape_ok (ensure_lesson_pin_in_chain s)"
    and "tape_ok (snd (request_step E C s))"
    and "tape_ok (s\<lparr>last_stop_hop_was_flood := b\<rparr>)" and "tape_ok (s\<lparr>chain_messages := ms\<rparr>)"
  using assms by (simp_all add: tape_ok_def)

lemma budgets_ok_quiet:
  assumes "budgets_ok C s"
  shows "budgets_ok C (pace E C s)" and "budgets_ok C (snd (now_step E s))"
    and "budgets_ok C (viewing_step E s)" and "budgets_ok C (snd (budget_step E C s))"
    and "budgets_ok C (ensure_lesson_pin_in_chain s)" and "budgets_ok C (snd (request_step E C s))"
    and "budgets_ok C (s\<lparr>last_stop_hop_was_flood := b\<rparr>)" and "budgets_ok C (s\<lparr>chain_messages := ms\<rparr>)"
    and "budgets_ok C (ingest E C r h s)" and "budgets_ok C (maybe_capture_free_text_lesson E C t b s)"
    and "budgets_ok C (snd (tool_calls_loop E C tcs s))" and "budgets_ok C (drain_interjections E C s)"
    and "budgets_ok C (lesson_request_step E C s)" and "budgets_ok C (synthesize_step E C s)"
    and "budgets_ok C (record_beat E C beat s)"
  using assms by (simp_all add: budgets_ok_def)

lemma budgets_ok_continue: "budgets_ok C s \<Longrightarrow> budgets_ok C (continue_step E C t s)"
  by (auto simp: budgets_ok_def continue_step_def should_inject_continue_def or_default_def Let_def)

lemma budgets_ok_thrash: "budgets_ok C s \<Longrightarrow> budgets_ok C (thrash_host_step E C s)"
  by (auto simp: budgets_ok_def thrash_host_step_def Let_def should_inject_thrash_host_def thrash_host_def
      MAX_THRASH_HOSTS_def)

lemma budgets_ok_injects:
  assumes "budgets_ok C s"
  shows "wants_skill_commit s \<Longrightarrow> budgets_ok C (skill_commit_inject E C s)"
    and "budgets_ok C (no_speak_inject E C s)" and "budgets_ok C (answer_speak_inject E C s)"
    and "wants_work_continue C fl s \<Longrightarrow> budgets_ok C (work_continue_inject E C s)"
  using assms
  by (auto simp: budgets_ok_def skill_commit_inject_def no_speak_inject_def answer_speak_inject_def
      work_continue_inject_def wants_skill_commit_def should_skill_commit_nudge_def
      wants_work_continue_def should_in_moment_work_nudge_def nudge_def Let_def split: if_splits)

lemmas core_steps = core_ok_def tape_ok_quiet tape_ok_steps tape_ok_capture tape_ok_drain
  tape_ok_synthesize tape_ok_tool_calls budgets_ok_quiet budgets_ok_continue budgets_ok_thrash budgets_ok_injects

lemma core_ok_batch: "core_ok C s \<Longrightarrow> core_ok C (snd (handle_tool_batch E C r s))"
  by (simp add: handle_tool_batch_snd Let_def core_steps)

lemma core_ok_free_text: "core_ok C s \<Longrightarrow> core_ok C (snd (free_text_hop E C r b s))"
  by (simp add: free_text_hop_def Let_def split_beta core_steps)

lemma core_ok_tool_hop:
  assumes "core_ok C s"
  shows "core_ok C (snd (tool_hop E C r s))"
proof -
  let ?b = "handle_tool_batch E C r (s\<lparr>last_stop_hop_was_flood := False\<rparr>)"
  have "core_ok C (snd ?b)" using assms by (intro core_ok_batch) (simp add: core_steps)
  then show ?thesis
    by (auto simp: tool_hop_snd split_beta core_steps split: sum.split option.split)
qed

section \<open>Requests\<close>

definition request_ok :: "loop_config \<Rightarrow> nat \<Rightarrow> message list \<times> message list \<times> json option \<Rightarrow> bool" where
  "request_ok C i rq \<longleftrightarrow>
     (case rq of (out, chain, choice) \<Rightarrow>
        exchange_ok chain \<and>
        (0 < tool_cap C \<longrightarrow> (\<forall>m\<in>set chain. \<forall>c. is_tool_msg m \<and> jget m ''content'' = JStr c \<longrightarrow>
           int (length c) \<le> tool_cap C)) \<and>
        (choice = Some SPEAK_TOOL_CHOICE \<longleftrightarrow> social_wake C \<and> i = 0))"

definition requests_ok :: "loop_config \<Rightarrow> 'w loop_state \<Rightarrow> bool" where
  "requests_ok C s \<longleftrightarrow> (\<forall>i < length (requests s). request_ok C i (requests s ! i))"

definition loop_ok :: "loop_config \<Rightarrow> 'w loop_state \<Rightarrow> bool" where
  "loop_ok C s \<longleftrightarrow> core_ok C s \<and> exchange_ok (chain_messages s) \<and> requests_ok C s \<and>
     model_beats s = hop s \<and> int (length (requests s)) = hop s"

text \<open>What is left of the invariant when an iteration stops or raises in the middle.\<close>

definition end_ok :: "loop_config \<Rightarrow> 'w loop_state \<Rightarrow> bool" where
  "end_ok C s \<longleftrightarrow> core_ok C s \<and> requests_ok C s \<and> model_beats s = hop s \<and>
     hop s \<le> max 0 (max_hops C) \<and> int (length (requests s)) \<in> {hop s, hop s + 1} \<and>
     int (length (requests s)) \<le> max 0 (max_hops C)"

lemma tool_choice_speak:
  "tool_choice_for C s = Some SPEAK_TOOL_CHOICE \<longleftrightarrow> social_wake C \<and> hop s = 0"
  by (auto simp: tool_choice_for_def social_first_hop_tool_choice_def SPEAK_TOOL_CHOICE_def split: option.splits)

lemma before_request_ok:
  assumes ok: "loop_ok C s" and run: "before_request E C t s = (e, s')"
  shows "core_ok C s' \<and> exchange_ok (chain_messages s') \<and> requests s' = requests s \<and> hop s' = hop s \<and>
    model_beats s' = model_beats s \<and>
    (e = None \<and> 0 < tool_cap C \<longrightarrow> (\<forall>m\<in>set (chain_messages s'). \<forall>c. is_tool_msg m \<and>
       jget m ''content'' = JStr c \<longrightarrow> int (length c) \<le> tool_cap C))"
proof -
  let ?s1 = "viewing_step E (continue_step E C t s)"
  let ?s2 = "snd (budget_step E C ?s1)"
  have s1: "core_ok C ?s1" "exchange_ok (chain_messages ?s1)"
    using ok by (simp_all add: loop_ok_def core_steps)
  obtain r chain w where en: "enforce_in_turn_budget (outer_prefix ?s1) (chain_messages ?s1) (budget C)
      (tool_cap C) (rebuild_outer E) (world ?s1) = (r, chain, w)"
    by (metis prod_cases3)
  have chain: "chain_messages ?s2 = chain"
    using en by (auto simp: budget_step_def split: sum.split)
  have ex: "exchange_ok chain" using enforce_exchange_ok [OF en s1(2)] .
  have s': "s' = (if e = None then ensure_lesson_pin_in_chain ?s2 else ?s2)"
    using run by (auto simp: before_request_def split_beta Let_def)
  have "core_ok C ?s2" using s1(1) by (simp add: core_steps)
  then have core: "core_ok C s'" using s' by (simp add: core_steps)
  have cap: "int (length c) \<le> tool_cap C"
    if "m \<in> set (chain_messages s')" "0 < tool_cap C" "is_tool_msg m" "jget m ''content'' = JStr c" for m c
  proof -
    have "set (chain_messages (ensure_lesson_pin_in_chain ?s2)) \<subseteq>
        insert (obs_user_message (the (lesson_pin_message ?s2))) (set chain)"
      by (auto simp: ensure_lesson_pin_in_chain_def chain)
    then have "m \<in> set chain" using that s' chain by (cases "e = None") auto
    then show ?thesis using enforce_tool_caps [OF en _ that(2,3,4)] by simp
  qed
  show ?thesis using core ex cap s' chain by auto
qed

lemma request_step_ok:
  assumes "exchange_ok (chain_messages s)" and "requests_ok C s" and "int (length (requests s)) = hop s"
    and "0 < tool_cap C \<longrightarrow> (\<forall>m\<in>set (chain_messages s). \<forall>c. is_tool_msg m \<and> jget m ''content'' = JStr c \<longrightarrow>
       int (length c) \<le> tool_cap C)"
  shows "requests_ok C (snd (request_step E C s)) \<and> length (requests (snd (request_step E C s))) = Suc (length (requests s))"
proof -
  have rq: "requests (snd (request_step E C s)) =
      requests s @ [(outer_prefix s, chain_messages s, tool_choice_for C s)]"
    by (simp add: request_step_def split_beta Let_def)
  have "request_ok C (length (requests s)) (outer_prefix s, chain_messages s, tool_choice_for C s)"
    using assms by (auto simp: request_ok_def tool_choice_speak)
  then show ?thesis using assms(2) by (auto simp: requests_ok_def rq nth_append less_Suc_eq)
qed

section \<open>Iterations keep the invariant\<close>

lemma result_of_beat [simp]: "result_of C reason err (record_beat E C b s) = result_of C reason err s"
  by (simp add: result_of_def record_beat_def Let_def split_beta)

lemma stop_reason_valid:
  "is_valid_stop_reason (str_or (stop_from_tool_result True x) ''policy'')"
  "is_valid_stop_reason stop_for_no_tools"
  "precheck C t s = Some reason \<Longrightarrow> is_valid_stop_reason reason"
  by (auto simp: stop_from_tool_result_def str_or_def is_valid_stop_reason_def STOP_REASONS_def STOP_POLICY_def
      stop_for_no_tools_def precheck_def resolve_host_precheck_stop_def STOP_WALL_CLOCK_def STOP_MAX_HOPS_def
      STOP_TIME_CONTINUE_DECLINED_def split: option.splits if_splits)

lemma absorb_reason:
  "fst (absorb_result E C tc tr b p s) = Some reason \<Longrightarrow> is_valid_stop_reason reason"
  by (auto simp: absorb_result_def Let_def stop_reason_valid split: if_splits option.splits)

lemma tool_step_reason:
  "tool_step E C tc s = (Inr (Some reason), s') \<Longrightarrow> is_valid_stop_reason reason"
  using absorb_reason by (fastforce simp: tool_step_def split_beta split: sum.splits)

lemma tool_calls_reason:
  "tool_calls_loop E C tcs s = (Inr (Some reason), s') \<Longrightarrow> is_valid_stop_reason reason"
proof (induction tcs arbitrary: s)
  case (Cons tc tcs)
  obtain r s1 where step: "tool_step E C tc s = (r, s1)" by (rule prod.exhaust)
  show ?case
  proof (cases "r = Inr None")
    case True
    then show ?thesis using Cons step by simp
  next
    case False
    then have "r = Inr (Some reason)" using Cons.prems step by (auto split: sum.splits option.splits)
    then show ?thesis using step tool_step_reason by blast
  qed
qed simp

lemma batch_reason:
  "handle_tool_batch E C r s = (Inr (Some reason), s') \<Longrightarrow> is_valid_stop_reason reason"
  by (auto simp: handle_tool_batch_def dest: tool_calls_reason split: prod.splits sum.splits option.splits)

definition stops_well :: "loop_config \<Rightarrow> iter_out \<Rightarrow> 'w loop_state \<Rightarrow> bool" where
  "stops_well C out s \<longleftrightarrow>
     (\<forall>r. out = Stopped r \<longrightarrow> (\<exists>reason. is_valid_stop_reason reason \<and> r = result_of C reason None s))"

lemma free_text_stops: "stops_well C (fst (free_text_hop E C r b s)) (snd (free_text_hop E C r b s))"
  by (auto simp: stops_well_def free_text_hop_def Let_def finish_def intro: stop_reason_valid)

lemma tool_hop_stops: "stops_well C (fst (tool_hop E C r s)) (snd (tool_hop E C r s))"
proof -
  obtain o1 s1 where b: "handle_tool_batch E C r (s\<lparr>last_stop_hop_was_flood := False\<rparr>) = (o1, s1)"
    by (rule prod.exhaust)
  show ?thesis
    using batch_reason [of E C r "s\<lparr>last_stop_hop_was_flood := False\<rparr>"]
    by (auto simp: stops_well_def tool_hop_def b finish_def split: sum.splits option.splits)
qed

lemma hop_requests [simp]:
  "requests (snd (free_text_hop E C r b s)) = requests s" "model_beats (snd (free_text_hop E C r b s)) = model_beats s"
  "requests (snd (tool_hop E C r s)) = requests s" "model_beats (snd (tool_hop E C r s)) = model_beats s"
  by (simp_all add: free_text_hop_def tool_hop_snd skill_commit_inject_def no_speak_inject_def
      answer_speak_inject_def work_continue_inject_def Let_def split_beta split: sum.split option.split)

lemma free_text_exchange:
  "exchange_ok (chain_messages s) \<Longrightarrow> exchange_ok (chain_messages (snd (free_text_hop E C r b s)))"
  by (simp add: free_text_hop_def Let_def split_beta)

lemma tool_hop_exchange:
  assumes "fst (tool_hop E C r s) = Next" and "tool_calls r \<noteq> []" and "exchange_ok (chain_messages s)"
  shows "exchange_ok (chain_messages (snd (tool_hop E C r s)))"
proof -
  obtain o1 s1 where b: "handle_tool_batch E C r (s\<lparr>last_stop_hop_was_flood := False\<rparr>) = (o1, s1)"
    by (rule prod.exhaust)
  have o1: "o1 = Inr None"
    using assms(1) by (auto simp: tool_hop_def b split: sum.splits option.splits prod.splits)
  have "exchange_ok (chain_messages s1)"
    by (rule exchange_ok_batch_hop [OF b [unfolded o1] assms(2)]) (simp add: assms(3))
  then show ?thesis by (simp add: tool_hop_def b o1)
qed

lemma after_request_ok:
  assumes "core_ok C s" and "exchange_ok (chain_messages s)" and run: "after_request E C raw s = (out, s')"
  shows "core_ok C s' \<and> requests s' = requests s \<and> hop s' = hop s + 1 \<and> model_beats s' = model_beats s + 1 \<and>
    (out = Next \<longrightarrow> exchange_ok (chain_messages s')) \<and> stops_well C out s'"
proof -
  obtain result h where sa: "sanitize_completion raw = (result, h)" by (rule prod.exhaust)
  let ?i = "ingest E C result h s"
  have i: "core_ok C ?i" "exchange_ok (chain_messages ?i)" using assms by (simp_all add: core_steps)
  have r: "requests ?i = requests s" "hop ?i = hop s + 1" "model_beats ?i = model_beats s + 1" by simp_all
  show ?thesis
  proof (cases "tool_calls result \<noteq> []")
    case True
    then have eq: "tool_hop E C result ?i = (out, s')" using run by (simp add: after_request_def sa)
    show ?thesis
      using core_ok_tool_hop [OF i(1), of E result] tool_hop_exchange [of E C result ?i] True i r
        tool_hop_stops [of C E result ?i] hop_requests(3,4) [of E C result ?i] tool_hop_hop [of E C result ?i]
      unfolding eq by simp
  next
    case False
    then have eq: "free_text_hop E C result (any_flood h) ?i = (out, s')" using run by (simp add: after_request_def sa)
    show ?thesis
      using core_ok_free_text [OF i(1), of E result "any_flood h"] free_text_exchange [OF i(2), of E C result "any_flood h"]
        i r free_text_stops [of C E result "any_flood h" ?i] hop_requests(1,2) [of E C result "any_flood h" ?i]
        free_text_hop_hop [of E C result "any_flood h" ?i]
      unfolding eq by simp
  qed
qed

definition in_hops :: "loop_config \<Rightarrow> 'w loop_state \<Rightarrow> bool" where
  "in_hops C s \<longleftrightarrow> 0 \<le> hop s \<and> hop s \<le> max 0 (max_hops C)"

lemma iter_ok:
  assumes ok: "loop_ok C s" "in_hops C s" and run: "loop_iter E C s = (out, s')"
  shows "(out = Next \<longrightarrow> loop_ok C s' \<and> in_hops C s') \<and> end_ok C s' \<and> stops_well C out s'"
proof -
  obtain t s1 where s1: "now_step E (pace E C s) = (t, s1)" by (rule prod.exhaust)
  then have e1: "s1 = snd (now_step E (pace E C s))" by simp
  have ok1: "loop_ok C s1" "in_hops C s1"
    using ok by (simp_all add: e1 loop_ok_def in_hops_def core_steps requests_ok_def)
  show ?thesis
  proof (cases "precheck C t s1")
    case (Some reason)
    then have o: "out = Stopped (result_of C reason None s1)" "s' = record_beat E C (stop_beat reason s1) s1"
      using run by (auto simp: loop_iter_def s1 finish_def)
    have "end_ok C s'" using ok1 by (simp add: o end_ok_def loop_ok_def in_hops_def core_steps requests_ok_def)
    then show ?thesis using o stop_reason_valid(3) [OF Some] by (auto simp: stops_well_def)
  next
    case None
    have lt: "hop s1 < max_hops C" using precheck_hop [OF None] .
    obtain e s2 where b: "before_request E C t s1 = (e, s2)" by (rule prod.exhaust)
    note s2 = before_request_ok [OF ok1(1) b]
    show ?thesis
    proof (cases e)
      case (Some x)
      then have "out = Raised x" "s' = s2" using run None by (auto simp: loop_iter_def s1 b)
      then show ?thesis
        using s2 ok1 by (auto simp: end_ok_def loop_ok_def in_hops_def requests_ok_def stops_well_def)
    next
      case e: None
      obtain r s3 where q: "request_step E C s2 = (r, s3)" by (rule prod.exhaust)
      have s3: "core_ok C s3" "exchange_ok (chain_messages s3)" "requests_ok C s3" "hop s3 = hop s1"
        "model_beats s3 = model_beats s1" "int (length (requests s3)) = hop s1 + 1"
        using s2 e ok1 request_step_ok [of s2 C E] request_frame [of E C s2]
          tape_ok_quiet(6) [of s2 E C] budgets_ok_quiet(6) [of C s2 E]
        unfolding q by (auto simp: loop_ok_def requests_ok_def core_ok_def)
      show ?thesis
      proof (cases r)
        case (Inl x)
        then have "out = Raised x" "s' = s3" using run None e by (auto simp: loop_iter_def s1 b q)
        then show ?thesis
          using s3 ok1 lt by (auto simp: end_ok_def loop_ok_def in_hops_def stops_well_def)
      next
        case (Inr raw)
        then have a: "after_request E C raw s3 = (out, s')" using run None e by (simp add: loop_iter_def s1 b q)
        show ?thesis
          using after_request_ok [OF s3(1,2) a] s3 ok1 lt
          by (auto simp: end_ok_def loop_ok_def in_hops_def requests_ok_def)
      qed
    qed
  qed
qed

lemma initial_state_simps [simp]:
  "continue_injects (initial_state out t w m) = 0"
  "work_continue_injects (initial_state out t w m) = 0"
  "skill_commit_injects (initial_state out t w m) = 0"
  "thrash_host_sent (initial_state out t w m) = 0"
  "thrash_skip_count (initial_state out t w m) = 0"
  "hop (initial_state out t w m) = 0"
  "model_beats (initial_state out t w m) = 0"
  "skill_commit_sent (initial_state out t w m) = False"
  "no_speak_nudge_sent (initial_state out t w m) = False"
  "answer_speak_nudge_sent (initial_state out t w m) = False"
  "lesson_request_sent (initial_state out t w m) = False"
  "lesson_captured (initial_state out t w m) = False"
  "requests (initial_state out t w m) = []"
  "beats (initial_state out t w m) = []"
  "chain_messages (initial_state out t w m) = []"
  by (simp_all only: initial_state_def loop_state.simps)

text \<open>The loop as a transition system: iterations that go on, from the initial states.\<close>

interpretation dl: transition_system
  "\<lambda>s. \<exists>out t w m. s = initial_state out t w m"
  "\<lambda>s s'. loop_iter E C s = (Next, s')"
  "\<lambda>s. loop_ok C s \<and> in_hops C s"
  for E :: "'w loop_env" and C
proof
  fix s :: "'w loop_state"
  assume "\<exists>out t w m. s = initial_state out t w m"
  then obtain out t w m where s: "s = initial_state out t w m" by blast
  show "loop_ok C s \<and> in_hops C s"
    unfolding s loop_ok_def in_hops_def core_ok_def budgets_ok_def tape_ok_def requests_ok_def count_by_def
      initial_state_simps by simp
next
  fix s s' :: "'w loop_state"
  assume "loop_ok C s \<and> in_hops C s" and "loop_iter E C s = (Next, s')"
  then show "loop_ok C s' \<and> in_hops C s'" using iter_ok by blast
qed

lemma run_reaches:
  "run_loop_body E C s = (r, s') \<Longrightarrow>
   \<exists>s1. (\<lambda>s s'. loop_iter E C s = (Next, s'))\<^sup>*\<^sup>* s s1 \<and>
     loop_iter E C s1 = ((case r of Inr x \<Rightarrow> Stopped x | Inl e \<Rightarrow> Raised e), s')"
proof (induction E C s rule: run_loop_body.induct)
  case (1 E C s)
  obtain out s2 where it: "loop_iter E C s = (out, s2)" by (rule prod.exhaust)
  show ?case
  proof (cases "out = Next")
    case True
    then have "run_loop_body E C s2 = (r, s')" using 1(2) it by (simp add: run_loop_body.simps [of E C s])
    from 1(1) [OF it [symmetric] True this] show ?thesis
      using it True by (blast intro: converse_rtranclp_into_rtranclp)
  next
    case False
    then have "s2 = s' \<and> out = (case r of Inr x \<Rightarrow> Stopped x | Inl e \<Rightarrow> Raised e)"
      using 1(2) it by (cases out) (auto simp: run_loop_body.simps [of E C s])
    then show ?thesis using it by blast
  qed
qed

lemma run_loop_body_ok:
  assumes "run_loop_body E C (initial_state out t w m) = (r, s')"
  shows "end_ok C s'"
    and "r = Inr x \<Longrightarrow> \<exists>reason. is_valid_stop_reason reason \<and> x = result_of C reason None s'"
proof -
  from run_reaches [OF assms] obtain s1 where
    s1: "(\<lambda>s s'. loop_iter E C s = (Next, s'))\<^sup>*\<^sup>* (initial_state out t w m) s1"
    and it: "loop_iter E C s1 = ((case r of Inr x \<Rightarrow> Stopped x | Inl e \<Rightarrow> Raised e), s')" by blast
  have "loop_ok C s1 \<and> in_hops C s1" by (rule dl.inv_reachable [OF _ s1]) blast
  note ok = iter_ok [OF conjunct1 [OF this] conjunct2 [OF this] it]
  show "end_ok C s'" using ok by blast
  show "r = Inr x \<Longrightarrow> \<exists>reason. is_valid_stop_reason reason \<and> x = result_of C reason None s'"
    using ok by (simp add: stops_well_def)
qed

section \<open>The whole run\<close>

lemma handle_exc_stop:
  assumes "handle_exc e = (reason, err, beat)"
  shows "reason = (case e of UsageHardStop level why \<Rightarrow> STOP_POLICY | _ \<Rightarrow> STOP_ERROR)"
    and "jget beat ''kind'' = JNull" and "jget beat ''type'' = JStr ''stop''"
    and "jget beat ''stop_reason'' = JStr reason"
  using assms by (auto simp: handle_exc_def Let_def jget_def split: loop_exc.splits if_splits)

lemma run_guarded_ok:
  assumes "run_guarded E C (initial_state out t w m) = (r, s)"
  shows "end_ok C s" and "\<exists>reason err. is_valid_stop_reason reason \<and> r = result_of C reason err s"
proof -
  obtain x s1 where b: "run_loop_body E C (initial_state out t w m) = (x, s1)" by (rule prod.exhaust)
  note ok = run_loop_body_ok [OF b]
  have "end_ok C s \<and> (\<exists>reason err. is_valid_stop_reason reason \<and> r = result_of C reason err s)"
  proof (cases x)
    case (Inr y)
    then have "r = y" "s = s1" using assms by (simp_all add: run_guarded_def b)
    then show ?thesis using ok(1) ok(2) [OF Inr] by blast
  next
    case (Inl e)
    obtain reason err beat where h: "handle_exc e = (reason, err, beat)" by (metis prod_cases3)
    have s: "r = result_of C reason (Some err) s" "s = record_beat E C beat s1"
      using assms by (auto simp: run_guarded_def b Inl h)
    have "end_ok C s"
      using ok(1) handle_exc_stop [OF h]
      by (simp add: s(2) end_ok_def core_ok_def budgets_ok_def tape_ok_def beat_typed_def requests_ok_def)
    moreover have "is_valid_stop_reason reason"
      using handle_exc_stop(1) [OF h]
      by (simp add: is_valid_stop_reason_def STOP_REASONS_def STOP_POLICY_def STOP_ERROR_def split: loop_exc.split)
    ultimately show ?thesis using s(1) by blast
  qed
  then show "end_ok C s" and "\<exists>reason err. is_valid_stop_reason reason \<and> r = result_of C reason err s" by auto
qed

lemma run_do_loop_guarded:
  assumes "run_do_loop E A m w = Inr (r, s)"
  obtains t out w' where "run_guarded E (config_of A t) (initial_state out t w' m) = (r, s)"
  using assms by (auto simp: run_do_loop_def Let_def split_beta split: sum.splits)

lemma run_beats_typed:
  assumes "run_do_loop E A m w = Inr (r, s)"
  shows "list_all beat_typed (beats s)" and "is_valid_stop_reason (r_stop_reason r)"
proof -
  obtain t out w' where g: "run_guarded E (config_of A t) (initial_state out t w' m) = (r, s)"
    using run_do_loop_guarded [OF assms] by blast
  show "list_all beat_typed (beats s)"
    using run_guarded_ok(1) [OF g] by (simp add: end_ok_def core_ok_def tape_ok_def)
  show "is_valid_stop_reason (r_stop_reason r)"
    using run_guarded_ok(2) [OF g] by (auto simp: result_of_def)
qed

lemma config_of_simps [simp]:
  "loop (config_of A t) = loop_settings_of (a_settings A)"
  "max_hops (config_of A t) = max_tool_hops (loop_settings_of (a_settings A))"
  "tool_cap (config_of A t) = tool_result_max_chars (loop_settings_of (a_settings A))"
  "social_wake (config_of A t) = a_social_wake A"
  "work_nudge_max (config_of A t) = in_moment_work_nudge_max (continuous_settings_of (a_settings A))"
  by (simp_all add: config_of_def Let_def)

text \<open>
  C5. The do-loop always comes back. Whatever the model, the tools, the clock and the stores do,
  \<open>run_do_loop\<close> returns a result with one of the known stop reasons after at most \<open>max_tool_hops\<close>
  completions, one model beat per completion; only a rebuild of the first meal that raises can
  leave it with an exception.
\<close>

theorem do_loop_returns:
  "(\<exists>r s. run_do_loop E A m w = Inr (r, s) \<and> is_valid_stop_reason (r_stop_reason r) \<and>
      r_hop_count r \<le> max 0 (max_tool_hops (loop_settings_of (a_settings A))) \<and>
      r_model_beats r = r_hop_count r \<and>
      int (length (requests s)) \<in> {r_hop_count r, r_hop_count r + 1} \<and>
      count_by ''type'' ''model'' (beats s) = r_hop_count r)
   \<or> (\<exists>e w' rebuild w1. run_do_loop E A m w = Inl (e, w') \<and> a_outer_prefix A = None \<and>
        rebuild_outer E = Some rebuild \<and> rebuild w1 = (Inl e, w'))"
proof (cases "run_do_loop E A m w")
  case (Inl p)
  then show ?thesis
    by (cases p; cases "a_outer_prefix A"; cases "rebuild_outer E")
      (auto simp: run_do_loop_def Let_def split_beta prod_eq_iff split: sum.splits)
next
  case (Inr p)
  obtain r s where p: "p = (r, s)" by (rule prod.exhaust)
  obtain t out w' where g: "run_guarded E (config_of A t) (initial_state out t w' m) = (r, s)"
    using run_do_loop_guarded Inr p by metis
  obtain reason err where r: "is_valid_stop_reason reason" "r = result_of (config_of A t) reason err s"
    using run_guarded_ok(2) [OF g] by blast
  have "end_ok (config_of A t) s" by (rule run_guarded_ok(1) [OF g])
  then show ?thesis using Inr p r
    by (auto simp: end_ok_def core_ok_def tape_ok_def result_of_def)
qed

text \<open>
  C7. Every HOST nudge has its budget. In any run the idle-continue lines, the work-continue lines,
  the skill-commit line, the no-speak and answer-speak lines, the thrash line, the lesson request
  and the lesson pin appear on the tape at most as often as configured (the one-shot ones at most
  once), no call is skipped as identical, and the counters of the result are what the tape shows.
\<close>

theorem do_loop_nudges_within_budget:
  assumes "run_do_loop E A m w = Inr (r, s)"
  shows "kinds ''continue'' s = r_continue_injects r
    \<and> r_continue_injects r \<le> max 0 (continue_max_injects (loop_settings_of (a_settings A)))
    \<and> kinds ''work_continue'' s = r_work_continue_injects r
    \<and> r_work_continue_injects r \<le> max 0 (in_moment_work_nudge_max (continuous_settings_of (a_settings A)))
    \<and> kinds ''skill_commit'' s = r_skill_commit_injects r \<and> r_skill_commit_injects r \<le> 1
    \<and> kinds ''tool_thrash'' s = r_thrash_host_injects r \<and> r_thrash_host_injects r \<le> 1
    \<and> kinds ''no_speak_nudge'' s \<le> 1 \<and> kinds ''answer_speak_nudge'' s \<le> 1
    \<and> kinds ''thrash_lesson'' s \<le> 1 \<and> kinds ''lesson_pin'' s \<le> 1
    \<and> r_thrash_skips r = 0"
proof -
  obtain t out w' where g: "run_guarded E (config_of A t) (initial_state out t w' m) = (r, s)"
    using run_do_loop_guarded [OF assms] by blast
  obtain reason err where r: "r = result_of (config_of A t) reason err s" using run_guarded_ok(2) [OF g] by blast
  have "core_ok (config_of A t) s" using run_guarded_ok(1) [OF g] by (simp add: end_ok_def)
  then show ?thesis by (auto simp: core_ok_def budgets_ok_def tape_ok_def r result_of_def of_bool_def)
qed

text \<open>
  C6. Every request to the provider is legal. In any run there are at most \<open>max_tool_hops\<close> of them;
  in each one the chain answers exactly the tool calls it holds, no tool result is longer than the
  cap, and the \<open>speak\<close> pin is set on the first request of a social wake and on no other.
\<close>

theorem do_loop_requests_legal:
  assumes "run_do_loop E A m w = Inr (r, s)"
  shows "int (length (requests s)) \<le> max 0 (max_tool_hops (loop_settings_of (a_settings A)))
    \<and> (\<forall>i < length (requests s). case requests s ! i of (out, chain, choice) \<Rightarrow>
        exchange_ok chain
      \<and> (\<forall>msg\<in>set chain. \<forall>c. 0 < tool_result_max_chars (loop_settings_of (a_settings A)) \<and> is_tool_msg msg \<and>
           jget msg ''content'' = JStr c \<longrightarrow> int (length c) \<le> tool_result_max_chars (loop_settings_of (a_settings A)))
      \<and> (choice = Some SPEAK_TOOL_CHOICE \<longleftrightarrow> a_social_wake A \<and> i = 0))"
proof -
  obtain t out w' where g: "run_guarded E (config_of A t) (initial_state out t w' m) = (r, s)"
    using run_do_loop_guarded [OF assms] by blast
  have "end_ok (config_of A t) s" by (rule run_guarded_ok(1) [OF g])
  then show ?thesis by (auto simp: end_ok_def requests_ok_def request_ok_def split: prod.splits)
qed

text \<open>
  C8. A tool result that ends the moment cuts off its batch. When the batch stops at a call, the
  stop reason is valid and the outcome and the whole state are the same for every list of calls
  that could have followed: none of them is executed or leaves any trace.
\<close>

theorem ended_batch_runs_no_more_tools:
  assumes "tool_calls_loop E C tcs s = (Inr (Some reason), s')"
  shows "is_valid_stop_reason reason \<and>
    (\<exists>pre tc post. tcs = pre @ tc # post \<and>
       (\<forall>post'. tool_calls_loop E C (pre @ tc # post') s = (Inr (Some reason), s')))"
  using assms
proof (induction tcs arbitrary: s)
  case (Cons tc tcs)
  obtain r1 s1 where step: "tool_step E C tc s = (r1, s1)" by (rule prod.exhaust)
  show ?case
  proof (cases "r1 = Inr None")
    case True
    then have "tool_calls_loop E C tcs s1 = (Inr (Some reason), s')" using Cons.prems step by simp
    from Cons.IH [OF this] obtain pre tc' post where
      "is_valid_stop_reason reason" "tcs = pre @ tc' # post"
      "\<forall>post'. tool_calls_loop E C (pre @ tc' # post') s1 = (Inr (Some reason), s')" by blast
    then show ?thesis using step True by (intro conjI exI [of _ "tc # pre"]) auto
  next
    case False
    then have r1: "r1 = Inr (Some reason)" "s1 = s'"
      using Cons.prems step by (auto split: sum.splits option.splits)
    then have "is_valid_stop_reason reason" using tool_step_reason step by blast
    then show ?thesis using step r1 by (intro conjI exI [of _ "[]"]) auto
  qed
qed simp


text \<open>
  C17. No silent end of a social moment. When a free-text hop of a social wake stops the loop, the user
  has been spoken to or the no-speak nudge has been sent: a pending skill can only defer the nudge,
  because its own nudge comes first.
\<close>

theorem social_stop_spoke_or_nudged:
  assumes "free_text_hop E C r flood s = (Stopped x, s')" and "social_wake C"
  shows "r_stop_reason x = ''no_tools'' \<and> (r_spoke x \<or> no_speak_nudge_sent s')"
proof -
  let ?s = "maybe_capture_free_text_lesson E C (content r) flood (s\<lparr>last_stop_hop_was_flood := flood\<rparr>)"
  have w: "\<not> wants_skill_commit ?s" "\<not> wants_no_speak C ?s"
    and x: "x = result_of C stop_for_no_tools None ?s" "s' = record_beat E C (stop_beat stop_for_no_tools ?s) ?s"
    using assms(1) by (auto simp: free_text_hop_def Let_def finish_def split: if_splits)
  have "\<not> work_skill_pending (pending_skill_commit ?s) (skill_commit_sent ?s)"
    using w(1)
    by (auto simp: wants_skill_commit_def should_skill_commit_nudge_def work_skill_pending_def nudge_def
        is_work_skill_or_unknown_def is_commit_eligible_skill_def is_social_skill_def NO_COMMIT_SKILLS_def
        SOCIAL_SKILLS_def Let_def split: if_splits)
  then have "spoke ?s \<or> no_speak_nudge_sent ?s"
    using w(2) assms(2) by (auto simp: wants_no_speak_def should_allow_no_speak_def split: if_splits)
  then show ?thesis by (simp add: x result_of_def stop_for_no_tools_def)
qed

text \<open>
  C19. Failed moments are not continued. When an exception leaves the loop body, the result carries the
  error and the stop reason \<open>policy\<close> for the usage gate's hard stop and \<open>error\<close> otherwise, and the
  continuous-work gate refuses to enqueue a follow-up moment for it whatever its other inputs are.
\<close>

theorem failed_moment_is_not_continued:
  assumes "run_loop_body E C s = (Inl e, s1)" and "run_guarded E C s = (r, s')"
    and "ci_stop_reason c = r_stop_reason r"
  shows "r_stop_reason r = (case e of UsageHardStop level why \<Rightarrow> STOP_POLICY | _ \<Rightarrow> STOP_ERROR)
    \<and> r_error r \<noteq> None \<and> r_hop_count r = hop s1
    \<and> \<not> mc_enqueue (should_enqueue_moment_continue c)"
proof -
  obtain reason err beat where h: "handle_exc e = (reason, err, beat)" by (metis prod_cases3)
  then have r: "r = result_of C reason (Some err) s1" using assms(1,2) by (simp add: run_guarded_def)
  have reason: "reason = (case e of UsageHardStop level why \<Rightarrow> STOP_POLICY | _ \<Rightarrow> STOP_ERROR)"
    by (rule handle_exc_stop(1) [OF h])
  then have "ci_stop_reason c \<notin> set MOMENT_CONTINUE_STOP_ALLOWLIST"
    using assms(3) by (auto simp: r result_of_def MOMENT_CONTINUE_STOP_ALLOWLIST_def STOP_POLICY_def STOP_ERROR_def
        split: loop_exc.splits)
  then have "\<not> mc_enqueue (should_enqueue_moment_continue c)"
    by (simp add: should_enqueue_moment_continue_def moment_continue_decision_def)
  then show ?thesis using reason by (simp add: r result_of_def)
qed

section \<open>Concrete runs\<close>

definition demo_call_of :: "string \<Rightarrow> string \<Rightarrow> jdict \<Rightarrow> tool_call" where
  "demo_call_of i n args =
     \<lparr>tc_id = i, tc_name = n, arguments = args, arguments_raw = [], arguments_parse_ok = True\<rparr>"

definition demo_result :: "bool \<Rightarrow> tool_result" where
  "demo_result ends =
     \<lparr>tr_ok = True, payload = JObj [(''n'', JInt 1)], error_reason = None, ends_moment = ends,
      stop_reason = (if ends then Some ''wait'' else None), arm_wait = None, counts_as_speak = False\<rparr>"

definition demo_text :: "string \<Rightarrow> tool_call list \<Rightarrow> chat_completion" where
  "demo_text t calls = \<lparr>content = t, reasoning_content = [], tool_calls = calls, finish_reason = None\<rparr>"

text \<open>
  A client that asks for one tool and then only talks, unless the world is negative, when the usage
  gate refuses the call; a registry whose \<open>wait_user\<close> ends the moment.
\<close>

definition demo_env :: "int loop_env" where
  "demo_env =
     \<lparr>clock = (\<lambda>w. (Naive 0, w)),
      chat = (\<lambda>ms c w. (if w < 0 then Inl (UsageHardStop ''day'' ''spent'')
                else if w = 0 then Inr (demo_text [] [demo_call_of ''a'' ''lookup'' []])
                else Inr (demo_text ''done'' []), w + 1)),
      run_tool = (\<lambda>n args w. (Inr (demo_result (n = ''wait_user'')), [], w)),
      rebuild_outer = None, drain_interjections_fn = None, viewing_dirty_fn = None,
      clear_viewing_dirty_fn = None, host_spoke = None, host_task = None, append_beat = None,
      promote = None, sleep = (\<lambda>d w. w), loads = (\<lambda>s. None)\<rparr>"

definition demo_args :: run_args where
  "demo_args =
     \<lparr>a_outer_prefix = Some [], a_settings = No_Settings, a_social_wake = True,
      a_wake_kind = ''user_message'', a_has_open_goals_slice = False, a_continuous_enabled = None,
      a_hop_delay_seconds = 0, a_started_at = Some (Naive 0), a_moment_id = ''m1''\<rparr>"

definition demo_run :: "(loop_exc \<times> int) + (do_loop_result \<times> int loop_state)" where
  "demo_run = run_do_loop demo_env demo_args reset_meter 1"

lemma demo_run_facts:
  "case demo_run of Inl _ \<Rightarrow> False
   | Inr (r, s) \<Rightarrow> r_stop_reason r = ''no_tools'' \<and> r_hop_count r = 2 \<and> kinds ''no_speak_nudge'' s = 1 \<and>
       length (requests s) = 2 \<and> length (fst (snd (requests s ! 1))) = 1"
  by code_simp

theorem do_loop_nudges_within_budget_witness:
  "case demo_run of Inl _ \<Rightarrow> False
   | Inr (r, s) \<Rightarrow> r_stop_reason r = ''no_tools'' \<and> r_hop_count r = 2 \<and> kinds ''no_speak_nudge'' s = 1 \<and>
       r_continue_injects r \<le> 3 \<and> kinds ''tool_thrash'' s = r_thrash_host_injects r"
proof -
  note run = demo_run_facts
  then obtain r s where rs: "demo_run = Inr (r, s)" by (auto split: sum.splits)
  have "continue_max_injects (loop_settings_of (a_settings demo_args)) = 3" by code_simp
  then show ?thesis
    using run do_loop_nudges_within_budget [OF rs [unfolded demo_run_def]] by (simp add: rs)
qed

theorem do_loop_requests_legal_witness:
  "case demo_run of Inl _ \<Rightarrow> False
   | Inr (r, s) \<Rightarrow> length (requests s) = 2 \<and> snd (snd (requests s ! 0)) = Some SPEAK_TOOL_CHOICE \<and>
       exchange_ok (fst (snd (requests s ! 1))) \<and> length (fst (snd (requests s ! 1))) = 1"
proof -
  note run = demo_run_facts
  then obtain r s where rs: "demo_run = Inr (r, s)" by (auto split: sum.splits)
  have n: "length (requests s) = 2" using run by (simp add: rs)
  obtain o0 c0 ch0 where q0: "requests s ! 0 = (o0, c0, ch0)" by (metis prod_cases3)
  obtain o1 c1 ch1 where q1: "requests s ! 1 = (o1, c1, ch1)" by (metis prod_cases3)
  have social: "a_social_wake demo_args" by (simp add: demo_args_def)
  have legal: "case requests s ! i of (out, chain, choice) \<Rightarrow> exchange_ok chain \<and>
      (choice = Some SPEAK_TOOL_CHOICE \<longleftrightarrow> i = 0)" if "i < 2" for i
    using do_loop_requests_legal [OF rs [unfolded demo_run_def]] that n social by (auto split: prod.splits)
  have "ch0 = Some SPEAK_TOOL_CHOICE" "exchange_ok c1"
    using legal [of 0] legal [of 1] by (simp_all add: q0 q1 [simplified])
  then show ?thesis using run by (simp add: rs q0 q1 [simplified])
qed

definition demo_state :: "int \<Rightarrow> int loop_state" where
  "demo_state w = initial_state [] (Naive 0) w reset_meter"

lemma fst_absorb:
  "fst (absorb_result E C tc tr sk pe s) =
     (if ends_moment tr then Some (str_or (stop_from_tool_result True (stop_reason tr)) ''policy'') else None)"
  unfolding absorb_result_def Let_def by (simp only: fst_conv split: if_splits) simp
theorem ended_batch_runs_no_more_tools_witness:
  "fst (tool_calls_loop demo_env (config_of demo_args (Naive 0))
     [demo_call_of ''a'' ''wait_user'' [], demo_call_of ''b'' ''lookup'' []] (demo_state 0)) = Inr (Some ''wait'')
   \<and> is_valid_stop_reason ''wait''"
proof -
  let ?C = "config_of demo_args (Naive 0)" and ?tc = "demo_call_of ''a'' ''wait_user'' []"
  let ?r = "tool_calls_loop demo_env ?C [?tc, demo_call_of ''b'' ''lookup'' []] (demo_state 0)"
  have "fst (execute_or_skip demo_env ?tc (demo_state 0)) = Inr (demo_result True)" by code_simp
  moreover have "ends_moment (demo_result True)"
      "str_or (stop_from_tool_result True (stop_reason (demo_result True))) ''policy'' = ''wait''"
    by code_simp+
  ultimately have "fst (tool_step demo_env ?C ?tc (demo_state 0)) = Inr (Some ''wait'')"
    by (auto simp: tool_step_def split_beta fst_absorb split: prod.splits dest: arg_cong [where f = fst])
  then have f: "fst ?r = Inr (Some ''wait'')" by (cases "tool_step demo_env ?C ?tc (demo_state 0)") simp
  then have "?r = (Inr (Some ''wait''), snd ?r)" by (simp add: prod_eq_iff)
  from ended_batch_runs_no_more_tools [OF this] show ?thesis using f by blast
qed


theorem social_stop_spoke_or_nudged_witness:
  "case free_text_hop demo_env (config_of demo_args (Naive 0)) (demo_text ''done'' []) False
          ((demo_state 0)\<lparr>no_speak_nudge_sent := True\<rparr>) of
     (Stopped x, s') \<Rightarrow> r_stop_reason x = ''no_tools'' \<and> (r_spoke x \<or> no_speak_nudge_sent s')
   | _ \<Rightarrow> False"
proof -
  let ?h = "free_text_hop demo_env (config_of demo_args (Naive 0)) (demo_text ''done'' []) False
      ((demo_state 0)\<lparr>no_speak_nudge_sent := True\<rparr>)"
  have "case ?h of (Stopped x, s') \<Rightarrow> True | _ \<Rightarrow> False" by code_simp
  then obtain x s' where h: "?h = (Stopped x, s')" by (auto split: prod.splits iter_out.splits)
  have "social_wake (config_of demo_args (Naive 0))" by (simp add: demo_args_def)
  from social_stop_spoke_or_nudged [OF h this] show ?thesis by (simp add: h)
qed

definition demo_continue :: continue_inputs where
  "demo_continue =
     \<lparr>ci_enabled = True, ci_stop_reason = STOP_POLICY, ci_wake_kind = ''task_ready'', ci_tools_ran = True,
      ci_ledger_mutated = True, ci_has_pending_wait = False, ci_pending_task_ready = 0,
      ci_has_open_work = True, ci_pending_continues = 0, ci_streak = 0, ci_max_streak = 8,
      ci_since_last = None, ci_cooldown = 30, ci_model_beats = 3, ci_flood_beats = 0,
      ci_last_stop_flood = False, ci_require_progress = True, ci_skip_pure_social = True,
      ci_max_pending = 1\<rparr>"

theorem failed_moment_is_not_continued_witness:
  "case run_guarded demo_env (config_of demo_args (Naive 0)) (demo_state (- 1)) of
     (r, s) \<Rightarrow> r_stop_reason r = STOP_POLICY \<and> r_error r \<noteq> None
   \<and> \<not> mc_enqueue (should_enqueue_moment_continue demo_continue)
   \<and> mc_enqueue (should_enqueue_moment_continue (demo_continue\<lparr>ci_stop_reason := ''max_hops''\<rparr>))"
proof -
  let ?C = "config_of demo_args (Naive 0)"
  have "case run_loop_body demo_env ?C (demo_state (- 1)) of
      (Inl (UsageHardStop a b), _) \<Rightarrow> True | _ \<Rightarrow> False" by code_simp
  then obtain a b s1 where body: "run_loop_body demo_env ?C (demo_state (- 1)) = (Inl (UsageHardStop a b), s1)"
    by (auto split: prod.splits sum.splits loop_exc.splits)
  obtain r s where g: "run_guarded demo_env ?C (demo_state (- 1)) = (r, s)" by (rule prod.exhaust)
  have "case run_guarded demo_env ?C (demo_state (- 1)) of (r, s) \<Rightarrow> ci_stop_reason demo_continue = r_stop_reason r"
    by code_simp
  then have "ci_stop_reason demo_continue = r_stop_reason r" by (simp add: g)
  from failed_moment_is_not_continued [OF body g this]
  have "r_stop_reason r = STOP_POLICY \<and> r_error r \<noteq> None
      \<and> \<not> mc_enqueue (should_enqueue_moment_continue demo_continue)" by simp
  moreover have "mc_enqueue (should_enqueue_moment_continue (demo_continue\<lparr>ci_stop_reason := ''max_hops''\<rparr>))"
    by code_simp
  ultimately show ?thesis by (simp add: g)
qed

end
