(* ===== verification/Loop_World.thy ===== *)
theory Loop_World
  imports Loop_Safety
begin

text \<open>
  What a run of the do-loop does to the world around it. The loop reaches the world only through
  the fields of its environment, so whatever relation every field respects holds between the
  world before and after the whole run. The relation sees the beats the loop has handed over as
  well, which lets a client relate them to what its own store recorded.
\<close>

section \<open>Steps that touch neither world nor tape\<close>

lemma world_frames [simp]:
  "world (say t s) = world s" "world (note_thrash u s) = world s" "world (count_lesson_fails u s) = world s"
  "world (arm_skill_commit tc tr s) = world s" "world (ensure_lesson_pin_in_chain s) = world s"
  by (simp_all add: say_def note_thrash_def count_lesson_fails_def arm_skill_commit_def
      ensure_lesson_pin_in_chain_def split: option.split)

definition moved :: "(jdict list \<times> 'w \<Rightarrow> jdict list \<times> 'w \<Rightarrow> bool) \<Rightarrow> 'w loop_state \<Rightarrow> 'w loop_state \<Rightarrow> bool" where
  "moved R s s' \<longleftrightarrow> R (beats s, world s) (beats s', world s')"

section \<open>The interface\<close>

locale loop_world =
  fixes E :: "'w loop_env" and C :: loop_config
    and R :: "jdict list \<times> 'w \<Rightarrow> jdict list \<times> 'w \<Rightarrow> bool"
  assumes stays: "R u u"
    and composes: "R u v \<Longrightarrow> R v x \<Longrightarrow> R u x"
    and clock: "R (b, w) (b, snd (clock E w))"
    and chat: "R (b, w) (b, snd (chat E ms ch w))"
    and tool: "R (b, w) (b, snd (snd (run_tool E n args w)))"
    and rebuild: "rebuild_outer E = Some f \<Longrightarrow> R (b, w) (b, snd (f w))"
    and drain: "drain_interjections_fn E = Some d \<Longrightarrow> R (b, w) (b, snd (d w))"
    and dirty: "viewing_dirty_fn E = Some h \<Longrightarrow> R (b, w) (b, snd (h w))"
    and clear_dirty: "clear_viewing_dirty_fn E = Some g \<Longrightarrow> R (b, w) (b, g w)"
    and spoke: "host_spoke E = Some g \<Longrightarrow> R (b, w) (b, g w)"
    and task: "host_task E = Some g \<Longrightarrow> R (b, w) (b, g w)"
    and pause: "R (b, w) (b, sleep E t w)"
    and beat: "R (beats s, world s) (beats s @ [a], world (record_beat E C a s))"
begin

abbreviation moves :: "'w loop_state \<Rightarrow> 'w loop_state \<Rightarrow> bool" where
  "moves \<equiv> moved R"

lemma moves_eq: "beats s' = beats s \<Longrightarrow> world s' = world s \<Longrightarrow> moves s s'"
  by (simp add: moved_def stays)

lemma moves_refl [simp]: "moves s s"
  by (simp add: moves_eq)

lemma moves_trans [trans]: "moves s t \<Longrightarrow> moves t u \<Longrightarrow> moves s u"
  unfolding moved_def by (rule composes)

lemma moves_beat: "beats t = beats s \<Longrightarrow> world t = world s \<Longrightarrow> moves s (record_beat E C a t)"
  using beat [of t a] by (simp add: moved_def)

lemma moves_beat_after: "moves s t \<Longrightarrow> moves s (record_beat E C a t)"
  by (erule moves_trans) (simp add: moves_beat)

lemma moves_world: "R (beats s, world s) (beats s, w) \<Longrightarrow> beats t = beats s \<Longrightarrow> world t = w \<Longrightarrow> moves s t"
  by (simp add: moved_def)

lemma moves_now: "moves s (snd (now_step E s))"
  using clock [of "beats s" "world s"] by (simp add: moved_def now_step_def split_beta)

lemma moves_host: "(\<And>g w b. f = Some g \<Longrightarrow> R (b, w) (b, g w)) \<Longrightarrow> moves s (host_call f s)"
  by (cases f) (simp_all add: host_call_def moved_def stays)

text \<open>The state a composite step starts from may differ from the loop's in fields of no concern.\<close>

lemma moves_from: "moves t u \<Longrightarrow> beats t = beats s \<Longrightarrow> world t = world s \<Longrightarrow> moves s u"
  by (simp add: moved_def)

lemma moves_to: "moves s t \<Longrightarrow> beats u = beats t \<Longrightarrow> world u = world t \<Longrightarrow> moves s u"
  by (simp add: moved_def)

lemma moves_spoke: "moves s (mark_spoke E s)"
  unfolding mark_spoke_def Let_def split_beta
  by (rule moves_trans [OF moves_from [OF moves_now] moves_from [OF moves_host]]) (simp_all add: spoke)

lemma moves_task: "moves s (mark_task_changed E s)"
  unfolding mark_task_changed_def Let_def split_beta
  by (rule moves_trans [OF moves_now moves_from [OF moves_host]]) (simp_all add: task)

lemma moves_hooks: "moves s (fold (run_hook E) hs s)"
proof (induction hs arbitrary: s)
  case (Cons h hs)
  have "moves s (run_hook E h s)" by (cases h) (simp_all add: moves_spoke moves_task)
  then show ?case using moves_trans Cons by simp
qed simp

lemma moves_lesson: "moves s (store_and_pin_lesson E C l b s)"
  unfolding store_and_pin_lesson_def Let_def by (auto intro!: moves_beat)

lemma moves_capture: "moves s (maybe_capture_free_text_lesson E C t b s)"
  by (simp add: maybe_capture_free_text_lesson_def Let_def moves_lesson)

lemma moves_execute: "moves s (snd (snd (execute_or_skip E tc s)))"
proof -
  have "moves s (snd (execute_one E tc s))"
  proof (cases "arguments_parse_ok tc")
    case True
    let ?r = "run_tool E (tc_name tc) (arguments tc) (world s)"
    have "moves s (s\<lparr>world := snd (snd ?r)\<rparr>)" using tool by (simp add: moved_def)
    also have "moves (s\<lparr>world := snd (snd ?r)\<rparr>) (fold (run_hook E) (fst (snd ?r)) (s\<lparr>world := snd (snd ?r)\<rparr>))"
      by (rule moves_hooks)
    finally show ?thesis using True by (simp add: execute_one_def split_beta)
  qed (simp add: execute_one_def)
  then show ?thesis by (simp add: execute_or_skip_def Let_def split_beta moves_eq)
qed

lemma moves_progress: "moves s (note_progress E tr s)"
proof -
  have "moves s (mark_spoke E t)" if "beats t = beats s" "world t = world s" for t
    using moves_from [OF moves_spoke that] .
  then show ?thesis by (simp add: note_progress_def Let_def moves_eq)
qed

lemma moves_Let: "(\<And>x. x = a \<Longrightarrow> moves s (snd (f x))) \<Longrightarrow> moves s (snd (Let a f))"
  by simp

lemma moves_absorb: "moves s (snd (absorb_result E C tc tr0 skipped pe s))"
  unfolding absorb_result_def
proof (rule moves_Let)+
  fix upd s1 tr body s2 s3 s4
  assume s1: "s1 = count_lesson_fails upd (note_thrash upd s)"
    and s2: "s2 = record_beat E C (tool_beat tc tr (take_py (tool_cap C) body))
      (s1\<lparr>chain_messages := chain_messages s1 @ [tool_message tc body]\<rparr>)"
    and s3: "s3 = (if skipped then record_beat E C
      (skip_beat tc upd (thrash_skip_count s2) pe (take_py (tool_cap C) body)) s2 else s2)"
    and s4: "s4 = note_progress E tr (arm_skill_commit tc tr s3)"
  have "moves s s2" unfolding s2 by (rule moves_beat) (simp_all add: s1)
  then have "moves s s3" unfolding s3 by (simp add: moves_beat_after)
  also have "moves s3 s4" unfolding s4 by (rule moves_from [OF moves_progress]) simp_all
  finally have "moves s s4" .
  then show "moves s (snd (if ends_moment tr
      then (Some (str_or (stop_from_tool_result True (stop_reason tr)) ''policy''),
            (case arm_wait tr of None \<Rightarrow> s4 | Some a \<Rightarrow> s4\<lparr>armed_wait := Some a\<rparr>))
      else (None, s4)))"
    by (auto elim: moves_to split: option.split)
qed

lemma moves_tool: "moves s (snd (tool_step E C tc s))"
proof -
  note x = moves_execute [of s tc]
  have "moves s (snd (absorb_result E C tc tr b p (snd (snd (execute_or_skip E tc s)))))" for tr b p
    using x moves_absorb by (rule moves_trans)
  then show ?thesis using x by (simp add: tool_step_def split_beta split: sum.split)
qed

lemma moves_tools: "moves s (snd (tool_calls_loop E C tcs s))"
proof (induction tcs arbitrary: s)
  case (Cons tc tcs)
  then show ?case using moves_tool [of s tc] moves_trans by (simp add: tool_calls_loop_snd del: tool_calls_loop.simps)
qed simp

lemma moves_interjections: "moves s (fold (add_interjection E C) xs s)"
proof (induction xs arbitrary: s)
  case (Cons x xs)
  have "moves s (add_interjection E C x s)" by (auto simp: add_interjection_def Let_def intro: moves_beat)
  then show ?case using moves_trans Cons by simp
qed simp

lemma moves_drain: "moves s (drain_interjections E C s)"
proof (cases "drain_interjections_fn E")
  case (Some d)
  let ?r = "d (world s)"
  have "moves s (s\<lparr>world := snd ?r\<rparr>)" using drain [OF Some] by (simp add: moved_def)
  then show ?thesis using moves_trans moves_interjections
    by (simp add: drain_interjections_def Some split_beta)
qed (simp add: drain_interjections_def)

lemma moves_after_batch:
  "moves s (thrash_host_step E C s)" "moves s (lesson_request_step E C s)" "moves s (synthesize_step E C s)"
    apply (auto simp: thrash_host_step_def Let_def intro!: moves_beat)[1]
   apply (auto simp: lesson_request_step_def intro!: moves_beat)[1]
  by (simp add: synthesize_step_def moves_lesson)

lemma moves_batch: "moves s (snd (handle_tool_batch E C result s))"
proof -
  let ?r = "tool_calls_loop E C (tool_calls result)
    (s\<lparr>chain_messages := chain_messages s @ [assistant_message_from_result E result True]\<rparr>)"
  have r: "moves s (snd ?r)" by (rule moves_from [OF moves_tools]) simp_all
  also note moves_drain
  also note moves_after_batch(1)
  also note moves_after_batch(2)
  also note moves_after_batch(3)
  finally show ?thesis using r by (simp add: handle_tool_batch_snd Let_def)
qed

text \<open>One iteration.\<close>

lemma moves_pace: "moves s (pace E C s)"
  using pause by (auto simp: pace_def moved_def stays)

lemma moves_continue: "moves s (continue_step E C t s)"
  by (auto simp: continue_step_def Let_def intro!: moves_beat)

lemma moves_viewing: "moves s (viewing_step E s)"
proof (cases "(rebuild_outer E, viewing_dirty_fn E)")
  case (Pair f v)
  show ?thesis
  proof (cases "\<exists>f' v'. f = Some f' \<and> v = Some v'")
    case True
    then obtain f' v' where fv: "rebuild_outer E = Some f'" "viewing_dirty_fn E = Some v'" using Pair by auto
    obtain d w where d: "v' (world s) = (d, w)" by (rule prod.exhaust)
    obtain r w' where r: "f' w = (r, w')" by (rule prod.exhaust)
    have "moves s (s\<lparr>world := w\<rparr>)" using dirty [OF fv(2), of _ "world s"] d by (simp add: moved_def)
    moreover from this have w': "moves s (s\<lparr>world := w'\<rparr>)"
      using rebuild [OF fv(1), of _ w] r by (auto simp: moved_def intro: composes)
    moreover have "moves s (host_call (clear_viewing_dirty_fn E) (s\<lparr>world := w', outer_prefix := p, reouter_count := n\<rparr>))" for p n
      by (rule moves_trans [OF moves_to [OF w'] moves_host]) (simp_all add: clear_dirty)
    ultimately show ?thesis by (simp add: viewing_step_def fv d r Let_def split: sum.split)
  qed (use Pair in \<open>auto simp: viewing_step_def split: option.split\<close>)
qed

lemma moves_budget: "moves s (snd (budget_step E C s))"
proof -
  have "R (beats s, world s) (beats s, snd (snd (enforce_in_turn_budget ou ch bu cap (rebuild_outer E) (world s))))" for ou ch bu cap
    using rebuild by (auto simp: enforce_in_turn_budget_def Let_def split_beta stays split: option.split sum.split)
  then show ?thesis by (simp add: budget_step_def moved_def split_beta split: sum.split)
qed

lemma moves_before: "moves s (snd (before_request E C t s))"
proof -
  have "moves s (snd (budget_step E C (viewing_step E (continue_step E C t s))))"
    using moves_continue [of s t] moves_viewing moves_budget by (meson moves_trans)
  then show ?thesis by (auto simp: before_request_def split_beta Let_def elim: moves_to)
qed

lemma moves_request: "moves s (snd (request_step E C s))"
  using chat by (simp add: request_step_def Let_def split_beta moved_def)

lemma moves_finish: "moves s (snd (finish E C reason s))"
  by (simp add: moves_beat)

lemma moves_injects:
  "moves s (skill_commit_inject E C s)" "moves s (no_speak_inject E C s)"
  "moves s (answer_speak_inject E C s)" "moves s (work_continue_inject E C s)"
  unfolding skill_commit_inject_def no_speak_inject_def answer_speak_inject_def work_continue_inject_def Let_def
  by (rule moves_beat; simp)+

lemma moves_free_text: "moves s (snd (free_text_hop E C result flood s))"
proof -
  let ?t = "maybe_capture_free_text_lesson E C (content result) flood (s\<lparr>last_stop_hop_was_flood := flood\<rparr>)"
  have t: "moves s ?t" by (rule moves_from [OF moves_capture]) simp_all
  show ?thesis unfolding free_text_hop_def
    using moves_trans [OF t] moves_injects moves_beat_after [OF t] by (simp add: Let_def split_beta)
qed

lemma moves_tool_hop: "moves s (snd (tool_hop E C result s))"
proof -
  have t: "moves s (snd (handle_tool_batch E C result (s\<lparr>last_stop_hop_was_flood := False\<rparr>)))"
    by (rule moves_from [OF moves_batch]) simp_all
  then show ?thesis
    using moves_beat_after [OF t] by (simp add: tool_hop_snd Let_def split_beta split: sum.split option.split)
qed

lemma moves_after: "moves s (snd (after_request E C raw s))"
proof -
  obtain result h where rh: "sanitize_completion raw = (result, h)" by (rule prod.exhaust)
  have "moves s (ingest E C result h s)" unfolding ingest_def Let_def by (rule moves_beat) simp_all
  then show ?thesis
    using moves_trans moves_tool_hop moves_free_text by (auto simp: after_request_def rh Let_def)
qed

lemma moves_iter: "moves s (snd (loop_iter E C s))"
proof -
  obtain t s1 where s1: "now_step E (pace E C s) = (t, s1)" by (rule prod.exhaust)
  have m1: "moves s s1" using moves_trans [OF moves_pace moves_now [of "pace E C s"]] s1 by simp
  obtain e s2 where s2: "before_request E C t s1 = (e, s2)" by (rule prod.exhaust)
  have m2: "moves s s2" using moves_trans [OF m1 moves_before [of s1 t]] s2 by simp
  obtain r s3 where s3: "request_step E C s2 = (r, s3)" by (rule prod.exhaust)
  have m3: "moves s s3" using moves_trans [OF m2 moves_request [of s2]] s3 by simp
  show ?thesis
    using moves_beat_after [OF m1] m2 m3 moves_trans [OF m3 moves_after]
    by (auto simp: loop_iter_def s1 s2 s3 split_beta split: option.split sum.split)
qed

text \<open>The whole run, with the beat an exception leaves behind.\<close>

lemma moves_body: "moves s (snd (run_loop_body E C s))"
proof (induction "nat (max_hops C - hop s)" arbitrary: s rule: less_induct)
  case less
  obtain out s' where it: "loop_iter E C s = (out, s')" by (rule prod.exhaust)
  then have m: "moves s s'" using moves_iter [of s] by simp
  show ?case
  proof (cases out)
    case Next
    then have "nat (max_hops C - hop s') < nat (max_hops C - hop s)" using loop_iter_hop it by fastforce
    from moves_trans [OF m less [OF this]] show ?thesis
      using Next by (subst run_loop_body.simps) (simp add: it)
  qed (subst run_loop_body.simps, simp add: it m)+
qed

lemma moves_guarded: "moves s (snd (run_guarded E C s))"
  using moves_body [of s] moves_beat_after [OF moves_body [of s]]
  by (auto simp: run_guarded_def split_beta split: sum.split)

end

text \<open>
  The first clock reading and the first meal come before the configuration is complete, so the
  run as a whole is stated for an environment that respects the relation under every configuration.
\<close>

lemma run_do_loop_moves:
  assumes E: "\<And>t. loop_world E (config_of A t) R"
  shows "case run_do_loop E A m w of Inl (e, w') \<Rightarrow> R ([], w) ([], w') | Inr (r, s) \<Rightarrow> R ([], w) (beats s, world s)"
proof -
  note refl = loop_world.stays [OF E] and trans = loop_world.composes [OF E]
  obtain t0 w1 where t0: "(case a_started_at A of Some t \<Rightarrow> (t, w) | None \<Rightarrow> clock E w) = (t0, w1)"
    by (rule prod.exhaust)
  have w1: "R ([], w) ([], w1)"
    using loop_world.clock [OF E, of "[]" w] t0 refl by (auto split: option.splits)
  obtain out w2 where out: "(case a_outer_prefix A of Some p \<Rightarrow> (Inr p, w1)
      | None \<Rightarrow> (case rebuild_outer E of Some rebuild \<Rightarrow> rebuild w1
          | None \<Rightarrow> (Inr [[(''role'', JStr ''system''), (''content'', JStr ''elyra'')]], w1))) = (out, w2)"
    by (rule prod.exhaust)
  have "R ([], w1) ([], w2)"
    using loop_world.rebuild [OF E, of _ "[]" w1] out refl by (fastforce split: option.splits)
  with w1 have w2: "R ([], w) ([], w2)" by (rule trans)
  have "R (beats s, world s) (beats (snd (run_guarded E (config_of A t0) s)), world (snd (run_guarded E (config_of A t0) s)))" for s
    using loop_world.moves_guarded [OF E] by (simp add: moved_def)
  from this [of "initial_state p t0 w2 m" for p]
  have go: "R ([], w) (beats (snd (run_guarded E (config_of A t0) (initial_state p t0 w2 m))),
      world (snd (run_guarded E (config_of A t0) (initial_state p t0 w2 m))))" for p
    by (intro trans [OF w2]) (simp add: initial_state_def)
  have run: "run_do_loop E A m w =
      (case out of Inl e \<Rightarrow> Inl (e, w2) | Inr p \<Rightarrow> Inr (run_guarded E (config_of A t0) (initial_state p t0 w2 m)))"
    by (simp only: run_do_loop_def Let_def t0 prod.case out)
  show ?thesis using go w2 by (auto simp: run split: sum.split) (metis snd_conv)
qed

end
