(* ===== verification/Moment_Run.thy ===== *)
theory Moment_Run
  imports Worker_Safety Loop_World
begin

text \<open>
  The do-loop inside the presence worker: \<open>_run_moment\<close> of \<open>elyra/presence/worker.py\<close> hands the loop
  the worker's own ports (interjections, the viewing flag, the moment store), and while the loop
  waits for the model or runs a tool, other threads and the tool itself call the worker. The two
  models are composed here, and the moment on disk is compared with the run.
\<close>

section \<open>Calls made while a moment runs\<close>

datatype api_call =
    Enqueue_Wake call_env string "jdict option" "string option"
  | Enqueue_User_Message call_env string string "string option"
  | Interject call_env string string "string option"
  | User_Input call_env string string "string option" bool "string option" bool
  | Set_Continuous call_env bool
  | Tool_Enqueue_Wake call_env string "jdict option" "string option" jdict
  | Tool_Cancel_Wait call_env string
  | Task_Ready call_env string string
  | Mark_Viewing string string string string int "rat option"
  | Drop_Viewing string
  | Clear_Viewing
  | Dirty_Viewing
  | Tool_Arm_Wait tenv string string string "when_arg option" "rat option" "string list option" "string option"
  | Tool_Schedule_Timer tenv when_arg string "string option" "string option" "string option"
  | Tool_Cancel_Timer tenv string
  | Write_Goals goals_store

fun do_call :: "api_call \<Rightarrow> worker \<Rightarrow> worker" where
  "do_call (Enqueue_Wake N k pl w) p = snd (enqueue_wake N k pl w p)"
| "do_call (Enqueue_User_Message N c u m) p = snd (enqueue_user_message N c u m p)"
| "do_call (Interject N c u m) p = snd (interject N c u m p)"
| "do_call (User_Input N c u ch wait_api m att) p = snd (handle_user_input N c u ch wait_api m att p)"
| "do_call (Set_Continuous N want) p = snd (set_continuous_enabled N want p)"
| "do_call (Tool_Enqueue_Wake N k pl w ex) p = snd (tool_enqueue_wake N k pl w ex p)"
| "do_call (Tool_Cancel_Wait N w) p = snd (tool_cancel_wait N w p)"
| "do_call (Task_Ready N t g) p = on_task_ready_hook N t g p"
| "do_call (Mark_Viewing a k m n b d) p = snd (mark_viewing a k m n b d p)"
| "do_call (Drop_Viewing a) p = snd (drop_from_viewing a p)"
| "do_call Clear_Viewing p = snd (clear_viewing_port p)"
| "do_call Dirty_Viewing p = set_viewing_dirty p"
| "do_call (Tool_Arm_Wait E pr u m x t c i) p =
     (case Timers.arm_wait E (p_svc p) pr u m x t c i of Inl _ \<Rightarrow> p | Inr (s, _) \<Rightarrow> p\<lparr>p_svc := s\<rparr>)"
| "do_call (Tool_Schedule_Timer E a r g k i) p =
     (case schedule_timer E (p_svc p) a r g k i of Inl _ \<Rightarrow> p | Inr (s, _) \<Rightarrow> p\<lparr>p_svc := s\<rparr>)"
| "do_call (Tool_Cancel_Timer E i) p =
     (case cancel_timer E (p_svc p) i of Inl _ \<Rightarrow> p | Inr s \<Rightarrow> p\<lparr>p_svc := s\<rparr>)"
| "do_call (Write_Goals g) p = p\<lparr>p_goals := g\<rparr>"

lemma api_step_do_call: "api_step\<^sup>*\<^sup>* p (do_call c p)"
  by (cases c) (auto split: sum.split simp: set_viewing_dirty_def intro!: r_into_rtranclp intro: api_step.intros)

section \<open>The ports of a moment\<close>

text \<open>
  What lies outside the worker: clock, provider, tools, meal builder, memory and the outcome of
  each tape write. Each sees the worker and the rest of the world, and says what it answers, which
  calls the worker got meanwhile and what the rest of the world became.
\<close>

type_synonym 'x host = "worker \<times> 'x"

record 'x ports =
  pt_clock :: "'x host \<Rightarrow> pytime \<times> api_call list \<times> 'x"
  pt_chat :: "message list \<Rightarrow> json option \<Rightarrow> 'x host \<Rightarrow> (loop_exc + chat_completion) \<times> api_call list \<times> 'x"
  pt_tool :: "string \<Rightarrow> jdict \<Rightarrow> 'x host \<Rightarrow> (loop_exc + tool_result) \<times> hook list \<times> api_call list \<times> 'x"
  pt_outer :: "wake_item \<Rightarrow> string \<Rightarrow> 'x host \<Rightarrow> (loop_exc + message list) \<times> api_call list \<times> 'x"
  pt_promote :: "(string \<Rightarrow> jdict \<Rightarrow> 'x host \<Rightarrow> 'x) option"
  pt_sleep :: "rat \<Rightarrow> 'x host \<Rightarrow> api_call list \<times> 'x"
  pt_loads :: "string \<Rightarrow> json option"
  pt_beat :: "'x \<Rightarrow> moment_draw \<times> 'x"
  pt_meter :: meal_meter
  pt_loop :: loop_settings
  pt_meal_tokens :: int
  pt_delay :: rat
  pt_skills :: "'x \<Rightarrow> string list"
  pt_exc :: "loop_exc \<Rightarrow> pyerr"

definition after_calls :: "api_call list \<Rightarrow> 'x \<Rightarrow> 'x host \<Rightarrow> 'x host" where
  "after_calls cs x h = (fold do_call cs (fst h), x)"

definition beat_port :: "'x ports \<Rightarrow> string \<Rightarrow> jdict \<Rightarrow> 'x host \<Rightarrow> bool \<times> 'x host" where
  "beat_port P mid b h =
     (case pt_beat P (snd h) of (dr, x) \<Rightarrow>
        (case Moments.append_beat dr (p_store (fst h)) mid (JObj b) of
           (r, st) \<Rightarrow> (r = Inr (), ((fst h)\<lparr>p_store := st\<rparr>, x))))"

definition moment_env :: "'x ports \<Rightarrow> wake_item \<Rightarrow> string \<Rightarrow> 'x host loop_env" where
  "moment_env P wake mid =
     \<lparr>clock = (\<lambda>h. case pt_clock P h of (t, cs, x) \<Rightarrow> (t, after_calls cs x h)),
      chat = (\<lambda>ms ch h. case pt_chat P ms ch h of (r, cs, x) \<Rightarrow> (r, after_calls cs x h)),
      run_tool = (\<lambda>n args h. case pt_tool P n args h of (r, hooks, cs, x) \<Rightarrow> (r, hooks, after_calls cs x h)),
      rebuild_outer = Some (\<lambda>h. case pt_outer P wake mid h of (r, cs, x) \<Rightarrow> (r, after_calls cs x h)),
      drain_interjections_fn = Some (\<lambda>(p, x). case drain_interjections_port p of
        (its, p') \<Rightarrow> (Some (map JObj its), (p', x))),
      viewing_dirty_fn = Some (\<lambda>(p, x). (Some (is_viewing_dirty p), (p, x))),
      clear_viewing_dirty_fn = Some (\<lambda>(p, x). (clear_viewing_dirty p, x)),
      host_spoke = None, host_task = None, append_beat = Some (beat_port P),
      promote = map_option (\<lambda>f m b h. (fst h, f m b h)) (pt_promote P),
      sleep = (\<lambda>d h. case pt_sleep P d h of (cs, x) \<Rightarrow> after_calls cs x h), loads = pt_loads P\<rparr>"

text \<open>The settings of the moment: outer meal and in-turn budget share the meal budget.\<close>

definition moment_args :: "'x ports \<Rightarrow> continuous_settings \<Rightarrow> wake_item \<Rightarrow> string \<Rightarrow> bool \<Rightarrow> worker \<Rightarrow> run_args" where
  "moment_args P cfg wake mid has_open p =
     \<lparr>a_outer_prefix = None,
      a_settings = Full_Settings ((pt_loop P)\<lparr>sliding_input_tokens := pt_meal_tokens P,
        in_turn_max_tokens := pt_meal_tokens P\<rparr>) cfg,
      a_social_wake = (kind wake \<in> set SOCIAL_WAKE_KINDS), a_wake_kind = kind wake,
      a_has_open_goals_slice = has_open, a_continuous_enabled = Some (c_enabled (p_cont p)),
      a_hop_delay_seconds = pt_delay P, a_started_at = None, a_moment_id = mid\<rparr>"

definition run_moment ::
  "'x ports \<Rightarrow> continuous_settings \<Rightarrow> wake_item \<Rightarrow> string \<Rightarrow> 'x host \<Rightarrow> (do_loop_result \<times> string list) res \<times> 'x host" where
  "run_moment P cfg wake mid h =
     (case has_open_work (fst h) of
        Inl e \<Rightarrow> (Inl e, h)
      | Inr has_open \<Rightarrow>
          (case run_do_loop (moment_env P wake mid) (moment_args P cfg wake mid has_open (fst h)) (pt_meter P) h of
             Inl (e, h') \<Rightarrow> (Inl (pt_exc P e), h')
           | Inr (r, s) \<Rightarrow> (Inr (r, pt_skills P (snd (world s))), world s)))"

text \<open>The worker's do-loop port, for a given rest of the world.\<close>

definition moment_run :: "'x ports \<Rightarrow> continuous_settings \<Rightarrow> 'x \<Rightarrow> moment_port" where
  "moment_run P cfg x wake mid p = (case run_moment P cfg wake mid (p, x) of (res, h) \<Rightarrow> (res, fst h))"

section \<open>The run moves the worker by its own calls\<close>

definition stamped :: "jdict \<Rightarrow> json \<Rightarrow> bool" where
  "stamped b row \<longleftrightarrow> (\<exists>t. row = JObj (stamp_beat t b))"

text \<open>
  \<open>tells\<close>: the loop handed over some more beats \<open>k\<close>, the worker moved by calls and beats of this
  moment, and if every tape write succeeds, the tape grew by exactly these beats, stamped.
\<close>

definition all_written :: "'x ports \<Rightarrow> bool" where
  "all_written P \<longleftrightarrow> (\<forall>x. m_write (fst (pt_beat P x)) = Written)"

definition taped :: "string \<Rightarrow> jdict list \<Rightarrow> worker \<Rightarrow> worker \<Rightarrow> bool" where
  "taped mid k p p' \<longleftrightarrow> (\<forall>rows. list_beats (p_store p) mid = Inr rows \<longrightarrow>
     (\<exists>new. list_beats (p_store p') mid = Inr (rows @ new) \<and> list_all2 stamped k new))"

definition tells :: "'x ports \<Rightarrow> wake_item \<Rightarrow> string \<Rightarrow> jdict list \<times> 'x host \<Rightarrow> jdict list \<times> 'x host \<Rightarrow> bool" where
  "tells P wake mid a b \<longleftrightarrow>
     (\<exists>k. fst b = fst a @ k \<and> (mid_step mid)\<^sup>*\<^sup>* (fst (snd a)) (fst (snd b)) \<and>
        (running wake mid (fst (snd a)) \<and> all_written P \<and> list_all beat_typed k \<longrightarrow>
           taped mid k (fst (snd a)) (fst (snd b))))"
lemma taped_refl: "taped mid [] p p"
  by (auto simp: taped_def)

lemma taped_trans: "taped mid k p q \<Longrightarrow> taped mid l q r \<Longrightarrow> taped mid (k @ l) p r"
  unfolding taped_def by (metis append.assoc list_all2_appendI)

lemma taped_store: "p_store q = p_store p \<Longrightarrow> taped mid [] p q"
  by (auto simp: taped_def)

lemma do_calls_steps: "api_step\<^sup>*\<^sup>* p (fold do_call cs p)"
proof (induction cs arbitrary: p)
  case (Cons c cs)
  show ?case using rtranclp_trans [OF api_step_do_call Cons] by simp
qed simp

lemma api_steps_mid: "api_step\<^sup>*\<^sup>* p q \<Longrightarrow> (mid_step mid)\<^sup>*\<^sup>* p q"
  by (erule rtranclp_mono [THEN predicate2D, rotated]) (auto intro: mid_step.api)

lemma api_steps_store: "api_step\<^sup>*\<^sup>* p q \<Longrightarrow> base_ok p \<Longrightarrow> p_store q = p_store p \<and> base_ok q"
  by (induction rule: rtranclp_induct) (auto simp: kept_def dest!: kept_api_step)

lemma tells_api: "api_step\<^sup>*\<^sup>* (fst h) (fst h') \<Longrightarrow> tells P wake mid (b, h) (b, h')"
  using api_steps_mid [of "fst h" "fst h'" mid] api_steps_store [of "fst h" "fst h'"]
  by (auto simp: tells_def running_def intro!: taped_store)

lemma tells_calls: "tells P wake mid (b, h) (b, after_calls cs x h)"
  by (rule tells_api) (simp add: after_calls_def do_calls_steps)

lemma tells_refl: "tells P wake mid a a"
  by (simp add: tells_def taped_refl)

lemma tells_trans:
  assumes "tells P wake mid a b" and "tells P wake mid b c"
  shows "tells P wake mid a c"
proof -
  obtain k where k: "fst b = fst a @ k" "(mid_step mid)\<^sup>*\<^sup>* (fst (snd a)) (fst (snd b))"
    "running wake mid (fst (snd a)) \<and> all_written P \<and> list_all beat_typed k \<Longrightarrow> taped mid k (fst (snd a)) (fst (snd b))"
    using assms(1) by (auto simp: tells_def)
  obtain l where l: "fst c = fst b @ l" "(mid_step mid)\<^sup>*\<^sup>* (fst (snd b)) (fst (snd c))"
    "running wake mid (fst (snd b)) \<and> all_written P \<and> list_all beat_typed l \<Longrightarrow> taped mid l (fst (snd b)) (fst (snd c))"
    using assms(2) by (auto simp: tells_def)
  show ?thesis
    unfolding tells_def using k l running_mid_steps [OF k(2)]
    by (intro exI [of _ "k @ l"]) (auto intro: taped_trans)
qed

text \<open>Recording a beat, with the promotion to memory that may follow.\<close>

lemma running_open: "running wake mid p \<Longrightarrow> \<exists>m. get_moment (p_store p) mid = Inr (Some m) \<and> is_open_meta m"
  by (auto simp: running_def only_open_def)

lemma beat_port_tells:
  assumes "beat_port P mid a h = (ok, h')"
  shows "tells P wake mid (b, h) (b @ [a], h')"
proof -
  obtain dr x where d: "pt_beat P (snd h) = (dr, x)" by (rule prod.exhaust)
  obtain r st where r: "Moments.append_beat dr (p_store (fst h)) mid (JObj a) = (r, st)" by (rule prod.exhaust)
  have h': "fst h' = (fst h)\<lparr>p_store := st\<rparr>" using assms by (auto simp: beat_port_def d r)
  have "taped mid [a] (fst h) (fst h')"
    if run: "running wake mid (fst h)" and w: "all_written P" and t: "beat_typed a"
  proof -
    obtain m where m: "get_moment (p_store (fst h)) mid = Inr (Some m)" "is_open_meta m"
      using running_open [OF run] by blast
    obtain ty where ty: "jget a ''type'' = JStr ty" "ty \<in> set BEAT_TYPES"
      using t by (fastforce simp: beat_typed_def BEAT_TYPES_def)
    have "m_write (fst (pt_beat P (snd h))) = Written" using w by (simp add: all_written_def)
    then have dr: "m_write dr = Written" by (simp add: d)
    have "list_beats st mid = Inr (rows @ [JObj (stamp_beat (m_now dr) a)])"
      if rows: "list_beats (p_store (fst h)) mid = Inr rows" for rows
    proof -
      obtain s' where "Moments.append_beat dr (p_store (fst h)) mid (JObj a) = (Inr (), s')"
        "list_beats s' mid = Inr (rows @ [JObj (stamp_beat (m_now dr) a)])"
        using append_beat_ok [OF m dr ty rows] by blast
      then show ?thesis using r by simp
    qed
    then show ?thesis by (auto simp: taped_def h' stamped_def)
  qed
  moreover have "(mid_step mid)\<^sup>*\<^sup>* (fst h) (fst h')" using mid_step.beat [OF r] h' by auto
  ultimately show ?thesis by (auto simp: tells_def intro: exI [of _ "[a]"])
qed
lemma not_running_unnamed: "\<not> running wake [] p"
  by (auto dest!: running_open simp: get_moment_def validate_moment_id_def segment_ok_def)

lemma record_beat_world:
  "world (record_beat (moment_env P wake mid) C a s) =
     (let (ok, h) = (if moment_id C = [] then (True, world s) else beat_port P (moment_id C) a (world s))
      in if ok then (case pt_promote P of None \<Rightarrow> h | Some f \<Rightarrow> (fst h, f (moment_id C) a h)) else h)"
  by (simp add: record_beat_def moment_env_def Let_def split_beta split: option.split)

lemma tells_promoted: "tells P wake mid a (b, h) \<Longrightarrow> tells P wake mid a (b, (fst h, x))"
  by (simp add: tells_def)

lemma record_beat_tells:
  assumes "moment_id C = mid"
  shows "tells P wake mid (b, world s) (b @ [a], world (record_beat (moment_env P wake mid) C a s))"
proof (cases "mid = []")
  case True
  have "tells P wake mid (b, world s) (b @ [a], world s)"
    using not_running_unnamed by (auto simp: tells_def True)
  from this tells_promoted [OF this] show ?thesis
    using assms True by (simp add: record_beat_world split: option.split)
next
  case False
  obtain ok h where h: "beat_port P mid a (world s) = (ok, h)" by (rule prod.exhaust)
  note t = beat_port_tells [OF h, of wake b]
  then show ?thesis
    using assms False h tells_promoted [OF t] by (auto simp: record_beat_world split: option.split)
qed

interpretation mr: loop_world "moment_env P wake mid" "config_of (moment_args P cfg wake mid has_open p) t" "tells P wake mid"
  for P wake mid cfg has_open p t
proof
  show "tells P wake mid u u" for u by (rule tells_refl)
  show "tells P wake mid u v \<Longrightarrow> tells P wake mid v x \<Longrightarrow> tells P wake mid u x" for u v x by (rule tells_trans)
  show "tells P wake mid (b, w) (b, snd (clock (moment_env P wake mid) w))" for b w
    by (simp add: moment_env_def split_beta tells_calls)
  show "tells P wake mid (b, w) (b, snd (chat (moment_env P wake mid) ms ch w))" for b w ms ch
    by (simp add: moment_env_def split_beta tells_calls)
  show "tells P wake mid (b, w) (b, snd (snd (run_tool (moment_env P wake mid) n args w)))" for b w n args
    by (simp add: moment_env_def split_beta tells_calls)
  show "rebuild_outer (moment_env P wake mid) = Some f \<Longrightarrow> tells P wake mid (b, w) (b, snd (f w))" for f b w
    by (auto simp: moment_env_def split_beta tells_calls)
  show "drain_interjections_fn (moment_env P wake mid) = Some d \<Longrightarrow> tells P wake mid (b, w) (b, snd (d w))" for d b w
    by (auto simp: moment_env_def split_beta intro!: tells_api api_step.drain)
  show "viewing_dirty_fn (moment_env P wake mid) = Some h \<Longrightarrow> tells P wake mid (b, w) (b, snd (h w))" for h b w
    by (auto simp: moment_env_def split_beta tells_refl)
  show "clear_viewing_dirty_fn (moment_env P wake mid) = Some g \<Longrightarrow> tells P wake mid (b, w) (b, g w)" for g b w
    by (auto simp: moment_env_def split_beta clear_viewing_dirty_def intro!: tells_api api_step.viewing_flag)
  show "host_spoke (moment_env P wake mid) = Some g \<Longrightarrow> tells P wake mid (b, w) (b, g w)" for g b w
    by (simp add: moment_env_def)
  show "host_task (moment_env P wake mid) = Some g \<Longrightarrow> tells P wake mid (b, w) (b, g w)" for g b w
    by (simp add: moment_env_def)
  show "tells P wake mid (b, w) (b, sleep (moment_env P wake mid) d w)" for b w d
    by (simp add: moment_env_def split_beta tells_calls)
  show "tells P wake mid (beats s, world s) (beats s @ [a], world (record_beat (moment_env P wake mid)
      (config_of (moment_args P cfg wake mid has_open p) t) a s))" for s a
    by (rule record_beat_tells) (simp add: config_of_def moment_args_def Let_def)
qed

lemma run_hops_bounded:
  assumes "run_do_loop E A m w = Inr (r, s)"
  shows "r_hop_count r \<le> max 0 (max_tool_hops (loop_settings_of (a_settings A)))"
    and "count_by ''type'' ''model'' (beats s) = r_hop_count r"
proof -
  obtain t out w' where g: "run_guarded E (config_of A t) (initial_state out t w' m) = (r, s)"
    using run_do_loop_guarded assms by metis
  show "r_hop_count r \<le> max 0 (max_tool_hops (loop_settings_of (a_settings A)))"
    and "count_by ''type'' ''model'' (beats s) = r_hop_count r"
    using run_guarded_ok [OF g] by (auto simp: end_ok_def core_ok_def tape_ok_def result_of_def)
qed

definition run_fits :: "'x ports \<Rightarrow> jdict list \<Rightarrow> do_loop_result \<Rightarrow> bool" where
  "run_fits P k r \<longleftrightarrow> list_all beat_typed k \<and> r_stop_reason r \<in> set STOP_REASONS \<and>
     count_by ''type'' ''model'' k = r_hop_count r \<and> r_hop_count r \<le> max 0 (max_tool_hops (pt_loop P))"

section \<open>Settling leaves the tape alone\<close>

abbreviation tapes_of :: "worker \<Rightarrow> (string, jsonl) dict" where
  "tapes_of p \<equiv> tapes (p_store p)"

lemma tapes_and_then:
  assumes "tapes_of (snd r) = T" and "\<And>q. tapes_of q = T \<Longrightarrow> tapes_of (snd (f q)) = T"
  shows "tapes_of (snd (and_then r f)) = T"
  using assms by (cases r) (auto simp: and_then_def split: sum.split)

lemma tapes_swallow [simp]: "tapes_of (snd (swallow h r)) = tapes_of (snd r)"
  by (cases r) (simp add: swallow_def split: sum.split)

lemma tapes_close_moment: "tapes (snd (close_moment dr st mid stop hops skills)) = tapes st"
  by (auto simp: close_moment_def rewrite_index_def bind_res_def Let_def split_beta
      split: sum.split option.split write_mode.split)

lemma tapes_steps [simp]:
  "tapes_of (snd (close_step dr mid stop hops skills p)) = tapes_of p"
  "tapes_of (snd (done_step dw w p)) = tapes_of p"
  "tapes_of (snd (ensure_wait_armed E arm mid p)) = tapes_of p"
  "tapes_of (count_streak wake p) = tapes_of p" "tapes_of (leave_moment r p) = tapes_of p"
  "tapes_of (snd (maybe_enqueue_moment_continue K cfg wake mid r p)) = tapes_of p"
  "tapes_of (clear_moment_viewing p) = tapes_of p" "tapes_of (fire_due E1 E2 p) = tapes_of p"
         apply (simp add: close_step_def split_beta tapes_close_moment)
        apply (simp add: done_step_def split: sum.split)
       apply (simp add: ensure_wait_armed_def split: option.split sum.split)
      apply (simp_all add: count_streak_def leave_moment_def clear_moment_viewing_def fire_due_def Let_def split_beta split: sum.split)
  by (auto simp: maybe_enqueue_moment_continue_def Let_def split: sum.split)

lemma tapes_flush [simp]: "tapes_of (snd (flush_interjects ds us p)) = tapes_of p"
proof -
  have "tapes_of (snd (flush_loop ds us i its p)) = tapes_of p" for i its p
    by (induction ds us i its p rule: flush_loop.induct) (auto split: sum.split)
  then show ?thesis by (simp add: flush_interjects_def split_beta)
qed

lemma tapes_fail [simp]: "tapes_of (snd (fail_in_flight K wake mid e p)) = tapes_of p"
proof -
  have c: "tapes_of (snd (fail_close K mid q)) = tapes_of q" for q
    by (auto simp: fail_close_def split: option.split sum.split)
  have d: "tapes_of (snd (fail_done K wake q)) = tapes_of q" for q
    by (auto simp: fail_done_def split: option.split)
  show ?thesis unfolding fail_in_flight_def by (intro tapes_and_then) (simp_all add: c d)
qed

lemma tapes_finalize [simp]: "tapes_of (snd (finalize_moment K cfg wake mid r skills p)) = tapes_of p"
  unfolding finalize_moment_def Let_def
  by (intro tapes_and_then) (auto intro!: tapes_and_then split: sum.split)

lemma tapes_pass:
  assumes "claim_and_open K p = (Inr (Some (wake, mid)), p1)" and "run wake mid p1 = (res, p2)"
  shows "tapes_of (snd (iteration K cfg run p)) = tapes_of p2"
proof (cases res)
  case (Inr z)
  obtain r skills where z: "z = (r, skills)" by (rule prod.exhaust)
  obtain o' p3 where f: "finalize_moment K cfg wake mid r skills p2 = (o', p3)" by (rule prod.exhaust)
  have "tapes_of p3 = tapes_of p2" using tapes_finalize [of K cfg wake mid r skills p2] f by simp
  then show ?thesis using assms Inr z f by (simp add: iteration_def split: sum.split)
qed (use assms in \<open>simp add: iteration_def\<close>)

section \<open>The moment on disk is the run\<close>

text \<open>
  C4. The record of a moment is the run. From a settled worker, a pass that claims a wake and runs
  the do-loop over the worker's own ports, whatever the model answers, whatever the tools do
  through their ports and whatever other threads call meanwhile, comes back settled: the wake
  is done, the moment closed with the stop reason of the run, after at most the configured
  number of hops, and, the tape writes having succeeded, its tape holds exactly the beats of the
  run, in order, each stamped with a time, one model beat for every hop the result reports.
\<close>

theorem moment_record_is_the_run:
  assumes "settled p" and "written K"
    and claim: "claim_and_open K p = (Inr (Some (wake, mid)), p1)"
    and ho: "has_open_work p1 = Inr ho"
    and loop: "run_do_loop (moment_env P wake mid) (moment_args P cfg wake mid ho p1) (pt_meter P) (p1, x) = Inr (r, s)"
    and "fresh_ids K (id wake) (p_queue (fst (world s)))"
    and "all_written P" and new: "list_beats (p_store p1) mid = Inr []"
  shows "\<exists>p' meta rows. iteration K cfg (moment_run P cfg x) p = (Inr (), p') \<and> settled p' \<and>
    status (p_queue p') (id wake) = Some Done \<and>
    get_moment (p_store p') mid = Inr (Some meta) \<and> \<not> is_open_meta meta \<and>
    jget meta ''stop_reason'' = JStr (r_stop_reason r) \<and>
    r_hop_count r \<le> max 0 (max_tool_hops (pt_loop P)) \<and>
    list_beats (p_store p') mid = Inr rows \<and> list_all2 stamped (beats s) rows \<and>
    count_by ''type'' ''model'' (beats s) = r_hop_count r"
proof -
  let ?run = "moment_run P cfg x" and ?skills = "pt_skills P (snd (world s))"
  have rm: "run_moment P cfg wake mid (p1, x) = (Inr (r, ?skills), world s)" by (simp add: run_moment_def ho loop)
  then have run: "?run wake mid p1 = (Inr (r, ?skills), fst (world s))" by (simp add: moment_run_def)
  have told: "tells P wake mid ([], (p1, x)) (beats s, world s)"
    using run_do_loop_moves [where A = "moment_args P cfg wake mid ho p1", OF mr.loop_world_axioms, where m = "pt_meter P" and w = "(p1, x)"]
    by (simp add: loop)
  have fits: "run_fits P (beats s) r"
    using run_beats_typed [OF loop] run_hops_bounded [OF loop]
    by (simp add: run_fits_def is_valid_stop_reason_def moment_args_def loop_settings_of_def)
  have "running wake mid p1"
    by (rule claim_and_open_cases [OF assms(1), of K]) (use assms(2) claim in \<open>auto simp: written_def\<close>)
  then obtain rows where rows: "list_beats (p_store (fst (world s))) mid = Inr rows" "list_all2 stamped (beats s) rows"
    using told fits \<open>all_written P\<close> new by (auto simp: tells_def taped_def run_fits_def)
  have steps: "(mid_step mid)\<^sup>*\<^sup>* p1 (fst (world s))" using told by (simp add: tells_def)
  obtain p' meta where pass: "iteration K cfg ?run p = (Inr (), p')"
    "pass_done wake mid meta (set (ij_items (p_interject (fst (world s))))) p'"
    "jget meta ''stop_reason'' = JStr (known_stop (r_stop_reason r))"
    by (rule iteration_opened [where run = ?run and cfg = cfg, OF assms(1,2) claim run steps assms(6)]) simp
  have "list_beats (p_store p') mid = Inr rows"
    using tapes_pass [where run = ?run and cfg = cfg, OF claim run] pass(1) rows(1) by (simp add: list_beats_def)
  then show ?thesis
    using pass fits rows(2) by (auto simp: pass_done_def late_def wrapped_def run_fits_def known_stop_def)
qed
text \<open>A moment in which the usage gate refuses the request, while the user interjects once.\<close>

definition gate_ports :: "int ports" where
  "gate_ports =
     \<lparr>pt_clock = (\<lambda>h. (Naive 0, [], snd h)),
      pt_chat = (\<lambda>ms ch h. (Inl (UsageHardStop ''day'' ''spent''), [Interject demo_call ''hi'' ''op'' None], snd h)),
      pt_tool = (\<lambda>n args h. (Inr (Loop_Safety.demo_result False), [], [], snd h)),
      pt_outer = (\<lambda>wake mid h. (Inr [], [], snd h)), pt_promote = None, pt_sleep = (\<lambda>d h. ([], snd h)),
      pt_loads = (\<lambda>s. None), pt_beat = (\<lambda>x. (demo_draw Written, x)), pt_meter = reset_meter,
      pt_loop = default_loop_settings, pt_meal_tokens = 1000, pt_delay = 0, pt_skills = (\<lambda>x. []),
      pt_exc = (\<lambda>e. ValueError ''loop'')\<rparr>"

definition demo_opened :: worker where
  "demo_opened = snd (claim_and_open demo_tick demo_worker)"

abbreviation gate_run :: "(loop_exc \<times> int host) + (do_loop_result \<times> int host loop_state)" where
  "gate_run \<equiv> run_do_loop (moment_env gate_ports (demo_item ''a'' ''user_message'' 0 ''T1'') ''m'')
     (moment_args gate_ports default_continuous_settings (demo_item ''a'' ''user_message'' 0 ''T1'') ''m'' False demo_opened)
     (pt_meter gate_ports) (demo_opened, 0)"

lemma gate_run_facts:
  "case gate_run of Inl _ \<Rightarrow> False
   | Inr (r, s) \<Rightarrow> r_stop_reason r = STOP_POLICY \<and> length (beats s) = 1 \<and>
       ops (p_queue (fst (world s))) = [(''a'', Claimed)] \<and> map ij_content (ij_items (p_interject (fst (world s)))) = [''hi'']"
  by code_simp

theorem moment_record_is_the_run_witness:
  "\<exists>p' meta rows. iteration demo_tick default_continuous_settings
       (moment_run gate_ports default_continuous_settings 0) demo_worker = (Inr (), p') \<and>
     status (p_queue p') ''a'' = Some Done \<and> get_moment (p_store p') ''m'' = Inr (Some meta) \<and>
     jget meta ''stop_reason'' = JStr STOP_POLICY \<and> list_beats (p_store p') ''m'' = Inr rows \<and> length rows = 1"
proof -
  let ?wake = "demo_item ''a'' ''user_message'' 0 ''T1''"
  obtain r s where rs: "gate_run = Inr (r, s)" using gate_run_facts by (auto split: sum.splits)
  have facts: "r_stop_reason r = STOP_POLICY" "length (beats s) = 1" "ops (p_queue (fst (world s))) = [(''a'', Claimed)]"
    using gate_run_facts by (simp_all add: rs)
  have "fst (claim_and_open demo_tick demo_worker) = Inr (Some (?wake, ''m''))" by code_simp
  then have op: "claim_and_open demo_tick demo_worker = (Inr (Some (?wake, ''m'')), demo_opened)"
    unfolding demo_opened_def by (metis prod.collapse)
  have ho: "has_open_work demo_opened = Inr False" by code_simp
  have "fresh_draws (p_queue (fst (world s))) nat_draws 0" by (intro nat_draws_fresh) (auto simp: facts(3) split: if_splits)
  moreover have "k_flush demo_tick = nat_draws" "k_fail_flush demo_tick = nat_draws" "uuid4 (k_continue demo_tick) = ''k''"
    by (simp_all add: demo_tick_def draw_of_def)
  ultimately have fr: "fresh_ids demo_tick (id ?wake) (p_queue (fst (world s)))"
    by (simp add: fresh_ids_def fresh_for_def demo_item_def) (simp add: nat_draws_def draw_of_def)
  have wr: "written demo_tick" by (simp add: written_def demo_tick_def demo_draw_def)
  have aw: "all_written gate_ports" by (simp add: all_written_def gate_ports_def demo_draw_def)
  have new: "list_beats (p_store demo_opened) ''m'' = Inr []" by code_simp
  moreover have "id ?wake = ''a''" by (simp add: demo_item_def)
  ultimately show ?thesis
    using moment_record_is_the_run [OF demo_settled wr op ho rs fr aw new] facts(1,2) list_all2_lengthD by fastforce
qed

end
