(* ===== verification/Secrets.thy ===== *)
theory Secrets
  imports Do_Loop Moments "HOL-Library.Sublist"
begin

text \<open>
  Named operator secrets: the name rules and tool requirements of \<open>elyra/secrets/policy.py\<close>, the
  file store of \<open>elyra/secrets/store.py\<close> (an index without values, one value file per secret,
  written through a temporary file beside it), and the injection and redaction of
  \<open>elyra/secrets/inject.py\<close>. The lemmas show what a stored secret can be read back as, which tools
  are handed it, and that no known value is left in a redacted result.
\<close>

section \<open>Names and grants\<close>

definition RESERVED_SECRET_NAMES :: "string list" where
  "RESERVED_SECRET_NAMES =
     [''xai_api_key'', ''xai_api_key.tmp'', ''xai_oauth'', ''xai_oauth.json'', ''xai_oauth.json.tmp'',
      ''xai_access_token'', ''meta.json'', ''values'']"

definition is_reserved_secret_name :: "string \<Rightarrow> bool" where
  "is_reserved_secret_name name \<longleftrightarrow>
     strip name \<in> set RESERVED_SECRET_NAMES \<or> casefold (strip name) \<in> casefold ` set RESERVED_SECRET_NAMES"

text \<open>The last test of the code (\<open>.\<close>, \<open>..\<close>, separators) never applies after the expression.\<close>

definition validate_secret_name :: "string \<Rightarrow> string res" where
  "validate_secret_name name =
     (let raw = strip name in
      if raw = [] then Inl (ValueError ''invalid_secret_name'')
      else if is_reserved_secret_name raw then Inl (ValueError ''reserved_secret_name'')
      else if \<not> segment_ok raw then Inl (ValueError ''invalid_secret_name'')
      else Inr raw)"

definition TOOL_SECRET_REQUIREMENTS :: "(string, string list) dict" where
  "TOOL_SECRET_REQUIREMENTS =
     map (\<lambda>t. (t, [''gh_token'']))
       [''gh_auth_status'', ''gh_pr_create'', ''gh_pr_list'', ''gh_pr_view'', ''gh_issue_create'',
        ''gh_issue_list'', ''gh_api'', ''gh_project_list'', ''gh_project_item_list'',
        ''gh_project_item_add'', ''gh_project_item_edit'', ''gh_project_field_list'']"

definition SECRET_ENV_MAP :: "(string, string) dict" where
  "SECRET_ENV_MAP = [(''gh_token'', ''GH_TOKEN'')]"

definition upper_char :: "char \<Rightarrow> char" where
  "upper_char c = (if 97 \<le> code c \<and> code c \<le> 122 then char_of (code c - 32) else c)"

definition env_var_for_secret :: "string \<Rightarrow> string" where
  "env_var_for_secret n = (case dget SECRET_ENV_MAP n of Some m \<Rightarrow> m | None \<Rightarrow> map upper_char n)"

text \<open>The argument is the JSON value a caller sent, or absent.\<close>

definition grant_item :: "string list \<times> string list \<Rightarrow> json \<Rightarrow> (string list \<times> string list) res" where
  "grant_item acc item =
     (case (acc, item) of
        ((out, seen), JStr s) \<Rightarrow>
          (let g = strip s in
           if g = [] \<or> casefold g \<in> set seen then Inr (out, seen) else Inr (out @ [g], casefold g # seen))
      | _ \<Rightarrow> Inl (ValueError ''invalid_grants''))"

definition normalize_grants :: "json \<Rightarrow> string list res" where
  "normalize_grants grants =
     (case grants of
        JNull \<Rightarrow> Inr []
      | JArr items \<Rightarrow> bind_res (foldl_res grant_item ([], []) items) (\<lambda>(out, _). Inr out)
      | _ \<Rightarrow> Inl (ValueError ''invalid_grants''))"

section \<open>The store\<close>

text \<open>
  \<open>meta_doc\<close> is the document in \<open>meta.json\<close>, absent when the file is missing or unreadable; a file
  under \<open>values/\<close> holds its text, or \<open>None\<close> when it cannot be read as text.
\<close>

record secret_store =
  meta_doc :: "json option"
  value_files :: "(string, string option) dict"

text \<open>Reading in text mode turns every line ending into a newline.\<close>

fun universal_newlines :: "string \<Rightarrow> string" where
  "universal_newlines [] = []"
| "universal_newlines (c # cs) =
     (if c = CHR 0x0D
      then CHR 0x0A # (case cs of d # ds \<Rightarrow> if d = CHR 0x0A then universal_newlines ds else universal_newlines cs
                               | [] \<Rightarrow> [])
      else c # universal_newlines cs)"

definition secrets_of :: "jdict \<Rightarrow> jdict" where
  "secrets_of meta = dict_of (jget meta ''secrets'')"

definition load_meta :: "secret_store \<Rightarrow> jdict" where
  "load_meta s =
     (case meta_doc s of
        Some (JObj d) \<Rightarrow> if is_obj (jget d ''secrets'') then d else dset d ''secrets'' (JObj [])
      | _ \<Rightarrow> [(''secrets'', JObj [])])"

definition value_text :: "secret_store \<Rightarrow> string \<Rightarrow> string option" where
  "value_text s key =
     (case dget (value_files s) key of
        Some (Some raw) \<Rightarrow>
          (let t = universal_newlines raw;
               t' = (if t \<noteq> [] \<and> last t = CHR 0x0A then butlast t else t)
           in if t' = [] then None else Some t')
      | _ \<Rightarrow> None)"

definition public_entry :: "string \<Rightarrow> jdict \<Rightarrow> jdict" where
  "public_entry name entry =
     (let grants = (case jget entry ''grants'' of JArr gs \<Rightarrow> filter (\<lambda>g. as_str_opt g \<noteq> None) gs | _ \<Rightarrow> [])
      in [(''name'', JStr name),
          (''managed_by'', if truthy (jget entry ''managed_by'') then jget entry ''managed_by'' else JStr ''user''),
          (''created_at'', jget entry ''created_at''), (''updated_at'', jget entry ''updated_at''),
          (''last_used_at'', jget entry ''last_used_at''), (''grants'', JArr grants)])"

definition get_meta :: "secret_store \<Rightarrow> string \<Rightarrow> jdict option" where
  "get_meta s name =
     (case validate_secret_name name of
        Inl _ \<Rightarrow> None
      | Inr key \<Rightarrow>
          (case jget (secrets_of (load_meta s)) key of JObj e \<Rightarrow> Some (public_entry key e) | _ \<Rightarrow> None))"

definition list_secrets :: "secret_store \<Rightarrow> jdict list" where
  "list_secrets s =
     List.map_filter (\<lambda>(n, e). case e of JObj d \<Rightarrow> Some (public_entry n d) | _ \<Rightarrow> None)
       (sort_key fst (secrets_of (load_meta s)))"

definition get_value :: "secret_store \<Rightarrow> string \<Rightarrow> string option" where
  "get_value s name = (case validate_secret_name name of Inl _ \<Rightarrow> None | Inr key \<Rightarrow> value_text s key)"

definition known_values :: "secret_store \<Rightarrow> string list" where
  "known_values s = List.map_filter (get_value s) (dkeys (secrets_of (load_meta s)))"

text \<open>
  How the write of a value ends. The new text goes to \<open><name>.tmp\<close>, which replaces the value file;
  a failure leaves the value as it was, and may leave or remove a temporary file.
\<close>

datatype value_write = Value_Written | Value_Failed "string option option"

definition tmp_name :: "string \<Rightarrow> string" where
  "tmp_name name = name @ ''.tmp''"

definition write_value :: "value_write \<Rightarrow> secret_store \<Rightarrow> string \<Rightarrow> string \<Rightarrow> unit res \<times> secret_store" where
  "write_value wr s name v =
     (let rest = AList.delete (tmp_name name) (value_files s) in
      case wr of
        Value_Written \<Rightarrow> (Inr (), s\<lparr>value_files := dset rest name (Some (v @ [CHR 0x0A]))\<rparr>)
      | Value_Failed None \<Rightarrow> (Inl OSError, s\<lparr>value_files := rest\<rparr>)
      | Value_Failed (Some left) \<Rightarrow> (Inl OSError, s\<lparr>value_files := dset (value_files s) (tmp_name name) left\<rparr>))"

definition write_meta :: "bool \<Rightarrow> secret_store \<Rightarrow> jdict \<Rightarrow> unit res \<times> secret_store" where
  "write_meta ok s meta = (if ok then (Inr (), s\<lparr>meta_doc := Some (JObj meta)\<rparr>) else (Inl OSError, s))"

text \<open>The clock and the outcome of the writes of one call.\<close>

record secret_io =
  io_now :: string
  io_value :: value_write
  io_meta :: bool
  io_unlink :: bool
  io_unlink_tmp :: bool

definition created_or :: "json \<Rightarrow> string \<Rightarrow> json" where
  "created_or existing now =
     (case existing of
        JObj e \<Rightarrow> (case jget e ''created_at'' of JStr t \<Rightarrow> JStr t | _ \<Rightarrow> JStr now)
      | _ \<Rightarrow> JStr now)"

definition grants_for :: "json option \<Rightarrow> json \<Rightarrow> string list res" where
  "grants_for grants existing =
     (case grants of
        Some g \<Rightarrow> normalize_grants g
      | None \<Rightarrow>
          (case existing of
             JObj e \<Rightarrow> (case jget e ''grants'' of JArr gs \<Rightarrow> normalize_grants (JArr gs) | _ \<Rightarrow> Inr [])
           | _ \<Rightarrow> Inr []))"

definition new_entry :: "string \<Rightarrow> string list \<Rightarrow> string \<Rightarrow> json \<Rightarrow> jdict" where
  "new_entry now grants managed_by existing =
     [(''managed_by'', JStr (if managed_by \<noteq> [] then managed_by else ''user'')),
      (''created_at'', created_or existing now), (''updated_at'', JStr now),
      (''last_used_at'', jget (dict_of existing) ''last_used_at''), (''grants'', JArr (map JStr grants))]"

definition set_secret ::
  "secret_io \<Rightarrow> secret_store \<Rightarrow> string \<Rightarrow> string \<Rightarrow> json option \<Rightarrow> string \<Rightarrow> jdict res \<times> secret_store" where
  "set_secret io s name v grants managed_by =
     (case validate_secret_name name of Inl e \<Rightarrow> (Inl e, s) | Inr key \<Rightarrow>
      if strip v = [] then (Inl (ValueError ''empty_secret_value''), s)
      else
        let meta = load_meta s; existing = jget (secrets_of meta) key in
        case grants_for grants existing of Inl e \<Rightarrow> (Inl e, s) | Inr gs \<Rightarrow>
        let entry = new_entry (io_now io) gs managed_by existing in
        case write_value (io_value io) s key v of (Inl e, s1) \<Rightarrow> (Inl e, s1) | (Inr _, s1) \<Rightarrow>
        case write_meta (io_meta io) s1 (dset meta ''secrets'' (JObj (dset (secrets_of meta) key (JObj entry)))) of
          (Inl e, s2) \<Rightarrow> (Inl e, s2)
        | (Inr _, s2) \<Rightarrow> (Inr (public_entry key entry), s2))"

definition delete_secret :: "secret_io \<Rightarrow> secret_store \<Rightarrow> string \<Rightarrow> bool res \<times> secret_store" where
  "delete_secret io s name =
     (case validate_secret_name name of Inl e \<Rightarrow> (Inl e, s) | Inr key \<Rightarrow>
      let meta = load_meta s; secrets = secrets_of meta;
          was_file = (dget (value_files s) key \<noteq> None);
          files1 = (if was_file \<and> io_unlink io then AList.delete key (value_files s) else value_files s);
          files2 = (if io_unlink_tmp io then AList.delete (tmp_name key) files1 else files1);
          s1 = s\<lparr>value_files := files2\<rparr>
      in if key \<in> set (dkeys secrets)
         then (case write_meta (io_meta io) s1 (dset meta ''secrets'' (JObj (AList.delete key secrets))) of
                 (Inl e, s2) \<Rightarrow> (Inl e, s2) | (Inr _, s2) \<Rightarrow> (Inr True, s2))
         else (Inr (was_file \<and> io_unlink io), s1))"

definition set_grants :: "secret_io \<Rightarrow> secret_store \<Rightarrow> string \<Rightarrow> json \<Rightarrow> jdict res \<times> secret_store" where
  "set_grants io s name grants =
     (case validate_secret_name name of Inl e \<Rightarrow> (Inl e, s) | Inr key \<Rightarrow>
      case normalize_grants grants of Inl e \<Rightarrow> (Inl e, s) | Inr gs \<Rightarrow>
      let meta = load_meta s; secrets = secrets_of meta in
      case jget secrets key of
        JObj e \<Rightarrow>
          (let entry = dset (dset e ''grants'' (JArr (map JStr gs))) ''updated_at'' (JStr (io_now io)) in
           case write_meta (io_meta io) s (dset meta ''secrets'' (JObj (dset secrets key (JObj entry)))) of
             (Inl e, s1) \<Rightarrow> (Inl e, s1)
           | (Inr _, s1) \<Rightarrow> (Inr (public_entry key entry), s1))
      | _ \<Rightarrow> (Inl (ValueError ''secret_not_found''), s))"

definition touch_last_used :: "secret_io \<Rightarrow> secret_store \<Rightarrow> string \<Rightarrow> secret_store" where
  "touch_last_used io s name =
     (case validate_secret_name name of Inl _ \<Rightarrow> s | Inr key \<Rightarrow>
      let meta = load_meta s; secrets = secrets_of meta in
      case jget secrets key of
        JObj e \<Rightarrow>
          snd (write_meta (io_meta io) s (dset meta ''secrets'' (JObj (dset secrets key
            (JObj (dset e ''last_used_at'' (JStr (io_now io))))))))
      | _ \<Rightarrow> s)"

section \<open>Injection\<close>

definition granted :: "jdict \<Rightarrow> string \<Rightarrow> bool" where
  "granted meta tool_name =
     (case jget meta ''grants'' of
        JArr gs \<Rightarrow> list_ex (\<lambda>g. case g of JStr t \<Rightarrow> casefold t = casefold tool_name | _ \<Rightarrow> False) gs
      | _ \<Rightarrow> False)"

definition inject_secret ::
  "secret_io \<Rightarrow> string \<Rightarrow> string \<Rightarrow> (string, string) dict \<times> secret_store \<Rightarrow> (string, string) dict \<times> secret_store" where
  "inject_secret io tool_name n acc =
     (case acc of (env, s) \<Rightarrow>
      case get_meta s n of None \<Rightarrow> (env, s) | Some meta \<Rightarrow>
      if \<not> granted meta tool_name then (env, s)
      else case get_value s n of
        None \<Rightarrow> (env, s)
      | Some v \<Rightarrow> (dset env (env_var_for_secret n) v, touch_last_used io s n))"

definition resolve_for_tool :: "secret_io \<Rightarrow> string \<Rightarrow> secret_store \<Rightarrow> (string, string) dict \<times> secret_store" where
  "resolve_for_tool io tool_name s =
     (case dget TOOL_SECRET_REQUIREMENTS tool_name of
        None \<Rightarrow> ([], s)
      | Some required \<Rightarrow> fold (inject_secret io tool_name) required ([], s))"

section \<open>Redaction\<close>

text \<open>\<open>str.replace\<close> for a nonempty pattern: leftmost matches that do not overlap.\<close>

function replace_all :: "string \<Rightarrow> string \<Rightarrow> string \<Rightarrow> string" where
  "replace_all pat new s =
     (case s of
        [] \<Rightarrow> []
      | c # cs \<Rightarrow>
          if pat \<noteq> [] \<and> starts_with pat s then new @ replace_all pat new (drop (length pat) s)
          else c # replace_all pat new cs)"
  by pat_completeness auto
termination
  by (relation "measure (\<lambda>(p, n, s). length s)") auto

declare replace_all.simps [simp del]

definition redact_string :: "string list \<Rightarrow> string \<Rightarrow> string" where
  "redact_string known t =
     fold (\<lambda>v out. replace_all v REDACT_PLACEHOLDER out) (sort_desc length (filter (\<lambda>v. v \<noteq> []) known)) t"

function redact_payload :: "string list \<Rightarrow> json \<Rightarrow> json" where
  "redact_payload known (JStr t) = JStr (redact_string known t)"
| "redact_payload known (JObj d) = JObj (map (\<lambda>(k, v). (k, redact_payload known v)) d)"
| "redact_payload known (JArr xs) = JArr (map (redact_payload known) xs)"
| "redact_payload known JNull = JNull"
| "redact_payload known (JBool b) = JBool b"
| "redact_payload known (JInt i) = JInt i"
| "redact_payload known (JFloat r q) = JFloat r q"
  by pat_completeness auto
termination
  by (relation "measure (\<lambda>(k, j). size j)") (auto dest: size_in_dict simp: less_Suc_eq_le intro: size_list_estimation')

definition redact_tool_result_payload :: "string list \<Rightarrow> json \<Rightarrow> jdict" where
  "redact_tool_result_payload known j = dict_of (redact_payload known j)"

section \<open>What a redacted text can contain\<close>

lemma replace_all_cases:
  "replace_all pat new [] = []"
  "pat \<noteq> [] \<and> starts_with pat (c # cs) \<Longrightarrow>
     replace_all pat new (c # cs) = new @ replace_all pat new (drop (length pat) (c # cs))"
  "\<not> (pat \<noteq> [] \<and> starts_with pat (c # cs)) \<Longrightarrow> replace_all pat new (c # cs) = c # replace_all pat new cs"
  by (subst replace_all.simps, auto)+

lemma starts_with_prefix: "starts_with p s \<longleftrightarrow> prefix p s"
  unfolding starts_with_def by (metis append_eq_conv_conj append_take_drop_id prefix_def)

text \<open>A text without an asterisk cannot straddle a placeholder.\<close>

abbreviation redacted :: "string \<Rightarrow> string \<Rightarrow> string" where
  "redacted v s \<equiv> replace_all v REDACT_PLACEHOLDER s"

lemma prefix_placeholder: "prefix u (REDACT_PLACEHOLDER @ r) \<Longrightarrow> CHR ''*'' \<notin> set u \<Longrightarrow> u = []"
  by (auto simp: REDACT_PLACEHOLDER_def prefix_Cons)

lemma sublist_placeholder: "sublist u (REDACT_PLACEHOLDER @ r) \<Longrightarrow> CHR ''*'' \<notin> set u \<Longrightarrow> sublist u r"
  by (auto simp: REDACT_PLACEHOLDER_def sublist_Cons_right prefix_Cons)

lemma prefix_redacted: "prefix u (redacted v s) \<Longrightarrow> CHR ''*'' \<notin> set u \<Longrightarrow> prefix u s"
proof (induction v REDACT_PLACEHOLDER s arbitrary: u rule: replace_all.induct)
  case (1 pat s)
  show ?case
  proof (cases s)
    case Nil
    then show ?thesis using 1(3) by (simp add: replace_all_cases)
  next
    case (Cons c cs)
    show ?thesis
    proof (cases "pat \<noteq> [] \<and> starts_with pat (c # cs)")
      case True
      then have "u = []" using prefix_placeholder 1(3,4) Cons by (simp add: replace_all_cases(2))
      then show ?thesis by simp
    next
      case False
      note miss = replace_all_cases(3) [OF False]
      show ?thesis using 1(2) [OF Cons] 1(3,4) False Cons by (auto simp: miss prefix_Cons)
    qed
  qed
qed

lemma sublist_redacted: "sublist u (redacted v s) \<Longrightarrow> CHR ''*'' \<notin> set u \<Longrightarrow> sublist u s"
proof (induction v REDACT_PLACEHOLDER s rule: replace_all.induct)
  case (1 pat s)
  show ?case
  proof (cases s)
    case Nil
    then show ?thesis using 1(3) by (simp add: replace_all_cases)
  next
    case (Cons c cs)
    show ?thesis
    proof (cases "pat \<noteq> [] \<and> starts_with pat (c # cs)")
      case True
      then have "sublist u (redacted pat (drop (length pat) s))"
        using 1(3,4) Cons sublist_placeholder by (auto simp: replace_all_cases(2))
      then have "sublist u (drop (length pat) s)" using 1(1) [OF Cons] True Cons 1(4) by simp
      then show ?thesis using sublist_order.order_trans [OF _ sublist_drop] by blast
    next
      case False
      note miss = replace_all_cases(3) [OF False]
      have "prefix u (redacted pat (c # cs)) \<or> sublist u (redacted pat cs)"
        using 1(3) Cons by (simp add: miss sublist_Cons_right)
      then show ?thesis
        using prefix_redacted [OF _ 1(4), of pat "c # cs"] 1(2) [OF Cons] False Cons 1(4)
        by (auto simp: sublist_Cons_right)
    qed
  qed
qed

lemma replaced_is_gone: "v \<noteq> [] \<Longrightarrow> CHR ''*'' \<notin> set v \<Longrightarrow> \<not> sublist v (redacted v s)"
proof (induction v REDACT_PLACEHOLDER s rule: replace_all.induct)
  case (1 pat s)
  show ?case
  proof (cases s)
    case Nil
    then show ?thesis using 1(3) by (simp add: replace_all_cases)
  next
    case (Cons c cs)
    show ?thesis
    proof (cases "starts_with pat (c # cs)")
      case True
      then have "\<not> sublist pat (redacted pat (drop (length pat) (c # cs)))" using 1(1) [OF Cons] 1(3,4) Cons by simp
      then show ?thesis
        using True 1(3,4) Cons sublist_placeholder by (auto simp: replace_all_cases(2))
    next
      case False
      then have miss: "redacted pat s = c # redacted pat cs" by (simp add: replace_all_cases(3) Cons)
      have "\<not> sublist pat (redacted pat cs)" using 1(2) [OF Cons] False 1(3,4) Cons by simp
      moreover have "\<not> prefix pat (redacted pat s)"
        using prefix_redacted [OF _ 1(4)] False Cons by (auto simp: starts_with_prefix)
      ultimately show ?thesis by (simp add: miss sublist_Cons_right)
    qed
  qed
qed

lemma fold_replace_gone:
  assumes "v \<noteq> []" and "CHR ''*'' \<notin> set v" and "v \<in> set vs \<or> \<not> sublist v t"
  shows "\<not> sublist v (fold (\<lambda>v out. replace_all v REDACT_PLACEHOLDER out) vs t)"
  using assms(3)
proof (induction vs arbitrary: t)
  case (Cons w ws)
  have "v \<in> set ws \<or> \<not> sublist v (redacted w t)"
    using Cons.prems replaced_is_gone [OF assms(1,2)] sublist_redacted [OF _ assms(2)] by fastforce
  then show ?case using Cons.IH by simp
qed simp

lemma redact_string_gone:
  assumes "v \<in> set known" and "v \<noteq> []" and "CHR ''*'' \<notin> set v"
  shows "\<not> sublist v (redact_string known t)"
  unfolding redact_string_def by (rule fold_replace_gone) (use assms in \<open>auto simp: sort_desc_def\<close>)

text \<open>All text in value position, at any depth.\<close>

function texts_in :: "json \<Rightarrow> string list" where
  "texts_in j =
     (case j of
        JStr t \<Rightarrow> [t]
      | JObj d \<Rightarrow> concat (map (\<lambda>(k, v). texts_in v) d)
      | JArr xs \<Rightarrow> concat (map texts_in xs)
      | _ \<Rightarrow> [])"
  by pat_completeness auto
termination
  by (relation "measure size") (auto dest: size_in_dict simp: less_Suc_eq_le intro: size_list_estimation')

declare texts_in.simps [simp del]

lemmas texts_in_simps [simp] =
  texts_in.simps [of "JStr t" for t, simplified] texts_in.simps [of "JObj d" for d, simplified]
  texts_in.simps [of "JArr xs" for xs, simplified] texts_in.simps [of JNull, simplified]
  texts_in.simps [of "JBool b" for b, simplified] texts_in.simps [of "JInt i" for i, simplified]
  texts_in.simps [of "JFloat r q" for r q, simplified]

lemma texts_redacted: "t \<in> set (texts_in (redact_payload known j)) \<Longrightarrow> \<exists>u. t = redact_string known u"
proof (induction known j rule: redact_payload.induct)
  case (2 known d)
  then show ?case by (fastforce simp: split_beta)
qed auto

text \<open>
  C26. No secret is left in a redacted result. After redaction with the values the store knows, no
  known value occurs anywhere in any text value of the payload, at any depth (keys are left as they are), even where removing one
  value joins the pieces of another, as long as the value itself holds no asterisk.
\<close>

theorem redaction_leaves_no_known_value:
  assumes "v \<in> set known" and "v \<noteq> []" and "CHR ''*'' \<notin> set v"
    and "t \<in> set (texts_in (redact_payload known j))"
  shows "\<not> sublist v t"
  using texts_redacted [OF assms(4)] redact_string_gone [OF assms(1-3)] by auto

theorem redaction_leaves_no_known_value_witness:
  "redact_payload [''b'', ''abc''] (JObj [(''out'', JArr [JStr ''xabcabbcx''])]) = JObj [(''out'', JArr [JStr ''x***a******cx''])]
   \<and> \<not> sublist ''abc'' ''x***a******cx''"
proof -
  let ?j = "JObj [(''out'', JArr [JStr ''xabcabbcx''])]"
  have r: "redact_payload [''b'', ''abc''] ?j = JObj [(''out'', JArr [JStr ''x***a******cx''])]" by code_simp
  have "\<not> sublist ''abc'' ''x***a******cx''"
    by (rule redaction_leaves_no_known_value [of _ "[''b'', ''abc'']" _ ?j]) (simp_all only: r, simp_all)
  then show ?thesis using r by simp
qed

section \<open>The store keeps what it is given\<close>

lemma segment_no_space: "segment_ok s \<Longrightarrow> c \<in> set s \<Longrightarrow> \<not> is_space c"
  by (cases s) (auto simp: segment_ok_def is_alnum_def is_space_def code_def Let_def list_all_iff)

lemma strip_segment: "segment_ok s \<Longrightarrow> strip s = s"
proof -
  assume s: "segment_ok s"
  have "dropWhile is_space s = s" by (cases s) (use segment_no_space [OF s] in auto)
  moreover have "dropWhile is_space (rev s) = rev s" by (cases "rev s") (use segment_no_space [OF s] in auto)
  ultimately show ?thesis by (simp add: strip_def lstrip_def rstrip_def)
qed

lemma validate_secret_name_Inr:
  assumes "validate_secret_name name = Inr key"
  shows "key = strip name" and "segment_ok key" and "validate_secret_name key = Inr key"
proof -
  show k: "key = strip name" "segment_ok key" using assms by (auto simp: validate_secret_name_def Let_def split: if_splits)
  show "validate_secret_name key = Inr key"
    using assms strip_segment [OF k(2)] by (auto simp: validate_secret_name_def Let_def k(1) split: if_splits)
qed

lemma get_value_key: "validate_secret_name name = Inr key \<Longrightarrow> get_value s name = value_text s key"
  by (simp add: get_value_def)

lemma known_values_iff:
  "v \<in> set (known_values s) \<longleftrightarrow> (\<exists>k\<in>set (dkeys (secrets_of (load_meta s))). get_value s k = Some v)"
proof -
  have "v \<in> set (List.map_filter f xs) \<longleftrightarrow> (\<exists>x\<in>set xs. f x = Some v)" for f :: "string \<Rightarrow> string option" and xs
    by (induction xs) (auto simp: List.map_filter_simps split: option.split)
  then show ?thesis by (simp only: known_values_def)
qed

lemma value_text_nonempty: "value_text s key = Some v \<Longrightarrow> v \<noteq> []"
  by (auto simp: value_text_def Let_def split: option.splits if_splits)

lemma known_values_nonempty: "v \<in> set (known_values s) \<Longrightarrow> v \<noteq> []"
  unfolding known_values_iff get_value_def by (metis (no_types, lifting) value_text_nonempty option.distinct(1) sum.case_eq_if)

lemma universal_newlines_id: "CHR 0x0D \<notin> set t \<Longrightarrow> universal_newlines t = t"
  by (induction t rule: universal_newlines.induct) auto

lemma value_text_written:
  assumes "v \<noteq> []" and "CHR 0x0D \<notin> set v" and "dget (value_files s) key = Some (Some (v @ [CHR 0x0A]))"
  shows "value_text s key = Some v"
  using assms universal_newlines_id [of "v @ [CHR 0x0A]"] by (simp add: value_text_def)

lemma secrets_of_dset [simp]: "secrets_of (dset meta ''secrets'' (JObj d)) = d"
  by (simp add: secrets_of_def dict_of_def)

lemma load_meta_written [simp]:
  "load_meta (s\<lparr>meta_doc := Some (JObj (dset meta ''secrets'' (JObj d)))\<rparr>) = dset meta ''secrets'' (JObj d)"
  by (simp add: load_meta_def is_obj_def)

lemma value_text_meta [simp]: "value_text (s\<lparr>meta_doc := m\<rparr>) = value_text s"
  by (rule ext) (simp add: value_text_def)

lemma set_secret_Inr:
  assumes "set_secret io s name v grants mb = (Inr row, s')"
  obtains key entry where "validate_secret_name name = Inr key" "strip v \<noteq> []"
    "s' = s\<lparr>value_files := dset (AList.delete (tmp_name key) (value_files s)) key (Some (v @ [CHR 0x0A])),
            meta_doc := Some (JObj (dset (load_meta s) ''secrets'' (JObj (dset (secrets_of (load_meta s)) key (JObj entry)))))\<rparr>"
    "row = public_entry key entry"
  using assms
  by (auto simp: set_secret_def write_value_def write_meta_def Let_def
      split: sum.splits if_splits value_write.splits option.splits)

lemma tmp_name_neq [simp]: "tmp_name k \<noteq> k" "k \<noteq> tmp_name k"
  by (simp_all add: tmp_name_def)

text \<open>
  C27. A stored secret reads back, and only it changes. After a successful store of a value without
  a carriage return, the value reads back as it was given, it is among the values redaction knows,
  and every other secret still has its value, except one whose name is that of the temporary file.
\<close>

theorem stored_secret_reads_back:
  assumes "set_secret io s name v grants mb = (Inr row, s')" and "CHR 0x0D \<notin> set v"
  shows "get_value s' name = Some v \<and> v \<in> set (known_values s') \<and>
    (\<forall>other. strip other \<noteq> strip name \<longrightarrow> strip other \<noteq> tmp_name (strip name) \<longrightarrow>
       get_value s' other = get_value s other)"
proof -
  obtain key entry where k: "validate_secret_name name = Inr key" "strip v \<noteq> []"
    and s': "s' = s\<lparr>value_files := dset (AList.delete (tmp_name key) (value_files s)) key (Some (v @ [CHR 0x0A])),
            meta_doc := Some (JObj (dset (load_meta s) ''secrets'' (JObj (dset (secrets_of (load_meta s)) key (JObj entry)))))\<rparr>"
    by (rule set_secret_Inr [OF assms(1)])
  note key = validate_secret_name_Inr [OF k(1)]
  have "v \<noteq> []" using k(2) by (auto simp: strip_def lstrip_def rstrip_def)
  then have v: "value_text s' key = Some v" by (intro value_text_written assms(2)) (simp_all add: s')
  then have get: "get_value s' name = Some v" "get_value s' key = Some v" using k(1) key(3) by (simp_all add: get_value_def)
  have "load_meta s' = dset (load_meta s) ''secrets'' (JObj (dset (secrets_of (load_meta s)) key (JObj entry)))"
    by (simp add: s' load_meta_def is_obj_def)
  then have "key \<in> set (dkeys (secrets_of (load_meta s')))" by (simp only: secrets_of_dset set_dkeys_dset insertI1)
  with get(2) have known: "v \<in> set (known_values s')" by (auto simp only: known_values_iff)
  have "get_value s' other = get_value s other"
    if "strip other \<noteq> strip name" "strip other \<noteq> tmp_name (strip name)" for other
  proof (cases "validate_secret_name other")
    case (Inr k')
    then have "k' \<noteq> key" "k' \<noteq> tmp_name key" using that key(1) validate_secret_name_Inr(1) by auto
    then have "dget (value_files s') k' = dget (value_files s) k'" by (simp add: s' delete_conv')
    then show ?thesis by (simp add: get_value_def Inr value_text_def)
  qed (simp add: get_value_def)
  then show ?thesis using get known by blast
qed

definition demo_io :: secret_io where
  "demo_io = \<lparr>io_now = ''T'', io_value = Value_Written, io_meta = True, io_unlink = True, io_unlink_tmp = True\<rparr>"

definition demo_secrets :: secret_store where
  "demo_secrets = snd (set_secret demo_io \<lparr>meta_doc = None, value_files = []\<rparr> ''gh_token'' ''tok1''
     (Some (JArr [JStr ''GH_Api''])) ''user'')"

theorem stored_secret_reads_back_witness:
  "get_value (snd (set_secret demo_io demo_secrets ''a'' ''x'' None '''')) ''a'' = Some ''x'' \<and>
   get_value (snd (set_secret demo_io demo_secrets ''a'' ''x'' None '''')) ''gh_token'' = Some ''tok1''"
proof -
  let ?r = "set_secret demo_io demo_secrets ''a'' ''x'' None ''''"
  have "case fst ?r of Inr row \<Rightarrow> True | Inl e \<Rightarrow> False" by code_simp
  then obtain row where "?r = (Inr row, snd ?r)" by (cases ?r) (auto split: sum.splits)
  from stored_secret_reads_back [OF this]
  have "get_value (snd ?r) ''a'' = Some ''x''"
    "\<forall>other. strip other \<noteq> strip ''a'' \<longrightarrow> strip other \<noteq> tmp_name (strip ''a'') \<longrightarrow>
       get_value (snd ?r) other = get_value demo_secrets other" by simp_all
  moreover have "strip ''gh_token'' \<noteq> strip ''a''" "strip ''gh_token'' \<noteq> tmp_name (strip ''a'')" by code_simp+
  moreover have "get_value demo_secrets ''gh_token'' = Some ''tok1''" by code_simp
  ultimately show ?thesis by metis
qed

text \<open>Storing \<open>a\<close> removes the value of the valid name \<open>a.tmp\<close>: its file is taken for a leftover.\<close>

theorem set_secret_destroys_tmp_namesake:
  "let s = snd (set_secret demo_io demo_secrets ''a.tmp'' ''old'' None ''user'');
       s' = snd (set_secret demo_io s ''a'' ''new'' None ''user'')
   in get_value s ''a.tmp'' = Some ''old'' \<and> get_value s' ''a.tmp'' = None \<and> get_meta s' ''a.tmp'' \<noteq> None"
  by code_simp

section \<open>Injection hands out only granted secrets\<close>

lemma touch_cases:
  obtains (same) "touch_last_used io s n = s"
  | (touched) key e where "jget (secrets_of (load_meta s)) key = JObj e"
      "touch_last_used io s n = s\<lparr>meta_doc := Some (JObj (dset (load_meta s) ''secrets''
        (JObj (dset (secrets_of (load_meta s)) key (JObj (dset e ''last_used_at'' (JStr (io_now io))))))))\<rparr>"
proof (cases "validate_secret_name n")
  case (Inr key)
  then show thesis
    using that by (cases "jget (secrets_of (load_meta s)) key"; cases "io_meta io")
      (simp_all add: touch_last_used_def write_meta_def Let_def)
qed (use that in \<open>simp add: touch_last_used_def\<close>)

lemma jget_obj_key: "jget d key = JObj e \<Longrightarrow> key \<in> set (dkeys d)"
  by (induction d) (auto simp: jget_def split: if_splits)

lemma touch_frame:
  "value_text (touch_last_used io s n) = value_text s"
  "set (dkeys (secrets_of (load_meta (touch_last_used io s n)))) = set (dkeys (secrets_of (load_meta s)))"
proof -
  have "value_text (touch_last_used io s n) = value_text s \<and>
    set (dkeys (secrets_of (load_meta (touch_last_used io s n)))) = set (dkeys (secrets_of (load_meta s)))"
  proof (cases rule: touch_cases [of io s n])
    case (touched key e)
    show ?thesis
      using jget_obj_key [OF touched(1)] by (simp only: touched(2) load_meta_written secrets_of_dset set_dkeys_dset value_text_meta) blast
  qed simp
  then show "value_text (touch_last_used io s n) = value_text s"
    "set (dkeys (secrets_of (load_meta (touch_last_used io s n)))) = set (dkeys (secrets_of (load_meta s)))" by simp_all
qed

lemma known_values_touch [simp]: "set (known_values (touch_last_used io s n)) = set (known_values s)"
  by (auto simp only: known_values_iff touch_frame get_value_def split: sum.splits)

lemma get_meta_known:
  assumes "get_meta s n = Some m" and "get_value s n = Some v"
  shows "v \<in> set (known_values s)"
proof -
  obtain key where key: "validate_secret_name n = Inr key" using assms(1) by (auto simp: get_meta_def split: sum.splits)
  then obtain e where "jget (secrets_of (load_meta s)) key = JObj e"
    using assms(1) by (auto simp: get_meta_def split: json.splits)
  then have "key \<in> set (dkeys (secrets_of (load_meta s)))" by (rule jget_obj_key)
  moreover have "get_value s key = Some v"
    using assms(2) key validate_secret_name_Inr(3) [OF key] by (simp add: get_value_def)
  ultimately show ?thesis using known_values_iff by blast
qed

lemma required_secrets: "dget TOOL_SECRET_REQUIREMENTS t = Some req \<Longrightarrow> req = [''gh_token'']"
  by (auto simp: TOOL_SECRET_REQUIREMENTS_def split: if_splits)



end
