(* ===== verification/Tools.thy ===== *)
theory Tools
  imports Secrets
begin

text \<open>
  Disk tool packages: name and discovery policy (\<open>elyra/tools/policy.py\<close>), package metadata and its
  front matter (\<open>elyra/tools/schema.py\<close>), runner descriptions and dispatch
  (\<open>elyra/tools/runner.py\<close>) and the registry that scans, loads, overrides and executes packages
  (\<open>elyra/tools/registry.py\<close>). A package directory is a record of what the scan reads of it; what the
  process imports and runs (handlers, the sandbox, the other credentials) is a record of ports over
  the world of a call.
\<close>

section \<open>Names and discovery policy\<close>

definition ALLOWED_RUNNER_KINDS :: "string list" where
  "ALLOWED_RUNNER_KINDS = [''builtin'', ''sandbox_shell'', ''sandbox_python'']"

definition SANDBOX_KINDS :: "string list" where
  "SANDBOX_KINDS = [''sandbox_shell'', ''sandbox_python'']"

definition CONTROL_TOOL_KINDS :: "string list" where
  "CONTROL_TOOL_KINDS = [''control'', ''speak'']"

definition NON_CALLABLE_TOOL_SEGMENTS :: "string list" where
  "NON_CALLABLE_TOOL_SEGMENTS = [''drafts'']"

definition normalize_tool_name :: "string \<Rightarrow> string" where
  "normalize_tool_name name = casefold (strip name)"

definition name_start :: "char \<Rightarrow> bool" where
  "name_start c = (let n = code c in
     (48 \<le> n \<and> n \<le> 57) \<or> (65 \<le> n \<and> n \<le> 90) \<or> n = 95 \<or> (97 \<le> n \<and> n \<le> 122))"

definition tool_name_matches :: "string \<Rightarrow> bool" where
  "tool_name_matches s =
     (case s of [] \<Rightarrow> False | c # cs \<Rightarrow> name_start c \<and> list_all (\<lambda>d. name_start d \<or> d = CHR ''-'') cs)"

definition is_valid_tool_name :: "string \<Rightarrow> bool" where
  "is_valid_tool_name name = tool_name_matches (strip name)"

text \<open>
  \<open>is_under_drafts_tree\<close>: a path is given by the parts of its resolved form (\<open>None\<close> when resolving
  fails), and so is the drafts directory of the home.
\<close>

fun drafts_pair :: "string list \<Rightarrow> bool" where
  "drafts_pair (a # b # ps) = ((a = ''tools'' \<and> b = ''drafts'') \<or> drafts_pair (b # ps))"
| "drafts_pair _ = False"

definition is_under_drafts_tree :: "string list option \<Rightarrow> string list option \<Rightarrow> bool" where
  "is_under_drafts_tree drafts_root path =
     (case path of
        None \<Rightarrow> True
      | Some parts \<Rightarrow>
          (case drafts_root of Some d \<Rightarrow> take (length d) parts = d | None \<Rightarrow> False) \<or>
          drafts_pair (map casefold parts))"

section \<open>Package metadata\<close>

text \<open>
  The front matter expression: three dashes, white space up to a newline, the shortest text before a
  line of three dashes that ends in white space with a newline or at the end. The result is that
  text and what follows the white space. A longer run of leading blank lines is tried first.
\<close>

fun fm_close :: "string \<Rightarrow> string \<Rightarrow> (string \<times> string) option" where
  "fm_close body s =
     (if starts_with (CHR 0x0A # ''---'') s \<and>
         (CHR 0x0A \<in> set (takeWhile is_space (drop 4 s)) \<or> dropWhile is_space (drop 4 s) = [])
      then Some (rev body, dropWhile is_space (drop 4 s))
      else case s of [] \<Rightarrow> None | c # cs \<Rightarrow> fm_close (c # body) cs)"

declare fm_close.simps [simp del]

fun fm_from :: "nat list \<Rightarrow> string \<Rightarrow> (string \<times> string) option" where
  "fm_from [] s = None"
| "fm_from (i # is) s = (case fm_close [] (drop (Suc i) s) of Some r \<Rightarrow> Some r | None \<Rightarrow> fm_from is s)"

definition frontmatter_match :: "string \<Rightarrow> (string \<times> string) option" where
  "frontmatter_match t =
     (if starts_with ''---'' t
      then let s = drop 3 t; w = takeWhile is_space s
           in fm_from (rev (filter (\<lambda>i. w ! i = CHR 0x0A) [0..<length w])) s
      else None)"

definition strip_chars :: "char list \<Rightarrow> string \<Rightarrow> string" where
  "strip_chars cs s = rev (dropWhile (\<lambda>c. c \<in> set cs) (rev (dropWhile (\<lambda>c. c \<in> set cs) s)))"

definition field_line :: "string \<Rightarrow> (string, string) dict \<Rightarrow> (string, string) dict" where
  "field_line line0 acc =
     (let line = strip line0 in
      if line = [] \<or> hd line = CHR ''#'' \<or> CHR '':'' \<notin> set line then acc
      else let key = strip (takeWhile (\<lambda>c. c \<noteq> CHR '':'') line);
               v = strip_chars [CHR 0x22, CHR 0x27] (strip (tl (dropWhile (\<lambda>c. c \<noteq> CHR '':'') line)))
           in if key = [] then acc else dset acc key v)"

definition parse_frontmatter :: "string \<Rightarrow> (string, string) dict" where
  "parse_frontmatter t =
     (case frontmatter_match t of None \<Rightarrow> [] | Some (body, _) \<Rightarrow> fold field_line (splitlines body) [])"

definition first_text_line :: "string \<Rightarrow> string" where
  "first_text_line body =
     (case filter (\<lambda>l. l \<noteq> []) (map (\<lambda>l. strip (dropWhile (\<lambda>c. c = CHR ''#'') (strip l))) (splitlines body)) of
        [] \<Rightarrow> [] | l # _ \<Rightarrow> l)"

text \<open>
  What a scan can read of a directory under a tools root. A file is absent, or it reads as its
  text (its decoded document), or reading it raises.
\<close>

record package_dir =
  pd_name :: string
  pd_is_dir :: bool
  pd_resolved :: "string list option"
  pd_tool_md :: "string res option"
  pd_schema :: "json res option"
  pd_runner :: "json res option"

record tool_meta =
  tm_name :: string
  tm_description :: string
  tm_kind :: string
  tm_parameters :: jdict

definition load_schema_json :: "package_dir \<Rightarrow> jdict res" where
  "load_schema_json p =
     (case pd_schema p of
        None \<Rightarrow> Inl (FileNotFoundError ''schema.json'')
      | Some r \<Rightarrow> bind_res r (\<lambda>j. case j of
            JObj d \<Rightarrow> if jget d ''type'' \<in> {JNull, JStr ''object''} then Inr d else Inl (ValueError ''schema.json'')
          | _ \<Rightarrow> Inl (ValueError ''schema.json'')))"

definition tool_md_fields :: "string \<Rightarrow> string \<Rightarrow> string \<times> string \<times> string" where
  "tool_md_fields default_name t =
     (let fs = parse_frontmatter t;
          field = (\<lambda>k. case dget fs k of Some v \<Rightarrow> v | None \<Rightarrow> []);
          name = (if field ''name'' \<noteq> [] then strip (field ''name'') else default_name);
          desc = strip (field ''description'');
          kind = lower (strip (field ''kind''));
          body = strip (case frontmatter_match t of None \<Rightarrow> t | Some (_, rest) \<Rightarrow> rest)
      in (name, if desc = [] then first_text_line body else desc, kind))"

definition load_tool_meta :: "package_dir \<Rightarrow> tool_meta res" where
  "load_tool_meta p =
     bind_res (case pd_tool_md p of
         None \<Rightarrow> Inr (pd_name p, [], [])
       | Some r \<Rightarrow> bind_res r (\<lambda>t. Inr (tool_md_fields (pd_name p) t)))
       (\<lambda>(name, desc, kind). bind_res (load_schema_json p) (\<lambda>params.
          Inr \<lparr>tm_name = name, tm_description = (if desc = [] then name else desc), tm_kind = kind,
               tm_parameters = params\<rparr>))"

definition to_openai_tool :: "tool_meta \<Rightarrow> json" where
  "to_openai_tool m =
     JObj [(''type'', JStr ''function''),
           (''function'', JObj [(''name'', JStr (tm_name m)), (''description'', JStr (tm_description m)),
              (''parameters'', JObj (tm_parameters m))])]"

section \<open>Runners\<close>

record runner_spec =
  rs_kind :: string
  rs_entry :: "string option"
  rs_argv :: "json list option"
  rs_module :: "string option"
  rs_function :: "string option"

fun segments :: "char \<Rightarrow> string \<Rightarrow> string list" where
  "segments sep [] = [[]]"
| "segments sep (c # cs) =
     (if c = sep then [] # segments sep cs
      else case segments sep cs of [] \<Rightarrow> [[c]] | p # ps \<Rightarrow> (c # p) # ps)"

definition has_dotdot :: "string \<Rightarrow> bool" where
  "has_dotdot path \<longleftrightarrow> ''..'' \<in> set (segments (CHR ''/'') path)"

definition is_safe_module_rel :: "string \<Rightarrow> bool" where
  "is_safe_module_rel m =
     (let raw = map (\<lambda>c. if c = CHR 0x5C then CHR ''/'' else c) (strip m)
      in raw \<noteq> [] \<and> hd raw \<noteq> CHR ''/'' \<and> \<not> (length raw \<ge> 2 \<and> raw ! 1 = CHR '':'') \<and> \<not> has_dotdot raw)"

definition ident_start :: "char \<Rightarrow> bool" where
  "ident_start c = (let n = code c in
     (65 \<le> n \<and> n \<le> 90) \<or> n = 95 \<or> (97 \<le> n \<and> n \<le> 122) \<or> n \<in> {170, 181, 186} \<or>
     (192 \<le> n \<and> n \<noteq> 215 \<and> n \<noteq> 247))"

definition is_identifier :: "string \<Rightarrow> bool" where
  "is_identifier s =
     (case s of [] \<Rightarrow> False
      | c # cs \<Rightarrow> ident_start c \<and>
          list_all (\<lambda>d. ident_start d \<or> (48 \<le> code d \<and> code d \<le> 57) \<or> code d = 183) cs)"

text \<open>The last test of the code, two leading and trailing underscores, is covered by the one before.\<close>

definition is_public_function_name :: "string \<Rightarrow> bool" where
  "is_public_function_name name = (is_identifier (strip name) \<and> hd (strip name) \<noteq> CHR ''_'')"

definition invalid_module :: "string \<Rightarrow> string option" where
  "invalid_module m =
     (if is_safe_module_rel m then None
      else if hd (strip m) = CHR ''/'' then Some ''invalid_runner:module_absolute''
      else if has_dotdot (strip m) then Some ''invalid_runner:module_dotdot''
      else Some ''invalid_runner:module'')"

definition invalid_function :: "json \<Rightarrow> string option" where
  "invalid_function f =
     (case f of
        JNull \<Rightarrow> None
      | JStr s \<Rightarrow>
          if strip s \<noteq> [] \<and> \<not> is_public_function_name (strip s) then Some ''invalid_runner:function'' else None
      | _ \<Rightarrow> Some ''invalid_runner:function_type'')"

definition invalid_argv :: "json \<Rightarrow> string option" where
  "invalid_argv a =
     (case a of
        JNull \<Rightarrow> Some ''invalid_runner:argv_missing''
      | JArr [] \<Rightarrow> Some ''invalid_runner:argv_empty''
      | JArr (x # xs) \<Rightarrow>
          if \<not> list_all (\<lambda>y. as_str_opt y \<noteq> None) (x # xs) then Some ''invalid_runner:argv_not_strings''
          else if strip (py_str x) = [] then Some ''invalid_runner:argv0_empty'' else None
      | _ \<Rightarrow> Some ''invalid_runner:argv_type'')"

definition validate_runner_fields :: "string \<Rightarrow> jdict \<Rightarrow> string option" where
  "validate_runner_fields kind d =
     (let k = lower (strip kind) in
      if k = ''sandbox_python''
      then (case jget d ''module'' of
              JNull \<Rightarrow> Some ''invalid_runner:module_missing''
            | JStr m \<Rightarrow>
                if strip m = [] then Some ''invalid_runner:module_missing''
                else (case invalid_module m of Some e \<Rightarrow> Some e | None \<Rightarrow> invalid_function (jget d ''function''))
            | _ \<Rightarrow> Some ''invalid_runner:module_type'')
      else if k = ''sandbox_shell'' then invalid_argv (jget d ''argv'')
      else None)"

definition stripped_opt :: "json \<Rightarrow> string option" where
  "stripped_opt j =
     (if j = JNull then None else let s = strip (py_str j) in if s = [] then None else Some s)"

definition runner_of :: "string \<Rightarrow> jdict \<Rightarrow> runner_spec res" where
  "runner_of kind d =
     (let entry = stripped_opt (jget d ''entry''); argv = jget d ''argv'';
          fn = stripped_opt (jget d ''function'')
      in if (case argv of JNull \<Rightarrow> False | JArr _ \<Rightarrow> False | _ \<Rightarrow> True) then Inl (ValueError ''argv'')
         else if kind = ''builtin'' \<and> entry = None then Inl (ValueError ''entry'')
         else case (if kind \<in> set SANDBOX_KINDS then validate_runner_fields kind d else None) of
           Some e \<Rightarrow> Inl (ValueError e)
         | None \<Rightarrow>
             Inr \<lparr>rs_kind = kind, rs_entry = entry,
               rs_argv = (case argv of
                   JArr xs \<Rightarrow> Some (if kind = ''sandbox_shell'' then map (JStr \<circ> py_str) xs else xs)
                 | _ \<Rightarrow> None),
               rs_module = stripped_opt (jget d ''module''),
               rs_function = (if kind = ''sandbox_python'' \<and> fn = None then Some ''run'' else fn)\<rparr>)"

definition load_runner_json :: "package_dir \<Rightarrow> runner_spec res" where
  "load_runner_json p =
     (case pd_runner p of
        None \<Rightarrow> Inl (FileNotFoundError ''runner.json'')
      | Some r \<Rightarrow> bind_res r (\<lambda>j. case j of
            JObj d \<Rightarrow>
              (let kind = lower (strip (str_or_empty (jget d ''kind'')))
               in if kind \<in> set ALLOWED_RUNNER_KINDS then runner_of kind d else Inl (ValueError ''runner kind''))
          | _ \<Rightarrow> Inl (ValueError ''runner.json'')))"

section \<open>The registry\<close>

datatype tool_source = Bundled | Local_Tools

text \<open>
  A tools root: its path, its directory entries (in any order), whether it exists and is listable.
  A package remembers the directory it was loaded from; a handler is whatever the import gives.
\<close>

record tool_root =
  root_path :: string
  root_name :: string
  root_is_dir :: bool
  root_resolved :: "string list option"
  root_listable :: bool
  root_children :: "package_dir list"

record 'h tool_package =
  pk_meta :: tool_meta
  pk_runner :: runner_spec
  pk_source :: tool_source
  pk_dir :: string
  pk_handler :: "'h option"

text \<open>
  The world of a call: the two roots and the drafts directory on disk, the catalog, the secrets, and
  the rest that handlers may read and change.
\<close>

record ('h, 'x) tool_world =
  tw_bundled :: tool_root
  tw_local :: tool_root
  tw_drafts :: "string list option"
  tw_by_key :: "(string, 'h tool_package) dict"
  tw_secrets :: secret_store
  tw_rest :: 'x

datatype handler_out = Handler_Raised string | Handler_Other | Handler_Result tool_result

text \<open>
  The ports. \<open>import_attr\<close> imports a module and reads an attribute of it: the attribute when it is
  callable, or the exception. \<open>call_handler\<close> runs a handler on arguments and the secret environment.
  \<open>run_sandboxed\<close> is the guest or, without isolation, the host stub. \<open>secrets_open\<close> says whether
  the secret store can be opened, \<open>auth_values\<close> and \<open>auth_snapshot\<close> are the reserved credentials
  known to the authentication layer and to a live provider.
\<close>

record ('h, 'x) tool_ports =
  import_attr :: "string \<Rightarrow> string \<Rightarrow> ('h, 'x) tool_world \<Rightarrow> 'h option res"
  call_handler :: "'h \<Rightarrow> jdict \<Rightarrow> (string, string) dict \<Rightarrow> ('h, 'x) tool_world \<Rightarrow>
    handler_out \<times> hook list \<times> ('h, 'x) tool_world"
  isolation_on :: "('h, 'x) tool_world \<Rightarrow> bool"
  run_sandboxed :: "bool \<Rightarrow> runner_spec \<Rightarrow> jdict \<Rightarrow> tool_source \<times> string \<Rightarrow> ('h, 'x) tool_world \<Rightarrow>
    (loop_exc + tool_result) \<times> hook list \<times> ('h, 'x) tool_world"
  secrets_open :: "('h, 'x) tool_world \<Rightarrow> bool"
  auth_values :: "('h, 'x) tool_world \<Rightarrow> string list res"
  auth_snapshot :: "('h, 'x) tool_world \<Rightarrow> string list option"
  secret_writes :: "('h, 'x) tool_world \<Rightarrow> secret_io"

definition failed_result :: "jdict \<Rightarrow> string \<Rightarrow> tool_result" where
  "failed_result p reason =
     \<lparr>tr_ok = False, payload = JObj p, error_reason = Some reason, ends_moment = False,
      stop_reason = None, arm_wait = None, counts_as_speak = False\<rparr>"

subsection \<open>Scanning and loading\<close>

definition resolve_builtin_handler ::
  "('h, 'x) tool_ports \<Rightarrow> string \<Rightarrow> ('h, 'x) tool_world \<Rightarrow> 'h res" where
  "resolve_builtin_handler P entry w =
     (if CHR '':'' \<notin> set entry then Inl (ValueError entry)
      else let m = strip (takeWhile (\<lambda>c. c \<noteq> CHR '':'') entry);
               attr = strip (tl (dropWhile (\<lambda>c. c \<noteq> CHR '':'') entry))
           in if m = [] \<or> attr = [] \<or> hd attr = CHR ''_'' then Inl (ValueError entry)
              else bind_res (import_attr P m attr w) (\<lambda>h. case h of None \<Rightarrow> Inl (ValueError entry) | Some f \<Rightarrow> Inr f))"

definition load_package ::
  "('h, 'x) tool_ports \<Rightarrow> ('h, 'x) tool_world \<Rightarrow> tool_source \<Rightarrow> package_dir \<Rightarrow> 'h tool_package res" where
  "load_package P w src p =
     bind_res (load_tool_meta p) (\<lambda>m. bind_res (load_runner_json p) (\<lambda>r.
       Inr \<lparr>pk_meta = m\<lparr>tm_name := pd_name p\<rparr>, pk_runner = r, pk_source = src, pk_dir = pd_name p,
            pk_handler =
              (if rs_kind r = ''builtin''
               then (case rs_entry r of
                       Some e \<Rightarrow> (case resolve_builtin_handler P e w of Inr h \<Rightarrow> Some h | Inl _ \<Rightarrow> None)
                     | None \<Rightarrow> None)
               else None)\<rparr>))"

definition scan_candidate :: "string list option \<Rightarrow> package_dir \<Rightarrow> bool" where
  "scan_candidate drafts p \<longleftrightarrow>
     pd_is_dir p \<and> \<not> starts_with ''.'' (pd_name p) \<and> casefold (pd_name p) \<noteq> ''drafts'' \<and>
     is_valid_tool_name (pd_name p) \<and> \<not> is_under_drafts_tree drafts (pd_resolved p) \<and>
     pd_schema p \<noteq> None \<and> pd_runner p \<noteq> None"

definition scan_root ::
  "('h, 'x) tool_ports \<Rightarrow> ('h, 'x) tool_world \<Rightarrow> tool_source \<Rightarrow> tool_root \<Rightarrow> 'h tool_package list res" where
  "scan_root P w src rt =
     (if \<not> root_is_dir rt \<or> casefold (root_name rt) = ''drafts'' \<or>
         is_under_drafts_tree (tw_drafts w) (root_resolved rt) then Inr []
      else if \<not> root_listable rt then Inl OSError
      else Inr (List.map_filter
             (\<lambda>p. if scan_candidate (tw_drafts w) p
                  then (case load_package P w src p of Inr k \<Rightarrow> Some k | Inl _ \<Rightarrow> None) else None)
             (sort_key pd_name (root_children rt))))"

definition package_key :: "'h tool_package \<Rightarrow> string" where
  "package_key k = normalize_tool_name (tm_name (pk_meta k))"

definition add_packages ::
  "'h tool_package list \<Rightarrow> (string, 'h tool_package) dict \<Rightarrow> (string, 'h tool_package) dict" where
  "add_packages ks found = fold (\<lambda>k d. dset d (package_key k) k) ks found"

text \<open>The set of overrides already logged only serves the log; it is left out.\<close>

definition reload_registry :: "('h, 'x) tool_ports \<Rightarrow> ('h, 'x) tool_world \<Rightarrow> ('h, 'x) tool_world res" where
  "reload_registry P w =
     bind_res (scan_root P w Bundled (tw_bundled w)) (\<lambda>bundled.
     bind_res (scan_root P w Local_Tools (tw_local w)) (\<lambda>locals.
       Inr (w\<lparr>tw_by_key := add_packages locals (add_packages bundled [])\<rparr>)))"

definition registry_get :: "('h, 'x) tool_world \<Rightarrow> string \<Rightarrow> 'h tool_package option" where
  "registry_get w name = dget (tw_by_key w) (normalize_tool_name name)"

definition registry_has :: "('h, 'x) tool_world \<Rightarrow> string \<Rightarrow> bool" where
  "registry_has w name \<longleftrightarrow> normalize_tool_name name \<in> set (dkeys (tw_by_key w))"

definition registry_names :: "('h, 'x) tool_world \<Rightarrow> string list" where
  "registry_names w = sort (map (\<lambda>(_, k). tm_name (pk_meta k)) (tw_by_key w))"

definition openai_tools :: "('h, 'x) tool_world \<Rightarrow> json list" where
  "openai_tools w =
     map (\<lambda>k. to_openai_tool (pk_meta k)) (sort_key (\<lambda>k. tm_name (pk_meta k)) (map snd (tw_by_key w)))"

subsection \<open>Executing\<close>

definition dispatch ::
  "('h, 'x) tool_ports \<Rightarrow> 'h tool_package \<Rightarrow> jdict \<Rightarrow> (string, string) dict \<Rightarrow> ('h, 'x) tool_world \<Rightarrow>
   (loop_exc + tool_result) \<times> hook list \<times> ('h, 'x) tool_world" where
  "dispatch P k args secret_env w =
     (let r = pk_runner k in
      if rs_kind r = ''builtin''
      then (case (case pk_handler k of
                    Some h \<Rightarrow> Inr h
                  | None \<Rightarrow>
                      (case rs_entry r of
                         None \<Rightarrow> Inl ''builtin_entry_missing''
                       | Some e \<Rightarrow>
                           (case resolve_builtin_handler P e w of
                              Inl _ \<Rightarrow> Inl ''builtin_resolve_failed'' | Inr h \<Rightarrow> Inr h))) of
              Inl reason \<Rightarrow> (Inr (failed_result [] reason), [], w)
            | Inr h \<Rightarrow>
                (case call_handler P h args secret_env w of
                   (Handler_Raised e, hooks, w') \<Rightarrow> (Inr (failed_result [] (''handler_error:'' @ e)), hooks, w')
                 | (Handler_Other, hooks, w') \<Rightarrow> (Inr (failed_result [] ''handler_bad_return''), hooks, w')
                 | (Handler_Result tr, hooks, w') \<Rightarrow> (Inr tr, hooks, w')))
      else if rs_kind r \<in> set SANDBOX_KINDS then run_sandboxed P (isolation_on P w) r args (pk_source k, pk_dir k) w
      else (Inr (failed_result [] (''unknown_runner_kind:'' @ rs_kind r)), [], w))"

definition enforce_control_policy :: "'h tool_package \<Rightarrow> tool_result \<Rightarrow> tool_result" where
  "enforce_control_policy k tr =
     (let kind = lower (tm_kind (pk_meta k));
          tr1 = (if kind \<in> set CONTROL_TOOL_KINDS then tr
                 else tr\<lparr>ends_moment := False, stop_reason := None, arm_wait := None\<rparr>)
      in if kind = ''speak'' then tr1 else tr1\<lparr>counts_as_speak := False\<rparr>)"

definition redaction_values ::
  "('h, 'x) tool_ports \<Rightarrow> ('h, 'x) tool_world \<Rightarrow> string list" where
  "redaction_values P w =
     (let known = known_values (tw_secrets w) in
      case auth_values P w of
        Inl _ \<Rightarrow> known
      | Inr vals \<Rightarrow>
          if vals = [] then known
          else let vs = (case auth_snapshot P w of Some snap \<Rightarrow> if snap \<noteq> [] then snap else vals | None \<Rightarrow> vals)
               in foldl set_add [] (known @ vs))"

definition inject_setup ::
  "('h, 'x) tool_ports \<Rightarrow> string \<Rightarrow> ('h, 'x) tool_world \<Rightarrow>
   (string, string) dict \<times> string list \<times> ('h, 'x) tool_world" where
  "inject_setup P tool_name w =
     (if \<not> secrets_open P w then ([], [], w)
      else let (env, s) = (if dget TOOL_SECRET_REQUIREMENTS tool_name \<noteq> None
                           then resolve_for_tool (secret_writes P w) tool_name (tw_secrets w)
                           else ([], tw_secrets w));
               w1 = w\<lparr>tw_secrets := s\<rparr>
           in (env, redaction_values P w1, w1))"

definition redact_result :: "string list \<Rightarrow> tool_result \<Rightarrow> tool_result" where
  "redact_result known tr =
     (if known \<noteq> [] \<and> is_obj (payload tr)
      then tr\<lparr>payload := JObj (redact_tool_result_payload known (payload tr))\<rparr> else tr)"

definition run_package ::
  "('h, 'x) tool_ports \<Rightarrow> 'h tool_package \<Rightarrow> jdict \<Rightarrow> ('h, 'x) tool_world \<Rightarrow>
   (loop_exc + tool_result) \<times> hook list \<times> ('h, 'x) tool_world" where
  "run_package P k args w =
     (let (env, known, w1) = inject_setup P (tm_name (pk_meta k)) w in
      case dispatch P k args env w1 of
        (Inl e, hooks, w2) \<Rightarrow> (Inl e, hooks, w2)
      | (Inr tr, hooks, w2) \<Rightarrow> (Inr (enforce_control_policy k (redact_result known tr)), hooks, w2))"

definition package_gone :: "('h, 'x) tool_world \<Rightarrow> 'h tool_package \<Rightarrow> bool" where
  "package_gone w k \<longleftrightarrow>
     pk_source k = Local_Tools \<and>
     \<not> (root_is_dir (tw_local w) \<and> list_ex (\<lambda>p. pd_name p = pk_dir k \<and> pd_is_dir p) (root_children (tw_local w)))"

definition rescan :: "('h, 'x) tool_ports \<Rightarrow> ('h, 'x) tool_world \<Rightarrow> ('h, 'x) tool_world" where
  "rescan P w = (case reload_registry P w of Inr w' \<Rightarrow> w' | Inl _ \<Rightarrow> w)"

definition registry_execute ::
  "('h, 'x) tool_ports \<Rightarrow> string \<Rightarrow> json \<Rightarrow> ('h, 'x) tool_world \<Rightarrow>
   (loop_exc + tool_result) \<times> hook list \<times> ('h, 'x) tool_world" where
  "registry_execute P name raw_args w =
     (case (case raw_args of JNull \<Rightarrow> Some [] | JObj d \<Rightarrow> Some d | _ \<Rightarrow> None) of
        None \<Rightarrow> (Inr (failed_result [] ''invalid_arguments_type''), [], w)
      | Some args \<Rightarrow>
          if \<not> is_valid_tool_name name then (Inr (failed_result [] ''invalid_name''), [], w)
          else case registry_get w name of
            None \<Rightarrow> (Inr (failed_result [] ''unknown_tool''), [], w)
          | Some k \<Rightarrow>
              if \<not> package_gone w k then run_package P k args w
              else let w1 = rescan P w in
                case registry_get w1 name of
                  None \<Rightarrow> (Inr (failed_result [(''name'', JStr name)] ''unknown_tool''), [], w1)
                | Some k1 \<Rightarrow>
                    if package_gone w1 k1
                    then (Inr (failed_result [(''name'', JStr name),
                            (''package_dir'', JStr (root_path (tw_local w1) @ ''/'' @ pk_dir k1))] ''package_missing''),
                          [], w1)
                    else run_package P k1 args w1)"

text \<open>The port of the do-loop: the registry runs every tool.\<close>

definition registry_port ::
  "('h, 'x) tool_ports \<Rightarrow> string \<Rightarrow> jdict \<Rightarrow> ('h, 'x) tool_world \<Rightarrow>
   (loop_exc + tool_result) \<times> hook list \<times> ('h, 'x) tool_world" where
  "registry_port P name args w = registry_execute P name (JObj args) w"

section \<open>The catalog after a reload\<close>

text \<open>A package a reload may call: loaded from a candidate directory of a root that is scanned.\<close>

definition root_scanned :: "('h, 'x) tool_world \<Rightarrow> tool_root \<Rightarrow> bool" where
  "root_scanned w rt \<longleftrightarrow>
     root_is_dir rt \<and> casefold (root_name rt) \<noteq> ''drafts'' \<and> \<not> is_under_drafts_tree (tw_drafts w) (root_resolved rt)"

definition root_of :: "('h, 'x) tool_world \<Rightarrow> tool_source \<Rightarrow> tool_root" where
  "root_of w src = (case src of Bundled \<Rightarrow> tw_bundled w | Local_Tools \<Rightarrow> tw_local w)"

definition callable_package :: "('h, 'x) tool_ports \<Rightarrow> ('h, 'x) tool_world \<Rightarrow> 'h tool_package \<Rightarrow> bool" where
  "callable_package P w k \<longleftrightarrow>
     root_scanned w (root_of w (pk_source k)) \<and>
     (\<exists>p\<in>set (root_children (root_of w (pk_source k))).
        scan_candidate (tw_drafts w) p \<and> load_package P w (pk_source k) p = Inr k)"

lemma in_map_filter: "y \<in> set (List.map_filter f xs) \<longleftrightarrow> (\<exists>x\<in>set xs. f x = Some y)"
  by (induction xs) (auto simp: List.map_filter_simps split: option.split)

lemma load_package_source: "load_package P w src p = Inr k \<Longrightarrow> pk_source k = src"
  by (auto simp: load_package_def res_simps)

lemma when_loaded_iff:
  "(if c then (case r of Inr k \<Rightarrow> Some k | Inl e \<Rightarrow> None) else None) = Some k \<longleftrightarrow> c \<and> r = Inr k"
  by (cases r) auto

lemma scan_root_Inr:
  assumes "scan_root P w src (root_of w src) = Inr ks"
  shows "k \<in> set ks \<longleftrightarrow> pk_source k = src \<and> callable_package P w k"
proof (cases "root_scanned w (root_of w src)")
  case True
  then have "ks = List.map_filter
      (\<lambda>p. if scan_candidate (tw_drafts w) p then (case load_package P w src p of Inr k \<Rightarrow> Some k | Inl e \<Rightarrow> None)
            else None) (sort_key pd_name (root_children (root_of w src)))"
    using assms by (auto simp: scan_root_def root_scanned_def split: if_splits)
  then have "k \<in> set ks \<longleftrightarrow>
      (\<exists>p\<in>set (root_children (root_of w src)). scan_candidate (tw_drafts w) p \<and> load_package P w src p = Inr k)"
    by (simp only: in_map_filter when_loaded_iff set_sort)
  moreover have "pk_source k = src" if "load_package P w src p = Inr k" for p by (rule load_package_source [OF that])
  ultimately show ?thesis using True unfolding callable_package_def by metis
next
  case False
  then show ?thesis using assms by (auto simp: scan_root_def root_scanned_def callable_package_def)
qed

lemma find_append: "find Q (xs @ ys) = (case find Q xs of Some x \<Rightarrow> Some x | None \<Rightarrow> find Q ys)"
  by (induction xs) auto

lemma find_rev_None: "find Q (rev xs) = None \<Longrightarrow> x \<in> set xs \<Longrightarrow> \<not> Q x"
  by (auto simp: find_None_iff)

lemma find_rev_Some: "find Q (rev xs) = Some x \<Longrightarrow> x \<in> set xs \<and> Q x"
  by (induction xs) (auto simp: find_append split: option.splits if_splits)

lemma dget_add_packages:
  "dget (add_packages ks d) key =
     (case find (\<lambda>k. package_key k = key) (rev ks) of Some k \<Rightarrow> Some k | None \<Rightarrow> dget d key)"
proof (induction ks arbitrary: d)
  case (Cons a ks)
  have "add_packages (a # ks) d = add_packages ks (dset d (package_key a) a)" by (simp add: add_packages_def)
  then show ?case using Cons by (auto simp: find_append split: option.split)
qed (simp add: add_packages_def)

lemma registry_get_reload:
  assumes "reload_registry P w = Inr w'"
  obtains bundled locals where
    "\<And>k. k \<in> set bundled \<longleftrightarrow> pk_source k = Bundled \<and> callable_package P w k"
    "\<And>k. k \<in> set locals \<longleftrightarrow> pk_source k = Local_Tools \<and> callable_package P w k"
    "\<And>n. registry_get w' n =
       (case find (\<lambda>k. package_key k = normalize_tool_name n) (rev locals) of Some k \<Rightarrow> Some k
        | None \<Rightarrow> find (\<lambda>k. package_key k = normalize_tool_name n) (rev bundled))"
proof -
  obtain b l where bl: "scan_root P w Bundled (root_of w Bundled) = Inr b"
    "scan_root P w Local_Tools (root_of w Local_Tools) = Inr l"
    "w' = w\<lparr>tw_by_key := add_packages l (add_packages b [])\<rparr>"
    using assms by (auto simp: reload_registry_def root_of_def res_simps)
  show thesis
    by (rule that [of b l]) (simp_all add: scan_root_Inr [OF bl(1)] scan_root_Inr [OF bl(2)] bl(3) registry_get_def
        dget_add_packages split: option.split)
qed

lemma reload_get_None:
  assumes "reload_registry P w = Inr w'" and "registry_get w' n = None" and "callable_package P w k"
  shows "package_key k \<noteq> normalize_tool_name n"
proof (rule registry_get_reload [OF assms(1)])
  fix b l assume b: "\<And>k. k \<in> set b \<longleftrightarrow> pk_source k = Bundled \<and> callable_package P w k"
    and l: "\<And>k. k \<in> set l \<longleftrightarrow> pk_source k = Local_Tools \<and> callable_package P w k"
    and get: "\<And>n. registry_get w' n =
       (case find (\<lambda>k. package_key k = normalize_tool_name n) (rev l) of Some k \<Rightarrow> Some k
        | None \<Rightarrow> find (\<lambda>k. package_key k = normalize_tool_name n) (rev b))"
  show ?thesis
    using assms(2,3) get [of n] b [of k] l [of k] find_rev_None [of _ b k] find_rev_None [of _ l k]
    by (cases "pk_source k") (auto split: option.splits)
qed

lemma reload_get_Some:
  assumes "reload_registry P w = Inr w'" and "registry_get w' n = Some k"
  shows "callable_package P w k" and "package_key k = normalize_tool_name n"
    and "pk_source k = Bundled \<Longrightarrow> pk_source k' = Local_Tools \<Longrightarrow> callable_package P w k' \<Longrightarrow>
      package_key k' \<noteq> normalize_tool_name n"
proof (atomize (full), rule registry_get_reload [OF assms(1)])
  fix b l assume b: "\<And>k. k \<in> set b \<longleftrightarrow> pk_source k = Bundled \<and> callable_package P w k"
    and l: "\<And>k. k \<in> set l \<longleftrightarrow> pk_source k = Local_Tools \<and> callable_package P w k"
    and get: "\<And>n. registry_get w' n =
       (case find (\<lambda>k. package_key k = normalize_tool_name n) (rev l) of Some k \<Rightarrow> Some k
        | None \<Rightarrow> find (\<lambda>k. package_key k = normalize_tool_name n) (rev b))"
  show "callable_package P w k \<and> package_key k = normalize_tool_name n \<and>
    (pk_source k = Bundled \<longrightarrow> pk_source k' = Local_Tools \<longrightarrow> callable_package P w k' \<longrightarrow>
      package_key k' \<noteq> normalize_tool_name n)"
    using assms(2) get [of n] b [of k] l [of k] l [of k'] find_rev_Some [of _ b k] find_rev_Some [of _ l k]
      find_rev_None [of _ l k']
    by (auto split: option.splits)
qed


definition nl :: string where "nl = [CHR 0x0A]"

definition demo_dir :: "string \<Rightarrow> string \<Rightarrow> json \<Rightarrow> package_dir" where
  "demo_dir n md r =
     \<lparr>pd_name = n, pd_is_dir = True, pd_resolved = Some [''srv'', ''tools'', ''local'', n],
      pd_tool_md = Some (Inr md), pd_schema = Some (Inr (JObj [(''type'', JStr ''object'')])), pd_runner = Some (Inr r)\<rparr>"

definition demo_md :: "string \<Rightarrow> string" where
  "demo_md kind = ''---'' @ nl @ ''kind: '' @ kind @ nl @ ''---'' @ nl @ ''# A tool'' @ nl"

definition demo_runner :: "string \<Rightarrow> json" where
  "demo_runner e = JObj [(''kind'', JStr ''builtin''), (''entry'', JStr (''m:'' @ e))]"

definition demo_root :: "string \<Rightarrow> package_dir list \<Rightarrow> tool_root" where
  "demo_root n ds = \<lparr>root_path = ''/srv/tools/'' @ n, root_name = n, root_is_dir = True,
     root_resolved = Some [''srv'', ''tools'', n], root_listable = True, root_children = ds\<rparr>"

text \<open>The handlers are the attribute names: \<open>end\<close> ends the moment, \<open>leak\<close> prints the secret token.\<close>

definition demo_handler :: "string \<Rightarrow> jdict \<Rightarrow> (string, string) dict \<Rightarrow> (string, unit) tool_world \<Rightarrow>
    handler_out \<times> hook list \<times> (string, unit) tool_world" where
  "demo_handler h args env w =
     (Handler_Result \<lparr>tr_ok = True, payload = JObj [(''out'', JStr ''tok1 tok1'')], error_reason = None,
        ends_moment = True, stop_reason = Some ''blocked'', arm_wait = None, counts_as_speak = True\<rparr>, [], w)"

definition demo_ports :: "(string, unit) tool_ports" where
  "demo_ports =
     \<lparr>import_attr = \<lambda>m a w. Inr (Some a), call_handler = demo_handler, isolation_on = \<lambda>w. True,
      run_sandboxed = \<lambda>iso r args d w. (Inl (Runtime_Error ''guest'' ''down''), [], w),
      secrets_open = \<lambda>w. True, auth_values = \<lambda>w. Inr [''key9''], auth_snapshot = \<lambda>w. None,
      secret_writes = \<lambda>w. demo_io\<rparr>"

definition demo_disk :: "(string, unit) tool_world" where
  "demo_disk =
     \<lparr>tw_bundled = demo_root ''bundled'' [demo_dir ''yield'' (demo_md ''control'') (demo_runner ''end''),
                                     demo_dir ''echo'' (demo_md ''read'') (demo_runner ''leak'')],
      tw_local = demo_root ''local'' [demo_dir ''Echo'' (demo_md ''mutate'') (demo_runner ''mine''),
                                 demo_dir ''drafts'' (demo_md ''control'') (demo_runner ''x'')],
      tw_drafts = Some [''srv'', ''tools'', ''drafts''], tw_by_key = [], tw_secrets = demo_secrets, tw_rest = ()\<rparr>"

definition demo_catalog :: "(string, unit) tool_world" where
  "demo_catalog = rescan demo_ports demo_disk"

lemma demo_reload: "reload_registry demo_ports demo_disk = Inr demo_catalog"
proof -
  have "case reload_registry demo_ports demo_disk of Inr w \<Rightarrow> True | Inl e \<Rightarrow> False" by code_simp
  then show ?thesis by (auto simp: demo_catalog_def rescan_def split: sum.splits)
qed


section \<open>Runners that load can be run\<close>

definition runnable :: "runner_spec \<Rightarrow> bool" where
  "runnable r \<longleftrightarrow>
     rs_kind r = ''builtin'' \<and> rs_entry r \<noteq> None \<or>
     rs_kind r = ''sandbox_python'' \<and>
       (\<exists>m f. rs_module r = Some m \<and> is_safe_module_rel m \<and> rs_function r = Some f \<and> is_public_function_name f) \<or>
     rs_kind r = ''sandbox_shell'' \<and>
       (\<exists>a xs. rs_argv r = Some (map JStr (a # xs)) \<and> strip a \<noteq> [])"

lemma safe_module_strip [simp]: "is_safe_module_rel (strip m) = is_safe_module_rel m"
  by (simp add: is_safe_module_rel_def)

lemma public_function_strip [simp]: "is_public_function_name (strip f) = is_public_function_name f"
  by (simp add: is_public_function_name_def)

lemma valid_argv:
  assumes "invalid_argv a = None"
  obtains x xs where "a = JArr (map JStr (x # xs))" and "strip x \<noteq> []"
proof -
  obtain y ys where y: "a = JArr (y # ys)" "list_all (\<lambda>z. as_str_opt z \<noteq> None) (y # ys)" "strip (py_str y) \<noteq> []"
    using assms by (auto simp: invalid_argv_def split: json.splits list.splits if_splits)
  have strs: "list_all (\<lambda>z. as_str_opt z \<noteq> None) zs \<Longrightarrow> \<exists>ss. zs = map JStr ss" for zs
  proof (induction zs)
    case (Cons z zs)
    then obtain s ss where "z = JStr s" "zs = map JStr ss" by (auto simp: as_str_opt_def split: json.splits)
    then show ?case by (intro exI [of _ "s # ss"]) simp
  qed simp
  obtain ss where "y # ys = map JStr ss" using strs [OF y(2)] by (rule exE)
  then show thesis using that y(1,3) by (cases ss) auto
qed

lemma runner_of_runnable:
  assumes "runner_of kind d = Inr r" and "kind \<in> set ALLOWED_RUNNER_KINDS"
  shows "runnable r"
proof -
  consider "kind = ''builtin''" | "kind = ''sandbox_python''" | "kind = ''sandbox_shell''"
    using assms(2) by (auto simp: ALLOWED_RUNNER_KINDS_def)
  then show ?thesis
  proof cases
    case 1
    then show ?thesis using assms(1) by (auto simp: runner_of_def Let_def runnable_def SANDBOX_KINDS_def split: if_splits)
  next
    case 2
    then have v: "validate_runner_fields kind d = None"
      and r: "rs_kind r = kind" "rs_module r = stripped_opt (jget d ''module'')"
        "rs_function r = (if stripped_opt (jget d ''function'') = None then Some ''run'' else stripped_opt (jget d ''function''))"
      using assms(1) by (auto simp: runner_of_def Let_def SANDBOX_KINDS_def split: if_splits option.splits)
    have k: "lower (strip ''sandbox_python'') = ''sandbox_python''" by code_simp
    obtain m where m: "jget d ''module'' = JStr m" "strip m \<noteq> []" "is_safe_module_rel m" "invalid_function (jget d ''function'') = None"
      using v by (auto simp: validate_runner_fields_def 2 k invalid_module_def split: json.splits if_splits option.splits)
    have "is_public_function_name ''run''" by code_simp
    then have "\<exists>f. rs_function r = Some f \<and> is_public_function_name f"
      using m(4) r(3) by (auto simp: invalid_function_def stripped_opt_def Let_def split: json.splits if_splits)
    then show ?thesis using m r 2 by (auto simp: runnable_def stripped_opt_def)
  next
    case 3
    have k: "lower (strip ''sandbox_shell'') = ''sandbox_shell''" by code_simp
    have v: "validate_runner_fields kind d = None"
      using assms(1) 3 by (auto simp: runner_of_def Let_def SANDBOX_KINDS_def split: if_splits option.splits)
    then have "invalid_argv (jget d ''argv'') = None" by (simp add: validate_runner_fields_def 3 k)
    then obtain x xs where x: "jget d ''argv'' = JArr (map JStr (x # xs))" "strip x \<noteq> []" by (rule valid_argv)
    have "JStr \<circ> py_str \<circ> JStr = JStr" by (rule ext) simp
    then have "rs_kind r = kind \<and> rs_argv r = Some (map JStr (x # xs))"
      using assms(1) v x(1) 3 by (auto simp: runner_of_def Let_def SANDBOX_KINDS_def split: if_splits)
    then show ?thesis using x(2) 3 unfolding runnable_def by blast
  qed
qed

lemma load_package_runnable:
  assumes "load_package P w src p = Inr k"
  shows "runnable (pk_runner k)" and "tm_name (pk_meta k) = pd_name p" and "pk_dir k = pd_name p"
proof -
  obtain m r where r: "load_runner_json p = Inr r" "pk_runner k = r"
    and "tm_name (pk_meta k) = pd_name p" "pk_dir k = pd_name p"
    using assms by (auto simp: load_package_def res_simps)
  then show "tm_name (pk_meta k) = pd_name p" "pk_dir k = pd_name p" by simp_all
  obtain j where j: "pd_runner p = Some (Inr j)"
    using r(1) by (auto simp: load_runner_json_def res_simps split: option.splits)
  then obtain d where "runner_of (lower (strip (str_or_empty (jget d ''kind'')))) d = Inr r"
    "lower (strip (str_or_empty (jget d ''kind''))) \<in> set ALLOWED_RUNNER_KINDS"
    using r(1) by (cases j) (auto simp: load_runner_json_def Let_def split: if_splits)
  then show "runnable (pk_runner k)" unfolding r(2) by (rule runner_of_runnable)
qed

text \<open>
  Every package in the catalog can be run. After a reload, a package that is found under any
  name carries its directory's valid name and a runner of an allowed kind with all that kind needs:
  an entry, a safe module path and a public function, or an argument vector of strings with a
  program.
\<close>

theorem catalog_packages_are_runnable:
  assumes "reload_registry P w = Inr w'" and "registry_get w' n = Some k"
  shows "tm_name (pk_meta k) = pk_dir k \<and> is_valid_tool_name (pk_dir k) \<and> runnable (pk_runner k)"
  using reload_get_Some(1) [OF assms] load_package_runnable
  by (fastforce simp: callable_package_def scan_candidate_def)

theorem catalog_packages_are_runnable_witness:
  "\<exists>k. registry_get demo_catalog ''ECHO'' = Some k \<and> pk_dir k = ''Echo'' \<and> runnable (pk_runner k)"
proof -
  have "map_option pk_dir (registry_get demo_catalog ''ECHO'') = Some ''Echo''" by code_simp
  then obtain k where "registry_get demo_catalog ''ECHO'' = Some k" "pk_dir k = ''Echo''" by auto
  with catalog_packages_are_runnable [OF demo_reload this(1)] show ?thesis by blast
qed

section \<open>Execution\<close>

text \<open>The package a call runs, and the world it runs in: a missing local package is rescanned once.\<close>

definition executed_package ::
  "('h, 'x) tool_ports \<Rightarrow> string \<Rightarrow> ('h, 'x) tool_world \<Rightarrow> 'h tool_package option \<times> ('h, 'x) tool_world" where
  "executed_package P name w =
     (if \<not> is_valid_tool_name name then (None, w)
      else case registry_get w name of
        None \<Rightarrow> (None, w)
      | Some k \<Rightarrow>
          if \<not> package_gone w k then (Some k, w)
          else let w1 = rescan P w in
            (case registry_get w1 name of
               None \<Rightarrow> None
             | Some k1 \<Rightarrow> if package_gone w1 k1 then None else Some k1, w1))"

lemma registry_execute_cases:
  obtains (run) k w0 where "executed_package P name w = (Some k, w0)"
      "registry_execute P name (JObj args) w = run_package P k args w0"
  | (none) p reason w0 where "executed_package P name w = (None, w0)"
      "registry_execute P name (JObj args) w = (Inr (failed_result p reason), [], w0)"
proof (cases "is_valid_tool_name name \<and> registry_get w name \<noteq> None")
  case False
  then have "executed_package P name w = (None, w)" by (auto simp: executed_package_def)
  moreover have "\<exists>p reason. registry_execute P name (JObj args) w = (Inr (failed_result p reason), [], w)"
    using False by (cases "is_valid_tool_name name") (auto simp: registry_execute_def)
  ultimately show thesis using none by blast
next
  case True
  then obtain k where k: "is_valid_tool_name name" "registry_get w name = Some k" by auto
  show thesis
  proof (cases "package_gone w k")
    case False
    then show thesis using k run by (simp add: executed_package_def registry_execute_def)
  next
    case True
    then show thesis using k run none
      by (cases "registry_get (rescan P w) name"; cases "package_gone (rescan P w) (the (registry_get (rescan P w) name))")
        (auto simp: executed_package_def registry_execute_def Let_def)
  qed
qed

lemma run_package_Inr:
  assumes "run_package P k args w = (Inr tr, hooks, w')"
  obtains env known w1 tr0 where "inject_setup P (tm_name (pk_meta k)) w = (env, known, w1)"
    "dispatch P k args env w1 = (Inr tr0, hooks, w')" "tr = enforce_control_policy k (redact_result known tr0)"
  using assms by (auto simp: run_package_def split: prod.splits sum.splits)

lemma enforced [simp]:
  "payload (enforce_control_policy k tr) = payload tr"
  "tr_ok (enforce_control_policy k tr) = tr_ok tr"
  "error_reason (enforce_control_policy k tr) = error_reason tr"
  "ends_moment (enforce_control_policy k tr) \<longleftrightarrow> ends_moment tr \<and> lower (tm_kind (pk_meta k)) \<in> set CONTROL_TOOL_KINDS"
  "counts_as_speak (enforce_control_policy k tr) \<longleftrightarrow> counts_as_speak tr \<and> lower (tm_kind (pk_meta k)) = ''speak''"
  "lower (tm_kind (pk_meta k)) \<notin> set CONTROL_TOOL_KINDS \<Longrightarrow> arm_wait (enforce_control_policy k tr) = None"
  by (simp_all add: enforce_control_policy_def Let_def CONTROL_TOOL_KINDS_def)

subsection \<open>What a call can do to the loop\<close>

lemma marks_frame [simp]:
  "armed_wait (mark_spoke E s) = armed_wait s" "armed_wait (mark_task_changed E s) = armed_wait s"
  "spoke_since_non_speak_tool (mark_spoke E s) = spoke_since_non_speak_tool s"
  "spoke_since_non_speak_tool (mark_task_changed E s) = spoke_since_non_speak_tool s"
  by (simp_all add: mark_spoke_def mark_task_changed_def now_step_def host_call_def split_beta split: option.split)

lemma hooks_frame [simp]:
  "armed_wait (fold (run_hook E) hs s) = armed_wait s"
  "spoke_since_non_speak_tool (fold (run_hook E) hs s) = spoke_since_non_speak_tool s"
proof (induction hs arbitrary: s)
  case (Cons h hs)
  { case 1 show ?case using Cons.IH by (cases h) simp_all next
    case 2 show ?case using Cons.IH by (cases h) simp_all }
qed simp_all

lemma absorb_parts_frame [simp]:
  "spoke_since_non_speak_tool (record_beat E C b s) = spoke_since_non_speak_tool s"
  "armed_wait (note_thrash u s) = armed_wait s"
  "spoke_since_non_speak_tool (note_thrash u s) = spoke_since_non_speak_tool s"
  "armed_wait (count_lesson_fails u s) = armed_wait s"
  "spoke_since_non_speak_tool (count_lesson_fails u s) = spoke_since_non_speak_tool s"
  "armed_wait (arm_skill_commit tc tr s) = armed_wait s"
  "spoke_since_non_speak_tool (arm_skill_commit tc tr s) = spoke_since_non_speak_tool s"
  "armed_wait (note_progress E tr s) = armed_wait s"
  by (simp_all add: record_beat_def note_thrash_def count_lesson_fails_def arm_skill_commit_def note_progress_def
      Let_def split_beta split: option.split)

lemma note_progress_spoke:
  "spoke_since_non_speak_tool (note_progress E tr s) \<Longrightarrow> spoke_since_non_speak_tool s \<or> counts_as_speak tr"
  by (auto simp: note_progress_def Let_def split: if_splits)

lemma absorb_flags:
  assumes "absorb_result E C tc tr skipped prior s = (stop, s')"
  shows "stop \<noteq> None \<longleftrightarrow> ends_moment tr" and "armed_wait s' = armed_wait s \<or> ends_moment tr"
    and "spoke_since_non_speak_tool s' \<Longrightarrow> spoke_since_non_speak_tool s \<or> counts_as_speak tr"
proof -
  define tr1 where "tr1 = tr\<lparr>payload := JObj (dset (dict_of (payload tr)) ''attempt'' (JInt (tu_streak
    (update_thrash_streak (thrash_last_fp s) (thrash_streak s) (tc_name tc) (Some (call_args tc)) (tr_ok tr) (error_reason tr)))))\<rparr>"
  have tr1: "ends_moment tr1 = ends_moment tr" "counts_as_speak tr1 = counts_as_speak tr" by (simp_all add: tr1_def)
  obtain s3 where s3: "armed_wait s3 = armed_wait s" "spoke_since_non_speak_tool s3 = spoke_since_non_speak_tool s"
    and r: "(stop, s') = (if ends_moment tr1
         then (Some (str_or (stop_from_tool_result True (stop_reason tr1)) ''policy''),
               (case arm_wait tr1 of None \<Rightarrow> note_progress E tr1 s3
                | Some a \<Rightarrow> (note_progress E tr1 s3)\<lparr>armed_wait := Some a\<rparr>))
         else (None, note_progress E tr1 s3))"
    using assms [symmetric] unfolding absorb_result_def Let_def tr1_def [symmetric]
    by (rule that [rotated 2]) simp_all
  show "stop \<noteq> None \<longleftrightarrow> ends_moment tr" "armed_wait s' = armed_wait s \<or> ends_moment tr"
    using r s3 by (auto simp: tr1 split: if_splits)
  show "spoke_since_non_speak_tool s \<or> counts_as_speak tr" if "spoke_since_non_speak_tool s'"
    using r s3 that note_progress_spoke [of E tr1 s3] by (auto simp: tr1 split: if_splits option.splits)
qed

lemma execute_or_skip_frame_flags:
  assumes "execute_or_skip E tc s = (r, skipped, s')"
  shows "armed_wait s' = armed_wait s" and "spoke_since_non_speak_tool s' = spoke_since_non_speak_tool s"
  using assms by (auto simp: execute_or_skip_def execute_one_def Let_def split_beta split: if_splits)

lemma registry_result_flags:
  assumes "registry_port P name args w = (Inr tr, hooks, w')" and "ends_moment tr \<or> counts_as_speak tr"
  obtains k where "fst (executed_package P name w) = Some k"
    and "ends_moment tr \<Longrightarrow> lower (tm_kind (pk_meta k)) \<in> set CONTROL_TOOL_KINDS"
    and "counts_as_speak tr \<Longrightarrow> lower (tm_kind (pk_meta k)) = ''speak''"
proof (cases rule: registry_execute_cases [of P name w args])
  case (run k w0)
  with assms(1) have "run_package P k args w0 = (Inr tr, hooks, w')" by (simp add: registry_port_def)
  then obtain tr0 known where "tr = enforce_control_policy k (redact_result known tr0)" by (rule run_package_Inr)
  then show thesis using that [of k] run(1) by simp
next
  case (none p reason w0)
  then show thesis using assms by (auto simp: registry_port_def failed_result_def)
qed

text \<open>
  C29. Only the kind of a tool lets it steer the loop. With the registry as the tool port of the
  do-loop, a call that stops the moment or arms a wait ran a package whose kind is control or speak,
  and a call after which the user counts as answered, where that was not so before, ran a package of
  kind speak, whatever flags its handler returned.
\<close>

theorem loop_control_needs_the_kind:
  assumes E: "run_tool E = registry_port P" and step: "tool_step E C tc s = (Inr stop, s')"
  shows "(stop \<noteq> None \<or> armed_wait s' \<noteq> armed_wait s \<longrightarrow>
      (\<exists>k. fst (executed_package P (tc_name tc) (world s)) = Some k \<and> lower (tm_kind (pk_meta k)) \<in> set CONTROL_TOOL_KINDS)) \<and>
    (spoke_since_non_speak_tool s' \<and> \<not> spoke_since_non_speak_tool s \<longrightarrow>
      (\<exists>k. fst (executed_package P (tc_name tc) (world s)) = Some k \<and> lower (tm_kind (pk_meta k)) = ''speak''))"
proof -
  obtain tr skipped s1 prior where x: "execute_or_skip E tc s = (Inr tr, skipped, s1)"
    and a: "absorb_result E C tc tr skipped prior s1 = (stop, s')"
    using step by (auto simp: tool_step_def split: prod.splits sum.splits)
  note frame = absorb_flags [OF a] execute_or_skip_frame_flags [OF x]
  have "\<exists>args hooks w'. registry_port P (tc_name tc) args (world s) = (Inr tr, hooks, w')"
    if "ends_moment tr \<or> counts_as_speak tr"
    using x that by (auto simp: execute_or_skip_def execute_one_def Let_def E skipped_identical_result_def
        split: if_splits prod.splits)
  then show ?thesis using frame registry_result_flags by (metis (no_types, lifting))
qed

definition tools_demo_env :: "(string, unit) tool_world loop_env" where
  "tools_demo_env = \<lparr>clock = \<lambda>w. (Naive 0, w), chat = \<lambda>m t w. (Inl (Timeout_Error ''x''), w),
     run_tool = registry_port demo_ports, rebuild_outer = None, drain_interjections_fn = None,
     viewing_dirty_fn = None, clear_viewing_dirty_fn = None, host_spoke = None, host_task = None,
     append_beat = None, promote = None, sleep = \<lambda>d w. w, loads = \<lambda>s. None\<rparr>"

definition tools_demo_call :: "string \<Rightarrow> tool_call" where
  "tools_demo_call n = \<lparr>tc_id = ''c1'', tc_name = n, arguments = [], arguments_raw = [], arguments_parse_ok = True\<rparr>"

definition tools_demo_state :: "(string, unit) tool_world loop_state" where
  "tools_demo_state = initial_state [] (Naive 0) demo_catalog reset_meter"

lemma tool_step_stop:
  assumes "execute_or_skip E tc s = (Inr tr, skipped, s1)"
  obtains stop s' where "tool_step E C tc s = (Inr stop, s')" and "stop \<noteq> None \<longleftrightarrow> ends_moment tr"
proof -
  obtain stop s' where a: "absorb_result E C tc tr skipped (if skipped then thrash_last_error s else None) s1 = (stop, s')"
    by (rule prod.exhaust)
  show thesis by (rule that [OF _ absorb_flags(1) [OF a]]) (simp add: tool_step_def assms a)
qed

text \<open>Both handlers set every flag; only the control package \<open>yield\<close> ends the moment.\<close>

theorem loop_control_needs_the_kind_witness:
  "\<forall>C. (\<exists>stop s'. tool_step tools_demo_env C (tools_demo_call ''yield'') tools_demo_state = (Inr (Some stop), s')) \<and>
   (\<exists>s'. tool_step tools_demo_env C (tools_demo_call ''echo'') tools_demo_state = (Inr None, s')) \<and>
   (\<exists>k. fst (executed_package demo_ports ''yield'' demo_catalog) = Some k \<and>
        lower (tm_kind (pk_meta k)) \<in> set CONTROL_TOOL_KINDS)"
proof (intro allI)
  fix C
  have step: "\<exists>stop s'. tool_step tools_demo_env C (tools_demo_call n) tools_demo_state = (Inr stop, s') \<and>
      (stop \<noteq> None) = ends_moment tr"
    if x: "fst (execute_or_skip tools_demo_env (tools_demo_call n) tools_demo_state) = Inr tr" for n tr
  proof -
    obtain sk s1 where "execute_or_skip tools_demo_env (tools_demo_call n) tools_demo_state = (Inr tr, sk, s1)"
      using x by (metis prod.collapse)
    then show ?thesis by (rule tool_step_stop) blast
  qed
  have "case fst (execute_or_skip tools_demo_env (tools_demo_call ''yield'') tools_demo_state) of
      Inr tr \<Rightarrow> ends_moment tr | Inl e \<Rightarrow> False" by code_simp
  then obtain t1 where t1: "fst (execute_or_skip tools_demo_env (tools_demo_call ''yield'') tools_demo_state) = Inr t1"
    "ends_moment t1" by (auto split: sum.splits)
  have "case fst (execute_or_skip tools_demo_env (tools_demo_call ''echo'') tools_demo_state) of
      Inr tr \<Rightarrow> \<not> ends_moment tr | Inl e \<Rightarrow> False" by code_simp
  then obtain t2 where t2: "fst (execute_or_skip tools_demo_env (tools_demo_call ''echo'') tools_demo_state) = Inr t2"
    "\<not> ends_moment t2" by (auto split: sum.splits)
  obtain stop s' where y: "tool_step tools_demo_env C (tools_demo_call ''yield'') tools_demo_state = (Inr (Some stop), s')"
    using step [OF t1(1)] t1(2) by auto
  have e: "run_tool tools_demo_env = registry_port demo_ports" by (simp add: tools_demo_env_def)
  have w: "world tools_demo_state = demo_catalog" "tc_name (tools_demo_call ''yield'') = ''yield''"
    by (simp_all add: tools_demo_state_def initial_state_def tools_demo_call_def)
  have "\<exists>k. fst (executed_package demo_ports ''yield'' demo_catalog) = Some k \<and>
      lower (tm_kind (pk_meta k)) \<in> set CONTROL_TOOL_KINDS"
    using loop_control_needs_the_kind [OF e y] unfolding w by simp
  then show "(\<exists>stop s'. tool_step tools_demo_env C (tools_demo_call ''yield'') tools_demo_state = (Inr (Some stop), s')) \<and>
      (\<exists>s'. tool_step tools_demo_env C (tools_demo_call ''echo'') tools_demo_state = (Inr None, s')) \<and>
      (\<exists>k. fst (executed_package demo_ports ''yield'' demo_catalog) = Some k \<and>
        lower (tm_kind (pk_meta k)) \<in> set CONTROL_TOOL_KINDS)"
    using y step [OF t2(1)] t2(2) by auto
qed

subsection \<open>What a call shows of the secrets\<close>

lemma inject_secret_known [simp]:
  "set (known_values (snd (inject_secret io t n (env, s)))) = set (known_values s)"
  by (auto simp: inject_secret_def split: option.splits)

lemma resolve_known: "set (known_values (snd (resolve_for_tool io t s))) = set (known_values s)"
proof (cases "dget TOOL_SECRET_REQUIREMENTS t")
  case (Some req)
  then show ?thesis by (simp add: resolve_for_tool_def required_secrets [OF Some])
qed (simp add: resolve_for_tool_def)

lemma foldl_set_add: "set (foldl set_add xs ys) = set xs \<union> set ys"
  by (induction ys arbitrary: xs) auto

lemma redaction_values_known: "set (known_values (tw_secrets w)) \<subseteq> set (redaction_values P w)"
  by (auto simp: redaction_values_def Let_def foldl_set_add split: sum.split)

lemma inject_setup_known:
  assumes "inject_setup P t w = (env, known, w1)" and "secrets_open P w"
  shows "set (known_values (tw_secrets w)) \<subseteq> set known"
proof -
  define r where "r = (if dget TOOL_SECRET_REQUIREMENTS t \<noteq> None
      then resolve_for_tool (secret_writes P w) t (tw_secrets w) else ([], tw_secrets w))"
  have "inject_setup P t w = (fst r, redaction_values P (w\<lparr>tw_secrets := snd r\<rparr>), w\<lparr>tw_secrets := snd r\<rparr>)"
    using assms(2) by (simp add: inject_setup_def r_def split_beta Let_def)
  then have "known = redaction_values P (w\<lparr>tw_secrets := snd r\<rparr>)" using assms(1) by simp
  moreover have "set (known_values (snd r)) = set (known_values (tw_secrets w))"
    by (simp add: r_def resolve_known)
  ultimately show ?thesis using redaction_values_known [of "w\<lparr>tw_secrets := snd r\<rparr>" P] by simp
qed

lemma rescan_secrets [simp]: "tw_secrets (rescan P w) = tw_secrets w"
  by (auto simp: rescan_def reload_registry_def res_simps split: sum.split)

lemma executed_package_secrets: "executed_package P name w = (k, w0) \<Longrightarrow> tw_secrets w0 = tw_secrets w"
  by (auto simp: executed_package_def Let_def split: if_splits option.splits)

lemma redact_result_gone:
  assumes "v \<in> set known" and "v \<noteq> []" and "CHR ''*'' \<notin> set v" and "is_obj (payload tr)"
    and "t \<in> set (texts_in (payload (redact_result known tr)))"
  shows "\<not> sublist v t"
proof -
  obtain d where d: "payload tr = JObj d" using assms(4) by (auto simp: is_obj_def split: json.splits)
  have "known \<noteq> []" using assms(1) by auto
  then have "payload (redact_result known tr) = redact_payload known (payload tr)"
    by (simp add: redact_result_def is_obj_def d redact_tool_result_payload_def dict_of_def)
  then obtain u where "t = redact_string known u" using assms(5) texts_redacted by metis
  then show ?thesis using redact_string_gone [OF assms(1-3)] by simp
qed



subsection \<open>Failure\<close>

definition catalog_runnable :: "('h, 'x) tool_world \<Rightarrow> bool" where
  "catalog_runnable w \<longleftrightarrow> (\<forall>n k. registry_get w n = Some k \<longrightarrow> runnable (pk_runner k))"

lemma reload_runnable:
  assumes "reload_registry P w = Inr w'"
  shows "catalog_runnable w'"
  unfolding catalog_runnable_def
proof (intro allI impI)
  fix n k assume "registry_get w' n = Some k"
  then obtain p where "load_package P w (pk_source k) p = Inr k"
    using reload_get_Some(1) [OF assms] by (auto simp: callable_package_def)
  then show "runnable (pk_runner k)" by (rule load_package_runnable)
qed

lemma rescan_runnable: "catalog_runnable w \<Longrightarrow> catalog_runnable (rescan P w)"
  using reload_runnable [of P w] by (auto simp: rescan_def split: sum.split)

lemma executed_runnable:
  assumes "catalog_runnable w" and "executed_package P name w = (Some k, w0)"
  shows "runnable (pk_runner k)"
  using assms rescan_runnable [OF assms(1), of P]
  by (auto simp: executed_package_def Let_def catalog_runnable_def split: if_splits option.splits)

lemma not_executed:
  "executed_package P name w = (None, w0) \<Longrightarrow> w0 = w \<or> reload_registry P w = Inr w0"
  by (auto simp: executed_package_def Let_def rescan_def split: if_splits option.splits sum.splits)

lemma dispatch_sandboxed:
  assumes "runnable (pk_runner k)" and "dispatch P k args env w = (Inl e, hooks, w')"
  shows "rs_kind (pk_runner k) \<in> set SANDBOX_KINDS \<and>
    run_sandboxed P (isolation_on P w) (pk_runner k) args (pk_source k, pk_dir k) w = (Inl e, hooks, w')"
proof (cases "rs_kind (pk_runner k) = ''builtin''")
  case True
  then have False
    using assms(2) by (auto simp: dispatch_def Let_def split: sum.splits prod.splits handler_out.splits)
  then show ?thesis ..
next
  case False
  then show ?thesis using assms by (auto simp: dispatch_def Let_def runnable_def SANDBOX_KINDS_def split: if_splits)
qed

text \<open>
  C32. Execution fails closed. On a catalog whose runners can be run, a call raises only when the
  sandbox raises under a package of a sandbox kind; and a call that runs no package (a malformed or
  unknown name, or a local package whose directory is gone even after the one rescan) is an error
  result that ends nothing, runs no handler and changes at most the catalog.
\<close>

theorem execution_fails_closed:
  assumes "catalog_runnable w" and "registry_port P name args w = (r, hooks, w')"
  shows "case r of
      Inl e \<Rightarrow> \<exists>k w1. fst (executed_package P name w) = Some k \<and> rs_kind (pk_runner k) \<in> set SANDBOX_KINDS \<and>
        run_sandboxed P (isolation_on P w1) (pk_runner k) args (pk_source k, pk_dir k) w1 = (Inl e, hooks, w')
    | Inr tr \<Rightarrow> fst (executed_package P name w) = None \<longrightarrow>
        \<not> tr_ok tr \<and> error_reason tr \<noteq> None \<and> \<not> ends_moment tr \<and> \<not> counts_as_speak tr \<and> hooks = [] \<and>
        (w' = w \<or> reload_registry P w = Inr w')"
proof (cases rule: registry_execute_cases [of P name w args])
  case (run k w0)
  obtain env known w1 where "inject_setup P (tm_name (pk_meta k)) w0 = (env, known, w1)" by (rule prod_cases3)
  then have "dispatch P k args env w1 = (Inl e, hooks, w')" if "r = Inl e" for e
    using assms(2) run(2) that by (auto simp: registry_port_def run_package_def split: prod.splits sum.splits)
  then have "rs_kind (pk_runner k) \<in> set SANDBOX_KINDS \<and>
      run_sandboxed P (isolation_on P w1) (pk_runner k) args (pk_source k, pk_dir k) w1 = (Inl e, hooks, w')"
    if "r = Inl e" for e using dispatch_sandboxed [OF executed_runnable [OF assms(1) run(1)]] that by blast
  then show ?thesis using run(1) by (cases r) (simp, blast, simp)
next
  case (none p reason w0)
  then show ?thesis using assms(2) not_executed [OF none(1)] by (auto simp: registry_port_def failed_result_def)
qed

theorem execution_fails_closed_witness:
  "catalog_runnable demo_catalog \<and>
   (\<exists>tr. registry_port demo_ports ''drafts'' [] demo_catalog = (Inr tr, [], demo_catalog) \<and> \<not> tr_ok tr)"
proof -
  note r = reload_runnable [OF demo_reload]
  have g: "registry_get demo_catalog ''drafts'' = None" by code_simp
  have "is_valid_tool_name ''drafts''" by code_simp
  with g have e: "executed_package demo_ports ''drafts'' demo_catalog = (None, demo_catalog)"
    "registry_port demo_ports ''drafts'' [] demo_catalog = (Inr (failed_result [] ''unknown_tool''), [], demo_catalog)"
    by (simp_all add: executed_package_def registry_port_def registry_execute_def)
  with execution_fails_closed [OF r e(2)] r show ?thesis by simp
qed

end
