(* ===== verification/Usage.thy ===== *)
theory Usage
  imports Loop_World
begin

text \<open>
  The usage meter of \<open>elyra/llm/usage.py\<close> with the credits snapshots of \<open>elyra/llm/credits.py\<close> and
  the gate of \<open>elyra/llm/client.py\<close>: token counters of a week, a day and an hour, the hard stops
  they and the account lead to, the pace bands, the billing periods, the persisted file and its
  reading, and the client that asks the meter before every completion. A clock reading is a number
  of microseconds since the epoch in UTC; one reading stands for the readings of one locked call.
  Ratios are exact rationals where the code has floating point numbers.
\<close>

section \<open>Numbers, settings and ports\<close>

text \<open>A Python float: its \<open>repr\<close> and its value, none for an infinity or a NaN.\<close>

type_synonym pyfloat = "string \<times> rat option"

record usage_settings =
  us_enabled :: bool
  weekly_allowed_tokens :: int
  hour_block_minutes :: int
  day_allowed_tokens :: "int option"
  hour_allowed_tokens :: "int option"
  day_hard_stop_enabled :: bool
  hour_hard_stop_enabled :: bool
  account_hard_stop_percent :: rat
  pace_yellow_ratio :: rat
  pace_red_ratio :: rat
  burst_hours :: rat
  credits_stale_after_s :: rat

text \<open>
  Of the library: reading an ISO time as microseconds in UTC and printing one, \<open>float(i)\<close> (none when
  it overflows) and the format \<open>g\<close> of a finite number.
\<close>

record usage_env =
  from_iso :: "string \<Rightarrow> int option"
  to_iso_z :: "int \<Rightarrow> string"
  int_float :: "int \<Rightarrow> pyfloat option"
  g_format :: "rat \<Rightarrow> string"

definition float_of :: "usage_env \<Rightarrow> json \<Rightarrow> pyfloat option res" where
  "float_of E j =
     (case j of
        JFloat r q \<Rightarrow> Inr (Some (r, q))
      | JInt i \<Rightarrow> (case int_float E i of Some f \<Rightarrow> Inr (Some f) | None \<Rightarrow> Inl OverflowError)
      | _ \<Rightarrow> Inr None)"

section \<open>Token usage of a completion\<close>

record token_usage =
  prompt_tokens :: int
  completion_tokens :: int
  total_tokens :: int
  reasoning_tokens :: int
  cached_tokens :: int

definition billable_tokens :: "token_usage \<Rightarrow> int" where
  "billable_tokens u =
     (if total_tokens u > 0 then total_tokens u
      else let s = prompt_tokens u + completion_tokens u in if s > 0 then s else 0)"

definition as_nonneg_int :: "json \<Rightarrow> int res" where
  "as_nonneg_int j =
     (case j of
        JInt i \<Rightarrow> Inr (max 0 i)
      | JFloat r q \<Rightarrow>
          (case py_int j of Inr n \<Rightarrow> Inr (max 0 n) | Inl OverflowError \<Rightarrow> Inl OverflowError | Inl _ \<Rightarrow> Inr 0)
      | _ \<Rightarrow> Inr 0)"

definition detail_tokens :: "jdict \<Rightarrow> string \<Rightarrow> string \<Rightarrow> int res" where
  "detail_tokens d details key =
     (case jget d details of
        JObj e \<Rightarrow> if key \<in> set (dkeys e) then as_nonneg_int (jget e key) else as_nonneg_int (jget d key)
      | _ \<Rightarrow> as_nonneg_int (jget d key))"

definition parse_token_usage :: "json \<Rightarrow> token_usage option res" where
  "parse_token_usage raw =
     (case raw of
        JObj d \<Rightarrow>
          if set (dkeys d) \<inter> {''prompt_tokens'', ''completion_tokens'', ''total_tokens''} = {} then Inr None
          else bind_res (as_nonneg_int (jget d ''prompt_tokens'')) (\<lambda>p.
            bind_res (as_nonneg_int (jget d ''completion_tokens'')) (\<lambda>c.
            bind_res (as_nonneg_int (jget d ''total_tokens'')) (\<lambda>t.
            bind_res (detail_tokens d ''completion_tokens_details'' ''reasoning_tokens'') (\<lambda>r.
            bind_res (detail_tokens d ''prompt_tokens_details'' ''cached_tokens'') (\<lambda>k.
              Inr (Some \<lparr>prompt_tokens = p, completion_tokens = c, total_tokens = t,
                         reasoning_tokens = r, cached_tokens = k\<rparr>))))))
      | _ \<Rightarrow> Inr None)"

section \<open>The calendar\<close>

definition DAY_US :: int where "DAY_US = 86400000000"
definition HOUR_US :: int where "HOUR_US = 3600000000"

text \<open>Days since the epoch to the proleptic Gregorian date, and the first of January of a year.\<close>

definition civil_of_days :: "int \<Rightarrow> int \<times> int \<times> int" where
  "civil_of_days n =
     (let z = n + 719468; era = z div 146097; doe = z mod 146097;
          yoe = (doe - doe div 1460 + doe div 36524 - doe div 146096) div 365;
          doy = doe - (365 * yoe + yoe div 4 - yoe div 100);
          mp = (5 * doy + 2) div 153; d = doy - (153 * mp + 2) div 5 + 1;
          m = (if mp < 10 then mp + 3 else mp - 9)
      in (yoe + era * 400 + (if m \<le> 2 then 1 else 0), m, d))"

definition new_year_day :: "int \<Rightarrow> int" where
  "new_year_day y =
     (let b = y - 1; era = b div 400; yoe = b mod 400
      in era * 146097 + (yoe * 365 + yoe div 4 - yoe div 100 + 306) - 719468)"

definition weekday :: "int \<Rightarrow> int" where
  "weekday n = (n + 3) mod 7"

text \<open>\<open>isocalendar\<close>: the week belongs to the year of its Thursday.\<close>

definition iso_week :: "int \<Rightarrow> int \<times> int" where
  "iso_week n =
     (let thursday = n - weekday n + 3; y = fst (civil_of_days thursday)
      in (y, (thursday - new_year_day y) div 7 + 1))"

definition pad2 :: "int \<Rightarrow> string" where
  "pad2 i = (if 0 \<le> i \<and> i < 10 then CHR ''0'' # int_str i else int_str i)"

definition window_ids :: "int \<Rightarrow> int \<Rightarrow> string \<times> string \<times> string" where
  "window_ids now block_minutes =
     (let n = now div DAY_US; (y, m, d) = civil_of_days n; (wy, wk) = iso_week n;
          day_id = int_str y @ ''-'' @ pad2 m @ ''-'' @ pad2 d;
          block = max 1 block_minutes; minutes = now mod DAY_US div 60000000;
          start = minutes div block * block
      in (int_str wy @ ''-W'' @ pad2 wk, day_id,
          if block = 60 then day_id @ ''T'' @ pad2 (start div 60)
          else day_id @ ''T'' @ pad2 (start div 60) @ '':'' @ pad2 (start mod 60)))"

definition parse_iso_datetime :: "usage_env \<Rightarrow> string option \<Rightarrow> int option" where
  "parse_iso_datetime E v =
     (let t = strip (str_or v []) in
      if t = [] then None
      else from_iso E (if last t = CHR ''Z'' then butlast t @ ''+00:00'' else t))"

section \<open>Limits and pace\<close>

definition compute_limits :: "usage_settings \<Rightarrow> int \<times> int \<times> int" where
  "compute_limits S =
     (let week = max 1 (weekly_allowed_tokens S);
          day = (case day_allowed_tokens S of Some d \<Rightarrow> max 1 d | None \<Rightarrow> max 1 (week div 7));
          hour = (case hour_allowed_tokens S of
              Some h \<Rightarrow> max 1 h
            | None \<Rightarrow> max 1 (day div max 1 (1440 div max 1 (hour_block_minutes S))))
      in (week, day, hour))"

definition remaining_fraction :: "int \<Rightarrow> int \<Rightarrow> rat" where
  "remaining_fraction used limit =
     (if limit \<le> 0 then 0 else max 0 (min 1 (1 - of_int used / of_int limit)))"

definition clamp :: "rat \<Rightarrow> rat \<Rightarrow> rat \<Rightarrow> rat" where
  "clamp v lo hi = (if v < lo then lo else if v > hi then hi else v)"

definition EPS_HOURS :: rat where "EPS_HOURS = 1 / 60"
definition DEFAULT_PERIOD_HOURS :: rat where "DEFAULT_PERIOD_HOURS = 168"

definition hours_of :: "int \<Rightarrow> rat" where
  "hours_of us = of_int us / of_int HOUR_US"

definition hours_since_iso_week_start :: "int \<Rightarrow> rat" where
  "hours_since_iso_week_start now =
     (let n = now div DAY_US in max 0 (hours_of (now - (n - weekday n) * DAY_US)))"

definition period_hours :: "usage_env \<Rightarrow> string option \<Rightarrow> string option \<Rightarrow> rat" where
  "period_hours E period_start period_end =
     (case (parse_iso_datetime E period_start, parse_iso_datetime E period_end) of
        (Some a, Some b) \<Rightarrow> if b > a then max 1 (hours_of (b - a)) else DEFAULT_PERIOD_HOURS
      | _ \<Rightarrow> DEFAULT_PERIOD_HOURS)"

definition elapsed_hours :: "usage_env \<Rightarrow> int \<Rightarrow> string option \<Rightarrow> rat \<Rightarrow> rat" where
  "elapsed_hours E now period_start H =
     clamp (case parse_iso_datetime E period_start of
         Some a \<Rightarrow> hours_of (now - a) | None \<Rightarrow> hours_since_iso_week_start now) EPS_HOURS (max 1 H)"

definition pace_ratio :: "rat \<Rightarrow> rat \<Rightarrow> rat \<Rightarrow> rat \<Rightarrow> rat" where
  "pace_ratio used B H t = (used * max 1 H) / (max 1 B * max EPS_HOURS t)"

definition burst_max :: "rat \<Rightarrow> rat \<Rightarrow> rat \<Rightarrow> rat" where
  "burst_max B H k = max 0 (k * (B / max 1 H))"

definition linear_schedule :: "rat \<Rightarrow> rat \<Rightarrow> rat \<Rightarrow> rat" where
  "linear_schedule B H t = B / max 1 H * t"

definition effective_overshoot :: "rat \<Rightarrow> rat \<Rightarrow> rat \<Rightarrow> rat \<Rightarrow> rat" where
  "effective_overshoot used B H t = max 0 (used - linear_schedule B H t)"

definition burst_remaining :: "rat \<Rightarrow> rat \<Rightarrow> rat \<Rightarrow> rat \<Rightarrow> rat \<Rightarrow> rat" where
  "burst_remaining used B H t k = max 0 (burst_max B H k - effective_overshoot used B H t)"

definition compute_band :: "rat \<Rightarrow> rat \<Rightarrow> rat \<Rightarrow> rat \<Rightarrow> rat \<Rightarrow> rat \<Rightarrow> rat \<Rightarrow> string" where
  "compute_band used B H t k yellow red =
     (let p = pace_ratio used B H t in
      if effective_overshoot used B H t \<le> burst_max B H k then ''green''
      else if p < yellow then ''green'' else if p < red then ''yellow'' else ''red'')"

definition hard_level ::
  "int \<Rightarrow> int \<Rightarrow> int \<Rightarrow> int \<Rightarrow> bool \<Rightarrow> int \<Rightarrow> int \<Rightarrow> bool \<Rightarrow> bool \<Rightarrow> string option" where
  "hard_level used B day_used day_limit day_hard hour_used hour_limit hour_hard account_over =
     (if account_over then Some ''account''
      else if used \<ge> B then Some ''week''
      else if day_hard \<and> day_used \<ge> day_limit then Some ''day''
      else if hour_hard \<and> hour_used \<ge> hour_limit then Some ''hour''
      else None)"

text \<open>\<open>round\<close>: to the nearest integer, a half to the even one.\<close>

definition py_round :: "rat \<Rightarrow> int" where
  "py_round q =
     (let f = \<lfloor>q\<rfloor>; r = q - of_int f
      in if r < 1 / 2 then f else if r > 1 / 2 then f + 1 else if even f then f else f + 1)"

section \<open>Periods and credits snapshots\<close>

definition is_iso_week_period_id :: "string \<Rightarrow> bool" where
  "is_iso_week_period_id p =
     (let digit = (\<lambda>i. i < length p \<and> is_digit (p ! i))
      in digit 0 \<and> digit 1 \<and> digit 2 \<and> digit 3 \<and> take 2 (drop 4 p) = ''-W'' \<and> digit 6 \<and> digit 7 \<and>
         drop 8 p \<in> {[], [CHR 0x0A]})"

definition is_provisional_iso_period :: "string \<Rightarrow> string \<Rightarrow> string \<Rightarrow> bool" where
  "is_provisional_iso_period p week_id authority =
     (authority = ''iso'' \<or> (week_id \<noteq> [] \<and> p = week_id) \<or> is_iso_week_period_id p)"

definition default_period_authority :: "usage_env \<Rightarrow> string \<Rightarrow> string \<Rightarrow> string" where
  "default_period_authority E p week_id =
     (if p = [] \<or> is_iso_week_period_id p \<or> p = week_id then ''iso''
      else if CHR ''/'' \<in> set p \<and>
              parse_iso_datetime E (Some (takeWhile (\<lambda>c. c \<noteq> CHR ''/'') p)) \<noteq> None \<and>
              parse_iso_datetime E (Some (tl (dropWhile (\<lambda>c. c \<noteq> CHR ''/'') p))) \<noteq> None
      then ''supergrok'' else ''iso'')"

definition canonical_period_id :: "string \<Rightarrow> string \<Rightarrow> string" where
  "canonical_period_id a b = a @ ''/'' @ b"

record credits_snapshot =
  cs_percent :: "pyfloat option"
  cs_start :: "string option"
  cs_end :: "string option"
  cs_id :: "string option"
  cs_type :: "string option"
  cs_unified :: "bool option"
  cs_product :: json
  cs_fetched :: "string option"
  cs_status :: "string option"
  cs_detail :: "string option"
  cs_ok :: "bool option"

definition snapshot_is_ok :: "credits_snapshot \<Rightarrow> bool" where
  "snapshot_is_ok s = (case cs_ok s of Some b \<Rightarrow> b | None \<Rightarrow> cs_status s = Some ''ok'')"

type_synonym product_usage = "(string, pyfloat) dict"

definition product_entry :: "usage_env \<Rightarrow> product_usage \<Rightarrow> string \<times> json \<Rightarrow> product_usage res" where
  "product_entry E out kv =
     bind_res (float_of E (snd kv)) (\<lambda>f. Inr (case f of Some x \<Rightarrow> dset out (fst kv) x | None \<Rightarrow> out))"

definition product_row :: "usage_env \<Rightarrow> product_usage \<Rightarrow> json \<Rightarrow> product_usage res" where
  "product_row E out item =
     (case item of
        JObj d \<Rightarrow>
          (let pct = (if ''usagePercent'' \<in> set (dkeys d) then jget d ''usagePercent'' else jget d ''usage_percent'')
           in case jget d ''product'' of
                JStr p \<Rightarrow> if p = [] then Inr out else product_entry E out (p, pct)
              | _ \<Rightarrow> Inr out)
      | _ \<Rightarrow> Inr out)"

definition nonempty_opt :: "'a list \<Rightarrow> 'a list option" where
  "nonempty_opt xs = (if xs = [] then None else Some xs)"

definition coerce_product_usage :: "usage_env \<Rightarrow> json \<Rightarrow> product_usage option res" where
  "coerce_product_usage E raw =
     (case raw of
        JObj d \<Rightarrow> bind_res (foldl_res (product_entry E) [] d) (\<lambda>out. Inr (nonempty_opt out))
      | JArr xs \<Rightarrow> bind_res (foldl_res (product_row E) [] xs) (\<lambda>out. Inr (nonempty_opt out))
      | _ \<Rightarrow> Inr None)"

definition json_of_product :: "product_usage \<Rightarrow> json" where
  "json_of_product d = JObj (map (\<lambda>(k, r, q). (k, JFloat r q)) d)"

subsection \<open>Reading the billing service\<close>

definition bound_of :: "jdict \<Rightarrow> string \<Rightarrow> string option" where
  "bound_of d key = nonblank_str (jget d key)"

definition period_bounds_from_config :: "jdict \<Rightarrow> string option \<times> string option \<times> string option" where
  "period_bounds_from_config config =
     (let p = dict_of (jget config ''currentPeriod'');
          start = bound_of p ''start''; end = bound_of p ''end''
      in (if start = None then bound_of config ''billingPeriodStart'' else start,
          if end = None then bound_of config ''billingPeriodEnd'' else end, bound_of p ''type''))"

definition error_snapshot :: "string \<Rightarrow> string \<Rightarrow> string \<Rightarrow> credits_snapshot" where
  "error_snapshot status detail at_time =
     \<lparr>cs_percent = None, cs_start = None, cs_end = None, cs_id = None, cs_type = None, cs_unified = None,
      cs_product = JNull, cs_fetched = Some at_time, cs_status = Some status, cs_detail = Some detail,
      cs_ok = Some False\<rparr>"

definition parse_billing_payload :: "usage_env \<Rightarrow> json \<Rightarrow> string \<Rightarrow> credits_snapshot res" where
  "parse_billing_payload E data at_time =
     (case data of
        JObj outer \<Rightarrow>
          (case jget outer ''config'' of
             JObj config \<Rightarrow>
               bind_res (float_of E (jget config ''creditUsagePercent'')) (\<lambda>pct.
               bind_res (coerce_product_usage E (jget config ''productUsage'')) (\<lambda>prod.
                 (let (start, end, ptype) = period_bounds_from_config config in
                  Inr \<lparr>cs_percent = pct, cs_start = start, cs_end = end,
                    cs_id = (case (start, end) of (Some a, Some b) \<Rightarrow> Some (canonical_period_id a b) | _ \<Rightarrow> None),
                    cs_type = ptype,
                    cs_unified = (case jget config ''isUnifiedBillingUser'' of JBool b \<Rightarrow> Some b | _ \<Rightarrow> None),
                    cs_product = (case prod of Some p \<Rightarrow> json_of_product p | None \<Rightarrow> JNull),
                    cs_fetched = Some at_time,
                    cs_status = Some (if pct = None then ''error'' else ''ok''),
                    cs_detail = (if pct = None then Some ''missing_credit_usage_percent'' else None),
                    cs_ok = Some (pct \<noteq> None)\<rparr>)))
           | _ \<Rightarrow> Inr (error_snapshot ''error'' ''missing_config'' at_time))
      | _ \<Rightarrow> Inr (error_snapshot ''error'' ''invalid_billing_root'' at_time))"

definition status_for_http_code :: "int \<Rightarrow> string \<Rightarrow> bool \<Rightarrow> credits_snapshot" where
  "status_for_http_code code_n at_time api_key =
     (let detail = ''http_'' @ int_str code_n in
      if code_n \<in> {401, 403}
      then error_snapshot (if api_key then ''unsupported'' else ''auth_failed'') detail at_time
      else if code_n = 404 \<and> api_key then error_snapshot ''unsupported'' ''http_404'' at_time
      else error_snapshot ''error'' detail at_time)"

section \<open>The meter\<close>

record usage_meter =
  u_week_id :: string
  u_day_id :: string
  u_hour_id :: string
  u_period_id :: string
  u_authority :: string
  u_period_start :: "string option"
  u_period_end :: "string option"
  u_week :: int
  u_day :: int
  u_hour :: int
  u_cached :: int
  u_stt :: int
  u_tts :: int
  u_last_record :: "string option"
  u_last_stop :: "string option"
  u_last_reason :: "string option"
  u_override :: bool
  sg_percent :: "pyfloat option"
  sg_product :: "product_usage option"
  sg_fetched :: "string option"
  sg_status :: "string option"
  sg_type :: "string option"
  sg_unified :: "bool option"
  sg_detail :: "string option"

definition zero_state :: "usage_settings \<Rightarrow> int \<Rightarrow> usage_meter" where
  "zero_state S now =
     (let (w, d, h) = window_ids now (hour_block_minutes S) in
      \<lparr>u_week_id = w, u_day_id = d, u_hour_id = h, u_period_id = w, u_authority = ''iso'',
       u_period_start = None, u_period_end = None, u_week = 0, u_day = 0, u_hour = 0, u_cached = 0,
       u_stt = 0, u_tts = 0, u_last_record = None, u_last_stop = None, u_last_reason = None,
       u_override = False, sg_percent = None, sg_product = None, sg_fetched = None, sg_status = None,
       sg_type = None, sg_unified = None, sg_detail = None\<rparr>)"

definition zero_week_ledger :: "usage_meter \<Rightarrow> usage_meter" where
  "zero_week_ledger m = m\<lparr>u_week := 0, u_cached := 0, u_stt := 0, u_tts := 0\<rparr>"

definition refresh_windows :: "usage_settings \<Rightarrow> int \<Rightarrow> usage_meter \<Rightarrow> usage_meter" where
  "refresh_windows S now m =
     (let (w, d, h) = window_ids now (hour_block_minutes S);
          m1 = (if w = u_week_id m then m
                else let m' = m\<lparr>u_week_id := w\<rparr>
                     in if u_authority m = ''iso'' then (zero_week_ledger m')\<lparr>u_period_id := w\<rparr> else m');
          m2 = (if d = u_day_id m1 then m1 else m1\<lparr>u_day_id := d, u_day := 0\<rparr>)
      in if h = u_hour_id m2 then m2 else m2\<lparr>u_hour_id := h, u_hour := 0\<rparr>)"

definition windows_rolled :: "usage_settings \<Rightarrow> int \<Rightarrow> usage_meter \<Rightarrow> bool" where
  "windows_rolled S now m \<longleftrightarrow> window_ids now (hour_block_minutes S) \<noteq> (u_week_id m, u_day_id m, u_hour_id m)"

definition period_H_t :: "usage_env \<Rightarrow> int \<Rightarrow> usage_meter \<Rightarrow> rat \<times> rat" where
  "period_H_t E now m =
     (if u_authority m = ''supergrok'' \<and> \<not> blank_str (u_period_start m)
      then let H = period_hours E (u_period_start m) (u_period_end m)
           in (H, elapsed_hours E now (u_period_start m) H)
      else (DEFAULT_PERIOD_HOURS, elapsed_hours E now None DEFAULT_PERIOD_HOURS))"

text \<open>
  The used percentage of the account, where the last good snapshot counts: it is ok, has a
  percentage and a period, and is not stale. The comparison with the hard percentage is exact.
\<close>

definition account_usage :: "usage_env \<Rightarrow> usage_settings \<Rightarrow> int \<Rightarrow> usage_meter \<Rightarrow> pyfloat option" where
  "account_usage E S now m =
     (if sg_status m \<noteq> Some ''ok'' \<or> parse_iso_datetime E (u_period_start m) = None then None
      else case (if blank_str (sg_fetched m) then None else parse_iso_datetime E (sg_fetched m)) of
        Some f \<Rightarrow> if of_int (now - f) / 1000000 > credits_stale_after_s S then None else sg_percent m
      | None \<Rightarrow> sg_percent m)"

definition float_ge :: "pyfloat \<Rightarrow> rat \<Rightarrow> bool" where
  "float_ge f c = (case snd f of Some q \<Rightarrow> q \<ge> c | None \<Rightarrow> fst f = ''inf'')"

definition hard_stop_level :: "usage_env \<Rightarrow> usage_settings \<Rightarrow> int \<Rightarrow> usage_meter \<Rightarrow> string option" where
  "hard_stop_level E S now m =
     (let (week, day, hour) = compute_limits S in
      hard_level (u_week m) week (u_day m) day (day_hard_stop_enabled S) (u_hour m) hour (hour_hard_stop_enabled S)
        (case account_usage E S now m of Some f \<Rightarrow> float_ge f (account_hard_stop_percent S) | None \<Rightarrow> False))"

definition budget_text :: "string \<Rightarrow> int \<Rightarrow> int \<Rightarrow> string" where
  "budget_text level used limit =
     level @ '' budget exhausted ('' @ int_str used @ ''/'' @ int_str limit @ '' tokens)''"

definition g_float :: "usage_env \<Rightarrow> pyfloat \<Rightarrow> string" where
  "g_float E f = (case snd f of Some q \<Rightarrow> g_format E q | None \<Rightarrow> fst f)"

definition hard_stop_reason :: "usage_env \<Rightarrow> usage_settings \<Rightarrow> int \<Rightarrow> usage_meter \<Rightarrow> string option" where
  "hard_stop_reason E S now m =
     (let (week, day, hour) = compute_limits S in
      case hard_stop_level E S now m of
        None \<Rightarrow> None
      | Some level \<Rightarrow>
          Some (if level = ''account''
            then ''account weekly budget nearly exhausted ('' @
              (case sg_percent m of Some f \<Rightarrow> g_float E f | None \<Rightarrow> ''?'') @ ''/'' @
              g_format E (account_hard_stop_percent S) @ ''%)''
            else if level = ''week'' then budget_text level (u_week m) week
            else if level = ''day'' then budget_text level (u_day m) day
            else budget_text ''hour'' (u_hour m) hour))"

definition pace_metrics :: "usage_env \<Rightarrow> usage_settings \<Rightarrow> int \<Rightarrow> usage_meter \<Rightarrow> rat \<times> rat \<times> rat \<times> string" where
  "pace_metrics E S now m =
     (let (week, _, _) = compute_limits S; (H, t) = period_H_t E now m; B = of_int week; used = of_int (u_week m)
      in (pace_ratio used B H t, burst_max B H (burst_hours S), burst_remaining used B H t (burst_hours S),
          compute_band used B H t (burst_hours S) (pace_yellow_ratio S) (pace_red_ratio S)))"

definition pace_band :: "usage_env \<Rightarrow> usage_settings \<Rightarrow> int \<Rightarrow> usage_meter \<Rightarrow> string" where
  "pace_band E S now m =
     (if hard_stop_level E S now m \<noteq> None then ''hard'' else snd (snd (snd (pace_metrics E S now m))))"

definition sync_hard_stop :: "usage_env \<Rightarrow> usage_settings \<Rightarrow> int \<Rightarrow> usage_meter \<Rightarrow> usage_meter" where
  "sync_hard_stop E S now m =
     m\<lparr>u_last_stop := hard_stop_level E S now m, u_last_reason := hard_stop_reason E S now m\<rparr>"

subsection \<open>Applying a credits snapshot\<close>

definition adopt_period :: "string \<Rightarrow> string \<Rightarrow> string \<Rightarrow> usage_meter \<Rightarrow> usage_meter" where
  "adopt_period new_id a b m =
     (if u_authority m = ''iso'' \<or> is_provisional_iso_period (u_period_id m) (u_week_id m) (u_authority m)
      then m\<lparr>u_period_id := new_id, u_authority := ''supergrok'', u_period_start := Some a, u_period_end := Some b\<rparr>
      else if u_authority m = ''supergrok'' \<and> new_id \<noteq> u_period_id m
      then (zero_week_ledger m)\<lparr>u_period_id := new_id, u_period_start := Some a, u_period_end := Some b\<rparr>
      else m\<lparr>u_period_start := Some a, u_period_end := Some b\<rparr>)"

definition parseable_period :: "usage_env \<Rightarrow> credits_snapshot \<Rightarrow> (string \<times> string) option" where
  "parseable_period E s =
     (case (cs_start s, cs_end s) of
        (Some a, Some b) \<Rightarrow>
          (case (parse_iso_datetime E (Some a), parse_iso_datetime E (Some b)) of
             (Some x, Some y) \<Rightarrow> if y > x then Some (a, b) else None
           | _ \<Rightarrow> None)
      | _ \<Rightarrow> None)"

definition or_keep :: "'a option \<Rightarrow> 'a option \<Rightarrow> 'a option" where
  "or_keep new old = (case new of None \<Rightarrow> old | Some x \<Rightarrow> Some x)"

definition refresh_account :: "usage_env \<Rightarrow> credits_snapshot \<Rightarrow> usage_meter \<Rightarrow> usage_meter res" where
  "refresh_account E s m =
     bind_res (coerce_product_usage E (cs_product s)) (\<lambda>p.
       Inr (m\<lparr>sg_percent := or_keep (cs_percent s) (sg_percent m), sg_product := or_keep p (sg_product m),
              sg_fetched := or_keep (cs_fetched s) (sg_fetched m), sg_status := Some ''ok'',
              sg_type := or_keep (cs_type s) (sg_type m), sg_unified := or_keep (cs_unified s) (sg_unified m),
              sg_detail := or_keep (cs_detail s) (sg_detail m)\<rparr>))"

definition rejected_detail :: "credits_snapshot \<Rightarrow> bool \<Rightarrow> string" where
  "rejected_detail s attempted_bad =
     (case cs_detail s of
        Some d \<Rightarrow> d
      | None \<Rightarrow>
          ''credits_apply_rejected:'' @
          (if attempted_bad then ''unparseable_period''
           else if \<not> snapshot_is_ok s then str_or (cs_status s) ''error''
           else ''no_period_basis''))"

definition apply_snapshot :: "usage_env \<Rightarrow> credits_snapshot \<Rightarrow> usage_meter \<Rightarrow> usage_meter res" where
  "apply_snapshot E s m =
     (let ok = snapshot_is_ok s; period = parseable_period E s;
          nonblank = (\<lambda>v. strip (str_or v []) \<noteq> []);
          attempted_bad = (period = None \<and> (nonblank (cs_start s) \<or> nonblank (cs_end s)));
          m1 = (case period of
              Some (a, b) \<Rightarrow> if ok then adopt_period (str_or (cs_id s) (canonical_period_id a b)) a b m else m
            | None \<Rightarrow> m);
          adopted = (u_authority m1 = ''supergrok'' \<and> parse_iso_datetime E (u_period_start m1) \<noteq> None)
      in if ok \<and> \<not> attempted_bad \<and> (period \<noteq> None \<or> adopted) then refresh_account E s m1
         else Inr (m1\<lparr>sg_detail := Some (rejected_detail s attempted_bad)\<rparr>))"

subsection \<open>The file\<close>

definition json_of_float :: "pyfloat \<Rightarrow> json" where
  "json_of_float f = JFloat (fst f) (snd f)"

definition supergrok_state :: "usage_meter \<Rightarrow> jdict option" where
  "supergrok_state m =
     (if sg_status m = None \<and> sg_percent m = None \<and> sg_fetched m = None \<and> u_authority m \<noteq> ''supergrok'' then None
      else Some
        [(''credit_usage_percent'', opt_json json_of_float (sg_percent m)),
         (''period_start'', opt_json JStr (u_period_start m)), (''period_end'', opt_json JStr (u_period_end m)),
         (''period_type'', opt_json JStr (sg_type m)), (''is_unified'', opt_json JBool (sg_unified m)),
         (''product_usage'', opt_json json_of_product (sg_product m)),
         (''fetched_at'', opt_json JStr (sg_fetched m)), (''status'', opt_json JStr (sg_status m))])"

definition state_dict :: "usage_env \<Rightarrow> usage_settings \<Rightarrow> int \<Rightarrow> usage_meter \<Rightarrow> jdict" where
  "state_dict E S now m =
     [(''schema_version'', JInt 2), (''period_id'', JStr (u_period_id m)),
      (''period_authority'', JStr (u_authority m)), (''week_id'', JStr (u_week_id m)),
      (''day_id'', JStr (u_day_id m)), (''hour_id'', JStr (u_hour_id m)),
      (''week_used_tokens'', JInt (u_week m)), (''day_used_tokens'', JInt (u_day m)),
      (''hour_used_tokens'', JInt (u_hour m)), (''week_cached_tokens'', JInt (u_cached m)),
      (''week_stt_calls'', JInt (u_stt m)), (''week_tts_calls'', JInt (u_tts m)),
      (''burst_remaining_tokens'', JInt (py_round (fst (snd (snd (pace_metrics E S now m)))))),
      (''last_record_at'', opt_json JStr (u_last_record m)),
      (''last_hard_stop'', opt_json JStr (u_last_stop m)),
      (''last_hard_stop_reason'', opt_json JStr (u_last_reason m)),
      (''hard_stop_override'', JBool (u_override m))] @
     (case supergrok_state m of None \<Rightarrow> [] | Some sg \<Rightarrow> [(''supergrok'', JObj sg)])"

text \<open>The counters of a loaded document: not a number or negative is 0, an infinity raises.\<close>

definition int_field :: "jdict \<Rightarrow> string \<Rightarrow> int res" where
  "int_field d key = as_nonneg_int (jget d key)"

definition schema_of :: "json \<Rightarrow> int res" where
  "schema_of v =
     (case v of
        JBool _ \<Rightarrow> Inr 1
      | _ \<Rightarrow> (case py_int v of Inr i \<Rightarrow> Inr i | Inl OverflowError \<Rightarrow> Inl OverflowError | Inl _ \<Rightarrow> Inr 1))"

definition as_bool_opt :: "json \<Rightarrow> bool option" where
  "as_bool_opt j = (case j of JBool b \<Rightarrow> Some b | _ \<Rightarrow> None)"

definition id_field :: "jdict \<Rightarrow> string \<Rightarrow> string \<Rightarrow> string" where
  "id_field d key old = (if truthy (jget d key) then py_str (jget d key) else old)"

definition loaded_period :: "usage_env \<Rightarrow> jdict \<Rightarrow> int \<Rightarrow> string \<Rightarrow> string \<times> string" where
  "loaded_period E d schema week_id =
     (if schema < 2 then (week_id, ''iso'')
      else let p = (case jget d ''period_id'' of JStr s \<Rightarrow> if s = [] then week_id else s | _ \<Rightarrow> week_id)
           in (p, if jget d ''period_authority'' = JStr ''iso'' then ''iso''
                  else if jget d ''period_authority'' = JStr ''supergrok'' then ''supergrok''
                  else default_period_authority E p week_id))"

definition load_supergrok :: "usage_env \<Rightarrow> json \<Rightarrow> usage_meter \<Rightarrow> usage_meter res" where
  "load_supergrok E sg m =
     (case sg of
        JObj e \<Rightarrow>
          bind_res (float_of E (jget e ''credit_usage_percent'')) (\<lambda>pct.
          bind_res (coerce_product_usage E (jget e ''product_usage'')) (\<lambda>prod.
            Inr (m\<lparr>sg_percent := or_keep pct (sg_percent m),
                   u_period_start := or_keep (as_str_opt (jget e ''period_start'')) (u_period_start m),
                   u_period_end := or_keep (as_str_opt (jget e ''period_end'')) (u_period_end m),
                   sg_status := or_keep (as_str_opt (jget e ''status'')) (sg_status m),
                   sg_fetched := or_keep (as_str_opt (jget e ''fetched_at'')) (sg_fetched m),
                   sg_type := or_keep (as_str_opt (jget e ''period_type'')) (sg_type m),
                   sg_unified := or_keep (as_bool_opt (jget e ''is_unified'')) (sg_unified m),
                   sg_product := or_keep prod (sg_product m)\<rparr>)))
      | _ \<Rightarrow> Inr m)"

definition apply_loaded :: "usage_env \<Rightarrow> jdict \<Rightarrow> usage_meter \<Rightarrow> usage_meter res" where
  "apply_loaded E d m =
     bind_res (int_field d ''week_used_tokens'') (\<lambda>week. bind_res (int_field d ''day_used_tokens'') (\<lambda>day.
     bind_res (int_field d ''hour_used_tokens'') (\<lambda>hour. bind_res (int_field d ''week_cached_tokens'') (\<lambda>cached.
     bind_res (int_field d ''week_stt_calls'') (\<lambda>stt. bind_res (int_field d ''week_tts_calls'') (\<lambda>tts.
     bind_res (schema_of (if ''schema_version'' \<in> set (dkeys d) then jget d ''schema_version'' else JInt 1)) (\<lambda>schema.
       (let week_id = id_field d ''week_id'' (u_week_id m);
            (period_id, authority) = loaded_period E d schema week_id
        in load_supergrok E (jget d ''supergrok'')
          (m\<lparr>u_week_id := week_id, u_day_id := id_field d ''day_id'' (u_day_id m),
             u_hour_id := id_field d ''hour_id'' (u_hour_id m), u_week := week, u_day := day, u_hour := hour,
             u_cached := cached, u_stt := stt, u_tts := tts,
             u_last_record := as_str_opt (jget d ''last_record_at''),
             u_last_stop := as_str_opt (jget d ''last_hard_stop''),
             u_last_reason := as_str_opt (jget d ''last_hard_stop_reason''),
             u_override := (jget d ''hard_stop_override'' = JBool True),
             u_period_id := period_id, u_authority := authority\<rparr>)))))))))"

datatype usage_file = Missing | Unreadable | Document json

definition load_meter :: "usage_env \<Rightarrow> usage_settings \<Rightarrow> int \<Rightarrow> usage_file \<Rightarrow> usage_meter res" where
  "load_meter E S now f =
     (case f of
        Document (JObj d) \<Rightarrow>
          bind_res (apply_loaded E d (zero_state S now)) (\<lambda>m.
            Inr (sync_hard_stop E S now (refresh_windows S now m)))
      | _ \<Rightarrow> Inr (zero_state S now))"

subsection \<open>Operations\<close>

text \<open>The operations that persist: they change the refreshed meter, and take effect when the write does.\<close>

datatype usage_op =
    Set_Override bool
  | Apply_Credits credits_snapshot
  | Record_Usage "token_usage option" int
  | Record_Media string

definition record_tokens :: "usage_env \<Rightarrow> int \<Rightarrow> token_usage option \<Rightarrow> int \<Rightarrow> usage_meter \<Rightarrow> usage_meter" where
  "record_tokens E now usage estimated m =
     (let tokens = (case usage of Some u \<Rightarrow> max 0 (billable_tokens u) | None \<Rightarrow> max 0 estimated);
          cached = (case usage of Some u \<Rightarrow> max 0 (cached_tokens u) | None \<Rightarrow> 0)
      in if tokens = 0 \<and> cached = 0 then m
         else m\<lparr>u_week := u_week m + tokens, u_day := u_day m + tokens, u_hour := u_hour m + tokens,
                u_cached := u_cached m + cached, u_last_record := Some (to_iso_z E now)\<rparr>)"

definition media_kind :: "string \<Rightarrow> string" where
  "media_kind kind = lower (strip kind)"

definition op_effect :: "usage_env \<Rightarrow> usage_settings \<Rightarrow> int \<Rightarrow> usage_op \<Rightarrow> usage_meter \<Rightarrow> usage_meter res" where
  "op_effect E S now oper m =
     (case oper of
        Set_Override b \<Rightarrow> Inr (refresh_windows S now (m\<lparr>u_override := b\<rparr>))
      | Apply_Credits s \<Rightarrow> apply_snapshot E s (refresh_windows S now m)
      | Record_Usage u est \<Rightarrow> Inr (record_tokens E now u est (refresh_windows S now m))
      | Record_Media kind \<Rightarrow>
          (let r = refresh_windows S now m in
           if media_kind kind = ''stt'' then Inr (r\<lparr>u_stt := u_stt r + 1\<rparr>)
           else if media_kind kind = ''tts'' then Inr (r\<lparr>u_tts := u_tts r + 1\<rparr>)
           else Inl (ValueError ''record_media_call kind'')))"

definition usage_step ::
  "usage_env \<Rightarrow> usage_settings \<Rightarrow> int \<Rightarrow> bool \<Rightarrow> usage_op \<Rightarrow> usage_meter \<times> usage_file \<Rightarrow>
   unit res \<times> usage_meter \<times> usage_file" where
  "usage_step E S now written oper st =
     (case op_effect E S now oper (fst st) of
        Inl e \<Rightarrow> (Inl e, st)
      | Inr m \<Rightarrow>
          (let m1 = sync_hard_stop E S now m in
           if written then (Inr (), m1, Document (JObj (state_dict E S now m1))) else (Inl OSError, st)))"

text \<open>\<open>refresh_windows\<close> of the meter writes only after a roll.\<close>

definition refresh_step ::
  "usage_env \<Rightarrow> usage_settings \<Rightarrow> int \<Rightarrow> bool \<Rightarrow> usage_meter \<times> usage_file \<Rightarrow> unit res \<times> usage_meter \<times> usage_file" where
  "refresh_step E S now written st =
     (if \<not> windows_rolled S now (fst st) then (Inr (), st)
      else let m1 = sync_hard_stop E S now (refresh_windows S now (fst st)) in
        if written then (Inr (), m1, Document (JObj (state_dict E S now m1))) else (Inl OSError, st))"

definition can_call :: "usage_env \<Rightarrow> usage_settings \<Rightarrow> int \<Rightarrow> usage_meter \<Rightarrow> bool \<times> usage_meter" where
  "can_call E S now m =
     (let r = refresh_windows S now m
      in (\<not> us_enabled S \<or> u_override r \<or> hard_stop_level E S now r = None, r))"

definition remaining_tokens :: "usage_settings \<Rightarrow> int \<Rightarrow> usage_meter \<Rightarrow> (string \<times> int) list" where
  "remaining_tokens S now m =
     (let r = refresh_windows S now m; (week, day, hour) = compute_limits S
      in [(''week'', max 0 (week - u_week r)), (''day'', max 0 (day - u_day r)), (''hour'', max 0 (hour - u_hour r))])"

record usage_snapshot =
  us_week_fraction :: rat
  us_day_fraction :: rat
  us_hour_fraction :: rat
  us_hard_stop :: "string option"
  us_hard_stop_reason :: "string option"
  us_override_active :: bool
  us_limits :: "int \<times> int \<times> int"
  us_used :: "int \<times> int \<times> int"
  us_band :: string
  us_pace_ratio :: rat
  us_burst_remaining :: int
  us_burst_max :: int
  us_day_soft_exhausted :: bool
  us_hour_soft_exhausted :: bool

text \<open>The fields copied from the meter and the settings unchanged are left out of the view.\<close>

definition snapshot_of :: "usage_env \<Rightarrow> usage_settings \<Rightarrow> int \<Rightarrow> usage_meter \<Rightarrow> usage_snapshot" where
  "snapshot_of E S now m =
     (let (week, day, hour) = compute_limits S; (p, bmax, left, soft) = pace_metrics E S now m;
          level = hard_stop_level E S now m
      in \<lparr>us_week_fraction = remaining_fraction (u_week m) week,
          us_day_fraction = remaining_fraction (u_day m) day,
          us_hour_fraction = remaining_fraction (u_hour m) hour,
          us_hard_stop = level, us_hard_stop_reason = hard_stop_reason E S now m,
          us_override_active = u_override m, us_limits = (week, day, hour),
          us_used = (u_week m, u_day m, u_hour m), us_band = (if level \<noteq> None then ''hard'' else soft),
          us_pace_ratio = p, us_burst_remaining = py_round left, us_burst_max = py_round bmax,
          us_day_soft_exhausted = (u_day m \<ge> day), us_hour_soft_exhausted = (u_hour m \<ge> hour)\<rparr>)"

section \<open>The gate\<close>

text \<open>
  The world of a gated client: the meter with its file, a log of the week counter at every call of
  the inner client, and the world of the inner environment, which tells the time and how writes end.
\<close>

record 'w usage_world =
  uw_meter :: usage_meter
  uw_file :: usage_file
  uw_calls :: "int list"
  uw_rest :: 'w

record 'w usage_ports =
  up_env :: usage_env
  up_settings :: usage_settings
  up_now :: "'w \<Rightarrow> int"
  up_written :: "'w \<Rightarrow> bool"
  up_inner :: "message list \<Rightarrow> json option \<Rightarrow> 'w \<Rightarrow> (loop_exc + chat_completion \<times> token_usage option) \<times> 'w"

definition gated_chat ::
  "'w usage_ports \<Rightarrow> message list \<Rightarrow> json option \<Rightarrow> 'w usage_world \<Rightarrow>
   (loop_exc + chat_completion) \<times> 'w usage_world" where
  "gated_chat P ms choice w =
     (let E = up_env P; S = up_settings P;
          (ok, m) = can_call E S (up_now P (uw_rest w)) (uw_meter w); w1 = w\<lparr>uw_meter := m\<rparr>
      in if \<not> ok
         then (Inl (UsageHardStop (str_or (hard_stop_level E S (up_now P (uw_rest w)) m) ''week'')
                 (str_or (hard_stop_reason E S (up_now P (uw_rest w)) m) ''usage hard stop'')), w1)
         else case up_inner P ms choice (uw_rest w) of
             (Inl e, x) \<Rightarrow> (Inl e, w1\<lparr>uw_calls := uw_calls w @ [u_week m], uw_rest := x\<rparr>)
           | (Inr (c, usage), x) \<Rightarrow>
               (case usage_step E S (up_now P x) (up_written P x) (Record_Usage usage 0) (m, uw_file w) of
                  (Inl e, m', f) \<Rightarrow>
                    (Inl (Other_Error ''OSError'' ''usage''),
                     w1\<lparr>uw_meter := m', uw_file := f, uw_calls := uw_calls w @ [u_week m], uw_rest := x\<rparr>)
                | (Inr _, m', f) \<Rightarrow>
                    (Inr c, w1\<lparr>uw_meter := m', uw_file := f, uw_calls := uw_calls w @ [u_week m], uw_rest := x\<rparr>)))"

section \<open>Windows, levels and the pace\<close>

lemma refresh_cases:
  obtains (same) "\<not> windows_rolled S now m" "refresh_windows S now m = m"
  | (rolled) "windows_rolled S now m"
  using that by (auto simp: windows_rolled_def refresh_windows_def Let_def split: prod.splits)

lemma refresh_frame [simp]:
  "u_override (refresh_windows S now m) = u_override m"
  "u_authority (refresh_windows S now m) = u_authority m"
  "u_period_start (refresh_windows S now m) = u_period_start m"
  "u_period_end (refresh_windows S now m) = u_period_end m"
  "u_last_record (refresh_windows S now m) = u_last_record m"
  "sg_percent (refresh_windows S now m) = sg_percent m" "sg_product (refresh_windows S now m) = sg_product m"
  "sg_fetched (refresh_windows S now m) = sg_fetched m" "sg_status (refresh_windows S now m) = sg_status m"
  "sg_type (refresh_windows S now m) = sg_type m" "sg_unified (refresh_windows S now m) = sg_unified m"
  "sg_detail (refresh_windows S now m) = sg_detail m"
  by (simp_all add: refresh_windows_def zero_week_ledger_def Let_def split: prod.splits)

lemma refresh_ids [simp]:
  "(u_week_id (refresh_windows S now m), u_day_id (refresh_windows S now m), u_hour_id (refresh_windows S now m)) =
     window_ids now (hour_block_minutes S)"
  by (auto simp: refresh_windows_def zero_week_ledger_def Let_def split: prod.splits)

lemma refresh_refreshed: "\<not> windows_rolled S now m \<Longrightarrow> refresh_windows S now m = m"
  by (rule refresh_cases [of S now m]) auto

lemma refreshed: "\<not> windows_rolled S now (refresh_windows S now m)"
  unfolding windows_rolled_def refresh_ids by simp

lemma refresh_week: "u_week (refresh_windows S now m) \<in> {0, u_week m}"
  by (auto simp: refresh_windows_def zero_week_ledger_def Let_def split: prod.splits)

text \<open>More tokens never give a softer band.\<close>

definition band_rank :: "string \<Rightarrow> nat" where
  "band_rank b = (if b = ''green'' then 0 else if b = ''yellow'' then 1 else 2)"

lemma pace_ratio_mono: "s \<le> s' \<Longrightarrow> pace_ratio s B H t \<le> pace_ratio s' B H t"
  unfolding pace_ratio_def by (intro divide_right_mono mult_right_mono) (auto simp: EPS_HOURS_def intro!: mult_nonneg_nonneg)

lemma pace_band_monotone:
  assumes "s \<le> s'"
  shows "band_rank (compute_band s B H t k yellow red) \<le> band_rank (compute_band s' B H t k yellow red)"
proof -
  have "effective_overshoot s B H t \<le> effective_overshoot s' B H t"
    using assms by (simp add: effective_overshoot_def)
  then show ?thesis
    using pace_ratio_mono [OF assms, of B H t] by (auto simp: compute_band_def band_rank_def Let_def)
qed

section \<open>The file gives the meter back\<close>

text \<open>What every operation keeps of a meter: what the file can express of it.\<close>

definition meter_ok :: "usage_meter \<Rightarrow> bool" where
  "meter_ok m \<longleftrightarrow>
     u_week_id m \<noteq> [] \<and> u_day_id m \<noteq> [] \<and> u_hour_id m \<noteq> [] \<and> u_period_id m \<noteq> [] \<and>
     u_authority m \<in> {''iso'', ''supergrok''} \<and>
     0 \<le> u_week m \<and> 0 \<le> u_day m \<and> 0 \<le> u_hour m \<and> 0 \<le> u_cached m \<and> 0 \<le> u_stt m \<and> 0 \<le> u_tts m \<and>
     (case sg_product m of None \<Rightarrow> True | Some d \<Rightarrow> d \<noteq> [] \<and> distinct (dkeys d)) \<and>
     (u_authority m = ''iso'' \<longrightarrow>
        u_period_start m = None \<and> u_period_end m = None \<and> sg_percent m = None \<and> sg_product m = None \<and>
        sg_fetched m = None \<and> sg_status m = None \<and> sg_type m = None \<and> sg_unified m = None)"

lemma float_of_json [simp]: "float_of E (json_of_float f) = Inr (Some f)"
  by (simp add: float_of_def json_of_float_def)

lemma float_of_opt [simp]: "float_of E (opt_json json_of_float x) = Inr x"
  by (cases x) (simp_all add: opt_json_def, simp add: float_of_def)

lemma str_of_opt [simp]: "as_str_opt (opt_json JStr x) = x"
  by (cases x) (simp_all add: opt_json_def as_str_opt_def)

lemma bool_of_opt [simp]: "as_bool_opt (opt_json JBool x) = x"
  by (cases x) (simp_all add: opt_json_def as_bool_opt_def)

lemma product_entries:
  "distinct (map fst (out @ d)) \<Longrightarrow>
     foldl_res (product_entry E) out (map (\<lambda>(k, r, q). (k, JFloat r q)) d) = Inr (out @ d)"
proof (induction d arbitrary: out)
  case (Cons a d)
  obtain k r q where a: "a = (k, r, q)" by (rule prod_cases3)
  have "dset out k (r, q) = out @ [(k, r, q)]" using Cons.prems by (simp add: a) (induction out, auto)
  then show ?case using Cons.IH [of "out @ [a]"] Cons.prems by (simp add: a product_entry_def float_of_def)
qed simp

lemma coerce_of_opt [simp]:
  "case p of None \<Rightarrow> True | Some d \<Rightarrow> d \<noteq> [] \<and> distinct (dkeys d) \<Longrightarrow>
     coerce_product_usage E (opt_json json_of_product p) = Inr p"
  using product_entries [of "[]"]
  by (cases p) (simp_all add: opt_json_def json_of_product_def coerce_product_usage_def nonempty_opt_def)

lemma as_nonneg_JInt [simp]: "0 \<le> i \<Longrightarrow> as_nonneg_int (JInt i) = Inr i"
  by (simp add: as_nonneg_int_def)

lemma state_dict_fields:
  "jget (state_dict E S now m) ''schema_version'' = JInt 2"
  "jget (state_dict E S now m) ''period_id'' = JStr (u_period_id m)"
  "jget (state_dict E S now m) ''period_authority'' = JStr (u_authority m)"
  "jget (state_dict E S now m) ''week_id'' = JStr (u_week_id m)"
  "jget (state_dict E S now m) ''day_id'' = JStr (u_day_id m)"
  "jget (state_dict E S now m) ''hour_id'' = JStr (u_hour_id m)"
  "jget (state_dict E S now m) ''week_used_tokens'' = JInt (u_week m)"
  "jget (state_dict E S now m) ''day_used_tokens'' = JInt (u_day m)"
  "jget (state_dict E S now m) ''hour_used_tokens'' = JInt (u_hour m)"
  "jget (state_dict E S now m) ''week_cached_tokens'' = JInt (u_cached m)"
  "jget (state_dict E S now m) ''week_stt_calls'' = JInt (u_stt m)"
  "jget (state_dict E S now m) ''week_tts_calls'' = JInt (u_tts m)"
  "jget (state_dict E S now m) ''last_record_at'' = opt_json JStr (u_last_record m)"
  "jget (state_dict E S now m) ''last_hard_stop'' = opt_json JStr (u_last_stop m)"
  "jget (state_dict E S now m) ''last_hard_stop_reason'' = opt_json JStr (u_last_reason m)"
  "jget (state_dict E S now m) ''hard_stop_override'' = JBool (u_override m)"
  "jget (state_dict E S now m) ''supergrok'' = (case supergrok_state m of None \<Rightarrow> JNull | Some sg \<Rightarrow> JObj sg)"
  "''schema_version'' \<in> set (dkeys (state_dict E S now m))"
  by (simp_all add: state_dict_def jget_def split: option.split)

lemma load_supergrok_written:
  assumes "meter_ok m" and "sg_percent z = None" and "u_period_start z = None" and "u_period_end z = None"
    and "sg_status z = None" and "sg_fetched z = None" and "sg_type z = None" and "sg_unified z = None"
    and "sg_product z = None"
  shows "load_supergrok E (case supergrok_state m of None \<Rightarrow> JNull | Some sg \<Rightarrow> JObj sg) z =
    Inr (z\<lparr>sg_percent := sg_percent m, u_period_start := u_period_start m, u_period_end := u_period_end m,
           sg_status := sg_status m, sg_fetched := sg_fetched m, sg_type := sg_type m,
           sg_unified := sg_unified m, sg_product := sg_product m\<rparr>)"
proof (cases "supergrok_state m")
  case None
  then have "u_authority m = ''iso''" using assms(1) by (auto simp: supergrok_state_def meter_ok_def split: if_splits)
  then show ?thesis using None assms by (simp add: load_supergrok_def meter_ok_def)
next
  case (Some sg)
  have "case sg_product m of None \<Rightarrow> True | Some d \<Rightarrow> d \<noteq> [] \<and> distinct (dkeys d)"
    using assms(1) by (simp add: meter_ok_def)
  note coerce_of_opt [OF this, of E, simp]
  have keep: "or_keep x None = x" for x :: "'a option" by (cases x) (simp_all add: or_keep_def)
  have "jget sg ''credit_usage_percent'' = opt_json json_of_float (sg_percent m)"
    "jget sg ''period_start'' = opt_json JStr (u_period_start m)" "jget sg ''period_end'' = opt_json JStr (u_period_end m)"
    "jget sg ''period_type'' = opt_json JStr (sg_type m)" "jget sg ''is_unified'' = opt_json JBool (sg_unified m)"
    "jget sg ''product_usage'' = opt_json json_of_product (sg_product m)"
    "jget sg ''fetched_at'' = opt_json JStr (sg_fetched m)" "jget sg ''status'' = opt_json JStr (sg_status m)"
    using Some by (auto simp: supergrok_state_def jget_def split: if_splits)
  then show ?thesis by (simp add: Some load_supergrok_def assms keep)
qed

lemma zero_state_fields:
  "sg_percent (zero_state S now) = None" "u_period_start (zero_state S now) = None"
  "u_period_end (zero_state S now) = None" "sg_status (zero_state S now) = None"
  "sg_fetched (zero_state S now) = None" "sg_type (zero_state S now) = None"
  "sg_unified (zero_state S now) = None" "sg_product (zero_state S now) = None"
  "sg_detail (zero_state S now) = None"
  by (simp_all add: zero_state_def split: prod.split)

lemma apply_loaded_written:
  assumes "meter_ok m"
  shows "apply_loaded E (state_dict E S now m) (zero_state S now') = Inr (m\<lparr>sg_detail := None\<rparr>)"
proof -
  have ids: "id_field (state_dict E S now m) ''week_id'' x = u_week_id m"
    "id_field (state_dict E S now m) ''day_id'' x = u_day_id m"
    "id_field (state_dict E S now m) ''hour_id'' x = u_hour_id m" for x
    using assms by (simp_all add: id_field_def state_dict_fields meter_ok_def)
  have ints: "int_field (state_dict E S now m) ''week_used_tokens'' = Inr (u_week m)"
    "int_field (state_dict E S now m) ''day_used_tokens'' = Inr (u_day m)"
    "int_field (state_dict E S now m) ''hour_used_tokens'' = Inr (u_hour m)"
    "int_field (state_dict E S now m) ''week_cached_tokens'' = Inr (u_cached m)"
    "int_field (state_dict E S now m) ''week_stt_calls'' = Inr (u_stt m)"
    "int_field (state_dict E S now m) ''week_tts_calls'' = Inr (u_tts m)"
    using assms by (simp_all add: int_field_def state_dict_fields meter_ok_def)
  have period: "loaded_period E (state_dict E S now m) 2 (u_week_id m) = (u_period_id m, u_authority m)"
    using assms by (auto simp: loaded_period_def state_dict_fields meter_ok_def)
  have schema: "schema_of (JInt 2) = Inr 2" by (simp add: schema_of_def)
  have key: "''schema_version'' \<in> fst ` set (state_dict E S now m)"
    using state_dict_fields(18) by (simp only: set_map)
  show ?thesis
    by (simp add: apply_loaded_def state_dict_fields ids ints period schema key
        load_supergrok_written [OF assms] zero_state_fields)
qed

lemma level_detail [simp]:
  "hard_stop_level E S now (m\<lparr>sg_detail := d\<rparr>) = hard_stop_level E S now m"
  "hard_stop_reason E S now (m\<lparr>sg_detail := d\<rparr>) = hard_stop_reason E S now m"
  by (simp_all add: hard_stop_level_def hard_stop_reason_def account_usage_def split_beta cong: option.case_cong if_cong)

lemma level_sync [simp]:
  "hard_stop_level E S now (sync_hard_stop E S now m) = hard_stop_level E S now m"
  "hard_stop_reason E S now (sync_hard_stop E S now m) = hard_stop_reason E S now m"
  by (simp_all add: sync_hard_stop_def hard_stop_level_def hard_stop_reason_def account_usage_def split_beta cong: option.case_cong if_cong)

lemma sync_sync: "sync_hard_stop E S now ((sync_hard_stop E S now m)\<lparr>sg_detail := d\<rparr>) = (sync_hard_stop E S now m)\<lparr>sg_detail := d\<rparr>"
  using level_sync [of E S now m] by (simp add: sync_hard_stop_def)

lemma rolled_sync [simp]:
  "windows_rolled S now (sync_hard_stop E S now m) = windows_rolled S now m"
  "windows_rolled S now (m\<lparr>sg_detail := d\<rparr>) = windows_rolled S now m"
  by (simp_all add: windows_rolled_def sync_hard_stop_def)

lemma ok_sync [simp]: "meter_ok (sync_hard_stop E S now m) = meter_ok m"
  by (simp add: meter_ok_def sync_hard_stop_def)

lemma load_written:
  assumes "meter_ok m" and "\<not> windows_rolled S now m"
  shows "load_meter E S now (Document (JObj (state_dict E S now (sync_hard_stop E S now m)))) =
    Inr ((sync_hard_stop E S now m)\<lparr>sg_detail := None\<rparr>)"
  using assms by (simp add: load_meter_def apply_loaded_written refresh_refreshed sync_sync)

subsection \<open>Operations keep the meter well formed and its windows current\<close>

lemma window_ids_nonempty:
  "window_ids now b = (w, d, h) \<Longrightarrow> w \<noteq> [] \<and> d \<noteq> [] \<and> h \<noteq> []"
  by (auto simp: window_ids_def Let_def split: prod.splits if_splits)

lemma zero_state_ok [simp]: "meter_ok (zero_state S now)"
  using window_ids_nonempty by (auto simp: meter_ok_def zero_state_def split: prod.split)

lemma refresh_ok [simp]:
  assumes "meter_ok m"
  shows "meter_ok (refresh_windows S now m)"
proof -
  obtain w d h where ids: "window_ids now (hour_block_minutes S) = (w, d, h)" by (rule prod_cases3)
  then have "w \<noteq> []" "d \<noteq> []" "h \<noteq> []" using window_ids_nonempty by blast+
  then show ?thesis
    using assms by (auto simp: refresh_windows_def zero_week_ledger_def ids meter_ok_def Let_def)
qed

lemma product_entry_distinct:
  "product_entry E out kv = Inr out' \<Longrightarrow> distinct (dkeys out) \<Longrightarrow> distinct (dkeys out')"
  by (auto simp: product_entry_def res_simps split: option.splits)

lemma product_row_distinct:
  "product_row E out j = Inr out' \<Longrightarrow> distinct (dkeys out) \<Longrightarrow> distinct (dkeys out')"
  by (auto simp: product_row_def Let_def split: json.splits if_splits intro: product_entry_distinct)

lemma foldl_res_distinct:
  "foldl_res f out xs = Inr out' \<Longrightarrow> distinct (dkeys out) \<Longrightarrow>
    (\<And>a x b. f a x = Inr b \<Longrightarrow> distinct (dkeys a) \<Longrightarrow> distinct (dkeys b)) \<Longrightarrow> distinct (dkeys out')"
  by (induction xs arbitrary: out) (auto simp: res_simps)

lemma coerce_distinct:
  assumes "coerce_product_usage E j = Inr (Some d)"
  shows "d \<noteq> [] \<and> distinct (dkeys d)"
proof -
  have "d \<noteq> [] \<and> (\<exists>xs. foldl_res (product_entry E) [] xs = Inr d \<or> (\<exists>ys. foldl_res (product_row E) [] ys = Inr d))"
    using assms by (auto simp: coerce_product_usage_def nonempty_opt_def res_simps split: json.splits if_splits)
  moreover have "foldl_res (product_entry E) [] xs = Inr d \<Longrightarrow> distinct (dkeys d)" for xs
    by (erule foldl_res_distinct) (auto intro: product_entry_distinct)
  moreover have "foldl_res (product_row E) [] ys = Inr d \<Longrightarrow> distinct (dkeys d)" for ys
    by (erule foldl_res_distinct) (auto intro: product_row_distinct)
  ultimately show ?thesis by blast
qed

lemma adopt_frame:
  assumes "meter_ok m" and "new_id \<noteq> []"
  shows "meter_ok (adopt_period new_id a b m)" and "u_authority (adopt_period new_id a b m) = ''supergrok''"
    and "windows_rolled S now (adopt_period new_id a b m) = windows_rolled S now m"
  using assms by (auto simp: adopt_period_def meter_ok_def zero_week_ledger_def windows_rolled_def)

lemma refresh_account_ok:
  assumes "refresh_account E s m = Inr m'" and "meter_ok m" and "u_authority m = ''supergrok''"
  shows "meter_ok m'" and "windows_rolled S now m' = windows_rolled S now m"
proof -
  obtain p where p: "coerce_product_usage E (cs_product s) = Inr p"
    and m': "m' = m\<lparr>sg_percent := or_keep (cs_percent s) (sg_percent m), sg_product := or_keep p (sg_product m),
              sg_fetched := or_keep (cs_fetched s) (sg_fetched m), sg_status := Some ''ok'',
              sg_type := or_keep (cs_type s) (sg_type m), sg_unified := or_keep (cs_unified s) (sg_unified m),
              sg_detail := or_keep (cs_detail s) (sg_detail m)\<rparr>"
    using assms(1) by (auto simp: refresh_account_def res_simps)
  have "case or_keep p (sg_product m) of None \<Rightarrow> True | Some d \<Rightarrow> d \<noteq> [] \<and> distinct (dkeys d)"
    using assms(2) coerce_distinct [of E "cs_product s"] p by (cases p) (simp_all add: or_keep_def meter_ok_def)
  then show "meter_ok m'" using assms(2,3) by (simp add: meter_ok_def m')
  show "windows_rolled S now m' = windows_rolled S now m" by (simp add: m' windows_rolled_def)
qed

lemma period_id_nonempty: "str_or i (canonical_period_id a b) \<noteq> []"
  by (cases i) (simp_all add: str_or_def canonical_period_id_def)

lemma apply_snapshot_ok:
  assumes "apply_snapshot E s m = Inr m'" and "meter_ok m"
  shows "meter_ok m'" and "windows_rolled S now m' = windows_rolled S now m"
proof -
  define m1 where "m1 = (case parseable_period E s of
      Some (a, b) \<Rightarrow> if snapshot_is_ok s then adopt_period (str_or (cs_id s) (canonical_period_id a b)) a b m else m
    | None \<Rightarrow> m)"
  have m1: "meter_ok m1" "windows_rolled S now m1 = windows_rolled S now m"
    "snapshot_is_ok s \<Longrightarrow> parseable_period E s \<noteq> None \<Longrightarrow> u_authority m1 = ''supergrok''"
    using assms(2) period_id_nonempty by (auto simp: m1_def adopt_frame split: option.split)
  consider d where "m' = m1\<lparr>sg_detail := d\<rparr>"
    | "refresh_account E s m1 = Inr m'" "u_authority m1 = ''supergrok''"
    using assms(1) m1(3) unfolding apply_snapshot_def Let_def m1_def [symmetric] by (auto split: if_splits)
  then have "meter_ok m' \<and> windows_rolled S now m' = windows_rolled S now m"
  proof cases
    case (1 d)
    then show ?thesis using m1 by (simp add: meter_ok_def)
  qed (use refresh_account_ok m1 in blast)
  then show "meter_ok m'" and "windows_rolled S now m' = windows_rolled S now m" by simp_all
qed

lemma record_tokens_ok:
  "meter_ok m \<Longrightarrow> meter_ok (record_tokens E now u est m)"
  "windows_rolled S now (record_tokens E now u est m) = windows_rolled S now m"
  by (simp_all add: record_tokens_def Let_def meter_ok_def windows_rolled_def split: option.split)

lemma op_effect_ok:
  assumes "op_effect E S now oper m = Inr m'" and "meter_ok m"
  shows "meter_ok m'" and "\<not> windows_rolled S now m'"
proof -
  have r: "meter_ok (refresh_windows S now m)" by (rule refresh_ok [OF assms(2)])
  have "meter_ok m' \<and> \<not> windows_rolled S now m'"
  proof (cases oper)
    case (Set_Override b)
    have "meter_ok (m\<lparr>u_override := b\<rparr>)" using assms(2) by (simp add: meter_ok_def)
    then show ?thesis using assms(1) Set_Override by (auto simp: op_effect_def refreshed)
  next
    case (Apply_Credits s)
    then show ?thesis
      using assms(1) apply_snapshot_ok [OF _ r, of E s m'] by (auto simp: op_effect_def refreshed)
  next
    case (Record_Usage u est)
    then have "m' = record_tokens E now u est (refresh_windows S now m)" using assms(1) by (simp add: op_effect_def)
    then show ?thesis using record_tokens_ok r refreshed by simp
  next
    case (Record_Media kind)
    then show ?thesis
      using assms(1) r refreshed [of S now m]
      by (auto simp: op_effect_def Let_def meter_ok_def windows_rolled_def split: if_splits)
  qed
  then show "meter_ok m'" and "\<not> windows_rolled S now m'" by simp_all
qed

text \<open>
  C34. The usage file gives the meter back, or nothing changed. When an operation of the meter (a
  recorded completion or media call, a changed override, an applied credits snapshot) returns, loading the
  file at that time gives the meter in memory, all counters, periods, hard stops, the override
  and the account snapshot included (the diagnostic detail alone is not stored); when it raises, meter and
  file are what they were.
\<close>

theorem usage_file_gives_meter_back:
  assumes "meter_ok m" and "usage_step E S now written oper (m, f) = (r, m', f')"
  shows "case r of Inr _ \<Rightarrow> meter_ok m' \<and> load_meter E S now f' = Inr (m'\<lparr>sg_detail := None\<rparr>)
         | Inl e \<Rightarrow> m' = m \<and> f' = f"
proof (cases "op_effect E S now oper m")
  case (Inl e)
  then show ?thesis using assms(2) by (auto simp: usage_step_def)
next
  case (Inr m1)
  note ok = op_effect_ok [OF Inr assms(1)]
  show ?thesis
  proof (cases written)
    case True
    then have "r = Inr ()" "m' = sync_hard_stop E S now m1"
      "f' = Document (JObj (state_dict E S now (sync_hard_stop E S now m1)))"
      using assms(2) Inr by (auto simp: usage_step_def Let_def)
    then show ?thesis using ok load_written [OF ok] by simp
  next
    case False
    then show ?thesis using assms(2) Inr by (auto simp: usage_step_def Let_def)
  qed
qed

definition usage_demo_env :: usage_env where
  "usage_demo_env = \<lparr>from_iso = (\<lambda>s. if s = ''A'' then Some 1785110400000000 else if s = ''B'' then Some 1785715200000000 else None),
     to_iso_z = (\<lambda>t. ''T''), int_float = (\<lambda>i. Some (int_str i, Some (of_int i))), g_format = (\<lambda>q. ''g'')\<rparr>"

definition usage_demo_settings :: usage_settings where
  "usage_demo_settings = \<lparr>us_enabled = True, weekly_allowed_tokens = 100, hour_block_minutes = 60,
     day_allowed_tokens = None, hour_allowed_tokens = None, day_hard_stop_enabled = False,
     hour_hard_stop_enabled = False, account_hard_stop_percent = 95, pace_yellow_ratio = 1,
     pace_red_ratio = 3 / 2, burst_hours = 4, credits_stale_after_s = 3600\<rparr>"

definition usage_demo_now :: int where "usage_demo_now = 1785200000000000"

definition usage_demo_snapshot :: credits_snapshot where
  "usage_demo_snapshot = \<lparr>cs_percent = Some (''22.0'', Some 22), cs_start = Some ''A'', cs_end = Some ''B'',
     cs_id = None, cs_type = None, cs_unified = Some True, cs_product = JObj [(''Build'', JFloat ''18.0'' (Some 18))],
     cs_fetched = Some ''B'', cs_status = Some ''ok'', cs_detail = None, cs_ok = None\<rparr>"

definition usage_demo_meter :: usage_meter where
  "usage_demo_meter = (zero_state usage_demo_settings usage_demo_now)\<lparr>u_week := 90\<rparr>"

theorem usage_file_gives_meter_back_witness:
  "\<exists>m' f'. usage_step usage_demo_env usage_demo_settings usage_demo_now True (Apply_Credits usage_demo_snapshot)
      (usage_demo_meter, Missing) = (Inr (), m', f') \<and> u_week m' = 90 \<and> u_period_id m' = ''A/B'' \<and>
    load_meter usage_demo_env usage_demo_settings usage_demo_now f' = Inr (m'\<lparr>sg_detail := None\<rparr>)"
proof -
  let ?r = "usage_step usage_demo_env usage_demo_settings usage_demo_now True (Apply_Credits usage_demo_snapshot)
      (usage_demo_meter, Missing)"
  have ok: "meter_ok usage_demo_meter"
    using zero_state_ok [of usage_demo_settings usage_demo_now] by (simp add: usage_demo_meter_def meter_ok_def)
  let ?e = "op_effect usage_demo_env usage_demo_settings usage_demo_now (Apply_Credits usage_demo_snapshot) usage_demo_meter"
  have "map_sum (\<lambda>e. e) (\<lambda>m. (u_week m, u_period_id m)) ?e = Inr (90, ''A/B'')" by code_simp
  then obtain m1 where m1: "?e = Inr m1" "u_week m1 = 90" "u_period_id m1 = ''A/B''" by (cases ?e) auto
  obtain m' f' where r: "?r = (Inr (), m', f')" and m': "m' = sync_hard_stop usage_demo_env usage_demo_settings usage_demo_now m1"
    using m1(1) by (simp add: usage_step_def Let_def)
  then show ?thesis using usage_file_gives_meter_back [OF ok r] m1 by (auto simp: sync_hard_stop_def)
qed

section \<open>Loading\<close>

lemma as_nonneg_Inl: "as_nonneg_int j = Inl e \<Longrightarrow> e = OverflowError"
  by (auto simp: as_nonneg_int_def split: json.splits sum.splits pyerr.splits)

lemma schema_Inl: "schema_of j = Inl e \<Longrightarrow> e = OverflowError"
  by (auto simp: schema_of_def split: json.splits sum.splits pyerr.splits)

lemma float_of_Inl: "float_of E j = Inl e \<Longrightarrow> e = OverflowError"
  by (auto simp: float_of_def split: json.splits option.splits)

lemma product_entry_Inl: "product_entry E out kv = Inl e \<Longrightarrow> e = OverflowError"
  by (auto simp: product_entry_def res_simps dest: float_of_Inl)

lemma product_row_Inl: "product_row E out j = Inl e \<Longrightarrow> e = OverflowError"
  by (auto simp: product_row_def Let_def split: json.splits if_splits dest: product_entry_Inl)

lemma foldl_res_Inl:
  "foldl_res f out xs = Inl e \<Longrightarrow> (\<And>a x. f a x = Inl e \<Longrightarrow> Q e) \<Longrightarrow> Q e"
  by (induction xs arbitrary: out) (auto simp: res_simps)

lemma coerce_Inl: "coerce_product_usage E j = Inl e \<Longrightarrow> e = OverflowError"
  by (auto simp: coerce_product_usage_def res_simps split: json.splits
      elim!: foldl_res_Inl intro: product_entry_Inl product_row_Inl)

lemma load_supergrok_Inl: "load_supergrok E j m = Inl e \<Longrightarrow> e = OverflowError"
  by (auto simp: load_supergrok_def res_simps split: json.splits dest: float_of_Inl coerce_Inl)

lemma load_supergrok_override: "load_supergrok E j m = Inr m' \<Longrightarrow> u_override m' = u_override m"
  by (auto simp: load_supergrok_def res_simps split: json.splits)

lemma apply_loaded_override:
  assumes "apply_loaded E d z = Inr m"
  shows "u_override m \<longleftrightarrow> jget d ''hard_stop_override'' = JBool True"
proof -
  have "\<exists>z'. u_override z' = (jget d ''hard_stop_override'' = JBool True) \<and>
      load_supergrok E (jget d ''supergrok'') z' = Inr m"
    using assms unfolding apply_loaded_def Let_def split_beta bind_res_eq_Inr
    by (elim exE conjE) (rule exI, rule conjI [rotated], assumption, simp)
  then show ?thesis using load_supergrok_override by blast
qed

lemma apply_loaded_Inl: "apply_loaded E d z = Inl e \<Longrightarrow> e = OverflowError"
  unfolding apply_loaded_def int_field_def Let_def split_beta
  by (auto simp only: bind_res_eq_Inl dest: as_nonneg_Inl schema_Inl load_supergrok_Inl)

text \<open>
  Loading is fail-soft but for one hole. A missing, unreadable or odd usage file gives a fresh or
  partly filled meter, never an exception, except that a number that overflows (an infinite counter) in a
  JSON object raises; and no file turns the override on unless it holds the value true there.
\<close>

theorem usage_load_is_fail_soft:
  "case load_meter E S now f of
     Inl e \<Rightarrow> e = OverflowError \<and> (\<exists>d. f = Document (JObj d))
   | Inr m \<Rightarrow> u_override m \<longrightarrow> (\<exists>d. f = Document (JObj d) \<and> jget d ''hard_stop_override'' = JBool True)"
proof (cases "\<exists>d. f = Document (JObj d)")
  case False
  then have "load_meter E S now f = Inr (zero_state S now)"
    by (auto simp: load_meter_def split: usage_file.split json.split)
  then show ?thesis by (simp add: zero_state_def split: prod.split)
next
  case True
  then obtain d where f: "f = Document (JObj d)" by blast
  show ?thesis
  proof (cases "apply_loaded E d (zero_state S now)")
    case (Inl e)
    then show ?thesis using apply_loaded_Inl [OF Inl] by (simp add: f load_meter_def)
  next
    case (Inr m)
    then show ?thesis using apply_loaded_override [OF Inr] by (simp add: f load_meter_def sync_hard_stop_def)
  qed
qed

theorem usage_load_is_fail_soft_witness:
  "\<not> (\<exists>m. load_meter usage_demo_env usage_demo_settings usage_demo_now
             (Document (JObj [(''hard_stop_override'', JStr ''true'')])) = Inr m \<and> u_override m)"
  using usage_load_is_fail_soft [where E = usage_demo_env and S = usage_demo_settings and now = usage_demo_now
    and f = "Document (JObj [(''hard_stop_override'', JStr ''true'')])"]
  by (auto simp: jget_def)

lemma infinite_counter_stops_load:
  "load_meter E S now (Document (JObj [(''week_used_tokens'', JFloat ''inf'' None)])) = Inl OverflowError"
  by (simp add: load_meter_def apply_loaded_def int_field_def jget_def as_nonneg_int_def)

section \<open>Credits snapshots\<close>

text \<open>
  C35. A credits snapshot moves the billing period and nothing else of the ledger. A snapshot zeroes the
  week counters exactly when it is a good reading of another period than the one adopted before; the first
  adoption keeps what was used. It never touches the day, the hour, the override or the last record,
  and one that is not good changes only the diagnostic detail.
\<close>

theorem credits_snapshot_effect:
  assumes "apply_snapshot E s m = Inr m'"
  shows "(u_week m', u_cached m', u_stt m', u_tts m') =
      (case parseable_period E s of
         Some (a, b) \<Rightarrow>
           if snapshot_is_ok s \<and> u_authority m = ''supergrok'' \<and>
              \<not> is_provisional_iso_period (u_period_id m) (u_week_id m) (u_authority m) \<and>
              str_or (cs_id s) (canonical_period_id a b) \<noteq> u_period_id m
           then (0, 0, 0, 0) else (u_week m, u_cached m, u_stt m, u_tts m)
       | None \<Rightarrow> (u_week m, u_cached m, u_stt m, u_tts m)) \<and>
    (u_day m', u_hour m', u_override m', u_last_record m') = (u_day m, u_hour m, u_override m, u_last_record m) \<and>
    (\<not> snapshot_is_ok s \<longrightarrow> (\<exists>d. m' = m\<lparr>sg_detail := d\<rparr>))"
proof -
  define m1 where "m1 = (case parseable_period E s of
      Some (a, b) \<Rightarrow> if snapshot_is_ok s then adopt_period (str_or (cs_id s) (canonical_period_id a b)) a b m else m
    | None \<Rightarrow> m)"
  have keep: "(u_week m', u_cached m', u_stt m', u_tts m') = (u_week m1, u_cached m1, u_stt m1, u_tts m1)"
    "(u_day m', u_hour m', u_override m', u_last_record m') = (u_day m1, u_hour m1, u_override m1, u_last_record m1)"
    "\<not> snapshot_is_ok s \<Longrightarrow> \<exists>d. m' = m1\<lparr>sg_detail := d\<rparr>"
    using assms unfolding apply_snapshot_def Let_def m1_def [symmetric]
    by (auto simp: refresh_account_def res_simps split: if_splits)
  have "\<not> snapshot_is_ok s \<Longrightarrow> m1 = m" by (auto simp: m1_def split: option.split)
  moreover have "(u_day m1, u_hour m1, u_override m1, u_last_record m1) = (u_day m, u_hour m, u_override m, u_last_record m)"
    by (simp add: m1_def adopt_period_def zero_week_ledger_def split: option.split)
  moreover have "(u_week m1, u_cached m1, u_stt m1, u_tts m1) =
      (case parseable_period E s of
         Some (a, b) \<Rightarrow>
           if snapshot_is_ok s \<and> u_authority m = ''supergrok'' \<and>
              \<not> is_provisional_iso_period (u_period_id m) (u_week_id m) (u_authority m) \<and>
              str_or (cs_id s) (canonical_period_id a b) \<noteq> u_period_id m
           then (0, 0, 0, 0) else (u_week m, u_cached m, u_stt m, u_tts m)
       | None \<Rightarrow> (u_week m, u_cached m, u_stt m, u_tts m))"
    by (auto simp: m1_def adopt_period_def zero_week_ledger_def split: option.split)
  ultimately show ?thesis using keep by simp
qed

theorem credits_snapshot_effect_witness:
  "\<exists>m'. apply_snapshot usage_demo_env usage_demo_snapshot
       (usage_demo_meter\<lparr>u_authority := ''supergrok'', u_period_id := ''X/Y''\<rparr>) = Inr m' \<and> u_week m' = 0 \<and>
     u_override m' = u_override usage_demo_meter"
proof -
  let ?m = "usage_demo_meter\<lparr>u_authority := ''supergrok'', u_period_id := ''X/Y''\<rparr>"
  have "map_sum (\<lambda>e. e) u_week (apply_snapshot usage_demo_env usage_demo_snapshot ?m) = Inr 0" by code_simp
  then obtain m' where m': "apply_snapshot usage_demo_env usage_demo_snapshot ?m = Inr m'" "u_week m' = 0"
    by (cases "apply_snapshot usage_demo_env usage_demo_snapshot ?m") auto
  then show ?thesis using credits_snapshot_effect [OF m'(1)] by simp
qed

section \<open>The gated loop\<close>

definition lift_step :: "('w \<Rightarrow> 'a \<times> 'w) \<Rightarrow> 'w usage_world \<Rightarrow> 'a \<times> 'w usage_world" where
  "lift_step f w = (let (a, x) = f (uw_rest w) in (a, w\<lparr>uw_rest := x\<rparr>))"

definition lift_update :: "('w \<Rightarrow> 'w) \<Rightarrow> 'w usage_world \<Rightarrow> 'w usage_world" where
  "lift_update g w = w\<lparr>uw_rest := g (uw_rest w)\<rparr>"

definition lift_tool ::
  "(string \<Rightarrow> jdict \<Rightarrow> 'w \<Rightarrow> 'a \<times> 'b \<times> 'w) \<Rightarrow> string \<Rightarrow> jdict \<Rightarrow> 'w usage_world \<Rightarrow> 'a \<times> 'b \<times> 'w usage_world" where
  "lift_tool f n args w = (let (r, hs, x) = f n args (uw_rest w) in (r, hs, w\<lparr>uw_rest := x\<rparr>))"

text \<open>An environment of the do-loop with its model behind the gate; the meter is reached by the gate only.\<close>

definition gated_env :: "'w usage_ports \<Rightarrow> 'w loop_env \<Rightarrow> 'w usage_world loop_env" where
  "gated_env P E =
     \<lparr>clock = lift_step (clock E), chat = gated_chat P, run_tool = lift_tool (run_tool E),
      rebuild_outer = map_option lift_step (rebuild_outer E),
      drain_interjections_fn = map_option lift_step (drain_interjections_fn E),
      viewing_dirty_fn = map_option lift_step (viewing_dirty_fn E),
      clear_viewing_dirty_fn = map_option lift_update (clear_viewing_dirty_fn E),
      host_spoke = map_option lift_update (host_spoke E), host_task = map_option lift_update (host_task E),
      append_beat = map_option (\<lambda>f m b. lift_step (f m b)) (append_beat E),
      promote = map_option (\<lambda>f m b. lift_update (f m b)) (promote E),
      sleep = (\<lambda>d. lift_update (sleep E d)), loads = loads E\<rparr>"

definition week_limit :: "'w usage_ports \<Rightarrow> int" where
  "week_limit P = fst (compute_limits (up_settings P))"

text \<open>Every completion of the inner client bills at most \<open>M\<close> tokens.\<close>

definition inner_bounded :: "'w usage_ports \<Rightarrow> int \<Rightarrow> bool" where
  "inner_bounded P M \<longleftrightarrow> 0 \<le> M \<and>
     (\<forall>ms c x r u y. up_inner P ms c x = (Inr (r, Some u), y) \<longrightarrow> billable_tokens u \<le> M)"

definition guarded :: "'w usage_ports \<Rightarrow> 'w usage_world \<Rightarrow> bool" where
  "guarded P w \<longleftrightarrow> us_enabled (up_settings P) \<and> \<not> u_override (uw_meter w)"

definition spends :: "'w usage_ports \<Rightarrow> int \<Rightarrow> 'w usage_world \<Rightarrow> 'w usage_world \<Rightarrow> bool" where
  "spends P M w w' \<longleftrightarrow>
     u_override (uw_meter w') = u_override (uw_meter w) \<and>
     (guarded P w \<longrightarrow>
        (\<exists>k. uw_calls w' = uw_calls w @ k \<and> (\<forall>used\<in>set k. used < week_limit P)) \<and>
        (inner_bounded P M \<longrightarrow> u_week (uw_meter w') \<le> max (u_week (uw_meter w)) (week_limit P - 1 + M)))"

lemma spends_refl: "uw_meter w' = uw_meter w \<Longrightarrow> uw_calls w' = uw_calls w \<Longrightarrow> spends P M w w'"
  by (auto simp: spends_def)

lemma spends_trans: "spends P M u v \<Longrightarrow> spends P M v w \<Longrightarrow> spends P M u w"
  unfolding spends_def guarded_def by (elim conjE) (intro conjI impI; force)

lemma week_limit_pos: "1 \<le> week_limit P"
  by (simp add: week_limit_def compute_limits_def Let_def)

lemma level_None_week: "hard_stop_level E S now m = None \<Longrightarrow> u_week m < fst (compute_limits S)"
  by (auto simp: hard_stop_level_def hard_level_def split_beta split: if_splits)

lemma op_record_week:
  assumes "usage_step E S now written (Record_Usage u est) (m, f) = (r, m', f')"
  shows "u_override m' = u_override m" and
    "u_week m' \<le> max (u_week m) 0 + (case u of Some v \<Rightarrow> max 0 (billable_tokens v) | None \<Rightarrow> max 0 est)"
proof -
  let ?r = "refresh_windows S now m"
  have "m' = m \<or> m' = sync_hard_stop E S now (record_tokens E now u est ?r)"
    using assms by (auto simp: usage_step_def op_effect_def Let_def split: if_splits)
  moreover have "u_week (sync_hard_stop E S now (record_tokens E now u est ?r)) \<le>
      u_week ?r + (case u of Some v \<Rightarrow> max 0 (billable_tokens v) | None \<Rightarrow> max 0 est)"
    "u_override (sync_hard_stop E S now (record_tokens E now u est ?r)) = u_override m"
    by (simp_all add: sync_hard_stop_def record_tokens_def Let_def split: option.split)
  moreover have "u_week ?r \<le> max (u_week m) 0" using refresh_week [of S now m] by auto
  ultimately show "u_override m' = u_override m"
    "u_week m' \<le> max (u_week m) 0 + (case u of Some v \<Rightarrow> max 0 (billable_tokens v) | None \<Rightarrow> max 0 est)"
    by (auto split: option.splits)
qed

lemma gate_cases:
  obtains (refused) m where "snd (gated_chat P ms c w) = w\<lparr>uw_meter := m\<rparr>"
      "m = refresh_windows (up_settings P) (up_now P (uw_rest w)) (uw_meter w)"
  | (failed) m x where "snd (gated_chat P ms c w) = w\<lparr>uw_meter := m, uw_calls := uw_calls w @ [u_week m], uw_rest := x\<rparr>"
      "m = refresh_windows (up_settings P) (up_now P (uw_rest w)) (uw_meter w)"
      "guarded P w \<Longrightarrow> u_week m < week_limit P"
  | (called) m x r u y m' f where "up_inner P ms c (uw_rest w) = (Inr (r, u), x)"
      "usage_step (up_env P) (up_settings P) (up_now P x) (up_written P x) (Record_Usage u 0) (m, uw_file w) = (y, m', f)"
      "snd (gated_chat P ms c w) = w\<lparr>uw_meter := m', uw_file := f, uw_calls := uw_calls w @ [u_week m], uw_rest := x\<rparr>"
      "m = refresh_windows (up_settings P) (up_now P (uw_rest w)) (uw_meter w)"
      "guarded P w \<Longrightarrow> u_week m < week_limit P"
proof -
  let ?m = "refresh_windows (up_settings P) (up_now P (uw_rest w)) (uw_meter w)"
  obtain ok where ok: "can_call (up_env P) (up_settings P) (up_now P (uw_rest w)) (uw_meter w) = (ok, ?m)"
    by (simp add: can_call_def Let_def)
  have level: "guarded P w \<Longrightarrow> ok \<Longrightarrow> u_week ?m < week_limit P"
    using ok level_None_week by (auto simp: can_call_def guarded_def week_limit_def Let_def)
  show thesis
  proof (cases ok)
    case False
    then show ?thesis using refused [of ?m] ok by (simp add: gated_chat_def Let_def)
  next
    case True
    show ?thesis
    proof (cases "up_inner P ms c (uw_rest w)")
      case (Pair a x)
      show ?thesis
      proof (cases a)
        case (Inl e)
        then show ?thesis using failed [of x ?m] ok True Pair level by (simp add: gated_chat_def Let_def)
      next
        case (Inr ru)
        obtain r u where ru: "ru = (r, u)" by (rule prod.exhaust)
        obtain y m' f where y: "usage_step (up_env P) (up_settings P) (up_now P x) (up_written P x)
            (Record_Usage u 0) (?m, uw_file w) = (y, m', f)" by (rule prod_cases3)
        then show ?thesis
          using called [OF _ y] ok True Pair Inr ru level by (cases y) (simp_all add: gated_chat_def Let_def)
      qed
    qed
  qed
qed

lemma gate_spends: "spends P M w (snd (gated_chat P ms c w))"
proof (cases rule: gate_cases [of P ms c w])
  case (refused m)
  then show ?thesis
    using refused(2) refresh_week [of "up_settings P" "up_now P (uw_rest w)" "uw_meter w"] week_limit_pos [of P]
    by (auto simp: spends_def inner_bounded_def)
next
  case (failed m x)
  then show ?thesis
    using refresh_week [of "up_settings P" "up_now P (uw_rest w)" "uw_meter w"] week_limit_pos [of P]
    by (auto simp: spends_def inner_bounded_def)
next
  case (called m x r u y m' f)
  note rec = op_record_week [OF called(2)]
  have "u_week m' \<le> week_limit P - 1 + M" if "guarded P w" "inner_bounded P M"
  proof -
    have "(case u of Some v \<Rightarrow> max 0 (billable_tokens v) | None \<Rightarrow> max 0 (0::int)) \<le> M"
      using that(2) called(1) unfolding inner_bounded_def by (cases u) (simp_all, blast)
    then show ?thesis using rec(2) called(5) [OF that(1)] week_limit_pos [of P] by linarith
  qed
  then show ?thesis using called rec(1) by (auto simp: spends_def)
qed

interpretation ug: loop_world "gated_env P E" C "\<lambda>u v. spends P M (snd u) (snd v)" for P E C M
proof unfold_locales
  fix s :: "'a usage_world loop_state" and a
  show "spends P M (snd (beats s, world s)) (snd (beats s @ [a], world (record_beat (gated_env P E) C a s)))"
    by (auto simp: record_beat_def gated_env_def lift_step_def lift_update_def split_beta Let_def
        intro!: spends_refl split: option.split)
qed (auto simp: gated_env_def gate_spends lift_step_def lift_update_def lift_tool_def split_beta Let_def
      intro: spends_refl spends_trans)


definition usage_demo_ports :: "int usage_ports" where
  "usage_demo_ports =
     \<lparr>up_env = usage_demo_env, up_settings = usage_demo_settings, up_now = (\<lambda>x. usage_demo_now),
      up_written = (\<lambda>x. False),
      up_inner = (\<lambda>ms c x. (Inr (demo_text ''done'' [],
        Some \<lparr>prompt_tokens = 3, completion_tokens = 4, total_tokens = 0, reasoning_tokens = 0, cached_tokens = 0\<rparr>), x + 1))\<rparr>"

definition usage_demo_world :: "int usage_world" where
  "usage_demo_world = \<lparr>uw_meter = usage_demo_meter, uw_file = Missing, uw_calls = [], uw_rest = 0\<rparr>"


end
