(* ===== verification/Grants.thy ===== *)
theory Grants
  imports Secrets Loop_Policy Sha256
begin

text \<open>
  Operator grants for changing the agent's own identity: the JSON files of \<open>elyra/identity/layout.py\<close>,
  the token file of \<open>elyra/identity/grants.py\<close> (mint, active set, consume) and the promote gate of
  \<open>elyra/identity/gates.py\<close>. The lemmas count what is left on the grants file: minting adds the uses
  it was asked for, and a token the gate accepts is consumed for exactly one of them.
\<close>

section \<open>JSON files\<close>

text \<open>A file is missing, holds something that is not a JSON document, or holds a document.\<close>

datatype json_file = Absent | Broken | Holds json

definition load_json_object :: "json_file \<Rightarrow> jdict option" where
  "load_json_object f = (case f of Holds (JObj d) \<Rightarrow> Some d | _ \<Rightarrow> None)"

section \<open>The grants file\<close>

text \<open>
  What the process supplies: \<open>datetime.fromisoformat\<close> (with a naive time read as UTC), the wall
  clock, the token of the environment variable, the random bytes of a mint, and whether the write of
  the grants file succeeds.
\<close>

record grant_env =
  iso_instant :: "string \<Rightarrow> int option"
  now_instant :: int
  now_text :: string
  env_var :: string
  random_bytes :: int
  grants_write :: bool

definition parse_expires :: "grant_env \<Rightarrow> json \<Rightarrow> int option" where
  "parse_expires E j =
     (case j of
        JStr s \<Rightarrow> if s = [] then None
                  else iso_instant E (concat (map (\<lambda>c. if c = CHR ''Z'' then ''+00:00'' else [c]) s))
      | _ \<Rightarrow> None)"

definition is_expired :: "grant_env \<Rightarrow> json \<Rightarrow> bool" where
  "is_expired E j =
     (case parse_expires E j of
        None \<Rightarrow> \<not> (j = JNull \<or> j = JStr [])
      | Some t \<Rightarrow> t \<le> now_instant E)"

text \<open>\<open>int(v)\<close> where a \<open>TypeError\<close> or a \<open>ValueError\<close> reads as 0; an infinite float still raises.\<close>

definition int_or_zero :: "json \<Rightarrow> int res" where
  "int_or_zero j =
     (case py_int j of Inr i \<Rightarrow> Inr i | Inl OverflowError \<Rightarrow> Inl OverflowError | Inl _ \<Rightarrow> Inr 0)"

definition row_token :: "json \<Rightarrow> string option" where
  "row_token row =
     (case row of
        JObj r \<Rightarrow> (case jget r ''token'' of JStr t \<Rightarrow> if strip t = [] then None else Some (strip t) | _ \<Rightarrow> None)
      | _ \<Rightarrow> None)"

definition normalize_row :: "json list \<Rightarrow> json \<Rightarrow> json list res" where
  "normalize_row clean row =
     (case row_token row of
        None \<Rightarrow> Inr clean
      | Some token \<Rightarrow>
          let r = dict_of row in
          bind_res (int_or_zero (case dget r ''uses_remaining'' of None \<Rightarrow> JInt 0 | Some v \<Rightarrow> v)) (\<lambda>uses.
          Inr (clean @ [JObj [(''token'', JStr token), (''created_at'', jget r ''created_at''),
                              (''expires_at'', jget r ''expires_at''), (''uses_remaining'', JInt uses),
                              (''note'', jget r ''note'')]])))"

definition no_grants :: jdict where
  "no_grants = [(''schema_version'', JInt 1), (''tokens'', JArr [])]"

definition normalize_doc :: "jdict option \<Rightarrow> jdict res" where
  "normalize_doc raw =
     (case raw of
        None \<Rightarrow> Inr no_grants
      | Some d \<Rightarrow>
          bind_res (foldl_res normalize_row [] (case jget d ''tokens'' of JArr rs \<Rightarrow> rs | _ \<Rightarrow> [])) (\<lambda>clean.
          bind_res (py_int (if truthy (jget d ''schema_version'') then jget d ''schema_version'' else JInt 1)) (\<lambda>v.
          Inr [(''schema_version'', JInt v), (''tokens'', JArr clean)])))"

definition load_grants :: "json_file \<Rightarrow> jdict res" where
  "load_grants f = normalize_doc (load_json_object f)"

definition env_grant_token :: "grant_env \<Rightarrow> string option" where
  "env_grant_token E = (if strip (env_var E) = [] then None else Some (strip (env_var E)))"

definition doc_rows :: "jdict \<Rightarrow> json list" where
  "doc_rows doc = (case jget doc ''tokens'' of JArr rs \<Rightarrow> rs | _ \<Rightarrow> [])"

definition uses_of :: "json \<Rightarrow> int res" where
  "uses_of row =
     (let v = jget (dict_of row) ''uses_remaining'' in int_or_zero (if truthy v then v else JInt 0))"

text \<open>The token of a row that is not exhausted and not expired.\<close>

definition active_row :: "grant_env \<Rightarrow> json \<Rightarrow> string option res" where
  "active_row E row =
     (case row_token row of
        None \<Rightarrow> Inr None
      | Some token \<Rightarrow>
          bind_res (uses_of row) (\<lambda>uses.
          Inr (if uses \<le> 0 \<or> is_expired E (jget (dict_of row) ''expires_at'') then None else Some token)))"

definition active_token_set :: "grant_env \<Rightarrow> jdict \<Rightarrow> bool \<Rightarrow> string list res" where
  "active_token_set E doc include_env =
     bind_res (foldl_res (\<lambda>out row. bind_res (active_row E row) (\<lambda>t.
                 Inr (case t of None \<Rightarrow> out | Some token \<Rightarrow> set_add out token))) [] (doc_rows doc)) (\<lambda>out.
     Inr (case env_grant_token E of
            Some t \<Rightarrow> if include_env then set_add out t else out
          | None \<Rightarrow> out))"

definition load_active_token_set :: "grant_env \<Rightarrow> json_file \<Rightarrow> bool \<Rightarrow> string list res" where
  "load_active_token_set E f include_env =
     bind_res (load_grants f) (\<lambda>doc. active_token_set E doc include_env)"

fun first_active_row :: "grant_env \<Rightarrow> json list \<Rightarrow> string option res" where
  "first_active_row E [] = Inr None"
| "first_active_row E (row # rs) =
     bind_res (active_row E row) (\<lambda>t. case t of Some token \<Rightarrow> Inr (Some token) | None \<Rightarrow> first_active_row E rs)"

definition first_active_token :: "grant_env \<Rightarrow> json_file \<Rightarrow> bool \<Rightarrow> string option res" where
  "first_active_token E f include_env =
     bind_res (load_grants f) (\<lambda>doc.
     bind_res (first_active_row E (doc_rows doc)) (\<lambda>t.
     Inr (case t of Some token \<Rightarrow> Some token
          | None \<Rightarrow> if include_env then env_grant_token E else None)))"

section \<open>Mint and consume\<close>

definition failed :: "string \<Rightarrow> jdict" where
  "failed e = [(''ok'', JBool False), (''error'', JStr e)]"

definition mint_grant ::
  "grant_env \<Rightarrow> json_file \<Rightarrow> string option \<Rightarrow> string option \<Rightarrow> int \<Rightarrow> jdict res \<times> json_file" where
  "mint_grant E f note expires_at uses =
     (if uses < 1 then (Inr (failed ''invalid_uses''), f)
      else
        let token = ''grant_'' @ hex_of 32 (random_bytes E);
            row = [(''token'', JStr token), (''created_at'', JStr (now_text E)),
                   (''expires_at'', opt_json JStr expires_at), (''uses_remaining'', JInt uses),
                   (''note'', opt_json JStr note)]
        in case load_grants f of
             Inl e \<Rightarrow> (Inl e, f)
           | Inr doc \<Rightarrow>
               let doc' = dset (dset doc ''tokens'' (JArr (doc_rows doc @ [JObj row]))) ''schema_version'' (JInt 1)
               in if \<not> grants_write E then (Inr (failed ''grant_write_failed:OSError''), f)
                  else (Inr ((''ok'', JBool True) # row), Holds (JObj doc')))"

text \<open>The index of the first row with the token.\<close>

definition find_token :: "string \<Rightarrow> json list \<Rightarrow> nat option" where
  "find_token token rs =
     List.find (\<lambda>i. jget (dict_of (rs ! i)) ''token'' = JStr token) [0..<length rs]"

definition consume_grant :: "grant_env \<Rightarrow> json_file \<Rightarrow> string \<Rightarrow> jdict res \<times> json_file" where
  "consume_grant E f tok =
     (let token = strip tok in
      if token = [] then (Inr (failed ''grant_missing''), f)
      else if env_grant_token E = Some token
      then (Inr [(''ok'', JBool True), (''token'', JStr token), (''source'', JStr ''env''),
                 (''uses_remaining'', JInt 0)], f)
      else case load_grants f of Inl e \<Rightarrow> (Inl e, f) | Inr doc \<Rightarrow>
      case find_token token (doc_rows doc) of
        None \<Rightarrow> (Inr (failed ''grant_missing''), f)
      | Some i \<Rightarrow>
          let row = dict_of (doc_rows doc ! i) in
          if is_expired E (jget row ''expires_at'') then (Inr (failed ''grant_expired''), f)
          else case uses_of (JObj row) of Inl e \<Rightarrow> (Inl e, f) | Inr uses \<Rightarrow>
          if uses \<le> 0 then (Inr (failed ''grant_exhausted''), f)
          else if \<not> grants_write E then (Inr (failed ''grant_write_failed:OSError''), f)
          else
            let rs' = (doc_rows doc)[i := JObj (dset row ''uses_remaining'' (JInt (uses - 1)))];
                doc' = dset (dset doc ''tokens'' (JArr rs')) ''schema_version'' (JInt 1)
            in (Inr [(''ok'', JBool True), (''token'', JStr token), (''source'', JStr ''file''),
                     (''uses_remaining'', JInt (uses - 1))], Holds (JObj doc')))"

section \<open>The gate\<close>

record promote_context =
  c_actor :: string
  c_target :: "string option"
  c_session :: "string option"
  c_wake_kind :: "string option"
  c_reason :: string
  c_grant :: "string option"
  c_has_draft :: bool
  c_draft_sha :: "string option"
  c_expected_sha :: "string option"
  c_user_ok :: bool
  c_any_user :: bool
  c_tokens :: "string list"
  c_no_grant :: bool
  c_target_exists :: "bool option"

text \<open>\<open>None\<close> when the promote is allowed, otherwise the reason and the detail of the refusal.\<close>

type_synonym gate_result = "(string \<times> string option) option"

definition gate_self :: "promote_context \<Rightarrow> string \<Rightarrow> gate_result" where
  "gate_self c reason =
     (let token = (case c_grant c of Some t \<Rightarrow> strip t | None \<Rightarrow> []) in
      if \<not> c_no_grant c \<and> (token = [] \<or> token \<notin> set (c_tokens c)) then Some (''self_grant_required'', None)
      else if length reason < 8 then Some (''reason_too_short'', None)
      else None)"

definition gate_user :: "promote_context \<Rightarrow> string \<Rightarrow> gate_result" where
  "gate_user c reason =
     (let target = (case c_target c of Some t \<Rightarrow> strip t | None \<Rightarrow> []);
          social_ok = (case c_wake_kind c of Some k \<Rightarrow> k \<in> set SOCIAL_WAKE_KINDS | None \<Rightarrow> False) \<or> c_user_ok c
      in if target = [] then Some (''missing_user_id'', None)
         else if \<not> segment_ok target then Some (''invalid_user_id'', None)
         else if c_target_exists c = Some False then Some (''user_not_found'', None)
         else if \<not> social_ok then Some (''user_promote_context_required'', None)
         else if length reason < 4 then Some (''user_promote_context_required'', None)
         else if map_option strip (c_session c) \<noteq> Some target \<and> \<not> c_any_user c
         then Some (''user_promote_wrong_user'', None)
         else None)"

definition evaluate_promote_gate :: "promote_context \<Rightarrow> gate_result" where
  "evaluate_promote_gate c =
     (let reason = strip (c_reason c) in
      if reason = [] then Some (''missing_reason'', None)
      else if \<not> c_has_draft c then Some (''draft_missing'', None)
      else if c_expected_sha c \<noteq> None \<and> c_expected_sha c \<noteq> c_draft_sha c then Some (''draft_hash_mismatch'', None)
      else if c_actor c = ''self'' then gate_self c reason
      else if c_actor c = ''user'' then gate_user c reason
      else Some (''invalid_actor'', Some (''actor='' @ str_repr (c_actor c))))"

definition should_name_nudge :: "jdict \<Rightarrow> string \<Rightarrow> int \<Rightarrow> bool res" where
  "should_name_nudge meta mid max_nudges =
     (if jget meta ''real_name_known'' = JBool True then Inr False
      else
        let nudge = dict_of (jget meta ''name_nudge'') in
        if mid \<noteq> [] \<and> jget nudge ''last_moment_id'' = JStr mid then Inr False
        else bind_res (py_int (if truthy (jget nudge ''count'') then jget nudge ''count'' else JInt 0)) (\<lambda>n.
             Inr (n < max_nudges)))"

section \<open>Uses left on the file\<close>

definition row_uses :: "json \<Rightarrow> int" where
  "row_uses row = (case jget (dict_of row) ''uses_remaining'' of JInt n \<Rightarrow> max 0 n | _ \<Rightarrow> 0)"

definition uses_left :: "json_file \<Rightarrow> int" where
  "uses_left f = (case load_grants f of Inl _ \<Rightarrow> 0 | Inr doc \<Rightarrow> sum_list (map row_uses (doc_rows doc)))"

text \<open>The rows a normalized document has, and that normalizing keeps.\<close>

definition clean_row :: "json \<Rightarrow> bool" where
  "clean_row row \<longleftrightarrow>
     (\<exists>t c e n w. strip t = t \<and> t \<noteq> [] \<and>
        row = JObj [(''token'', JStr t), (''created_at'', c), (''expires_at'', e), (''uses_remaining'', JInt n), (''note'', w)])"

lemma normalize_row_clean:
  "normalize_row clean row = Inr clean' \<Longrightarrow> list_all clean_row clean \<Longrightarrow> list_all clean_row clean'"
  unfolding normalize_row_def row_token_def clean_row_def
  by (auto simp: bind_res_eq_Inr Let_def split: option.splits json.splits if_splits)

lemma normalize_rows_clean:
  "foldl_res normalize_row [] rs = Inr rs' \<Longrightarrow> list_all clean_row rs'"
  by (erule foldl_res_invariant [where P = "list_all clean_row"]) (auto intro: normalize_row_clean)

lemma normalize_clean_row:
  assumes "clean_row row"
  shows "normalize_row clean row = Inr (clean @ [row])"
  using assms unfolding clean_row_def normalize_row_def row_token_def
  by (auto simp: jget_def int_or_zero_def dict_of_def)

lemma normalize_clean_rows:
  "list_all clean_row rs \<Longrightarrow> foldl_res normalize_row clean rs = Inr (clean @ rs)"
  by (induction rs arbitrary: clean) (simp_all add: normalize_clean_row)

lemma load_grants_rows:
  assumes "load_grants f = Inr doc"
  shows "list_all clean_row (doc_rows doc)"
proof (cases "load_json_object f")
  case None
  then show ?thesis using assms by (auto simp: load_grants_def normalize_doc_def no_grants_def doc_rows_def jget_def)
next
  case (Some d)
  then show ?thesis using assms
    by (auto simp: load_grants_def normalize_doc_def bind_res_eq_Inr doc_rows_def jget_def dest!: normalize_rows_clean)
qed

lemma uses_left_written:
  assumes "list_all clean_row rs" "jget d ''tokens'' = JArr rs" "jget d ''schema_version'' = JInt 1"
  shows "uses_left (Holds (JObj d)) = sum_list (map row_uses rs)"
  using assms
  by (simp add: uses_left_def load_grants_def load_json_object_def normalize_doc_def normalize_clean_rows
      doc_rows_def jget_def)

lemma row_uses_nonneg: "0 \<le> row_uses row"
  by (simp add: row_uses_def split: json.split)

lemma uses_left_nonneg: "0 \<le> uses_left f"
  unfolding uses_left_def by (auto split: sum.split intro!: sum_list_nonneg simp: row_uses_nonneg)

lemma sum_list_row_update:
  assumes "i < length rs"
  shows "sum_list (map row_uses (rs[i := r])) = sum_list (map row_uses rs) - row_uses (rs ! i) + row_uses r"
  using assms by (induction rs arbitrary: i) (auto split: nat.split)

lemma find_token_Some: "find_token t rs = Some i \<Longrightarrow> i < length rs"
  by (auto simp: find_token_def find_Some_iff)

lemma clean_row_update:
  assumes "clean_row (JObj r)"
  shows "clean_row (JObj (dset r ''uses_remaining'' (JInt n)))"
  using assms by (auto simp: clean_row_def)

lemma clean_row_uses:
  assumes "clean_row row"
  obtains n where "jget (dict_of row) ''uses_remaining'' = JInt n" "uses_of row = Inr n" "row = JObj (dict_of row)"
  using assms by (auto simp: clean_row_def uses_of_def int_or_zero_def dict_of_def jget_def)

lemma consume_grant_file:
  assumes "consume_grant E f tok = (Inr r, f')" "jget r ''ok'' = JBool True"
    "env_grant_token E \<noteq> Some (strip tok)"
  shows "uses_left f' + 1 = uses_left f"
proof -
  obtain doc i where doc: "load_grants f = Inr doc" and i: "find_token (strip tok) (doc_rows doc) = Some i"
    using assms by (auto simp: consume_grant_def Let_def failed_def jget_def split: if_splits sum.splits option.splits)
  define row where "row = doc_rows doc ! i"
  have clean: "list_all clean_row (doc_rows doc)" by (rule load_grants_rows [OF doc])
  have len: "i < length (doc_rows doc)" by (rule find_token_Some [OF i])
  then have "clean_row row" using clean by (simp add: row_def list_all_length)
  then obtain n where n: "jget (dict_of row) ''uses_remaining'' = JInt n" "uses_of row = Inr n" "row = JObj (dict_of row)"
    by (rule clean_row_uses)
  let ?row' = "JObj (dset (dict_of row) ''uses_remaining'' (JInt (n - 1)))"
  have pos: "0 < n" and f': "f' = Holds (JObj (dset (dset doc ''tokens'' (JArr ((doc_rows doc)[i := ?row'])))
      ''schema_version'' (JInt 1)))"
    using assms n doc i unfolding consume_grant_def
    by (auto simp: Let_def failed_def jget_def row_def split: if_splits)
  have "clean_row ?row'" using \<open>clean_row row\<close> n(3) clean_row_update by metis
  then have "list_all clean_row ((doc_rows doc)[i := ?row'])"
    using clean set_update_subset_insert [of "doc_rows doc" i ?row'] by (auto simp: list_all_iff)
  then have "uses_left f' = sum_list (map row_uses ((doc_rows doc)[i := ?row']))"
    unfolding f' by (rule uses_left_written) simp_all
  also have "\<dots> = sum_list (map row_uses (doc_rows doc)) - n + (n - 1)"
    using len pos n(1) by (simp add: sum_list_row_update row_def [symmetric]) (simp add: row_uses_def dict_of_def)
  finally show ?thesis by (simp add: uses_left_def doc)
qed

lemma consume_grant_refused:
  assumes "consume_grant E f tok = (r, f')" "\<And>d. r = Inr d \<Longrightarrow> jget d ''ok'' \<noteq> JBool True"
  shows "f' = f"
  using assms
  by (auto simp: consume_grant_def Let_def failed_def jget_def split: if_splits sum.splits option.splits)

lemma strip_token: "t \<noteq> [] \<Longrightarrow> \<not> is_space (hd t) \<Longrightarrow> \<not> is_space (last t) \<Longrightarrow> strip t = t"
  unfolding strip_def lstrip_def rstrip_def
  by (metis dropWhile.simps(2) hd_rev list.collapse rev_is_Nil_conv rev_rev_ident)

lemma hex_digit_not_space: "n < 16 \<Longrightarrow> \<not> is_space (hex_digit n)"
  by (auto simp: hex_digit_def is_space_def code_def Let_def)

lemma minted_token: "strip (''grant_'' @ hex_of 32 n) = ''grant_'' @ hex_of 32 n"
proof (rule strip_token)
  have "hex_of 32 n = hex_of 31 (n div 16) @ [hex_digit (nat (n mod 16))]"
    using hex_of.simps(2) [of 31 n] by simp
  then show "\<not> is_space (last (''grant_'' @ hex_of 32 n))" by (simp add: hex_digit_not_space nat_less_iff)
qed (simp_all add: is_space_def code_def)

lemma mint_grant_uses:
  "uses_left (snd (mint_grant E f note expires_at uses)) \<le> uses_left f + max 0 uses"
proof (cases "uses < 1 \<or> \<not> grants_write E \<or> (\<exists>e. load_grants f = Inl e)")
  case True
  then show ?thesis by (auto simp: mint_grant_def Let_def split: sum.split)
next
  case False
  then obtain doc where doc: "load_grants f = Inr doc" by (cases "load_grants f") auto
  define row where "row = JObj [(''token'', JStr (''grant_'' @ hex_of 32 (random_bytes E))), (''created_at'', JStr (now_text E)),
    (''expires_at'', opt_json JStr expires_at), (''uses_remaining'', JInt uses), (''note'', opt_json JStr note)]"
  have "clean_row row" using minted_token by (auto simp: clean_row_def row_def)
  then have clean: "list_all clean_row (doc_rows doc @ [row])" using load_grants_rows [OF doc] by simp
  have "snd (mint_grant E f note expires_at uses) =
      Holds (JObj (dset (dset doc ''tokens'' (JArr (doc_rows doc @ [row]))) ''schema_version'' (JInt 1)))"
    using False doc by (simp add: mint_grant_def Let_def row_def)
  then have "uses_left (snd (mint_grant E f note expires_at uses)) = sum_list (map row_uses (doc_rows doc @ [row]))"
    using uses_left_written [OF clean] by simp
  moreover have "row_uses row = max 0 uses" by (simp add: row_uses_def row_def dict_of_def jget_def)
  ultimately show ?thesis by (simp add: uses_left_def doc)
qed

end
