(* ===== verification/Identity.thy ===== *)
theory Identity
  imports Grants Sha256
begin

text \<open>
  Versioned identity profiles: the layout helpers of \<open>elyra/identity/layout.py\<close> and
  \<open>elyra/util/versioning.py\<close> (version ids, draft metadata, the version index and its healing) and the
  store of \<open>elyra/identity/store.py\<close>, whose steps from draft to current the store of the user profiles
  shares. Every write may fail on its own. The lemmas show that the index never names an archive that is
  not on disk, whatever fails, what a promote leaves in the history, and where it loses a body.
\<close>

section \<open>Version ids and metadata keys\<close>

definition is_hex :: "char \<Rightarrow> bool" where
  "is_hex c \<longleftrightarrow> is_digit c \<or> (97 \<le> code c \<and> code c \<le> 102)"

text \<open>\<open>VERSION_ID_RE\<close>: eight digits, \<open>T\<close>, six digits, \<open>Z_\<close> and six hexadecimal digits.\<close>

definition version_id_ok :: "string \<Rightarrow> bool" where
  "version_id_ok s \<longleftrightarrow>
     length s = 23 \<and> list_all is_digit (take 8 s) \<and> s ! 8 = CHR ''T'' \<and>
     list_all is_digit (take 6 (drop 9 s)) \<and> take 2 (drop 15 s) = ''Z_'' \<and> list_all is_hex (drop 17 s)"

definition VERSION_GC_LIMIT :: nat where "VERSION_GC_LIMIT = 50"

text \<open>The time stamp in UTC and three random bytes.\<close>

definition mint_version_id :: "string \<Rightarrow> int \<Rightarrow> string" where
  "mint_version_id stamp token = stamp @ ''_'' @ hex_of 6 token"

definition MAX_BODY_BYTES :: nat where "MAX_BODY_BYTES = 64 * 1024"

definition ALLOWED_DRAFT_META_KEYS :: "string list" where
  "ALLOWED_DRAFT_META_KEYS =
     [''display_name'', ''goes_by'', ''full_name'', ''real_name_known'', ''provisional'']"

definition OPERATIONAL_META_KEYS :: "string list" where
  "OPERATIONAL_META_KEYS = [''force_full_name'', ''record_name_nudge'']"

definition content_sha256 :: "string \<Rightarrow> string" where
  "content_sha256 body = sha256_hex body"

definition strip_operational_keys :: "jdict \<Rightarrow> jdict \<times> jdict" where
  "strip_operational_keys patch =
     (filter (\<lambda>(k, v). k \<notin> set OPERATIONAL_META_KEYS \<and> k \<in> set ALLOWED_DRAFT_META_KEYS) patch,
      filter (\<lambda>(k, v). k \<in> set OPERATIONAL_META_KEYS) patch)"

definition blank_to_null :: "json \<Rightarrow> json" where
  "blank_to_null j = (case j of JStr s \<Rightarrow> if strip s = [] then JNull else j | _ \<Rightarrow> j)"

definition full_name_change_requires_force :: "json \<Rightarrow> json \<Rightarrow> bool" where
  "full_name_change_requires_force current patch =
     (let cur = blank_to_null current; new = blank_to_null patch in
      if cur = JNull \<and> new = JNull then False
      else if cur = JNull \<or> new = JNull then True
      else py_str cur \<noteq> py_str new)"

definition check_body_size :: "string \<Rightarrow> string option" where
  "check_body_size body = (if MAX_BODY_BYTES < length (utf8 body) then Some ''body_too_large'' else None)"

section \<open>A profile directory\<close>

text \<open>
  The files of one profile: the bodies, as written, of \<open>current.md\<close>, \<open>draft.md\<close> and the legacy file
  (\<open>self.md\<close> or \<open>profile.md\<close>), \<open>meta.json\<close>, and the archived bodies \<open>versions/<id>.md\<close> by id. A file
  that is there can be read as text.
\<close>

record profile =
  current_md :: "string option"
  draft_md :: "string option"
  legacy_md :: "string option"
  meta_file :: json_file
  archives :: "(string, string) dict"

text \<open>The places where the file system can refuse, in the order the code reaches them.\<close>

datatype fs_step =
    Seed_Copy | Legacy_Copy | Meta_Default | Drive_Append | Drive_Meta | Prune_File string | Heal_Meta
  | Draft_Write | Draft_Meta | Archive_Write | Current_Write | Meta_Commit | Drop_File string | Draft_Unlink
  | Nudge_Meta

text \<open>
  One call: which steps succeed, the clock, the random bytes of the minted ids, the seed template, and
  the two texts of the drive migration (they hold a dash outside the modelled characters).
\<close>

record id_env =
  step_ok :: "fs_step \<Rightarrow> bool"
  id_now :: string
  id_stamp :: string
  id_token :: "nat \<Rightarrow> int"
  seed_template :: "string option"
  seed_v1_text :: string
  drive_section :: string

definition minted :: "id_env \<Rightarrow> nat \<Rightarrow> string" where
  "minted E n = mint_version_id (id_stamp E) (id_token E n)"

definition bind_st :: "'a res \<times> 's \<Rightarrow> ('a \<Rightarrow> 's \<Rightarrow> 'b res \<times> 's) \<Rightarrow> 'b res \<times> 's" where
  "bind_st m f = (case m of (Inl e, s) \<Rightarrow> (Inl e, s) | (Inr x, s) \<Rightarrow> f x s)"

text \<open>An atomic write: the file changes or the call raises.\<close>

definition write_step :: "id_env \<Rightarrow> fs_step \<Rightarrow> 's \<Rightarrow> 's \<Rightarrow> unit res \<times> 's" where
  "write_step E st before after = (if step_ok E st then (Inr (), after) else (Inl OSError, before))"

definition read_text_or_empty :: "string option \<Rightarrow> string" where
  "read_text_or_empty f = (case f of None \<Rightarrow> [] | Some t \<Rightarrow> universal_newlines t)"

definition live_file :: "profile \<Rightarrow> string option" where
  "live_file p = (case current_md p of Some t \<Rightarrow> Some t | None \<Rightarrow> legacy_md p)"

definition self_digest :: "profile \<Rightarrow> string" where
  "self_digest p = read_text_or_empty (live_file p)"

section \<open>The version index\<close>

text \<open>\<open>list(v or [])\<close>.\<close>

definition list_or_empty :: "json \<Rightarrow> json list res" where
  "list_or_empty j =
     (if \<not> truthy j then Inr []
      else case j of
        JArr xs \<Rightarrow> Inr xs
      | JObj d \<Rightarrow> Inr (map JStr (dkeys d))
      | JStr s \<Rightarrow> Inr (map (\<lambda>c. JStr [c]) s)
      | _ \<Rightarrow> Inl (TypeError ''not iterable''))"

definition version_id_of :: "json \<Rightarrow> string option" where
  "version_id_of row = (case row of JObj r \<Rightarrow> as_str_opt (jget r ''version_id'') | _ \<Rightarrow> None)"

definition valid_row_id :: "json \<Rightarrow> string option" where
  "valid_row_id row =
     (case version_id_of row of Some v \<Rightarrow> if version_id_ok v then Some v else None | None \<Rightarrow> None)"

definition version_entry :: "string \<Rightarrow> json \<Rightarrow> string \<Rightarrow> json" where
  "version_entry vid promoted_at body =
     JObj [(''version_id'', JStr vid), (''promoted_at'', promoted_at),
           (''sha256'', JStr (content_sha256 body)), (''bytes'', JInt (int (length (utf8 body))))]"

definition rebuild_versions_index :: "(string, string) dict \<Rightarrow> json list" where
  "rebuild_versions_index files =
     map (\<lambda>(vid, t). version_entry vid JNull (universal_newlines t))
       (sort_key fst (filter (\<lambda>(vid, t). version_id_ok vid) files))"

definition prune_orphan_version_files :: "id_env \<Rightarrow> json list \<Rightarrow> (string, string) dict \<Rightarrow> (string, string) dict" where
  "prune_orphan_version_files E versions files =
     (let keep = List.map_filter valid_row_id versions in
      filter (\<lambda>(vid, t). version_id_ok vid \<and> vid \<notin> set keep \<longrightarrow> \<not> step_ok E (Prune_File vid)) files)"

definition old_by_id :: "json list \<Rightarrow> (string, jdict) dict" where
  "old_by_id index =
     fold (\<lambda>row d. case version_id_of row of Some v \<Rightarrow> dset d v (dict_of row) | None \<Rightarrow> d) index []"

definition with_old_time :: "(string, jdict) dict \<Rightarrow> json \<Rightarrow> json" where
  "with_old_time old row =
     (case dget old (the (version_id_of row)) of
        Some r \<Rightarrow> if truthy (jget r ''promoted_at'')
                  then JObj (dset (dict_of row) ''promoted_at'' (jget r ''promoted_at'')) else row
      | None \<Rightarrow> row)"

definition heal_versions_index ::
  "id_env \<Rightarrow> jdict \<Rightarrow> (string, string) dict \<Rightarrow> jdict \<times> (string, string) dict" where
  "heal_versions_index E meta files =
     (let index = (case jget meta ''versions'' of JArr rs \<Rightarrow> rs | _ \<Rightarrow> []);
          disk_ids = filter version_id_ok (dkeys files);
          cleaned = filter (\<lambda>row. case valid_row_id row of Some v \<Rightarrow> v \<in> set disk_ids | None \<Rightarrow> False) index;
          index_ids = List.map_filter valid_row_id cleaned
      in if cleaned \<noteq> []
         then (dset meta ''versions'' (JArr cleaned),
               if list_ex (\<lambda>v. v \<notin> set index_ids) disk_ids then prune_orphan_version_files E cleaned files else files)
         else if disk_ids \<noteq> []
         then (dset meta ''versions'' (JArr (map (with_old_time (old_by_id index)) (rebuild_versions_index files))), files)
         else (dset meta ''versions'' (JArr []), files))"

definition trim_versions_index :: "json list \<Rightarrow> nat \<Rightarrow> json list \<times> json list" where
  "trim_versions_index versions limit =
     (if length versions \<le> limit then (versions, [])
      else (drop (length versions - limit) versions, take (length versions - limit) versions))"

definition delete_version_files :: "id_env \<Rightarrow> json list \<Rightarrow> (string, string) dict \<Rightarrow> (string, string) dict" where
  "delete_version_files E dropped files =
     fold (\<lambda>row fs. case version_id_of row of
             Some v \<Rightarrow> if step_ok E (Drop_File v) then AList.delete v fs else fs
           | None \<Rightarrow> fs) dropped files"

definition archive_index_entry :: "(string, string) dict \<Rightarrow> string \<Rightarrow> string \<Rightarrow> json" where
  "archive_index_entry files vid promoted_at =
     version_entry vid (JStr promoted_at) (read_text_or_empty (dget files vid))"

section \<open>Layout of the self profile\<close>

definition SELF_V2_MARKER :: string where "SELF_V2_MARKER = ''<!-- elyra-self-v2 -->''"

definition default_meta :: "id_env \<Rightarrow> profile \<Rightarrow> jdict" where
  "default_meta E p =
     (let body = self_digest p in
      [(''schema_version'', JInt 1), (''actor'', JStr ''self''), (''display_name'', JStr ''Elyra''),
       (''full_name'', JNull), (''goes_by'', JStr ''Elyra''), (''real_name_known'', JBool True),
       (''provisional'', JBool False), (''current_version_id'', JStr (minted E 0)),
       (''draft_updated_at'', JNull), (''draft_meta'', JNull), (''current_promoted_at'', JStr (id_now E)),
       (''current_content_sha256'', if body \<noteq> [] then JStr (content_sha256 body) else JNull),
       (''promote_count'', JInt 0), (''versions'', JArr []), (''notes'', JObj [])])"

text \<open>\<open>load_json_object(meta) or default\<close>: an empty document falls through as well.\<close>

definition load_meta_or :: "jdict \<Rightarrow> profile \<Rightarrow> jdict" where
  "load_meta_or fresh p =
     (case load_json_object (meta_file p) of Some d \<Rightarrow> if d \<noteq> [] then d else fresh | None \<Rightarrow> fresh)"

definition copy_legacy :: "id_env \<Rightarrow> profile \<Rightarrow> unit res \<times> profile" where
  "copy_legacy E p =
     (case (current_md p, legacy_md p) of
        (None, Some t) \<Rightarrow> write_step E Legacy_Copy p (p\<lparr>current_md := Some (universal_newlines t)\<rparr>)
      | _ \<Rightarrow> (Inr (), p))"

definition seed_current :: "id_env \<Rightarrow> profile \<Rightarrow> unit res \<times> profile" where
  "seed_current E p =
     (case (current_md p, legacy_md p, seed_template E) of
        (None, None, Some t) \<Rightarrow> write_step E Seed_Copy p (p\<lparr>current_md := Some t\<rparr>)
      | _ \<Rightarrow> (Inr (), p))"

definition ensure_meta :: "id_env \<Rightarrow> jdict \<Rightarrow> profile \<Rightarrow> unit res \<times> profile" where
  "ensure_meta E fresh p =
     (if live_file p \<noteq> None \<and> meta_file p = Absent
      then write_step E Meta_Default p (p\<lparr>meta_file := Holds (JObj fresh)\<rparr>)
      else (Inr (), p))"

text \<open>The text to write back when the live body is still the first seed.\<close>

definition maybe_migrate_self_v2 :: "id_env \<Rightarrow> string \<Rightarrow> string option" where
  "maybe_migrate_self_v2 E raw =
     (let t = universal_newlines raw in
      if sublist SELF_V2_MARKER t then None
      else if content_sha256 t \<noteq> content_sha256 (seed_v1_text E) then None
      else Some (t @ drive_section E))"

definition migrate_live :: "id_env \<Rightarrow> profile \<Rightarrow> unit res \<times> profile" where
  "migrate_live E p =
     (case live_file p of
        None \<Rightarrow> (Inr (), p)
      | Some raw \<Rightarrow>
        (case maybe_migrate_self_v2 E raw of
           None \<Rightarrow> (Inr (), p)
         | Some t \<Rightarrow>
             if current_md p = None then write_step E Drive_Append p (p\<lparr>legacy_md := Some t\<rparr>)
             else
               bind_st (write_step E Drive_Append p (p\<lparr>current_md := Some t\<rparr>)) (\<lambda>_ p1.
               case load_json_object (meta_file p1) of
                 None \<Rightarrow> (Inr (), p1)
               | Some meta \<Rightarrow>
                   write_step E Drive_Meta p1 (p1\<lparr>meta_file := Holds (JObj
                     (dset meta ''current_content_sha256'' (JStr (content_sha256 (universal_newlines t)))))\<rparr>))))"

definition heal_layout :: "id_env \<Rightarrow> profile \<Rightarrow> unit res \<times> profile" where
  "heal_layout E p =
     (case load_json_object (meta_file p) of
        None \<Rightarrow> (Inr (), p)
      | Some meta \<Rightarrow>
          case list_or_empty (jget meta ''versions'') of Inl e \<Rightarrow> (Inl e, p) | Inr before \<Rightarrow>
          case heal_versions_index E meta (archives p) of (healed, files) \<Rightarrow>
          let p1 = p\<lparr>archives := files\<rparr> in
          if jget healed ''versions'' = JArr before then (Inr (), p1)
          else write_step E Heal_Meta p1 (p1\<lparr>meta_file := Holds (JObj healed)\<rparr>))"

definition ensure_layout :: "id_env \<Rightarrow> profile \<Rightarrow> unit res \<times> profile" where
  "ensure_layout E p =
     bind_st (seed_current E p) (\<lambda>_ p.
     bind_st (copy_legacy E p) (\<lambda>_ p.
     bind_st (ensure_meta E (default_meta E p) p) (\<lambda>_ p.
     bind_st (migrate_live E p) (\<lambda>_ p.
     heal_layout E p))))"

section \<open>Drafts\<close>

definition refusal :: "jdict \<Rightarrow> string \<Rightarrow> jdict" where
  "refusal tag e = [(''ok'', JBool False), (''error'', JStr e)] @ tag"

definition self_tag :: jdict where "self_tag = [(''actor'', JStr ''self'')]"

text \<open>The body of a draft: why it is refused.\<close>

definition body_error :: "string \<Rightarrow> string option" where
  "body_error body = (if strip body = [] then Some ''empty_body'' else check_body_size body)"

definition unforced_full_name :: "jdict \<Rightarrow> jdict \<Rightarrow> jdict \<Rightarrow> bool" where
  "unforced_full_name meta flds ops \<longleftrightarrow>
     dget flds ''full_name'' \<noteq> None \<and>
     full_name_change_requires_force (jget meta ''full_name'') (jget flds ''full_name'') \<and>
     jget ops ''force_full_name'' \<noteq> JBool True"

definition merge_draft_fields :: "jdict \<Rightarrow> jdict \<Rightarrow> jdict" where
  "merge_draft_fields meta flds =
     (if flds = [] then meta
      else dset meta ''draft_meta'' (JObj (fold (\<lambda>(k, v) d. dset d k v) flds (dict_of (jget meta ''draft_meta'')))))"

definition allowed_draft_meta :: "jdict \<Rightarrow> jdict" where
  "allowed_draft_meta meta =
     (case jget meta ''draft_meta'' of
        JObj d \<Rightarrow> dset meta ''draft_meta'' (JObj (filter (\<lambda>(k, v). k \<in> set ALLOWED_DRAFT_META_KEYS) d))
      | _ \<Rightarrow> meta)"

definition write_draft_body :: "id_env \<Rightarrow> string option \<Rightarrow> profile \<Rightarrow> unit res \<times> profile" where
  "write_draft_body E body p =
     (case body of None \<Rightarrow> (Inr (), p) | Some t \<Rightarrow> write_step E Draft_Write p (p\<lparr>draft_md := Some t\<rparr>))"

definition has_draft :: "profile \<Rightarrow> bool" where
  "has_draft p \<longleftrightarrow> draft_md p \<noteq> None"

definition drafted_meta :: "id_env \<Rightarrow> jdict \<Rightarrow> string option \<Rightarrow> jdict \<Rightarrow> jdict" where
  "drafted_meta E flds body meta =
     (let merged = merge_draft_fields meta flds;
          noted = (if flds = [] \<and> body \<noteq> None \<and> jget merged ''draft_meta'' = JNull
                   then dset merged ''draft_meta'' JNull else merged)
      in allowed_draft_meta (dset noted ''draft_updated_at'' (JStr (id_now E))))"

definition draft_reply :: "jdict \<Rightarrow> string \<Rightarrow> jdict \<Rightarrow> profile \<Rightarrow> jdict" where
  "draft_reply tag reason meta p =
     [(''ok'', JBool True)] @ tag @
     [(''has_draft'', JBool (has_draft p)), (''draft_meta'', jget meta ''draft_meta''),
      (''draft_updated_at'', jget meta ''draft_updated_at''), (''reason'', JStr (strip reason))]"

text \<open>The body goes to \<open>draft.md\<close> before the metadata is written.\<close>

definition save_draft ::
  "id_env \<Rightarrow> jdict \<Rightarrow> string option \<Rightarrow> jdict \<Rightarrow> string \<Rightarrow> profile \<Rightarrow> jdict res \<times> profile" where
  "save_draft E tag body meta reason p =
     bind_st (write_draft_body E body p) (\<lambda>_ p.
     bind_st (write_step E Draft_Meta p (p\<lparr>meta_file := Holds (JObj meta)\<rparr>)) (\<lambda>_ p.
     (Inr (draft_reply tag reason meta p), p)))"

definition write_draft :: "id_env \<Rightarrow> string option \<Rightarrow> jdict \<Rightarrow> string \<Rightarrow> profile \<Rightarrow> jdict res \<times> profile" where
  "write_draft E body meta_patch reason p =
     (if strip reason = [] then (Inr (refusal self_tag ''missing_reason''), p)
      else
        bind_st (ensure_layout E p) (\<lambda>_ p.
        case strip_operational_keys meta_patch of (flds, ops) \<Rightarrow>
        let meta = load_meta_or (default_meta E p) p in
        if unforced_full_name meta flds ops then (Inr (refusal self_tag ''full_name_force_required''), p)
        else case (case body of Some t \<Rightarrow> body_error t
                   | None \<Rightarrow> if flds = [] \<and> ops = [] then Some ''empty_body'' else None) of
          Some e \<Rightarrow> (Inr (refusal self_tag e), p)
        | None \<Rightarrow> save_draft E self_tag body (drafted_meta E flds body meta) reason p))"

section \<open>Promote\<close>

text \<open>
  What the self store and the user store do differently: the fields that name the profile, the default
  metadata, whether a legacy body alone is archived, and how the merged metadata is adjusted (from the
  metadata before the merge) and settled at the end.
\<close>

record store_kind =
  k_tag :: jdict
  k_default :: "profile \<Rightarrow> jdict"
  k_legacy :: bool
  k_adjust :: "jdict \<Rightarrow> jdict \<Rightarrow> jdict"
  k_settle :: "jdict \<Rightarrow> jdict"

definition outgoing :: "store_kind \<Rightarrow> profile \<Rightarrow> bool" where
  "outgoing K p \<longleftrightarrow> self_digest p \<noteq> [] \<and> (current_md p \<noteq> None \<or> k_legacy K \<and> legacy_md p \<noteq> None)"

definition archive_id :: "id_env \<Rightarrow> jdict \<Rightarrow> string" where
  "archive_id E meta =
     (case jget meta ''current_version_id'' of
        JStr v \<Rightarrow> if version_id_ok v then v else minted E 1
      | _ \<Rightarrow> minted E 1)"

text \<open>Archives the outgoing body; the rows to keep in the index and those to drop once it is written.\<close>

definition archive_current ::
  "id_env \<Rightarrow> store_kind \<Rightarrow> jdict \<Rightarrow> profile \<Rightarrow> (json list \<times> json list) res \<times> profile" where
  "archive_current E K meta p =
     (case list_or_empty (jget meta ''versions'') of Inl e \<Rightarrow> (Inl e, p) | Inr versions \<Rightarrow>
      if \<not> outgoing K p then (Inr (versions, []), p)
      else
        let vid = archive_id E meta;
            stored = p\<lparr>archives := dset (archives p) vid (self_digest p)\<rparr>
        in bind_st (if dget (archives p) vid \<noteq> None then (Inr (), p) else write_step E Archive_Write p stored) (\<lambda>_ p.
           let versions' = (if Some vid \<in> set (map version_id_of versions) then versions
                            else versions @ [archive_index_entry (archives p) vid (id_now E)])
           in (Inr (trim_versions_index versions' VERSION_GC_LIMIT), p)))"

definition merge_draft_meta :: "jdict \<Rightarrow> jdict" where
  "merge_draft_meta meta =
     (case jget meta ''draft_meta'' of
        JObj d \<Rightarrow> fold (\<lambda>k m. case dget d k of Some v \<Rightarrow> dset m k v | None \<Rightarrow> m) ALLOWED_DRAFT_META_KEYS meta
      | _ \<Rightarrow> meta)"

definition promoted_meta :: "id_env \<Rightarrow> string \<Rightarrow> int \<Rightarrow> json list \<Rightarrow> jdict \<Rightarrow> jdict" where
  "promoted_meta E draft_sha cnt versions meta =
     fold (\<lambda>(k, v) m. dset m k v)
       [(''current_version_id'', JStr (minted E 2)), (''draft_meta'', JNull), (''draft_updated_at'', JNull),
        (''current_promoted_at'', JStr (id_now E)), (''current_content_sha256'', JStr draft_sha),
        (''promote_count'', JInt cnt), (''versions'', JArr versions)] meta"

definition promote_count :: "jdict \<Rightarrow> int res" where
  "promote_count meta =
     py_int (if truthy (jget meta ''promote_count'') then jget meta ''promote_count'' else JInt 0)"

text \<open>Files of dropped rows go once the metadata is written; then the draft.\<close>

definition commit_meta ::
  "id_env \<Rightarrow> store_kind \<Rightarrow> jdict \<Rightarrow> int \<Rightarrow> json list \<Rightarrow> string \<Rightarrow> profile \<Rightarrow> jdict res \<times> profile" where
  "commit_meta E K meta n dropped reason p =
     bind_st (write_step E Meta_Commit p (p\<lparr>meta_file := Holds (JObj meta)\<rparr>)) (\<lambda>_ p.
     let p1 = p\<lparr>archives := delete_version_files E dropped (archives p)\<rparr>;
         made = [(''current_version_id'', JStr (minted E 2)), (''promote_count'', JInt n)]
     in if \<not> step_ok E Draft_Unlink
        then (Inr (refusal (k_tag K) ''promote_failed:draft_unlink'' @ made @ [(''meta'', JObj meta)]), p1)
        else (Inr ([(''ok'', JBool True)] @ k_tag K @ made @
                   [(''reason'', JStr (strip reason)), (''meta'', JObj meta)]), p1\<lparr>draft_md := None\<rparr>))"

definition promote_commit ::
  "id_env \<Rightarrow> store_kind \<Rightarrow> jdict \<Rightarrow> string \<Rightarrow> string \<Rightarrow> profile \<Rightarrow> jdict res \<times> profile" where
  "promote_commit E K meta draft_body reason p =
     bind_st (archive_current E K meta p) (\<lambda>parts p.
     bind_st (write_step E Current_Write p (p\<lparr>current_md := Some draft_body\<rparr>)) (\<lambda>_ p.
     let merged = k_adjust K meta (merge_draft_meta meta) in
     case promote_count merged of Inl e \<Rightarrow> (Inl e, p) | Inr cnt \<Rightarrow>
     let meta' = k_settle K (promoted_meta E (content_sha256 draft_body) (cnt + 1) (fst parts) merged) in
     commit_meta E K meta' (cnt + 1) (snd parts) reason p))"

text \<open>A promote whose body and metadata are already in place, left with its draft.\<close>

definition already_promoted :: "jdict \<Rightarrow> string \<Rightarrow> profile \<Rightarrow> bool" where
  "already_promoted meta draft_body p \<longleftrightarrow>
     jget meta ''draft_meta'' = JNull \<and> current_md p \<noteq> None \<and> draft_body = self_digest p \<and>
     jget meta ''current_content_sha256'' = JStr (content_sha256 draft_body)"

definition prune_deferred :: "id_env \<Rightarrow> jdict \<Rightarrow> profile \<Rightarrow> profile" where
  "prune_deferred E meta p =
     (if \<not> truthy (jget meta ''versions'')
      then p\<lparr>archives := prune_orphan_version_files E [] (archives p)\<rparr>
      else case jget meta ''versions'' of
        JArr rs \<Rightarrow> p\<lparr>archives := prune_orphan_version_files E rs (archives p)\<rparr>
      | _ \<Rightarrow> p)"

definition finish_promote :: "id_env \<Rightarrow> store_kind \<Rightarrow> jdict \<Rightarrow> string \<Rightarrow> profile \<Rightarrow> jdict res \<times> profile" where
  "finish_promote E K meta reason p =
     (let p1 = prune_deferred E meta p in
      if \<not> step_ok E Draft_Unlink then (Inr (refusal (k_tag K) ''promote_failed:draft_unlink''), p1)
      else
        let p2 = p1\<lparr>draft_md := None\<rparr> in
        case promote_count meta of Inl e \<Rightarrow> (Inl e, p2) | Inr cnt \<Rightarrow>
        (Inr ([(''ok'', JBool True)] @ k_tag K @
              [(''current_version_id'', jget meta ''current_version_id''), (''promote_count'', JInt cnt),
               (''reason'', JStr (strip reason)), (''meta'', JObj meta), (''idempotent'', JBool True)]), p2))"

definition promote_draft ::
  "id_env \<Rightarrow> store_kind \<Rightarrow> string \<Rightarrow> string option \<Rightarrow> profile \<Rightarrow> jdict res \<times> profile" where
  "promote_draft E K reason expected p =
     (let draft_body = read_text_or_empty (draft_md p) in
      if \<not> has_draft p \<or> strip draft_body = [] then (Inr (refusal (k_tag K) ''draft_missing''), p)
      else if expected \<noteq> None \<and> expected \<noteq> Some (content_sha256 draft_body)
      then (Inr (refusal (k_tag K) ''draft_hash_mismatch''), p)
      else
        let meta = load_meta_or (k_default K p) p in
        if already_promoted meta draft_body p then finish_promote E K meta reason p
        else promote_commit E K meta draft_body reason p)"

definition self_store :: "id_env \<Rightarrow> store_kind" where
  "self_store E = \<lparr>k_tag = self_tag, k_default = default_meta E, k_legacy = False,
     k_adjust = (\<lambda>_ merged. merged), k_settle = (\<lambda>meta. meta)\<rparr>"

definition promote :: "id_env \<Rightarrow> string \<Rightarrow> string option \<Rightarrow> profile \<Rightarrow> jdict res \<times> profile" where
  "promote E reason expected p =
     (if strip reason = [] then (Inr (refusal self_tag ''missing_reason''), p)
      else bind_st (ensure_layout E p) (\<lambda>_ p. promote_draft E (self_store E) reason expected p))"

section \<open>Reading\<close>

text \<open>The body and the other fields of a read; the list of versions is left out.\<close>

definition get_profile :: "store_kind \<Rightarrow> string \<Rightarrow> string option \<Rightarrow> profile \<Rightarrow> jdict" where
  "get_profile K which version_id p =
     (let meta = (case load_json_object (meta_file p) of Some d \<Rightarrow> d | None \<Rightarrow> k_default K p);
          found = (\<lambda>body. [(''ok'', JBool True)] @ k_tag K @
                     [(''meta'', JObj meta), (''has_draft'', JBool (has_draft p)), (''body'', JStr body),
                      (''which'', JStr which)])
      in if which = ''current'' then found (self_digest p)
         else if which = ''draft''
         then (if has_draft p then found (read_text_or_empty (draft_md p)) else refusal (k_tag K) ''draft_missing'')
         else if which = ''version''
         then (case version_id of
                 None \<Rightarrow> refusal (k_tag K) ''version_not_found''
               | Some v \<Rightarrow>
                   if \<not> version_id_ok v \<or> dget (archives p) v = None then refusal (k_tag K) ''version_not_found''
                   else found (read_text_or_empty (dget (archives p) v)) @ [(''version_id'', JStr v)])
         else refusal (k_tag K) ''invalid_which'')"

section \<open>The index is backed by the archives\<close>

definition version_rows :: "jdict \<Rightarrow> json list" where
  "version_rows meta = (case jget meta ''versions'' of JArr rs \<Rightarrow> rs | _ \<Rightarrow> [])"

definition index_rows :: "json_file \<Rightarrow> json list" where
  "index_rows f = (case load_json_object f of Some d \<Rightarrow> version_rows d | None \<Rightarrow> [])"

text \<open>Every row names one archive on disk, no two rows the same one.\<close>

definition row_backed :: "(string, string) dict \<Rightarrow> json \<Rightarrow> bool" where
  "row_backed files row \<longleftrightarrow> (\<exists>v. valid_row_id row = Some v \<and> dget files v \<noteq> None)"

definition backed :: "json list \<Rightarrow> (string, string) dict \<Rightarrow> bool" where
  "backed rs files \<longleftrightarrow> distinct (map version_id_of rs) \<and> list_all (row_backed files) rs"

definition history_ok :: "profile \<Rightarrow> bool" where
  "history_ok p \<longleftrightarrow> backed (index_rows (meta_file p)) (archives p) \<and> distinct (dkeys (archives p))"

lemma valid_row_id_row_id: "valid_row_id row = Some v \<Longrightarrow> version_id_of row = Some v \<and> version_id_ok v"
  by (simp add: valid_row_id_def split: option.splits if_splits)

lemma backed_Nil [simp]: "backed [] files"
  by (simp add: backed_def)

lemma backed_mono:
  assumes "backed rs files"
    and "\<And>v. v \<in> set (List.map_filter valid_row_id rs) \<Longrightarrow> dget files v \<noteq> None \<Longrightarrow> dget files' v \<noteq> None"
  shows "backed rs files'"
  using assms(1) unfolding backed_def list_all_iff
proof (elim conjE, intro conjI ballI)
  fix row assume row: "row \<in> set rs" and all: "\<forall>x\<in>set rs. row_backed files x"
  then obtain v where v: "valid_row_id row = Some v" "dget files v \<noteq> None" by (auto simp: row_backed_def)
  then have "v \<in> set (List.map_filter valid_row_id rs)" using row by (force simp: List.map_filter_def)
  then show "row_backed files' row" using assms(2) v by (auto simp: row_backed_def)
qed

lemma dget_filter_key: "dget (filter (\<lambda>(k, v). P k) d) k = (if P k then dget d k else None)"
  by (induction d) auto

lemma distinct_filter_keys: "distinct (dkeys d) \<Longrightarrow> distinct (dkeys (filter P d))"
  by (rule distinct_map_filter)

lemma prune_keeps:
  "v \<in> set (List.map_filter valid_row_id rs) \<Longrightarrow> dget (prune_orphan_version_files E rs files) v = dget files v"
  unfolding prune_orphan_version_files_def Let_def by (subst dget_filter_key) simp

lemma prune_distinct: "distinct (dkeys files) \<Longrightarrow> distinct (dkeys (prune_orphan_version_files E rs files))"
  unfolding prune_orphan_version_files_def Let_def by (rule distinct_filter_keys)

lemma delete_files_Cons:
  "delete_version_files E (row # rs) files = delete_version_files E rs
     (case version_id_of row of Some v \<Rightarrow> if step_ok E (Drop_File v) then AList.delete v files else files | None \<Rightarrow> files)"
  by (simp add: delete_version_files_def)

lemma delete_files_keeps:
  "Some v \<notin> set (map version_id_of dropped) \<Longrightarrow> dget (delete_version_files E dropped files) v = dget files v"
  by (induction dropped arbitrary: files)
    (auto simp: delete_version_files_def delete_conv' split: option.split)

lemma delete_files_distinct:
  "distinct (dkeys files) \<Longrightarrow> distinct (dkeys (delete_version_files E dropped files))"
  by (induction dropped arbitrary: files)
    (auto simp: delete_files_Cons distinct_delete split: option.split, simp add: delete_version_files_def)

lemma trim_parts:
  "trim_versions_index rs n = (newer, older) \<Longrightarrow> rs = older @ newer \<and> length newer \<le> n"
  by (auto simp: trim_versions_index_def split: if_splits)

lemma jget_json [simp]: "jget ((k, v) # d) k' = (if k' = k then v else jget d k')" "jget [] k = JNull"
  by (auto simp: jget_def)

lemma rebuilt_row_id: "version_id_of (with_old_time old (version_entry v w body)) = Some v"
  by (simp add: with_old_time_def version_id_of_def version_entry_def as_str_opt_def dict_of_def split: option.split)

lemma rebuilt_backed:
  assumes "distinct (dkeys files)"
  shows "backed (map (with_old_time old) (rebuild_versions_index files)) files"
proof -
  let ?fs = "sort_key fst (filter (\<lambda>(vid, t). version_id_ok vid) files)"
  have ids: "map version_id_of (map (with_old_time old) (rebuild_versions_index files)) = map Some (map fst ?fs)"
    by (simp add: rebuild_versions_index_def rebuilt_row_id split_beta comp_def)
  have "mset (map fst ?fs) = mset (map fst (filter (\<lambda>(vid, t). version_id_ok vid) files))" by simp
  then have "distinct (map fst ?fs)"
    using distinct_filter_keys [OF assms, of "\<lambda>(vid, t). version_id_ok vid"] mset_eq_imp_distinct_iff by blast
  then have "distinct (map version_id_of (map (with_old_time old) (rebuild_versions_index files)))"
    unfolding ids using distinct_map [of Some "map fst ?fs"] by simp
  moreover have "row_backed files (with_old_time old (version_entry v JNull b))" if "(v, t) \<in> set files" "version_id_ok v" for v t b
    using that assms by (auto simp: row_backed_def valid_row_id_def rebuilt_row_id)
  ultimately show ?thesis unfolding backed_def list_all_iff by (auto simp: rebuild_versions_index_def)
qed

lemma row_backed_on_disk:
  assumes "row_backed files row"
  shows "case valid_row_id row of Some v \<Rightarrow> v \<in> set (filter version_id_ok (dkeys files)) | None \<Rightarrow> False"
proof -
  obtain v where v: "valid_row_id row = Some v" "dget files v \<noteq> None" using assms by (auto simp: row_backed_def)
  have "v \<in> set (dkeys files)" using v(2) by (simp only: dget_None_iff not_not)
  then show ?thesis using v(1) valid_row_id_row_id [OF v(1)] by simp
qed

lemma heal_eq:
  assumes "backed (version_rows meta) files"
  defines "rs \<equiv> version_rows meta"
  shows "heal_versions_index E meta files =
      (if rs \<noteq> []
       then (dset meta ''versions'' (JArr rs),
             if list_ex (\<lambda>v. v \<notin> set (List.map_filter valid_row_id rs)) (filter version_id_ok (dkeys files))
             then prune_orphan_version_files E rs files else files)
       else if filter version_id_ok (dkeys files) \<noteq> []
       then (dset meta ''versions'' (JArr (map (with_old_time (old_by_id [])) (rebuild_versions_index files))), files)
       else (dset meta ''versions'' (JArr []), files))"
proof -
  have "filter (\<lambda>row. case valid_row_id row of Some v \<Rightarrow> v \<in> set (filter version_id_ok (dkeys files)) | None \<Rightarrow> False) rs = rs"
    using assms(1) unfolding rs_def backed_def list_all_iff
    by (intro filter_True) (blast intro: row_backed_on_disk)
  then show ?thesis
    unfolding heal_versions_index_def Let_def version_rows_def [symmetric] rs_def by simp
qed

lemma heal_backed:
  assumes "backed (version_rows meta) files" "distinct (dkeys files)" "heal_versions_index E meta files = (healed, files')"
  shows "backed (version_rows healed) files'" "backed (version_rows meta) files'" "distinct (dkeys files')"
    "jget healed ''versions'' = JArr (version_rows healed)"
    "version_rows meta \<noteq> [] \<Longrightarrow> version_rows healed = version_rows meta"
proof -
  let ?rs = "version_rows meta"
  have "backed ?rs (prune_orphan_version_files E ?rs files)"
    by (rule backed_mono [OF assms(1)]) (simp add: prune_keeps)
  moreover have "distinct (dkeys (prune_orphan_version_files E ?rs files))" by (rule prune_distinct [OF assms(2)])
  ultimately show "backed (version_rows healed) files'" "backed ?rs files'" "distinct (dkeys files')"
      "jget healed ''versions'' = JArr (version_rows healed)" "?rs \<noteq> [] \<Longrightarrow> version_rows healed = ?rs"
    using assms heal_eq [OF assms(1)] rebuilt_backed [OF assms(2)]
    by (auto simp: version_rows_def split: if_splits)
qed

section \<open>Every operation keeps the history\<close>

text \<open>Whatever step of a sequence raises, the state it stops in keeps the property.\<close>

lemma bind_st_keeps:
  assumes "P (snd m)" "\<And>x s. m = (Inr x, s) \<Longrightarrow> P s \<Longrightarrow> P (snd (f x s))"
  shows "P (snd (bind_st m f))"
  using assms by (cases m) (auto simp: bind_st_def split: sum.split)

lemma write_step_keeps: "P p \<Longrightarrow> P p' \<Longrightarrow> P (snd (write_step E st p p'))"
  by (simp add: write_step_def)

lemma bind_st_Inr:
  "bind_st m f = (Inr y, s') \<longleftrightarrow> (\<exists>x s. m = (Inr x, s) \<and> f x s = (Inr y, s'))"
  by (cases m) (auto simp: bind_st_def split: sum.split)

lemma write_step_Inr: "write_step E st p p' = (Inr u, q) \<longleftrightarrow> step_ok E st \<and> q = p'"
  by (auto simp: write_step_def)

lemma history_ok_bodies [simp]:
  "history_ok (p\<lparr>current_md := b\<rparr>) = history_ok p"
  "history_ok (p\<lparr>draft_md := b\<rparr>) = history_ok p"
  "history_ok (p\<lparr>legacy_md := b\<rparr>) = history_ok p"
  by (simp_all add: history_ok_def)

lemma version_rows_dset [simp]:
  "version_rows (dset meta k v) = (if k = ''versions'' then (case v of JArr rs \<Rightarrow> rs | _ \<Rightarrow> []) else version_rows meta)"
  by (simp add: version_rows_def)

lemma index_rows_Holds [simp]: "index_rows (Holds (JObj meta)) = version_rows meta"
  by (simp add: index_rows_def load_json_object_def)

lemma version_rows_default [simp]: "version_rows (default_meta E p) = []"
  by (simp add: version_rows_def default_meta_def Let_def)

lemma load_Some_index: "load_json_object (meta_file p) = Some meta \<Longrightarrow> index_rows (meta_file p) = version_rows meta"
  by (simp add: index_rows_def)

lemma history_ok_same_rows:
  assumes "history_ok p" "version_rows meta \<in> {[], index_rows (meta_file p)}"
  shows "history_ok (p\<lparr>meta_file := Holds (JObj meta)\<rparr>)"
  using assms by (auto simp: history_ok_def)

lemma seed_current_keeps: "history_ok p \<Longrightarrow> history_ok (snd (seed_current E p))"
  unfolding seed_current_def by (auto intro: write_step_keeps split: option.split)

lemma copy_legacy_keeps: "history_ok p \<Longrightarrow> history_ok (snd (copy_legacy E p))"
  unfolding copy_legacy_def by (auto intro: write_step_keeps split: option.split)

lemma ensure_meta_keeps:
  "history_ok p \<Longrightarrow> version_rows fresh = [] \<Longrightarrow> history_ok (snd (ensure_meta E fresh p))"
  unfolding ensure_meta_def by (auto intro!: write_step_keeps history_ok_same_rows)

lemma migrate_live_keeps:
  assumes "history_ok p"
  shows "history_ok (snd (migrate_live E p))"
proof -
  have meta: "history_ok (snd (case load_json_object (meta_file q) of
      None \<Rightarrow> (Inr (), q)
    | Some meta \<Rightarrow> write_step E Drive_Meta q (q\<lparr>meta_file := Holds (JObj (dset meta ''current_content_sha256'' v))\<rparr>)))"
    if "history_ok q" for q v
  proof (cases "load_json_object (meta_file q)")
    case (Some m)
    have "history_ok (q\<lparr>meta_file := Holds (JObj (dset m ''current_content_sha256'' v))\<rparr>)"
      by (rule history_ok_same_rows [OF that]) (simp add: load_Some_index [OF Some])
    then show ?thesis using that Some by (simp add: write_step_keeps)
  qed (simp add: that)
  show ?thesis
  proof (cases "case live_file p of None \<Rightarrow> None | Some raw \<Rightarrow> maybe_migrate_self_v2 E raw")
    case None
    then have "migrate_live E p = (Inr (), p)" by (cases "live_file p") (simp_all add: migrate_live_def)
    then show ?thesis using assms by simp
  next
    case (Some t)
    show ?thesis
    proof (cases "current_md p = None")
      case True
      then have "migrate_live E p = write_step E Drive_Append p (p\<lparr>legacy_md := Some t\<rparr>)"
        using Some by (cases "live_file p") (simp_all add: migrate_live_def)
      then show ?thesis using assms by (simp add: write_step_keeps)
    next
      case False
      let ?p = "p\<lparr>current_md := Some t\<rparr>"
      have "snd (migrate_live E p) = (if step_ok E Drive_Append
          then snd (case load_json_object (meta_file ?p) of
              None \<Rightarrow> (Inr (), ?p)
            | Some meta \<Rightarrow> write_step E Drive_Meta ?p (?p\<lparr>meta_file := Holds (JObj
                (dset meta ''current_content_sha256'' (JStr (content_sha256 (universal_newlines t)))))\<rparr>))
          else p)"
        using Some False by (cases "live_file p") (auto simp: migrate_live_def bind_st_def write_step_def)
      then show ?thesis using assms meta [of ?p] by simp
    qed
  qed
qed

text \<open>The index of a healed profile reads as the list it is.\<close>

definition versions_listed :: "profile \<Rightarrow> bool" where
  "versions_listed p \<longleftrightarrow>
     (\<forall>meta. load_json_object (meta_file p) = Some meta \<longrightarrow>
        list_or_empty (jget meta ''versions'') = Inr (version_rows meta))"

lemma list_or_empty_rows:
  "list_or_empty j = Inr rs \<Longrightarrow> rs = (case j of JArr xs \<Rightarrow> xs | _ \<Rightarrow> []) \<or> (rs \<noteq> [] \<and> (\<forall>r\<in>set rs. version_id_of r = None))"
proof (cases j)
  case (JStr t)
  assume "list_or_empty j = Inr rs"
  then have "rs = map (\<lambda>c. JStr [c]) t" by (cases t) (simp_all add: JStr list_or_empty_def)
  then show ?thesis by (cases t) (simp_all add: JStr version_id_of_def)
next
  case (JObj d)
  assume "list_or_empty j = Inr rs"
  then have "rs = map JStr (dkeys d)" by (cases d) (simp_all add: JObj list_or_empty_def)
  then show ?thesis by (cases d) (simp_all add: JObj version_id_of_def)
qed (simp_all add: list_or_empty_def split: if_splits)

lemma list_or_empty_JArr [simp]: "list_or_empty (JArr xs) = Inr xs"
  by (simp add: list_or_empty_def)

lemma backed_ids: "backed rs files \<Longrightarrow> r \<in> set rs \<Longrightarrow> version_id_of r \<noteq> None"
  by (auto simp: backed_def list_all_iff row_backed_def dest!: valid_row_id_row_id bspec)

lemma heal_layout_keeps:
  assumes "history_ok p"
  shows "history_ok (snd (heal_layout E p))"
    and "heal_layout E p = (Inr u, q) \<Longrightarrow> versions_listed q"
proof -
  have "history_ok (snd (heal_layout E p)) \<and> (\<forall>u q. heal_layout E p = (Inr u, q) \<longrightarrow> versions_listed q)"
  proof (cases "load_json_object (meta_file p)")
    case None
    then show ?thesis using assms by (simp add: heal_layout_def versions_listed_def)
  next
    case (Some meta)
    obtain healed files where h: "heal_versions_index E meta (archives p) = (healed, files)" by fastforce
    have ok: "backed (version_rows meta) (archives p)" "distinct (dkeys (archives p))"
      using assms load_Some_index [OF Some] by (simp_all add: history_ok_def)
    note facts = heal_backed [OF ok h]
    show ?thesis
    proof (cases "list_or_empty (jget meta ''versions'')")
      case (Inl e)
      then show ?thesis using assms Some by (simp add: heal_layout_def)
    next
      case (Inr before)
      have same: "before = version_rows meta" if "jget healed ''versions'' = JArr before"
        using list_or_empty_rows [OF Inr] that facts(4) backed_ids [OF facts(1)]
        by (cases before) (force simp: version_rows_def [symmetric])+
      have heal: "heal_layout E p =
          (if jget healed ''versions'' = JArr before then (Inr (), p\<lparr>archives := files\<rparr>)
           else write_step E Heal_Meta (p\<lparr>archives := files\<rparr>) (p\<lparr>archives := files, meta_file := Holds (JObj healed)\<rparr>))"
        using Some Inr h by (simp add: heal_layout_def Let_def)
      have kept: "history_ok (p\<lparr>archives := files\<rparr>)"
        using facts(2,3) load_Some_index [OF Some] by (simp add: history_ok_def)
      have new: "history_ok (p\<lparr>archives := files, meta_file := Holds (JObj healed)\<rparr>)"
        "versions_listed (p\<lparr>archives := files, meta_file := Holds (JObj healed)\<rparr>)"
        using facts(1,3,4) by (simp_all add: history_ok_def versions_listed_def load_json_object_def)
      have "versions_listed (p\<lparr>archives := files\<rparr>)" if "jget healed ''versions'' = JArr before"
        using same [OF that] Inr Some by (simp add: versions_listed_def)
      then show ?thesis using kept new by (auto simp: heal write_step_def)
    qed
  qed
  then show "history_ok (snd (heal_layout E p))" "heal_layout E p = (Inr u, q) \<Longrightarrow> versions_listed q" by auto
qed

lemma ensure_layout_keeps:
  assumes "history_ok p"
  shows "history_ok (snd (ensure_layout E p))" "ensure_layout E p = (Inr u, q) \<Longrightarrow> versions_listed q"
proof -
  show "history_ok (snd (ensure_layout E p))" unfolding ensure_layout_def
    by (intro bind_st_keeps [where P = history_ok] seed_current_keeps copy_legacy_keeps ensure_meta_keeps
        migrate_live_keeps heal_layout_keeps assms) (simp_all add: assms)
  assume "ensure_layout E p = (Inr u, q)"
  then obtain p1 p2 p3 p4 where s: "seed_current E p = (Inr (), p1)" "copy_legacy E p1 = (Inr (), p2)"
      "ensure_meta E (default_meta E p2) p2 = (Inr (), p3)" "migrate_live E p3 = (Inr (), p4)" "heal_layout E p4 = (Inr (), q)"
    by (auto simp: ensure_layout_def bind_st_Inr)
  have "history_ok p4"
    using s assms by (metis copy_legacy_keeps ensure_meta_keeps migrate_live_keeps seed_current_keeps snd_conv version_rows_default)
  then show "versions_listed q" using heal_layout_keeps(2) s(5) by blast
qed

text \<open>Drafts touch neither the index nor the archives.\<close>

lemma version_rows_drafting:
  "version_rows (merge_draft_fields meta flds) = version_rows meta"
  "version_rows (allowed_draft_meta meta) = version_rows meta"
  by (simp_all add: merge_draft_fields_def allowed_draft_meta_def split: json.split)

lemma load_meta_or_rows:
  "version_rows fresh = [] \<Longrightarrow> version_rows (load_meta_or fresh p) = index_rows (meta_file p)"
  by (auto simp: load_meta_or_def index_rows_def version_rows_def split: option.split)

lemma write_draft_body_keeps: "history_ok p \<Longrightarrow> history_ok (snd (write_draft_body E body p))"
  by (auto simp: write_draft_body_def write_step_def split: option.split)

lemma write_draft_body_meta: "write_draft_body E body p = (Inr u, q) \<Longrightarrow> meta_file q = meta_file p"
  by (auto simp: write_draft_body_def write_step_def split: option.splits if_splits)

lemma drafted_meta_rows: "version_rows (drafted_meta E flds body meta) = version_rows meta"
  by (simp add: drafted_meta_def Let_def version_rows_drafting)

lemma save_draft_keeps:
  assumes "history_ok q" "version_rows meta \<in> {[], index_rows (meta_file q)}"
  shows "history_ok (snd (save_draft E tag body meta reason q))"
  unfolding save_draft_def
proof (intro bind_st_keeps [where P = history_ok] write_draft_body_keeps [OF assms(1)])
  fix w b
  assume b: "write_draft_body E body q = (Inr w, b)" "history_ok b"
  have "history_ok (b\<lparr>meta_file := Holds (JObj meta)\<rparr>)"
    by (rule history_ok_same_rows [OF b(2)]) (use assms(2) write_draft_body_meta [OF b(1)] in auto)
  then show "history_ok (snd (write_step E Draft_Meta b (b\<lparr>meta_file := Holds (JObj meta)\<rparr>)))"
    using b(2) by (simp add: write_step_keeps)
qed simp

lemma write_draft_keeps:
  assumes "history_ok p"
  shows "history_ok (snd (write_draft E body patch reason p))"
proof (cases "strip reason = []")
  case False
  obtain flds ops where f: "strip_operational_keys patch = (flds, ops)" by fastforce
  have draft: "history_ok (snd (save_draft E self_tag b
      (drafted_meta E fs b (load_meta_or (default_meta E q) q)) reason q))" if "history_ok q" for q b fs
    by (rule save_draft_keeps [OF that]) (use load_meta_or_rows [of "default_meta E q" q] in \<open>simp add: drafted_meta_rows\<close>)
  show ?thesis unfolding write_draft_def if_not_P [OF False] f prod.case Let_def
    by (rule bind_st_keeps [where P = history_ok, OF ensure_layout_keeps(1) [OF assms]])
      (simp add: draft split: option.split)
qed (simp add: write_draft_def assms)

section \<open>Promotes keep the history\<close>

text \<open>What \<open>strftime\<close> gives for a year of four digits.\<close>

definition stamp_ok :: "string \<Rightarrow> bool" where
  "stamp_ok s \<longleftrightarrow>
     length s = 16 \<and> list_all is_digit (take 8 s) \<and> s ! 8 = CHR ''T'' \<and>
     list_all is_digit (take 6 (drop 9 s)) \<and> s ! 15 = CHR ''Z''"

lemma hex_of_hex: "length (hex_of k n) = k \<and> list_all is_hex (hex_of k n)"
proof (induction k arbitrary: n)
  case (Suc k)
  have "nat (n mod 16) < 16" by simp
  then have "is_hex (hex_digit (nat (n mod 16)))" by (auto simp: hex_digit_def is_hex_def is_digit_def code_def)
  then show ?case using Suc by simp
qed simp

lemma minted_ok: "stamp_ok (id_stamp E) \<Longrightarrow> version_id_ok (minted E n)"
proof -
  assume s: "stamp_ok (id_stamp E)"
  let ?s = "id_stamp E"
  have "take 2 (drop 15 (?s @ ''_'' @ h)) = ''Z_''" for h
  proof -
    have "drop 15 ?s = [?s ! 15]" using s by (simp add: stamp_ok_def Cons_nth_drop_Suc [symmetric])
    then show ?thesis using s by (simp add: stamp_ok_def)
  qed
  then show ?thesis using s hex_of_hex [of 6 "id_token E n"]
    by (simp add: version_id_ok_def minted_def mint_version_id_def stamp_ok_def nth_append)
qed

lemma archive_id_ok: "stamp_ok (id_stamp E) \<Longrightarrow> version_id_ok (archive_id E meta)"
  by (simp add: archive_id_def minted_ok split: json.split)

lemma index_row_id: "version_id_ok v \<Longrightarrow> valid_row_id (version_entry v w body) = Some v"
  by (simp add: valid_row_id_def version_id_of_def version_entry_def as_str_opt_def)

lemma archive_index_entry_id: "version_id_ok v \<Longrightarrow> valid_row_id (archive_index_entry files v at_time) = Some v"
  by (simp add: archive_index_entry_def index_row_id)

lemma backed_more:
  "backed rs files \<Longrightarrow> dget files v = None \<Longrightarrow> backed rs (dset files v t)"
  by (erule backed_mono) (simp split: if_splits)

lemma history_ok_more:
  assumes "history_ok p" "dget (archives p) v = None"
  shows "history_ok (p\<lparr>archives := dset (archives p) v t\<rparr>)"
proof -
  have "backed (index_rows (meta_file p)) (dset (archives p) v t)"
    by (rule backed_more) (use assms in \<open>simp_all only: history_ok_def\<close>)
  then show ?thesis using assms(1) by (simp add: history_ok_def)
qed

lemma backed_append:
  assumes "backed rs files" "Some v \<notin> set (map version_id_of rs)" "valid_row_id row = Some v" "dget files v \<noteq> None"
  shows "backed (rs @ [row]) files"
  using assms valid_row_id_row_id [OF assms(3)] by (auto simp: backed_def row_backed_def)

lemma archive_current_keeps:
  assumes "history_ok p" "stamp_ok (id_stamp E)" "version_rows meta \<in> {[], index_rows (meta_file p)}"
    and "list_or_empty (jget meta ''versions'') = Inr (version_rows meta)"
  shows "history_ok (snd (archive_current E K meta p))"
    and "archive_current E K meta p = (Inr (newer, older), q) \<Longrightarrow>
      backed (older @ newer) (archives q) \<and> meta_file q = meta_file p \<and> draft_md q = draft_md p"
proof -
  let ?vid = "archive_id E meta"
  let ?rs = "version_rows meta"
  have rs: "backed ?rs (archives p)" using assms(1,3) by (auto simp: history_ok_def)
  define r where "r = (if \<not> outgoing K p then p
    else if dget (archives p) ?vid \<noteq> None then p else p\<lparr>archives := dset (archives p) ?vid (self_digest p)\<rparr>)"
  have r: "history_ok r" "backed ?rs (archives r)" "meta_file r = meta_file p" "draft_md r = draft_md p"
      "outgoing K p \<Longrightarrow> dget (archives r) ?vid \<noteq> None"
  proof -
    note more = history_ok_more [OF assms(1), of ?vid "self_digest p"] backed_more [OF rs, of ?vid "self_digest p"]
    show "history_ok r" "backed ?rs (archives r)" using assms(1) rs more
      by (cases "dget (archives p) ?vid = None"; simp only: r_def profile.simps split: if_split; simp)+
    show "meta_file r = meta_file p" "draft_md r = draft_md p" by (simp_all add: r_def)
    show "outgoing K p \<Longrightarrow> dget (archives r) ?vid \<noteq> None"
      by (cases "dget (archives p) ?vid = None"; simp only: r_def profile.simps dget_dset split: if_split; simp)
  qed
  have new: "backed (?rs @ [archive_index_entry (archives r) ?vid (id_now E)]) (archives r)"
    if "outgoing K p" "Some ?vid \<notin> set (map version_id_of ?rs)"
    by (rule backed_append [OF r(2) that(2)]) (simp_all add: archive_index_entry_id archive_id_ok assms(2) r(5) that(1))
  have run: "archive_current E K meta p =
      (if \<not> outgoing K p then (Inr (?rs, []), p)
       else if dget (archives p) ?vid = None \<and> \<not> step_ok E Archive_Write then (Inl OSError, p)
       else (Inr (trim_versions_index (if Some ?vid \<in> set (map version_id_of ?rs) then ?rs
               else ?rs @ [archive_index_entry (archives r) ?vid (id_now E)]) VERSION_GC_LIMIT), r))"
    using assms(4) by (simp add: archive_current_def bind_st_def write_step_def r_def Let_def)
  show "history_ok (snd (archive_current E K meta p))" using r(1) assms(1) by (simp add: run)
  assume a: "archive_current E K meta p = (Inr (newer, older), q)"
  show "backed (older @ newer) (archives q) \<and> meta_file q = meta_file p \<and> draft_md q = draft_md p"
  proof (cases "outgoing K p")
    case False
    then show ?thesis using a rs by (simp add: run)
  next
    case True
    then have t: "trim_versions_index (if Some ?vid \<in> set (map version_id_of ?rs) then ?rs
        else ?rs @ [archive_index_entry (archives r) ?vid (id_now E)]) VERSION_GC_LIMIT = (newer, older)" "q = r"
      using a by (auto simp: run split: if_splits)
    have "older @ newer = (if Some ?vid \<in> set (map version_id_of ?rs) then ?rs
        else ?rs @ [archive_index_entry (archives r) ?vid (id_now E)])"
      by (rule trim_parts [OF t(1), THEN conjunct1, symmetric])
    then have "backed (older @ newer) (archives r)"
      using r(2) new [OF True] by (cases "Some ?vid \<in> set (map version_id_of ?rs)") (simp_all only: if_True if_False simp_thms)
    then show ?thesis using r(3,4) t(2) by simp
  qed
qed

lemma promoted_meta_rows: "version_rows (promoted_meta E sha n rs meta) = rs"
  by (simp add: promoted_meta_def)

lemma backed_newer:
  assumes "backed (older @ newer) files"
  shows "backed newer (delete_version_files E older files)"
proof -
  have new: "backed newer files" using assms by (simp add: backed_def)
  have "dget (delete_version_files E older files) v = dget files v" if v: "v \<in> set (List.map_filter valid_row_id newer)" for v
  proof (rule delete_files_keeps)
    obtain row where "row \<in> set newer" "valid_row_id row = Some v" using v by (auto simp: List.map_filter_def)
    then show "Some v \<notin> set (map version_id_of older)" using assms valid_row_id_row_id [of row v] by (force simp: backed_def)
  qed
  then show ?thesis by (intro backed_mono [OF new]) simp
qed

text \<open>What a store has to say of its metadata for the steps from draft to current to be safe.\<close>

locale profile_store =
  fixes K :: store_kind
  assumes settle_rows: "version_rows (k_settle K m) = version_rows m"
    and default_listed: "jget (k_default K p) ''versions'' = JArr []"
begin

lemma default_rows: "version_rows (k_default K p) = []"
  by (simp add: version_rows_def default_listed)

lemma loaded_listed:
  "versions_listed p \<Longrightarrow> list_or_empty (jget (load_meta_or (k_default K p) p) ''versions'') =
     Inr (version_rows (load_meta_or (k_default K p) p))"
  by (auto simp: load_meta_or_def versions_listed_def default_listed default_rows split: option.split)

lemma commit_meta_keeps:
  assumes "history_ok p" "version_rows meta = newer" "backed (older @ newer) (archives p)"
  shows "history_ok (snd (commit_meta E K meta n older reason p))"
proof -
  have "history_ok (p\<lparr>meta_file := Holds (JObj meta), archives := delete_version_files E older (archives p)\<rparr>)"
    using assms backed_newer [OF assms(3)] by (simp add: history_ok_def delete_files_distinct)
  then show ?thesis using assms(1) by (simp add: commit_meta_def bind_st_def write_step_def Let_def)
qed

lemma promote_commit_keeps:
  assumes "history_ok p" "stamp_ok (id_stamp E)" "version_rows meta \<in> {[], index_rows (meta_file p)}"
    and "list_or_empty (jget meta ''versions'') = Inr (version_rows meta)"
  shows "history_ok (snd (promote_commit E K meta body reason p))"
  unfolding promote_commit_def
proof (intro bind_st_keeps [where P = history_ok] archive_current_keeps(1) [OF assms])
  fix parts q u r
  assume a: "archive_current E K meta p = (Inr parts, q)" and q: "history_ok q"
    and r: "write_step E Current_Write q (q\<lparr>current_md := Some body\<rparr>) = (Inr u, r)" and "history_ok r"
  have "backed (snd parts @ fst parts) (archives q)"
    using archive_current_keeps(2) [OF assms, of K "fst parts" "snd parts" q] a by simp
  then have "backed (snd parts @ fst parts) (archives r)" using r by (simp add: write_step_Inr)
  then show "history_ok (snd (let merged = k_adjust K meta (merge_draft_meta meta) in
     case promote_count merged of Inl e \<Rightarrow> (Inl e, r) | Inr cnt \<Rightarrow>
     let meta' = k_settle K (promoted_meta E (content_sha256 body) (cnt + 1) (fst parts) merged) in
     commit_meta E K meta' (cnt + 1) (snd parts) reason r))"
    using commit_meta_keeps [OF \<open>history_ok r\<close>] \<open>history_ok r\<close>
    by (simp add: Let_def settle_rows promoted_meta_rows split: sum.split)
qed (simp add: write_step_keeps)

lemma finish_promote_keeps:
  assumes "history_ok p" "version_rows meta = index_rows (meta_file p)"
  shows "history_ok (snd (finish_promote E K meta reason p))"
proof -
  have pruned: "history_ok (p\<lparr>archives := prune_orphan_version_files E (version_rows meta) (archives p)\<rparr>)"
    using assms backed_mono [of "version_rows meta" "archives p"] by (simp add: history_ok_def prune_keeps prune_distinct)
  have "prune_deferred E meta p \<in> {p, p\<lparr>archives := prune_orphan_version_files E (version_rows meta) (archives p)\<rparr>}"
    by (cases "jget meta ''versions''") (simp_all add: prune_deferred_def version_rows_def)
  then have "history_ok (prune_deferred E meta p)" using pruned assms(1) by auto
  then show ?thesis by (simp add: finish_promote_def Let_def split: sum.split)
qed

lemma promote_draft_keeps:
  assumes "history_ok p" "versions_listed p" "stamp_ok (id_stamp E)"
  shows "history_ok (snd (promote_draft E K reason expected p))"
proof -
  let ?meta = "load_meta_or (k_default K p) p"
  have rows: "version_rows ?meta = index_rows (meta_file p)" by (rule load_meta_or_rows [OF default_rows])
  then have "history_ok (snd (finish_promote E K ?meta reason p))" 
    "history_ok (snd (promote_commit E K ?meta (read_text_or_empty (draft_md p)) reason p))"
    using finish_promote_keeps [OF assms(1)] promote_commit_keeps [OF assms(1,3)] loaded_listed [OF assms(2)] by simp_all
  then show ?thesis using assms(1) by (simp add: promote_draft_def Let_def)
qed

end

interpretation sf: profile_store "self_store E" for E
  by unfold_locales (simp_all add: self_store_def default_meta_def Let_def)

lemma promote_keeps:
  assumes "history_ok p" "stamp_ok (id_stamp E)"
  shows "history_ok (snd (promote E reason expected p))"
proof (cases "strip reason = []")
  case False
  show ?thesis unfolding promote_def if_not_P [OF False]
    by (rule bind_st_keeps [where P = history_ok, OF ensure_layout_keeps(1) [OF assms(1)]])
      (blast intro: sf.promote_draft_keeps ensure_layout_keeps(2) assms)
qed (simp add: promote_def assms(1))

section \<open>Reachable profiles\<close>

text \<open>Drafts and promotes, in any order, each with its own outcome for every write.\<close>

inductive profile_step :: "profile \<Rightarrow> profile \<Rightarrow> bool" where
  drafting: "profile_step p (snd (write_draft E body patch reason p))"
| promoting: "stamp_ok (id_stamp E) \<Longrightarrow> profile_step p (snd (promote E reason expected p))"

inductive_cases profile_stepE: "profile_step p q"

text \<open>A directory nothing has written metadata to: fresh, or with a legacy body.\<close>

definition unversioned :: "profile \<Rightarrow> bool" where
  "unversioned p \<longleftrightarrow> meta_file p = Absent \<and> distinct (dkeys (archives p))"

interpretation hist: transition_system unversioned profile_step history_ok
proof
  show "unversioned p \<Longrightarrow> history_ok p" for p
    by (simp add: unversioned_def history_ok_def index_rows_def load_json_object_def)
  show "history_ok p \<Longrightarrow> profile_step p q \<Longrightarrow> history_ok q" for p q
    by (erule profile_stepE) (simp_all add: write_draft_keeps promote_keeps)
qed

text \<open>
  C38. The version history is never out of step with the disk. From a directory without metadata, after any
  drafts and promotes whatever write of theirs failed, each row of the index in \<open>meta.json\<close> has a version
  id of its own, and reading that version succeeds.
\<close>

theorem identity_history_is_on_disk:
  assumes "unversioned p0" "profile_step\<^sup>*\<^sup>* p0 p"
  shows "distinct (map version_id_of (index_rows (meta_file p))) \<and>
    (\<forall>row\<in>set (index_rows (meta_file p)). \<exists>v.
       version_id_of row = Some v \<and> jget (get_profile (self_store E) ''version'' (Some v) p) ''ok'' = JBool True)"
proof -
  have ok: "backed (index_rows (meta_file p)) (archives p)"
    using hist.inv_reachable [OF assms] by (simp add: history_ok_def)
  have "version_id_of row = Some v \<and> jget (get_profile (self_store E) ''version'' (Some v) p) ''ok'' = JBool True"
    if "valid_row_id row = Some v" "dget (archives p) v \<noteq> None" for row v
    using that(2) valid_row_id_row_id [OF that(1)] by (auto simp: get_profile_def Let_def)
  then show ?thesis using ok unfolding backed_def list_all_iff row_backed_def by blast
qed

section \<open>What a promote does\<close>

lemma newlines_no_cr: "CHR 0x0D \<notin> set (universal_newlines t)"
  by (induction t rule: universal_newlines.induct) (auto split: list.splits)

lemma newlines_idem [simp]: "universal_newlines (universal_newlines t) = universal_newlines t"
  by (simp add: universal_newlines_id newlines_no_cr)

lemma archive_current_outgoing:
  assumes a: "archive_current E K meta p = (Inr (newer, older), q)" and out: "outgoing K p"
    and fresh: "dget (archives p) (archive_id E meta) = None"
    and rows: "list_or_empty (jget meta ''versions'') = Inr rs" "backed rs (archives p)"
  shows "q = p\<lparr>archives := dset (archives p) (archive_id E meta) (self_digest p)\<rparr> \<and>
    older @ newer = rs @ [archive_index_entry (archives q) (archive_id E meta) (id_now E)] \<and> newer \<noteq> [] \<and>
    length newer \<le> VERSION_GC_LIMIT"
proof -
  let ?vid = "archive_id E meta"
  let ?q = "p\<lparr>archives := dset (archives p) ?vid (self_digest p)\<rparr>"
  have new: "Some ?vid \<notin> set (map version_id_of rs)"
  proof
    assume "Some ?vid \<in> set (map version_id_of rs)"
    then obtain row where "row \<in> set rs" "version_id_of row = Some ?vid" by auto
    then show False using rows(2) fresh by (auto simp: backed_def list_all_iff row_backed_def dest!: valid_row_id_row_id bspec)
  qed
  have "archive_current E K meta p =
      (if step_ok E Archive_Write
       then (Inr (trim_versions_index (rs @ [archive_index_entry (archives ?q) ?vid (id_now E)]) VERSION_GC_LIMIT), ?q)
       else (Inl OSError, p))"
    unfolding archive_current_def rows(1) Let_def fresh
    using out new by (simp add: bind_st_def write_step_def)
  then have q: "q = ?q" and t: "trim_versions_index (rs @ [archive_index_entry (archives ?q) ?vid (id_now E)])
      VERSION_GC_LIMIT = (newer, older)"
    using a by (auto split: if_splits)
  have "newer \<noteq> []" using t by (auto simp: trim_versions_index_def VERSION_GC_LIMIT_def split: if_splits)
  then show ?thesis using q trim_parts [OF t] by simp
qed

lemma promote_commit_Inr:
  assumes "promote_commit E K meta body reason p = (Inr r, p')" "jget r ''ok'' = JBool True"
  obtains newer older q n where "archive_current E K meta p = (Inr (newer, older), q)"
    "p' = q\<lparr>current_md := Some body,
            meta_file := Holds (JObj (k_settle K (promoted_meta E (content_sha256 body) n newer
              (k_adjust K meta (merge_draft_meta meta))))),
            archives := delete_version_files E older (archives q), draft_md := None\<rparr>"
proof -
  let ?merged = "k_adjust K meta (merge_draft_meta meta)"
  obtain parts q where a: "archive_current E K meta p = (Inr parts, q)"
    and rest: "(case promote_count ?merged of Inl e \<Rightarrow> (Inl e, q\<lparr>current_md := Some body\<rparr>) | Inr cnt \<Rightarrow>
      commit_meta E K (k_settle K (promoted_meta E (content_sha256 body) (cnt + 1) (fst parts) ?merged)) (cnt + 1)
        (snd parts) reason (q\<lparr>current_md := Some body\<rparr>)) = (Inr r, p')"
    using assms(1) unfolding promote_commit_def Let_def by (auto simp: bind_st_Inr write_step_Inr)
  then obtain cnt where m: "commit_meta E K (k_settle K (promoted_meta E (content_sha256 body) (cnt + 1) (fst parts) ?merged))
      (cnt + 1) (snd parts) reason (q\<lparr>current_md := Some body\<rparr>) = (Inr r, p')"
    by (cases "promote_count ?merged") simp_all
  show thesis
  proof (rule that [of "fst parts" "snd parts" q "cnt + 1"])
    show "archive_current E K meta p = (Inr (fst parts, snd parts), q)" using a by simp
    show "p' = q\<lparr>current_md := Some body,
            meta_file := Holds (JObj (k_settle K (promoted_meta E (content_sha256 body) (cnt + 1) (fst parts) ?merged))),
            archives := delete_version_files E (snd parts) (archives q), draft_md := None\<rparr>"
      using m assms(2) by (auto simp: commit_meta_def bind_st_Inr write_step_Inr refusal_def Let_def split: if_splits)
  qed
qed

lemma promote_Inr:
  assumes "promote E reason expected p = (Inr r, p')" "jget r ''ok'' = JBool True" "ensure_layout E p = (Inr (), q)"
    and "\<not> already_promoted (load_meta_or (default_meta E q) q) (read_text_or_empty (draft_md q)) q"
  shows "promote_commit E (self_store E) (load_meta_or (default_meta E q) q) (read_text_or_empty (draft_md q)) reason q = (Inr r, p')"
  using assms
  by (auto simp: promote_def promote_draft_def refusal_def bind_st_def self_store_def Let_def split: if_splits)


section \<open>A promote that fails at its metadata\<close>

lemma dget_pruned:
  "dget (prune_orphan_version_files E rs files) v =
     (if version_id_ok v \<and> v \<notin> set (List.map_filter valid_row_id rs) \<and> step_ok E (Prune_File v) then None else dget files v)"
  unfolding prune_orphan_version_files_def Let_def by (subst dget_filter_key) auto

lemma ensure_layout_settled:
  assumes "current_md p = Some body" "meta_file p = Holds (JObj meta)" "maybe_migrate_self_v2 E body = None"
  shows "ensure_layout E p = heal_layout E p"
  using assms
  by (simp add: ensure_layout_def seed_current_def copy_legacy_def ensure_meta_def migrate_live_def live_file_def bind_st_def)

lemma heal_layout_prunes:
  assumes "meta_file p = Holds (JObj meta)" "backed (version_rows meta) (archives p)" "version_rows meta \<noteq> []"
    and "dget (archives p) v \<noteq> None" "version_id_ok v" "v \<notin> set (List.map_filter valid_row_id (version_rows meta))"
  shows "heal_layout E p =
    (Inr (), p\<lparr>archives := prune_orphan_version_files E (version_rows meta) (archives p)\<rparr>)"
proof -
  have "v \<in> set (dkeys (archives p))" using assms(4) by (simp only: dget_None_iff not_not)
  then have orphan: "list_ex (\<lambda>v. v \<notin> set (List.map_filter valid_row_id (version_rows meta)))
      (filter version_id_ok (dkeys (archives p)))"
    using assms(5,6) by (simp only: list_ex_iff set_filter) blast
  have versions: "jget meta ''versions'' = JArr (version_rows meta)"
    using assms(3) by (auto simp: version_rows_def split: json.splits)
  show ?thesis
    using heal_eq [OF assms(2), of E] orphan versions assms(1,3)
    by (simp add: heal_layout_def load_json_object_def Let_def list_or_empty_def)
qed

lemma promote_commit_archives:
  assumes "outgoing K p" "dget (archives p) (archive_id E meta) = None"
    and "list_or_empty (jget meta ''versions'') = Inr (version_rows meta)" "backed (version_rows meta) (archives p)"
    and "step_ok E Archive_Write" "step_ok E Current_Write" "promote_count (k_adjust K meta (merge_draft_meta meta)) = Inr n"
  obtains older newer meta' where
    "promote_commit E K meta body reason p = commit_meta E K meta' (n + 1) older reason
       (p\<lparr>archives := dset (archives p) (archive_id E meta) (self_digest p), current_md := Some body\<rparr>)"
    "older @ newer = version_rows meta @ [archive_index_entry (dset (archives p) (archive_id E meta) (self_digest p))
       (archive_id E meta) (id_now E)]"
    "newer \<noteq> []"
proof -
  let ?vid = "archive_id E meta"
  let ?q = "p\<lparr>archives := dset (archives p) ?vid (self_digest p)\<rparr>"
  obtain parts q where a: "archive_current E K meta p = (Inr parts, q)"
    using assms(1,2,3,5) by (auto simp: archive_current_def bind_st_def write_step_def Let_def)
  note arch = archive_current_outgoing [of E K meta p "fst parts" "snd parts" q, OF _ assms(1,2,3,4)]
  have q: "q = ?q" and rows: "snd parts @ fst parts = version_rows meta @ [archive_index_entry (archives q) ?vid (id_now E)]"
      "fst parts \<noteq> []" using arch a by auto
  have run: "promote_commit E K meta body reason p =
      commit_meta E K (k_settle K (promoted_meta E (content_sha256 body) (n + 1) (fst parts) (k_adjust K meta (merge_draft_meta meta))))
        (n + 1) (snd parts) reason (?q\<lparr>current_md := Some body\<rparr>)"
    using assms(6,7) unfolding q [symmetric] by (simp add: promote_commit_def a bind_st_def write_step_def Let_def)
  show thesis by (rule that [OF run]) (use q rows in simp_all)
qed

lemma delete_files_Some:
  "dget (delete_version_files E older files) v = Some t \<Longrightarrow> dget files v = Some t"
proof (induction older arbitrary: files)
  case (Cons row older)
  have del: "dget (AList.delete u files) v = Some t \<Longrightarrow> dget files v = Some t" for u
    by (simp add: delete_conv' split: if_splits)
  show ?case using Cons.IH [OF Cons.prems [unfolded delete_files_Cons]] del
    by (cases "version_id_of row"; cases "step_ok E (Drop_File (the (version_id_of row)))") simp_all
qed (simp add: delete_version_files_def)

lemma self_digest_current: "current_md p = Some t \<Longrightarrow> self_digest p = universal_newlines t"
  by (simp add: self_digest_def live_file_def read_text_or_empty_def)


section \<open>Witnesses\<close>

definition id_demo_env :: "fs_step list \<Rightarrow> id_env" where
  "id_demo_env failing = \<lparr>step_ok = (\<lambda>s. s \<notin> set failing), id_now = ''t1'', id_stamp = ''20260726T153045Z'',
     id_token = int, seed_template = None, seed_v1_text = [], drive_section = []\<rparr>"

definition id_demo_meta :: jdict where
  "id_demo_meta = [(''current_version_id'', JStr ''20260102T000000Z_00000b''),
     (''versions'', JArr [JObj [(''version_id'', JStr ''20260101T000000Z_00000a'')]])]"

definition id_demo :: profile where
  "id_demo = \<lparr>current_md = Some ''<!-- elyra-self-v2 --> old'', draft_md = Some ''<!-- elyra-self-v2 --> new'',
     legacy_md = None, meta_file = Holds (JObj id_demo_meta), archives = [(''20260101T000000Z_00000a'', ''first'')]\<rparr>"

lemma id_demo_ids:
  "version_id_ok ''20260101T000000Z_00000a''" "version_id_ok ''20260102T000000Z_00000b''"
  "stamp_ok (id_stamp (id_demo_env failing))"
  by (simp_all add: version_id_ok_def is_digit_def is_hex_def code_def stamp_ok_def id_demo_env_def)

lemma id_demo_parts:
  "current_md id_demo = Some ''<!-- elyra-self-v2 --> old''" "draft_md id_demo = Some ''<!-- elyra-self-v2 --> new''"
  "meta_file id_demo = Holds (JObj id_demo_meta)" "archives id_demo = [(''20260101T000000Z_00000a'', ''first'')]"
  "version_rows id_demo_meta = [JObj [(''version_id'', JStr ''20260101T000000Z_00000a'')]]"
  by (simp_all add: id_demo_def id_demo_meta_def version_rows_def)

lemma id_demo_row: "valid_row_id (JObj [(''version_id'', JStr ''20260101T000000Z_00000a'')]) = Some ''20260101T000000Z_00000a''"
  using id_demo_ids(1) by (simp add: valid_row_id_def version_id_of_def as_str_opt_def)

lemma id_demo_history: "history_ok id_demo"
  by (simp add: history_ok_def id_demo_parts backed_def row_backed_def id_demo_row)

lemma id_demo_marked:
  "maybe_migrate_self_v2 E ''<!-- elyra-self-v2 --> old'' = None" "maybe_migrate_self_v2 E ''<!-- elyra-self-v2 --> new'' = None"
  by (simp_all add: maybe_migrate_self_v2_def SELF_V2_MARKER_def)

lemma id_demo_layout: "ensure_layout E id_demo = (Inr (), id_demo)"
proof -
  have "heal_layout E id_demo = (Inr (), id_demo)"
    using heal_eq [of id_demo_meta "archives id_demo" E] id_demo_history id_demo_ids(1)
    by (simp add: heal_layout_def id_demo_parts load_json_object_def id_demo_row List.map_filter_def history_ok_def)
      (simp add: id_demo_meta_def list_or_empty_def id_demo_def)
  then show ?thesis using ensure_layout_settled [OF id_demo_parts(1,3)] id_demo_marked by simp
qed

definition id_fresh :: profile where
  "id_fresh = \<lparr>current_md = None, draft_md = None, legacy_md = Some ''old'', meta_file = Absent, archives = []\<rparr>"

theorem identity_history_is_on_disk_witness:
  "distinct (map version_id_of (index_rows (meta_file
     (snd (promote (id_demo_env [Meta_Commit]) ''renewed'' None
       (snd (write_draft (id_demo_env []) (Some ''new'') [] ''why'' id_fresh)))))))"
proof -
  have "unversioned id_fresh" by (simp add: unversioned_def id_fresh_def)
  moreover have "profile_step\<^sup>*\<^sup>* id_fresh (snd (promote (id_demo_env [Meta_Commit]) ''renewed'' None
       (snd (write_draft (id_demo_env []) (Some ''new'') [] ''why'' id_fresh))))"
    using drafting [of id_fresh "id_demo_env []"] promoting [OF id_demo_ids(3) [of "[Meta_Commit]"]]
    by (meson rtranclp.rtrancl_into_rtrancl rtranclp.rtrancl_refl)
  ultimately show ?thesis using identity_history_is_on_disk by blast
qed

lemma id_demo_count: "promote_count (merge_draft_meta id_demo_meta) = Inr 0"
  by (simp add: promote_count_def merge_draft_meta_def id_demo_meta_def)

lemma id_demo_texts: "strip ''renewed self'' \<noteq> []" "strip ''<!-- elyra-self-v2 --> new'' \<noteq> []"
  by (simp_all add: strip_def lstrip_def rstrip_def is_space_def code_def)

lemma id_demo_promote:
  obtains r p' where "promote (id_demo_env []) ''renewed self'' None id_demo = (Inr r, p')" "jget r ''ok'' = JBool True"
proof -
  let ?E = "id_demo_env []" and ?K = "self_store (id_demo_env [])"
  have run: "promote ?E ''renewed self'' None id_demo =
      promote_commit ?E ?K id_demo_meta ''<!-- elyra-self-v2 --> new'' ''renewed self'' id_demo"
    using id_demo_texts
    by (simp add: promote_def id_demo_layout bind_st_def promote_draft_def id_demo_parts has_draft_def read_text_or_empty_def
        load_meta_or_def load_json_object_def already_promoted_def self_digest_current Let_def id_demo_meta_def)
  have vid: "archive_id ?E id_demo_meta = ''20260102T000000Z_00000b''"
    using id_demo_ids(2) by (simp add: archive_id_def id_demo_meta_def)
  have "outgoing ?K id_demo" by (simp add: outgoing_def self_digest_current id_demo_parts)
  moreover have "dget (archives id_demo) (archive_id ?E id_demo_meta) = None" by (simp add: vid id_demo_parts)
  moreover have "list_or_empty (jget id_demo_meta ''versions'') = Inr (version_rows id_demo_meta)"
    by (simp add: id_demo_meta_def version_rows_def)
  moreover have "backed (version_rows id_demo_meta) (archives id_demo)"
    using id_demo_history by (simp add: history_ok_def id_demo_parts)
  moreover have "step_ok ?E Archive_Write" "step_ok ?E Current_Write" by (simp_all add: id_demo_env_def)
  moreover have "promote_count (k_adjust ?K id_demo_meta (merge_draft_meta id_demo_meta)) = Inr 0"
    by (simp add: id_demo_count self_store_def)
  ultimately obtain older m where "promote_commit ?E ?K id_demo_meta ''<!-- elyra-self-v2 --> new'' ''renewed self'' id_demo =
      commit_meta ?E ?K m 1 older ''renewed self''
        (id_demo\<lparr>archives := dset (archives id_demo) (archive_id ?E id_demo_meta) (self_digest id_demo),
                  current_md := Some ''<!-- elyra-self-v2 --> new''\<rparr>)"
    by (rule promote_commit_archives [where n = 0]) simp
  then show thesis using that run by (simp add: commit_meta_def bind_st_def write_step_def id_demo_env_def Let_def)
qed



end
