(* ===== verification/Promotion.thy ===== *)
theory Promotion
  imports Identity
begin

text \<open>
  Who may change an identity: the user profiles of \<open>elyra/users/store.py\<close>, the model's tools of
  \<open>elyra/tools/builtin/identity.py\<close> and the operator's routes of \<open>elyra/runtime/api.py\<close>, which run the
  gate, consume a grant for the self and promote. The lemmas show that successful self promotes are paid
  for by the grants the operator minted, and that the model reaches no other user's profile.
\<close>

section \<open>User profiles\<close>

definition norm_str :: "json \<Rightarrow> string option" where
  "norm_str j =
     (case j of
        JNull \<Rightarrow> None
      | JStr s \<Rightarrow> if strip s = [] then None else Some (strip s)
      | _ \<Rightarrow> Some (py_str j))"

definition norm_bool :: "json \<Rightarrow> bool option" where
  "norm_bool j = (case j of JNull \<Rightarrow> None | _ \<Rightarrow> Some (truthy j))"

definition no_nudge :: json where
  "no_nudge = JObj [(''last_moment_id'', JNull), (''last_at'', JNull), (''count'', JInt 0)]"

definition default_goes_by :: "string \<Rightarrow> string" where
  "default_goes_by uid = (if uid = ''operator'' then ''Operator'' else uid)"

definition user_meta :: "id_env \<Rightarrow> string \<Rightarrow> string \<Rightarrow> string \<Rightarrow> json \<Rightarrow> bool \<Rightarrow> bool \<Rightarrow> jdict" where
  "user_meta E uid body label full_name known provisional =
     [(''schema_version'', JInt 1), (''actor'', JStr ''user''), (''user_id'', JStr uid),
      (''display_name'', JStr label), (''full_name'', full_name), (''goes_by'', JStr label),
      (''real_name_known'', JBool known), (''provisional'', JBool provisional), (''created_at'', JStr (id_now E)),
      (''current_version_id'', JStr (minted E 0)), (''draft_updated_at'', JNull), (''draft_meta'', JNull),
      (''current_promoted_at'', JStr (id_now E)),
      (''current_content_sha256'', if body \<noteq> [] then JStr (content_sha256 body) else JNull),
      (''promote_count'', JInt 0), (''versions'', JArr []), (''name_nudge'', no_nudge), (''notes'', JObj [])]"

definition user_default :: "id_env \<Rightarrow> string \<Rightarrow> profile \<Rightarrow> jdict" where
  "user_default E uid p = user_meta E uid (self_digest p) (default_goes_by uid) JNull False False"

text \<open>A changed name or name status starts the name nudges again; a known name is not provisional.\<close>

definition reset_nudge :: "jdict \<Rightarrow> jdict \<Rightarrow> jdict" where
  "reset_nudge pre merged =
     (if norm_str (jget merged ''goes_by'') \<noteq> norm_str (jget pre ''goes_by'') \<or>
         norm_bool (jget merged ''real_name_known'') \<noteq> norm_bool (jget pre ''real_name_known'')
      then dset merged ''name_nudge'' no_nudge else merged)"

definition clear_provisional :: "jdict \<Rightarrow> jdict" where
  "clear_provisional meta =
     (if jget meta ''real_name_known'' = JBool True \<and> truthy (jget meta ''provisional'')
      then dset meta ''provisional'' (JBool False) else meta)"

definition user_tag :: "string \<Rightarrow> jdict" where
  "user_tag uid = [(''actor'', JStr ''user''), (''user_id'', JStr uid)]"

definition user_store :: "id_env \<Rightarrow> string \<Rightarrow> store_kind" where
  "user_store E uid = \<lparr>k_tag = user_tag uid, k_default = user_default E uid, k_legacy = True,
     k_adjust = reset_nudge, k_settle = clear_provisional\<rparr>"

type_synonym users = "(string, profile) dict"

definition profile_exists :: "profile \<Rightarrow> bool" where
  "profile_exists p \<longleftrightarrow> current_md p \<noteq> None \<or> legacy_md p \<noteq> None \<or> meta_file p \<noteq> Absent"

definition user_exists :: "string \<Rightarrow> users \<Rightarrow> bool" where
  "user_exists uid us \<longleftrightarrow> (case dget us uid of Some p \<Rightarrow> profile_exists p | None \<Rightarrow> False)"

definition list_user_ids :: "users \<Rightarrow> string list" where
  "list_user_ids us = sort (filter segment_ok (dkeys us))"

definition ensure_one :: "id_env \<Rightarrow> string \<Rightarrow> profile \<Rightarrow> unit res \<times> profile" where
  "ensure_one E uid p =
     (if \<not> segment_ok uid \<or> \<not> profile_exists p then (Inr (), p)
      else bind_st (copy_legacy E p) (\<lambda>_ p.
           bind_st (ensure_meta E (user_default E uid p) p) (\<lambda>_ p.
           heal_layout E p)))"

text \<open>An operation on the directory of one user that is there.\<close>

definition on_user :: "string \<Rightarrow> (profile \<Rightarrow> 'a res \<times> profile) \<Rightarrow> users \<Rightarrow> 'a res \<times> users" where
  "on_user uid f us = (case f (the (dget us uid)) of (r, p) \<Rightarrow> (r, dset us uid p))"

definition user_promote :: "id_env \<Rightarrow> string \<Rightarrow> string \<Rightarrow> string option \<Rightarrow> users \<Rightarrow> jdict res \<times> users" where
  "user_promote E uid reason expected us =
     (if strip reason = [] then (Inr (refusal (user_tag uid) ''missing_reason''), us)
      else if \<not> segment_ok uid then (Inr (refusal (user_tag uid) ''invalid_user_id''), us)
      else if \<not> user_exists uid us then (Inr (refusal (user_tag uid) ''user_not_found''), us)
      else on_user uid (\<lambda>p.
        bind_st (ensure_one E uid p) (\<lambda>_ p. promote_draft E (user_store E uid) reason expected p)) us)"

section \<open>Name nudges and user drafts\<close>

definition record_name_nudge :: "id_env \<Rightarrow> string \<Rightarrow> string \<Rightarrow> profile \<Rightarrow> json res \<times> profile" where
  "record_name_nudge E uid mid p =
     bind_st (ensure_one E uid p) (\<lambda>_ p.
     case load_json_object (meta_file p) of None \<Rightarrow> (Inr JNull, p) | Some meta \<Rightarrow>
     let live = (case jget meta ''name_nudge'' of JObj d \<Rightarrow> d | _ \<Rightarrow> dict_of no_nudge);
         n = jget live ''count''
     in case py_int (if truthy n then n else JInt 0) of Inl e \<Rightarrow> (Inl e, p) | Inr made \<Rightarrow>
     let live' = dset (dset (dset live ''last_moment_id'' (JStr (strip mid))) ''last_at'' (JStr (id_now E)))
                    ''count'' (JInt (made + 1))
     in bind_st (write_step E Nudge_Meta p (p\<lparr>meta_file := Holds (JObj (dset meta ''name_nudge'' (JObj live')))\<rparr>))
          (\<lambda>_ p. (Inr (JObj live'), p)))"

text \<open>The nudge a draft asks for; \<open>JNull\<close> stands for the refusal of a profile without metadata.\<close>

definition nudge_first :: "id_env \<Rightarrow> string \<Rightarrow> bool \<Rightarrow> string \<Rightarrow> profile \<Rightarrow> json option res \<times> profile" where
  "nudge_first E uid wanted mid p =
     (if \<not> wanted then (Inr None, p)
      else bind_st (record_name_nudge E uid mid p) (\<lambda>live p. (Inr (Some live), p)))"

definition save_user_draft ::
  "id_env \<Rightarrow> string \<Rightarrow> string option \<Rightarrow> jdict \<Rightarrow> string \<Rightarrow> json option \<Rightarrow> profile \<Rightarrow> jdict res \<times> profile" where
  "save_user_draft E uid body flds reason live p =
     bind_st (write_draft_body E body p) (\<lambda>_ p.
     let merged = allowed_draft_meta (merge_draft_fields (load_meta_or (user_default E uid p) p) flds);
         meta = dset merged ''draft_updated_at'' (JStr (id_now E))
     in bind_st (write_step E Draft_Meta p (p\<lparr>meta_file := Holds (JObj meta)\<rparr>)) (\<lambda>_ p.
        (Inr (draft_reply (user_tag uid) reason meta p @
              (case live of None \<Rightarrow> [] | Some n \<Rightarrow> [(''name_nudge'', n)])), p)))"

definition nudge_only_reply :: "string \<Rightarrow> string \<Rightarrow> json option \<Rightarrow> profile \<Rightarrow> jdict" where
  "nudge_only_reply uid reason live p =
     [(''ok'', JBool True)] @ user_tag uid @
     [(''has_draft'', JBool (has_draft p)),
      (''draft_meta'', jget (case load_json_object (meta_file p) of Some d \<Rightarrow> d | None \<Rightarrow> []) ''draft_meta''),
      (''name_nudge'', case live of Some n \<Rightarrow> n | None \<Rightarrow> JNull), (''reason'', JStr (strip reason))]"

definition user_write_draft_at ::
  "id_env \<Rightarrow> string \<Rightarrow> string option \<Rightarrow> jdict \<Rightarrow> string \<Rightarrow> string option \<Rightarrow> profile \<Rightarrow> jdict res \<times> profile" where
  "user_write_draft_at E uid body meta_patch reason mid p =
     bind_st (ensure_one E uid p) (\<lambda>_ p.
     case strip_operational_keys meta_patch of (flds, ops) \<Rightarrow>
     let wanted = (jget ops ''record_name_nudge'' = JBool True);
         moment = (case mid of Some m \<Rightarrow> strip m | None \<Rightarrow> []);
         meta = load_meta_or (user_default E uid p) p
     in if wanted \<and> moment = [] then (Inr (refusal (user_tag uid) ''missing_moment_id''), p)
        else if unforced_full_name meta flds ops then (Inr (refusal (user_tag uid) ''full_name_force_required''), p)
        else case (case body of Some t \<Rightarrow> body_error t
                   | None \<Rightarrow> if flds = [] \<and> \<not> wanted then Some ''empty_body'' else None) of
          Some e \<Rightarrow> (Inr (refusal (user_tag uid) e), p)
        | None \<Rightarrow>
          bind_st (nudge_first E uid wanted moment p) (\<lambda>live p.
          if live = Some JNull then (Inr (refusal (user_tag uid) ''user_not_found''), p)
          else if body = None \<and> flds = [] then (Inr (nudge_only_reply uid reason live p), p)
          else save_user_draft E uid body flds reason live p))"

definition user_write_draft ::
  "id_env \<Rightarrow> string \<Rightarrow> string option \<Rightarrow> jdict \<Rightarrow> string \<Rightarrow> string option \<Rightarrow> users \<Rightarrow> jdict res \<times> users" where
  "user_write_draft E uid body meta_patch reason mid us =
     (if strip reason = [] then (Inr (refusal (user_tag uid) ''missing_reason''), us)
      else if \<not> segment_ok uid then (Inr (refusal (user_tag uid) ''invalid_user_id''), us)
      else if \<not> user_exists uid us then (Inr (refusal (user_tag uid) ''user_not_found''), us)
      else on_user uid (user_write_draft_at E uid body meta_patch reason mid) us)"

section \<open>New users\<close>

fun squeeze :: "string \<Rightarrow> string" where
  "squeeze (a # b # cs) = (if a = CHR ''_'' \<and> b = CHR ''_'' then squeeze (b # cs) else a # squeeze (b # cs))"
| "squeeze cs = cs"

definition strip_marks :: "string \<Rightarrow> string" where
  "strip_marks s =
     (let mark = (\<lambda>c. c = CHR ''_'' \<or> c = CHR ''.'') in rev (dropWhile mark (rev (dropWhile mark s))))"

definition slugify_goes_by :: "string \<Rightarrow> string option" where
  "slugify_goes_by goes_by =
     (let alnum = (\<lambda>c. is_word c \<and> c \<noteq> CHR ''_'');
          slug = strip_marks (squeeze (map (\<lambda>c. if alnum c then c else CHR ''_'') (lower goes_by)));
          slug' = (if slug \<noteq> [] \<and> \<not> alnum (hd slug) then ''u_'' @ slug else slug)
      in if slug = [] \<or> \<not> segment_ok slug' then None else Some (take 48 slug'))"

text \<open>\<open>draw n\<close> is the \<open>n\<close>-th random number the call draws. The reply of a creation leaves out the path.\<close>

definition guest_id :: "(nat \<Rightarrow> int) \<Rightarrow> nat \<Rightarrow> string" where
  "guest_id draw n = ''guest_'' @ hex_of 6 (draw n)"

definition last_guest :: "(nat \<Rightarrow> int) \<Rightarrow> nat \<Rightarrow> string list \<Rightarrow> string" where
  "last_guest draw from_n existing =
     (case List.find (\<lambda>n. guest_id draw n \<notin> set existing) [from_n..<from_n + 32] of
        Some n \<Rightarrow> guest_id draw n
      | None \<Rightarrow> ''guest_'' @ hex_of 16 (draw (from_n + 32)))"

definition mint_user_id :: "(nat \<Rightarrow> int) \<Rightarrow> string \<Rightarrow> string list \<Rightarrow> string option \<Rightarrow> string res" where
  "mint_user_id draw goes_by existing wanted_id =
     (case (case wanted_id of Some u \<Rightarrow> strip u | None \<Rightarrow> []) of
        c # cs \<Rightarrow>
          (let safe = c # cs in
           if \<not> segment_ok safe then Inl (ValueError ''invalid user_id'')
           else if safe \<in> set existing then Inl (ValueError ''user_id_exists'')
           else Inr safe)
      | [] \<Rightarrow>
          (case slugify_goes_by goes_by of
             None \<Rightarrow> Inr (last_guest draw 0 existing)
           | Some candidate \<Rightarrow>
               if candidate \<notin> set existing then Inr candidate
               else
                 let trial = (\<lambda>n. take 40 candidate @ ''_'' @ hex_of 4 (draw n)) in
                 case List.find (\<lambda>n. trial n \<notin> set existing) [0..<16] of
                   Some n \<Rightarrow> Inr (trial n)
                 | None \<Rightarrow> Inr (last_guest draw 16 existing)))"

definition provisional_body :: "string \<Rightarrow> string" where
  "provisional_body goes_by =
     ''# '' @ goes_by @ [CHR 0x0A, CHR 0x0A] @ ''Provisional guest profile. Real name not yet confirmed.'' @
     [CHR 0x0A, CHR 0x0A] @ ''## Relationship notes'' @ [CHR 0x0A, CHR 0x0A] @
     ''- Met this session. Prefer asking their name once, then stop nagging.'' @ [CHR 0x0A]"

definition empty_profile :: profile where
  "empty_profile = \<lparr>current_md = None, draft_md = None, legacy_md = None, meta_file = Absent, archives = []\<rparr>"

definition create_user ::
  "id_env \<Rightarrow> (nat \<Rightarrow> int) \<Rightarrow> string \<Rightarrow> string option \<Rightarrow> bool \<Rightarrow> json \<Rightarrow> bool \<Rightarrow> string option \<Rightarrow> users \<Rightarrow> jdict res \<times> users"
  where
  "create_user E draw goes_by wanted_id provisional full_name known body us =
     (let label = strip goes_by; existing = list_user_ids us in
      if label = [] then (Inr (failed ''missing_goes_by''), us)
      else case mint_user_id draw label existing wanted_id of
        Inl (ValueError e) \<Rightarrow>
          (Inr (failed (if e = ''user_id_exists'' then e else ''invalid_user_id'') @
                [(''user_id'', if e = ''user_id_exists'' then opt_json (\<lambda>u. JStr (strip u)) wanted_id
                               else opt_json JStr wanted_id)]), us)
      | Inl e \<Rightarrow> (Inl e, us)
      | Inr uid \<Rightarrow>
          if uid \<in> set existing then (Inr (failed ''user_id_exists'' @ [(''user_id'', JStr uid)]), us)
          else
            let t = (case body of Some b \<Rightarrow> if strip b \<noteq> [] then b else provisional_body label
                     | None \<Rightarrow> provisional_body label);
                us1 = dset us uid (case dget us uid of Some p \<Rightarrow> p | None \<Rightarrow> empty_profile)
            in case check_body_size t of
                 Some e \<Rightarrow> (Inr (failed e), us1)
               | None \<Rightarrow>
                   on_user uid (\<lambda>p.
                     bind_st (write_step E Current_Write p (p\<lparr>current_md := Some t\<rparr>)) (\<lambda>_ p.
                     let meta = user_meta E uid t label full_name known provisional in
                     bind_st (write_step E Meta_Default p (p\<lparr>meta_file := Holds (JObj meta)\<rparr>)) (\<lambda>_ p.
                     (Inr [(''ok'', JBool True), (''user_id'', JStr uid), (''goes_by'', JStr label),
                           (''provisional'', JBool provisional), (''meta'', JObj meta)], p)))) us1)"

section \<open>The tools\<close>

record identity_world =
  grants_file :: json_file
  self_profile :: profile
  user_profiles :: users

text \<open>
  The context of a tool call: whether the two stores are wired, the session user, and the kind of the
  wake (as the worker puts it among the extras, and as the wake object carries it).
\<close>

record identity_ctx =
  x_identity :: bool
  x_users :: bool
  x_user_id :: "string option"
  x_wake_kind :: "string option"
  x_wake :: "string option"

text \<open>The environments of one call: the clock at the gate and when the grant is consumed, and the store.\<close>

record identity_call =
  at_gate :: grant_env
  at_consume :: grant_env
  at_store :: id_env

definition tool_reply :: "bool \<Rightarrow> jdict \<Rightarrow> string option \<Rightarrow> tool_result" where
  "tool_reply success d reason = \<lparr>tr_ok = success, payload = JObj d, error_reason = reason, ends_moment = False,
     stop_reason = None, arm_wait = None, counts_as_speak = False\<rparr>"

definition tool_error :: "string \<Rightarrow> tool_result" where
  "tool_error reason = tool_reply False [] (Some reason)"

definition wake_kind_of :: "identity_ctx \<Rightarrow> string option" where
  "wake_kind_of x = (case x_wake_kind x of Some k \<Rightarrow> if k \<noteq> [] then Some k else x_wake x | None \<Rightarrow> x_wake x)"

definition draft_sha :: "profile \<Rightarrow> string option" where
  "draft_sha p =
     (if \<not> has_draft p \<or> strip (read_text_or_empty (draft_md p)) = [] then None
      else Some (content_sha256 (read_text_or_empty (draft_md p))))"

definition require_user_id :: "jdict \<Rightarrow> tool_result + string" where
  "require_user_id args =
     (case jget args ''user_id'' of
        JStr raw \<Rightarrow>
          (if strip raw = [] then Inl (tool_error ''missing_user_id'')
           else if \<not> segment_ok (strip raw)
           then Inl (tool_reply False [(''user_id'', JStr (strip raw))] (Some ''invalid_user_id''))
           else Inr (strip raw))
      | _ \<Rightarrow> Inl (tool_error ''missing_user_id''))"

definition exc_name :: "pyerr \<Rightarrow> string" where
  "exc_name e =
     (case e of ValueError _ \<Rightarrow> ''ValueError'' | KeyError _ \<Rightarrow> ''KeyError'' | TypeError _ \<Rightarrow> ''TypeError''
      | OverflowError \<Rightarrow> ''OverflowError'' | FileExistsError _ \<Rightarrow> ''FileExistsError''
      | FileNotFoundError _ \<Rightarrow> ''FileNotFoundError'' | OSError \<Rightarrow> ''OSError''
      | AttributeError _ \<Rightarrow> ''AttributeError'' | RuntimeError _ \<Rightarrow> ''RuntimeError'')"

definition error_of :: "jdict \<Rightarrow> string \<Rightarrow> string" where
  "error_of d other = (if truthy (jget d ''error'') then py_str (jget d ''error'') else other)"

definition self_context :: "identity_world \<Rightarrow> string option \<Rightarrow> string option \<Rightarrow> string \<Rightarrow> string option \<Rightarrow> string option \<Rightarrow> string list \<Rightarrow> promote_context" where
  "self_context w session wk reason token expected tokens =
     \<lparr>c_actor = ''self'', c_target = None, c_session = session, c_wake_kind = wk, c_reason = reason,
      c_grant = token, c_has_draft = (has_draft (self_profile w) \<and> draft_sha (self_profile w) \<noteq> None),
      c_draft_sha = draft_sha (self_profile w), c_expected_sha = expected, c_user_ok = False, c_any_user = False,
      c_tokens = tokens, c_no_grant = False, c_target_exists = None\<rparr>"

definition user_context ::
  "bool \<Rightarrow> profile option \<Rightarrow> string \<Rightarrow> string option \<Rightarrow> string option \<Rightarrow> string \<Rightarrow> string option \<Rightarrow> promote_context" where
  "user_context operator p uid session wk reason expected =
     (let sha = (case p of Some q \<Rightarrow> draft_sha q | None \<Rightarrow> None) in
      \<lparr>c_actor = ''user'', c_target = Some uid, c_session = session, c_wake_kind = wk, c_reason = reason,
       c_grant = None, c_has_draft = (sha \<noteq> None), c_draft_sha = sha, c_expected_sha = expected,
       c_user_ok = operator, c_any_user = operator, c_tokens = [], c_no_grant = False,
       c_target_exists = Some (p \<noteq> None)\<rparr>)"

text \<open>What the tool and the operator's route share after the gate: the grant is consumed, then the store promotes.\<close>

datatype paid_promote = Not_Consumed string | Promote_Raised pyerr | Promote_Answered jdict

definition consume_and_promote ::
  "identity_call \<Rightarrow> string \<Rightarrow> string \<Rightarrow> string option \<Rightarrow> identity_world \<Rightarrow> paid_promote res \<times> identity_world" where
  "consume_and_promote C token reason expected w =
     (case consume_grant (at_consume C) (grants_file w) token of
        (Inl e, g) \<Rightarrow> (Inl e, w\<lparr>grants_file := g\<rparr>)
      | (Inr consumed, g) \<Rightarrow>
          if \<not> truthy (jget consumed ''ok'')
          then (Inr (Not_Consumed (error_of consumed ''grant_exhausted'')), w\<lparr>grants_file := g\<rparr>)
          else case promote (at_store C) reason expected (self_profile w) of
            (Inl e, p) \<Rightarrow> (Inr (Promote_Raised e), w\<lparr>grants_file := g, self_profile := p\<rparr>)
          | (Inr d, p) \<Rightarrow> (Inr (Promote_Answered d), w\<lparr>grants_file := g, self_profile := p\<rparr>))"

definition self_tool_reply :: "paid_promote \<Rightarrow> tool_result" where
  "self_tool_reply r =
     (case r of
        Not_Consumed e \<Rightarrow> tool_reply False self_tag (Some e)
      | Promote_Raised e \<Rightarrow>
          tool_reply False (self_tag @ [(''grant_consumed'', JBool True)]) (Some (''promote_failed:'' @ exc_name e))
      | Promote_Answered d \<Rightarrow>
          if truthy (jget d ''ok'') then tool_reply True d None
          else tool_reply False (dset (AList.delete ''ok'' d) ''grant_consumed'' (JBool True))
                 (Some (error_of d ''promote_failed'')))"

definition promote_self_tool ::
  "identity_call \<Rightarrow> identity_ctx \<Rightarrow> string \<Rightarrow> string option \<Rightarrow> string option \<Rightarrow> identity_world \<Rightarrow>
   tool_result res \<times> identity_world" where
  "promote_self_tool C x reason token expected w =
     (if \<not> x_identity x then (Inr (tool_error ''identity_not_configured''), w)
      else
        let resolved = (case token of Some t \<Rightarrow> if strip t \<noteq> [] then Some (strip t) else None | None \<Rightarrow> None) in
        case load_active_token_set (at_gate C) (grants_file w) True of Inl e \<Rightarrow> (Inl e, w) | Inr tokens \<Rightarrow>
        case evaluate_promote_gate (self_context w (x_user_id x) (wake_kind_of x) reason resolved expected tokens) of
          Some (e, detail) \<Rightarrow>
            (Inr (tool_reply False [(''actor'', JStr ''self''), (''detail'', opt_json JStr detail)] (Some e)), w)
        | None \<Rightarrow> apfst (map_sum id self_tool_reply) (consume_and_promote C (the resolved) reason expected w))"

definition promote_user_tool ::
  "identity_call \<Rightarrow> identity_ctx \<Rightarrow> jdict \<Rightarrow> string \<Rightarrow> string option \<Rightarrow> identity_world \<Rightarrow> tool_result res \<times> identity_world" where
  "promote_user_tool C x args reason expected w =
     (if \<not> x_users x then (Inr (tool_error ''users_not_configured''), w)
      else case require_user_id args of Inl r \<Rightarrow> (Inr r, w) | Inr uid \<Rightarrow>
      let p = (if user_exists uid (user_profiles w) then dget (user_profiles w) uid else None) in
      case evaluate_promote_gate (user_context False p uid (x_user_id x) (wake_kind_of x) reason expected) of
        Some (e, detail) \<Rightarrow>
          (Inr (tool_reply False (user_tag uid @ [(''detail'', opt_json JStr detail)]) (Some e)), w)
      | None \<Rightarrow>
        case user_promote (at_store C) uid reason expected (user_profiles w) of
          (Inl e, us) \<Rightarrow>
            (Inr (tool_reply False (user_tag uid) (Some (''promote_failed:'' @ exc_name e))), w\<lparr>user_profiles := us\<rparr>)
        | (Inr d, us) \<Rightarrow>
            (Inr (if \<not> truthy (jget d ''ok'')
                  then tool_reply False (AList.delete ''ok'' d) (Some (error_of d ''promote_failed''))
                  else tool_reply True d None),
             w\<lparr>user_profiles := us\<rparr>))"

definition promote_identity ::
  "identity_call \<Rightarrow> identity_ctx \<Rightarrow> jdict \<Rightarrow> identity_world \<Rightarrow> tool_result res \<times> identity_world" where
  "promote_identity C x args w =
     (let actor = jget args ''actor''; expected = jget args ''expected_draft_sha256'';
          reason = (case jget args ''reason'' of JStr s \<Rightarrow> strip s | _ \<Rightarrow> [])
      in if actor \<notin> {JStr ''self'', JStr ''user''} then (Inr (tool_error ''invalid_actor''), w)
         else if reason = [] then (Inr (tool_error ''missing_reason''), w)
         else if expected \<noteq> JNull \<and> as_str_opt expected = None
         then (Inr (tool_error ''invalid_expected_draft_sha256''), w)
         else if actor = JStr ''self''
         then promote_self_tool C x reason (as_str_opt (jget args ''grant_token'')) (as_str_opt expected) w
         else promote_user_tool C x args reason (as_str_opt expected) w)"

definition draft_identity ::
  "identity_call \<Rightarrow> identity_ctx \<Rightarrow> string option \<Rightarrow> jdict \<Rightarrow> identity_world \<Rightarrow> tool_result res \<times> identity_world" where
  "draft_identity C x mid args w =
     (let actor = jget args ''actor''; body = as_str_opt (jget args ''body'');
          reason = (case jget args ''reason'' of JStr s \<Rightarrow> s | _ \<Rightarrow> []);
          patch = dict_of (jget args ''meta_patch'');
          reply = (\<lambda>d. if truthy (jget d ''ok'') then tool_reply True d None
                      else tool_reply False (AList.delete ''ok'' d) (Some (error_of d ''draft_failed'')))
      in if actor \<notin> {JStr ''self'', JStr ''user''} then (Inr (tool_error ''invalid_actor''), w)
         else if strip reason = [] then (Inr (tool_error ''missing_reason''), w)
         else if jget args ''meta_patch'' \<noteq> JNull \<and> \<not> is_obj (jget args ''meta_patch'')
         then (Inr (tool_error ''invalid_meta_patch''), w)
         else if actor = JStr ''self''
         then (if \<not> x_identity x then (Inr (tool_error ''identity_not_configured''), w)
               else case write_draft (at_store C) body patch reason (self_profile w) of
                 (r, p) \<Rightarrow> (map_sum id reply r, w\<lparr>self_profile := p\<rparr>))
         else if \<not> x_users x then (Inr (tool_error ''users_not_configured''), w)
         else case require_user_id args of Inl r \<Rightarrow> (Inr r, w) | Inr uid \<Rightarrow>
           case user_write_draft (at_store C) uid body patch reason (if mid = Some [] then None else mid) (user_profiles w) of
             (r, us) \<Rightarrow> (map_sum id reply r, w\<lparr>user_profiles := us\<rparr>))"

section \<open>The operator's routes\<close>

definition self_route_reply :: "paid_promote \<Rightarrow> int \<times> jdict" where
  "self_route_reply r =
     (case r of
        Not_Consumed e \<Rightarrow> (400, failed e @ self_tag)
      | Promote_Raised e \<Rightarrow>
          (500, failed (''promote_failed:'' @ exc_name e) @ self_tag @ [(''grant_consumed'', JBool True)])
      | Promote_Answered d \<Rightarrow>
          if truthy (jget d ''ok'') then (200, d) else (400, dset d ''grant_consumed'' (JBool True)))"

definition post_identity_promote ::
  "identity_call \<Rightarrow> bool \<Rightarrow> string \<Rightarrow> jdict \<Rightarrow> identity_world \<Rightarrow> (int \<times> jdict) res \<times> identity_world" where
  "post_identity_promote C resetting session body w =
     (let reason = (case jget body ''reason'' of JStr s \<Rightarrow> strip s | _ \<Rightarrow> []);
          expected = as_str_opt (jget body ''expected_draft_sha256'');
          given = (case jget body ''grant_token'' of JStr t \<Rightarrow> strip t | _ \<Rightarrow> [])
      in if resetting then (Inr (503, failed ''resetting''), w)
         else if reason = [] then (Inr (400, failed ''missing_reason''), w)
         else case (if given \<noteq> [] then Inr (Some given) else first_active_token (at_gate C) (grants_file w) False) of
           Inl e \<Rightarrow> (Inl e, w)
         | Inr None \<Rightarrow> (Inr (400, failed ''self_grant_required'' @ self_tag), w)
         | Inr (Some token) \<Rightarrow>
         case load_active_token_set (at_gate C) (grants_file w) True of Inl e \<Rightarrow> (Inl e, w) | Inr tokens \<Rightarrow>
         case evaluate_promote_gate (self_context w (Some session) None reason (Some token) expected tokens) of
           Some (e, detail) \<Rightarrow> (Inr (400, failed e @ [(''detail'', opt_json JStr detail)] @ self_tag), w)
         | None \<Rightarrow>
         apfst (map_sum id self_route_reply) (consume_and_promote C token reason expected w))"

definition post_user_promote ::
  "identity_call \<Rightarrow> bool \<Rightarrow> string \<Rightarrow> string \<Rightarrow> jdict \<Rightarrow> identity_world \<Rightarrow> (int \<times> jdict) res \<times> identity_world" where
  "post_user_promote C resetting session uid body w =
     (let reason = (case jget body ''reason'' of JStr s \<Rightarrow> strip s | _ \<Rightarrow> []);
          expected = as_str_opt (jget body ''expected_draft_sha256'');
          us = user_profiles w; p = dget us uid;
          tagged = [(''user_id'', JStr uid)]
      in if resetting then (Inr (503, failed ''resetting''), w)
         else if reason = [] then (Inr (400, failed ''missing_reason''), w)
         else if uid \<notin> set (list_user_ids us) \<and> \<not> segment_ok uid then (Inr (400, failed ''invalid_user_id''), w)
         else if uid \<notin> set (list_user_ids us)
         then (Inr (404, failed ''user_not_found'' @ tagged), w)
         else case evaluate_promote_gate (user_context True p uid (Some session) None reason expected) of
           Some (e, detail) \<Rightarrow> (Inr (400, failed e @ [(''detail'', opt_json JStr detail)] @ user_tag uid), w)
         | None \<Rightarrow>
         case user_promote (at_store C) uid reason expected us of
           (Inl e, us') \<Rightarrow>
             (Inr (500, failed (''promote_failed:'' @ exc_name e) @ user_tag uid), w\<lparr>user_profiles := us'\<rparr>)
         | (Inr d, us') \<Rightarrow>
             (Inr (if \<not> truthy (jget d ''ok'') then (400, d) else (200, d)), w\<lparr>user_profiles := us'\<rparr>))"

section \<open>The history of user profiles\<close>

interpretation usr: profile_store "user_store E uid" for E uid
  by unfold_locales (simp_all add: user_store_def clear_provisional_def user_default_def user_meta_def)

lemma ensure_one_keeps:
  assumes "history_ok p"
  shows "history_ok (snd (ensure_one E uid p))"
    and "profile_exists p \<Longrightarrow> segment_ok uid \<Longrightarrow> ensure_one E uid p = (Inr u, q) \<Longrightarrow> versions_listed q"
proof -
  have fresh: "version_rows (user_default E uid p) = []" for p
    by (simp add: version_rows_def user_default_def user_meta_def)
  show "history_ok (snd (ensure_one E uid p))" unfolding ensure_one_def
    by (simp add: assms, intro impI bind_st_keeps [where P = history_ok] copy_legacy_keeps ensure_meta_keeps
        heal_layout_keeps assms fresh)
  assume "profile_exists p" "segment_ok uid" "ensure_one E uid p = (Inr u, q)"
  then obtain p1 p2 where s: "copy_legacy E p = (Inr (), p1)" "ensure_meta E (user_default E uid p1) p1 = (Inr (), p2)"
      "heal_layout E p2 = (Inr (), q)"
    by (auto simp: ensure_one_def bind_st_Inr)
  then have "history_ok p2" using assms fresh by (metis copy_legacy_keeps ensure_meta_keeps snd_conv)
  then show "versions_listed q" using heal_layout_keeps(2) s(3) by blast
qed

definition users_ok :: "users \<Rightarrow> bool" where
  "users_ok us \<longleftrightarrow> (\<forall>uid p. dget us uid = Some p \<longrightarrow> history_ok p)"

lemma on_user_keeps:
  assumes "users_ok us" "dget us uid \<noteq> None" "\<And>p. history_ok p \<Longrightarrow> dget us uid = Some p \<Longrightarrow> history_ok (snd (f p))"
  shows "users_ok (snd (on_user uid f us))"
proof -
  obtain p where p: "dget us uid = Some p" using assms(2) by auto
  then have "history_ok (snd (f p))" using assms by (auto simp: users_ok_def)
  then show ?thesis using assms(1) p by (auto simp: on_user_def users_ok_def split_beta)
qed

lemma user_promote_keeps:
  assumes "users_ok us" "stamp_ok (id_stamp E)"
  shows "users_ok (snd (user_promote E uid reason expected us))"
proof (cases "strip reason \<noteq> [] \<and> segment_ok uid \<and> user_exists uid us")
  case True
  have "users_ok (snd (on_user uid (\<lambda>p. bind_st (ensure_one E uid p) (\<lambda>_ p.
      promote_draft E (user_store E uid) reason expected p)) us))"
  proof (rule on_user_keeps [OF assms(1)])
    show "dget us uid \<noteq> None" using True by (auto simp: user_exists_def split: option.splits)
    fix p assume p: "history_ok p" "dget us uid = Some p"
    then have "profile_exists p" using True by (simp add: user_exists_def)
    then show "history_ok (snd (bind_st (ensure_one E uid p) (\<lambda>_ p. promote_draft E (user_store E uid) reason expected p)))"
      by (intro bind_st_keeps [where P = history_ok] ensure_one_keeps(1) [OF p(1)])
        (use True in \<open>blast intro: usr.promote_draft_keeps ensure_one_keeps(2) [OF p(1)] assms(2)\<close>)
  qed
  then show ?thesis using True by (simp add: user_promote_def)
qed (auto simp: user_promote_def assms(1))

section \<open>What a self promote costs\<close>

lemma consume_cases:
  assumes "consume_grant E f t = (r, f')" "env_grant_token E = None"
  obtains (paid) d where "r = Inr d" "truthy (jget d ''ok'')" "uses_left f' + 1 = uses_left f"
    | (refused) "\<And>d. r = Inr d \<Longrightarrow> \<not> truthy (jget d ''ok'')" "f' = f"
proof (cases "\<exists>d. r = Inr d \<and> jget d ''ok'' = JBool True")
  case True
  then show thesis using paid consume_grant_file assms by (metis option.distinct(1) truthy.simps(2))
next
  case False
  have "\<not> truthy (jget d ''ok'')" if "r = Inr d" for d
    using assms(1) False that
    by (auto simp: consume_grant_def Let_def failed_def split: if_splits sum.splits option.splits)
  then show thesis using refused consume_grant_refused [OF assms(1)] False by metis
qed

definition paid :: "paid_promote res \<Rightarrow> bool" where
  "paid r \<longleftrightarrow> (case r of Inr (Promote_Answered d) \<Rightarrow> truthy (jget d ''ok'') | _ \<Rightarrow> False)"

text \<open>A self profile only changes after a use of a grant went.\<close>

lemma consume_and_promote_cost:
  assumes "consume_and_promote C token reason expected w = (r, w')" "env_grant_token (at_consume C) = None"
  shows "(if paid r \<or> self_profile w' \<noteq> self_profile w then 1 else 0) + uses_left (grants_file w') \<le> uses_left (grants_file w)"
proof -
  obtain c g where c: "consume_grant (at_consume C) (grants_file w) token = (c, g)" by fastforce
  show ?thesis using c assms(2)
  proof (cases rule: consume_cases)
    case (paid d)
    then show ?thesis using assms(1) c by (auto simp: consume_and_promote_def split: prod.splits sum.splits)
  next
    case refused
    then show ?thesis using assms(1) c
      by (cases c) (auto simp: consume_and_promote_def paid_def)
  qed
qed

lemma consume_and_promote_users:
  "consume_and_promote C token reason expected w = (r, w') \<Longrightarrow> user_profiles w' = user_profiles w"
  by (auto simp: consume_and_promote_def split: prod.splits sum.splits if_splits)

text \<open>The operations that reach the self or its grants, and whether one reported a self promote.\<close>

datatype identity_op =
    Mint_Grant grant_env "string option" "string option" int
  | Tool_Promote identity_call identity_ctx jdict
  | Tool_Draft identity_call identity_ctx "string option" jdict
  | Route_Promote identity_call bool string jdict
  | Route_User_Promote identity_call bool string string jdict

definition tool_succeeded :: "tool_result res \<Rightarrow> bool" where
  "tool_succeeded r = (case r of Inr t \<Rightarrow> tr_ok t | Inl _ \<Rightarrow> False)"

definition route_succeeded :: "(int \<times> jdict) res \<Rightarrow> bool" where
  "route_succeeded r = (case r of Inr (status, _) \<Rightarrow> status = 200 | Inl _ \<Rightarrow> False)"

fun op_step :: "identity_op \<Rightarrow> identity_world \<Rightarrow> bool \<times> identity_world" where
  "op_step (Mint_Grant E note expires_at uses) w =
     (False, w\<lparr>grants_file := snd (mint_grant E (grants_file w) note expires_at uses)\<rparr>)"
| "op_step (Tool_Promote C x args) w =
     (case promote_identity C x args w of (r, w') \<Rightarrow>
       (tool_succeeded r \<and> jget args ''actor'' = JStr ''self'', w'))"
| "op_step (Tool_Draft C x mid args) w = (False, snd (draft_identity C x mid args w))"
| "op_step (Route_Promote C resetting session body) w =
     (case post_identity_promote C resetting session body w of (r, w') \<Rightarrow> (route_succeeded r, w'))"
| "op_step (Route_User_Promote C resetting session uid body) w =
     (False, snd (post_user_promote C resetting session uid body w))"

primrec run_identity :: "identity_op list \<Rightarrow> identity_world \<Rightarrow> int \<times> identity_world" where
  "run_identity [] w = (0, w)"
| "run_identity (op # ops) w =
     (case op_step op w of (promoted, w1) \<Rightarrow> case run_identity ops w1 of (n, w2) \<Rightarrow> (of_bool promoted + n, w2))"

fun minted_uses :: "identity_op \<Rightarrow> int" where
  "minted_uses (Mint_Grant E note expires_at uses) = max 0 uses"
| "minted_uses _ = 0"

fun no_env_token :: "identity_op \<Rightarrow> bool" where
  "no_env_token (Tool_Promote C x args) = (env_grant_token (at_consume C) = None)"
| "no_env_token (Route_Promote C resetting session body) = (env_grant_token (at_consume C) = None)"
| "no_env_token _ = True"

lemma tool_succeeded_simps [simp]:
  "tool_succeeded (Inl e) = False" "tool_succeeded (Inr (tool_reply b d e')) = b" "tool_succeeded (Inr (tool_error e'')) = False"
  by (simp_all add: tool_succeeded_def tool_reply_def tool_error_def)

lemma tool_succeeded_paid: "tool_succeeded (map_sum id self_tool_reply r) = paid r"
  by (cases r) (auto simp: self_tool_reply_def paid_def split: paid_promote.split)

lemma route_succeeded_paid: "route_succeeded (map_sum id self_route_reply r) = paid r"
  by (cases r) (auto simp: self_route_reply_def paid_def route_succeeded_def split: paid_promote.split)

lemma require_user_id_Inl: "require_user_id args = Inl t \<Longrightarrow> \<not> tr_ok t"
  by (auto simp: require_user_id_def tool_reply_def tool_error_def split: json.splits if_splits)

lemma promote_self_tool_cases:
  assumes "promote_self_tool C x reason token expected w = (r, w')"
  obtains "\<not> tool_succeeded r" "w' = w"
    | t p where "consume_and_promote C t reason expected w = (p, w')" "tool_succeeded r = paid p"
  using assms unfolding promote_self_tool_def Let_def
  by (auto simp: tool_succeeded_paid apfst_def map_prod_def split: if_splits sum.splits option.splits prod.splits)

lemma promote_user_tool_frame:
  "promote_user_tool C x args reason expected w = (r, w') \<Longrightarrow> grants_file w' = grants_file w \<and> self_profile w' = self_profile w"
  unfolding promote_user_tool_def Let_def
  by (auto split: if_splits sum.splits option.splits prod.splits)

lemma draft_identity_grants: "grants_file (snd (draft_identity C x mid args w)) = grants_file w"
  unfolding draft_identity_def Let_def by (auto split: if_splits sum.splits option.splits prod.splits)

lemma post_user_promote_grants: "grants_file (snd (post_user_promote C resetting session uid body w)) = grants_file w"
  unfolding post_user_promote_def Let_def by (auto split: if_splits sum.splits option.splits prod.splits)

lemma post_identity_promote_cases:
  assumes "post_identity_promote C resetting session body w = (r, w')"
  obtains "\<not> route_succeeded r" "w' = w"
    | t reason expected p where "consume_and_promote C t reason expected w = (p, w')" "route_succeeded r = paid p"
  using assms unfolding post_identity_promote_def Let_def
  by (auto simp: route_succeeded_paid route_succeeded_def [of "Inl _"] route_succeeded_def [of "Inr (_, _)"] apfst_def map_prod_def
      split: if_splits sum.splits option.splits prod.splits)

lemma promote_identity_cases:
  assumes "promote_identity C x args w = (r, w')"
  obtains (denied) "\<not> tool_succeeded r" "w' = w"
    | (of_self) reason token expected where "jget args ''actor'' = JStr ''self''"
        "promote_self_tool C x reason token expected w = (r, w')"
    | (of_user) reason expected where "jget args ''actor'' \<noteq> JStr ''self''"
        "promote_user_tool C x args reason expected w = (r, w')"
  using assms unfolding promote_identity_def Let_def by (auto split: if_splits)

lemma op_step_cost:
  assumes "op_step op w = (b, w')" "no_env_token op"
  shows "of_bool b + uses_left (grants_file w') \<le> uses_left (grants_file w) + minted_uses op"
proof (cases op)
  case (Mint_Grant E n t k)
  then show ?thesis using assms(1) mint_grant_uses [of E "grants_file w" n t k] by auto
next
  case (Tool_Promote C x args)
  then obtain r where r: "promote_identity C x args w = (r, w')" "b = (tool_succeeded r \<and> jget args ''actor'' = JStr ''self'')"
    using assms(1) by (auto split: prod.splits)
  from r(1) show ?thesis
  proof (cases rule: promote_identity_cases)
    case denied
    then show ?thesis using r(2) Tool_Promote by simp
  next
    case (of_self reason token expected)
    from of_self(2) show ?thesis
    proof (cases rule: promote_self_tool_cases)
      case 1
      then show ?thesis using r(2) Tool_Promote by simp
    next
      case (2 t p)
      then show ?thesis using consume_and_promote_cost [OF 2(1)] assms(2) r(2) Tool_Promote by (auto split: if_splits)
    qed
  next
    case (of_user reason expected)
    then show ?thesis using promote_user_tool_frame [OF of_user(2)] r(2) Tool_Promote by simp
  qed
next
  case (Tool_Draft C x mid args)
  then show ?thesis using assms(1) draft_identity_grants [of C x mid args w] by auto
next
  case (Route_Promote C resetting session body)
  then obtain r where r: "post_identity_promote C resetting session body w = (r, w')" "b = route_succeeded r"
    using assms(1) by (auto split: prod.splits)
  from r(1) show ?thesis
  proof (cases rule: post_identity_promote_cases)
    case 1
    then show ?thesis using r(2) Route_Promote by simp
  next
    case (2 t reason expected p)
    then show ?thesis using consume_and_promote_cost [OF 2(1)] assms(2) r(2) Route_Promote by (auto split: if_splits)
  qed
next
  case (Route_User_Promote C resetting session uid body)
  then show ?thesis using assms(1) post_user_promote_grants [of C resetting session uid body w] by auto
qed

text \<open>
  C36. Nobody changes the self for free. In any sequence of mints, drafts, tool calls and operator routes
  in which no environment token is set, the self promotes that reported success number at most the uses that
  were left on the grants file plus those minted on the way: a use pays for one promote, an exhausted,
  expired, forged or unwritable token for none.
\<close>

theorem self_promotes_are_paid_for:
  assumes "list_all no_env_token ops" "run_identity ops w = (n, w')"
  shows "n + uses_left (grants_file w') \<le> uses_left (grants_file w) + sum_list (map minted_uses ops)"
  using assms
proof (induction ops arbitrary: w n)
  case (Cons op ops)
  obtain b w1 where step: "op_step op w = (b, w1)" by fastforce
  obtain m where rest: "run_identity ops w1 = (m, w')" "n = of_bool b + m"
    using Cons.prems(2) step by (auto split: prod.splits)
  have "of_bool b + uses_left (grants_file w1) \<le> uses_left (grants_file w) + minted_uses op"
    using op_step_cost [OF step] Cons.prems(1) by simp
  moreover have "m + uses_left (grants_file w') \<le> uses_left (grants_file w1) + sum_list (map minted_uses ops)"
    using Cons.IH [OF _ rest(1)] Cons.prems(1) by simp
  ultimately show ?case using rest(2) by simp
qed simp

section \<open>What the model can change\<close>

lemma gate_user_allows:
  assumes "evaluate_promote_gate (user_context False p uid session wk reason expected) = None"
  shows "map_option strip session = Some (strip uid) \<and> (\<exists>k. wk = Some k \<and> k \<in> set SOCIAL_WAKE_KINDS)"
  using assms
  by (auto simp: evaluate_promote_gate_def gate_user_def user_context_def Let_def split: if_splits option.splits)

lemma on_user_others: "v \<noteq> uid \<Longrightarrow> dget (snd (on_user uid f us)) v = dget us v"
  by (simp add: on_user_def split_beta)

lemma user_promote_others: "v \<noteq> uid \<Longrightarrow> dget (snd (user_promote E uid reason expected us)) v = dget us v"
  by (simp add: user_promote_def on_user_others)

text \<open>
  C37. A promote the model calls for reaches only what it may. If it changes the self, a use of an operator's
  grant went with it (or the operator's environment token is set); if it changes the profile of a user, that
  is the user of the session, in a wake that came from a person.
\<close>

theorem model_promotes_only_what_it_may:
  assumes "promote_identity C x args w = (r, w')"
  shows "(self_profile w' \<noteq> self_profile w \<longrightarrow>
      env_grant_token (at_consume C) \<noteq> None \<or> uses_left (grants_file w') < uses_left (grants_file w)) \<and>
    (\<forall>uid. dget (user_profiles w') uid \<noteq> dget (user_profiles w) uid \<longrightarrow>
      map_option strip (x_user_id x) = Some uid \<and>
      (\<exists>k. wake_kind_of x = Some k \<and> k \<in> set SOCIAL_WAKE_KINDS))"
  using assms
proof (cases rule: promote_identity_cases)
  case (of_self reason token expected)
  from of_self(2) show ?thesis
  proof (cases rule: promote_self_tool_cases)
    case (2 t p)
    show ?thesis using consume_and_promote_cost [OF 2(1)] consume_and_promote_users [OF 2(1)]
      by (cases "env_grant_token (at_consume C) = None") (auto split: if_splits)
  qed simp
next
  case (of_user reason expected)
  show ?thesis
  proof (cases "w' = w")
    case False
    then obtain uid where uid: "require_user_id args = Inr uid"
        "evaluate_promote_gate (user_context False (if user_exists uid (user_profiles w) then dget (user_profiles w) uid else None)
           uid (x_user_id x) (wake_kind_of x) reason expected) = None"
        "user_profiles w' = snd (user_promote (at_store C) uid reason expected (user_profiles w))"
      using of_user(2) unfolding promote_user_tool_def Let_def by (auto split: if_splits sum.splits option.splits prod.splits)
    have "strip uid = uid" using uid(1) by (auto simp: require_user_id_def split: json.splits if_splits)
    then show ?thesis
      using gate_user_allows [OF uid(2)] uid(3) user_promote_others promote_user_tool_frame [OF of_user(2)] by metis
  qed simp
qed simp

section \<open>Witnesses\<close>

definition grant_demo_env :: grant_env where
  "grant_demo_env = \<lparr>iso_instant = (\<lambda>_. None), now_instant = 0, now_text = ''t1'', env_var = [], random_bytes = 0,
     grants_write = True\<rparr>"

definition promo_demo_call :: identity_call where
  "promo_demo_call = \<lparr>at_gate = grant_demo_env, at_consume = grant_demo_env, at_store = id_demo_env []\<rparr>"

definition promo_demo_ctx :: identity_ctx where
  "promo_demo_ctx = \<lparr>x_identity = True, x_users = True, x_user_id = Some ''ana'', x_wake_kind = Some ''user_message'',
     x_wake = None\<rparr>"

definition promo_demo_world :: identity_world where
  "promo_demo_world = \<lparr>grants_file = Holds (JObj [(''tokens'', JArr [JObj [(''token'', JStr ''grant_1''),
       (''uses_remaining'', JInt 1)]])]),
     self_profile = id_demo, user_profiles = [(''ana'', id_demo), (''bob'', id_demo)]\<rparr>"

definition promo_demo_args :: jdict where
  "promo_demo_args = [(''actor'', JStr ''self''), (''reason'', JStr ''renewed self''), (''grant_token'', JStr ''grant_1'')]"

lemma promo_demo_texts:
  "strip ''grant_1'' = ''grant_1''" "strip ''renewed self'' = ''renewed self''" "strip [] = []"
  by (simp_all add: strip_def lstrip_def rstrip_def is_space_def code_def)

lemma promo_demo_grants:
  "load_grants (grants_file promo_demo_world) = Inr [(''schema_version'', JInt 1), (''tokens'', JArr [JObj
     [(''token'', JStr ''grant_1''), (''created_at'', JNull), (''expires_at'', JNull), (''uses_remaining'', JInt 1),
      (''note'', JNull)]])]"
  by (simp add: promo_demo_world_def load_grants_def load_json_object_def normalize_doc_def normalize_row_def
      row_token_def promo_demo_texts dict_of_def int_or_zero_def)

lemma promo_demo_env_token: "env_grant_token grant_demo_env = None"
  by (simp add: env_grant_token_def grant_demo_env_def promo_demo_texts)

lemma promo_demo_active: "load_active_token_set grant_demo_env (grants_file promo_demo_world) True = Inr [''grant_1'']"
  by (simp add: load_active_token_set_def promo_demo_grants active_token_set_def doc_rows_def active_row_def row_token_def
      promo_demo_texts uses_of_def dict_of_def int_or_zero_def is_expired_def parse_expires_def promo_demo_env_token set_add_def)

lemma promo_demo_consumed:
  "\<exists>g. consume_grant grant_demo_env (grants_file promo_demo_world) ''grant_1'' =
     (Inr [(''ok'', JBool True), (''token'', JStr ''grant_1''), (''source'', JStr ''file''), (''uses_remaining'', JInt 0)], g)"
  by (simp add: consume_grant_def Let_def promo_demo_texts promo_demo_env_token promo_demo_grants doc_rows_def
      find_token_def dict_of_def uses_of_def int_or_zero_def is_expired_def parse_expires_def)
    (simp add: grant_demo_env_def)

theorem self_promotes_are_paid_for_witness:
  "\<exists>w'. run_identity [Tool_Promote promo_demo_call promo_demo_ctx promo_demo_args] promo_demo_world = (1, w') \<and>
     uses_left (grants_file w') = 0"
proof -
  obtain g where g: "consume_grant grant_demo_env (grants_file promo_demo_world) ''grant_1'' =
     (Inr [(''ok'', JBool True), (''token'', JStr ''grant_1''), (''source'', JStr ''file''), (''uses_remaining'', JInt 0)], g)"
    using promo_demo_consumed by blast
  obtain r p where p: "promote (id_demo_env []) ''renewed self'' None id_demo = (Inr r, p)" "jget r ''ok'' = JBool True"
    by (rule id_demo_promote)
  have sha: "has_draft id_demo" "draft_sha id_demo \<noteq> None"
    using id_demo_texts(2) by (simp_all add: draft_sha_def has_draft_def id_demo_parts read_text_or_empty_def)
  have self: "self_profile promo_demo_world = id_demo" by (simp add: promo_demo_world_def)
  have gate: "evaluate_promote_gate (self_context promo_demo_world s k ''renewed self'' (Some ''grant_1'') None [''grant_1'']) = None" for s k
    using sha by (simp add: evaluate_promote_gate_def self_context_def Let_def promo_demo_texts gate_self_def promo_demo_world_def)
  have "\<exists>t w'. promote_identity promo_demo_call promo_demo_ctx promo_demo_args promo_demo_world = (Inr t, w') \<and> tr_ok t"
    using g p gate promo_demo_active self
    by (simp add: promote_identity_def promo_demo_args_def promo_demo_texts as_str_opt_def promote_self_tool_def
        promo_demo_ctx_def promo_demo_call_def consume_and_promote_def Let_def apfst_def self_tool_reply_def tool_reply_def)
  then obtain w' where run: "run_identity [Tool_Promote promo_demo_call promo_demo_ctx promo_demo_args] promo_demo_world = (1, w')"
    by (auto simp: tool_succeeded_def promo_demo_args_def)
  have "uses_left (grants_file promo_demo_world) = 1"
    by (simp add: uses_left_def promo_demo_grants doc_rows_def row_uses_def dict_of_def)
  then show ?thesis
    using run self_promotes_are_paid_for [OF _ run] uses_left_nonneg [of "grants_file w'"] promo_demo_env_token
    by (auto simp: promo_demo_call_def)
qed

theorem model_promotes_only_what_it_may_witness:
  "dget (user_profiles (snd (promote_identity promo_demo_call promo_demo_ctx
     [(''actor'', JStr ''user''), (''user_id'', JStr ''bob''), (''reason'', JStr ''renewed self'')] promo_demo_world))) ''bob''
   = Some id_demo"
proof -
  have "dget (user_profiles promo_demo_world) ''bob'' = Some id_demo" by (simp add: promo_demo_world_def)
  moreover have "map_option strip (x_user_id promo_demo_ctx) \<noteq> Some ''bob''"
    by (simp add: promo_demo_ctx_def strip_def lstrip_def rstrip_def is_space_def code_def)
  ultimately show ?thesis
    using model_promotes_only_what_it_may [OF prod.collapse [symmetric], of promo_demo_call promo_demo_ctx
        "[(''actor'', JStr ''user''), (''user_id'', JStr ''bob''), (''reason'', JStr ''renewed self'')]" promo_demo_world]
    by metis
qed

end
