(* ===== verification/Spec2Isabelle.thy ===== *)
theory Spec2Isabelle
  imports Moment_Run Tools Usage Promotion
begin

text \<open>
  Project Elyra is a resident agent: a presence worker claims wakes from a durable queue, opens a
  moment for each, runs a tool-calling loop with a language model inside it, and closes the moment on
  an append-only record; timers, waits for the user, a ledger of goals and a catalog of tools feed that
  cycle. This development models that core from the Python sources under \<open>src/elyra\<close> and proves what
  makes it correct. Definitions carry the names of the source where HOL allows it.

  \<^bold>\<open>Theories and sources.\<close>
  \<^item> \<open>Prelude\<close>: the Python values every component exchanges (JSON documents, ordered dictionaries,
    strings, exceptions as values of a sum type), the conversions the code applies to them, and two
    interfaces stated as locales: a store replayed from a log, and an invariant of a labelled system.
  \<^item> \<open>Wake_Queue\<close>: \<open>presence/queue.py\<close>. The events file with torn lines, the fold, the heap, and all
    operations of \<open>WakeQueue\<close>, as functions from a queue record to a result and a queue.
  \<^item> \<open>Timers\<close>: \<open>presence/timers.py\<close>. Timers and waits with their snapshot files, firing into the queue,
    and the reconciliation after a crash, crash points included.
  \<^item> \<open>Goals\<close>: \<open>goals/store.py\<close>. The ledger as the JSON document on disk, with its failing writes.
  \<^item> \<open>Loop_Policy\<close>, \<open>Sha256\<close>, \<open>Thrash\<close>, \<open>Hygiene\<close>, \<open>Chain\<close>, \<open>Do_Loop\<close>: \<open>loop/stop.py\<close>,
    \<open>continue_policy.py\<close>, \<open>continuous_policy.py\<close>, \<open>skill_commit_policy.py\<close>, \<open>tool_thrash_policy.py\<close>,
    \<open>llm/reasoning_hygiene.py\<close> and the two halves of \<open>loop/doloop.py\<close>. The loop runs over an
    environment record, the model, the tools, the clock and the stores, over an abstract world.
  \<^item> \<open>Loop_Safety\<close>, \<open>Loop_World\<close>: properties of every run of the loop, and the locale that carries a
    relation on the world from the fields of the environment to whole runs.
  \<^item> \<open>Moments\<close>: \<open>moment/store.py\<close>. The index and the tapes as files of lines.
  \<^item> \<open>User_Input\<close>: \<open>presence/interject.py\<close>, \<open>user_input.py\<close>, the set in \<open>media/viewing.py\<close>.
  \<^item> \<open>Worker\<close>, \<open>Worker_Safety\<close>, \<open>Moment_Run\<close>: \<open>presence/worker.py\<close>. One definition per critical
    section; a pass of the poll loop is their composition, with arbitrary calls of other threads in
    between; \<open>Moment_Run\<close> runs the do-loop over the ports of the worker.
  \<^item> \<open>Secrets\<close>: \<open>secrets/policy.py\<close>, \<open>store.py\<close>, \<open>inject.py\<close>.
  \<^item> \<open>Tools\<close>: \<open>tools/policy.py\<close>, \<open>schema.py\<close>, \<open>runner.py\<close>, \<open>registry.py\<close>, composed with the loop
    as its tool port.
  \<^item> \<open>Usage\<close>: \<open>llm/usage.py\<close>, \<open>llm/credits.py\<close> and the gated client of \<open>llm/client.py\<close>, composed with
    the loop as its model port.
  \<^item> \<open>Grants\<close>, \<open>Identity\<close>, \<open>Promotion\<close>: \<open>identity/grants.py\<close>, \<open>gates.py\<close>, \<open>layout.py\<close>, \<open>store.py\<close>,
    \<open>util/versioning.py\<close>, \<open>users/store.py\<close>, the tools of \<open>tools/builtin/identity.py\<close> and the promote routes
    of \<open>runtime/api.py\<close>. The steps from draft to current are one set of definitions over what the two
    stores do differently, with a locale both interpret.

  \<^bold>\<open>What is shown.\<close> The queue and the timer snapshots survive a restart, and recovery redelivers
  durable work once. The loop always comes back with a known stop reason within its hop budget, sends
  only legal exchanges, keeps every nudge within its budget and runs no tool after the one that ended the
  moment. A pass of the worker settles the wake it claimed, and between passes no wake stays claimed and
  no moment open. The record of a moment is the run. Secret values stay out of the chain and of tool
  results; only control and speak tools steer the loop, and what may not run does not. A run behind the
  usage gate ends at most one completion above the weekly limit, and the usage file gives the meter back.
  Promotes of the self cost grants, the model reaches no other user's profile, and the version index always
  names archives on disk; one lemma shows how a retried promote loses the body it replaced.

  \<^bold>\<open>Bounds and fuel.\<close> No definition takes fuel: loops are structural recursion or come with a
  termination proof. The do-loop is a \<open>function\<close> whose measure is the hops the settings leave, so
  \<open>do_loop_returns\<close> holds for every environment. Integers are unbounded, as in Python; SHA-256
  works on 32-bit words. Strings are lists of code points up to 255; the few literals beyond that range use
  one control character each, which keeps lengths. Floating point numbers that only take part in
  comparisons and sums are exact rationals.

  \<^bold>\<open>Parameters.\<close> What is outside the sources is an argument: the language model, the clock, fresh
  identifiers, the ISO time parser of the library, imported handlers, guest processes, and the outcome of
  each write (written, torn or failed), chosen freely. A failing write is modelled as the atomic
  replace of the code leaves it.

  \<^bold>\<open>Not modelled.\<close> Other HTTP handlers, command line, process supervision and sandboxes (I/O around the
  calls above); long-term memory, embeddings and traversal (stores over an external database and ranking
  heuristics, best effort for the worker); other builtin tool handlers, coding-agent jobs, media
  conversion and prompt texts. Of the worker, the memory, embedding and browser hooks, status snapshots
  and full reset are left out. They touch none of the stores modelled here except through the operations
  that are.
\<close>

section \<open>From the loop to the store\<close>

text \<open>
  C25. A finished moment is on record. When a do-loop run returns and its beats are appended, in
  order, to the tape of its open moment by writes that succeed, the tape holds them all after what
  was there before, each stamped with its time, and closing the moment with the stop reason of the
  run succeeds and gives the closed envelope: the loop only makes beats and stop reasons the store
  accepts.
\<close>

theorem finished_moment_is_recorded:
  assumes run: "run_do_loop E A mt w = Inr (r, s)"
    and opn: "get_moment st mid = Inr (Some meta)" "is_open_meta meta"
    and wr: "m_write dr = Written" and before: "list_beats st mid = Inr bs"
  shows "let st1 = foldl (\<lambda>q b. snd (Moments.append_beat dr q mid (JObj b))) st (beats s);
             closed = close_meta (m_now dr) (r_stop_reason r) (Some (r_hop_count r)) (Some skills) meta
         in list_beats st1 mid = Inr (bs @ map (JObj \<circ> stamp_beat (m_now dr)) (beats s)) \<and>
            (\<exists>st2. close_moment dr st1 mid (r_stop_reason r) (Some (r_hop_count r)) (Some skills) = (Inr closed, st2) \<and>
               get_moment st2 mid = Inr (Some closed))"
proof -
  have "\<forall>b\<in>set (beats s). \<exists>t\<in>set BEAT_TYPES. jget b ''type'' = JStr t"
    using run_beats_typed(1) [OF run] by (fastforce simp: list_all_iff beat_typed_def BEAT_TYPES_def)
  from append_beats_ok [OF opn wr this before] have one:
    "get_moment (foldl (\<lambda>q b. snd (Moments.append_beat dr q mid (JObj b))) st (beats s)) mid = Inr (Some meta)"
    "list_beats (foldl (\<lambda>q b. snd (Moments.append_beat dr q mid (JObj b))) st (beats s)) mid =
      Inr (bs @ map (JObj \<circ> stamp_beat (m_now dr)) (beats s))" by simp_all
  have "r_stop_reason r \<in> set STOP_REASONS"
    using run_beats_typed(2) [OF run] by (simp add: is_valid_stop_reason_def)
  from close_moment_ok [OF one(1) opn(2) wr this, of "Some (r_hop_count r)" "Some skills"] one(2)
  show ?thesis unfolding Let_def by metis
qed

theorem finished_moment_is_recorded_witness:
  "case Loop_Safety.demo_run of Inl _ \<Rightarrow> False
   | Inr (r, s) \<Rightarrow> list_beats (foldl (\<lambda>q b. snd (Moments.append_beat (demo_draw Written) q ''m1'' (JObj b)))
       demo_moments (beats s)) ''m1'' =
       Inr (JObj [(''type'', JStr ''obs'')] # map (JObj \<circ> stamp_beat ''T'') (beats s)) \<and> beats s \<noteq> []"
proof -
  obtain r s where rs: "Loop_Safety.demo_run = Inr (r, s)" using demo_run_facts by (auto split: sum.splits)
  have "case get_moment demo_moments ''m1'' of Inr (Some m) \<Rightarrow> is_open_meta m | _ \<Rightarrow> False" by code_simp
  then obtain m where m: "get_moment demo_moments ''m1'' = Inr (Some m)" "is_open_meta m"
    by (auto split: sum.splits option.splits)
  have "list_beats demo_moments ''m1'' = Inr [JObj [(''type'', JStr ''obs'')]]" by code_simp
  from finished_moment_is_recorded [OF rs [unfolded Loop_Safety.demo_run_def] m _ this, of "demo_draw Written"]
  have "list_beats (foldl (\<lambda>q b. snd (Moments.append_beat (demo_draw Written) q ''m1'' (JObj b)))
      demo_moments (beats s)) ''m1'' = Inr (JObj [(''type'', JStr ''obs'')] # map (JObj \<circ> stamp_beat ''T'') (beats s))"
    by (simp add: Let_def demo_draw_def)
  moreover have "beats s \<noteq> []"
    using demo_run_facts by (auto simp: rs count_by_def)
  ultimately show ?thesis by (simp add: rs)
qed

end
